(* ===== verification/FspPrelude.thy ===== *)
theory FspPrelude
  imports Main "HOL-Library.Word"
begin

text \<open>
  Shared vocabulary of the development: machine words, C strings and byte buffers, the
  big-endian header macros of \<^verbatim>\<open>include/tweak.h\<close>, the wire constants of
  \<^verbatim>\<open>include/common_def.h\<close>, and the generic lemmas and named theorem collections
  every component uses.

  Conventions. A C \<open>char\<close> is an Isabelle \<^typ>\<open>char\<close> (one octet); an \<open>unsigned char\<close>
  header field is an \<open>8 word\<close>. A C string is the list of its characters without the
  terminating zero; a buffer is the list of all its octets. Sizes and offsets that the
  code keeps in \<open>unsigned\<close> or \<open>unsigned long\<close> and that cannot wrap are \<^typ>\<open>nat\<close>;
  those that can wrap are words. The target is a 64-bit little-endian machine.
\<close>

unbundle bit_operations_syntax

subsection \<open>Machine types\<close>

type_synonym byte = "8 word"
type_synonym u16 = "16 word"
type_synonym u32 = "32 word"
type_synonym u64 = "64 word"
type_synonym time = int
type_synonym b2 = "byte \<times> byte"
type_synonym b4 = "byte \<times> byte \<times> byte \<times> byte"

named_theorems wire_simps \<open>equations of the packet layout\<close>
named_theorems flag_defs \<open>values of the directory protection bits\<close>

subsection \<open>C strings and buffers\<close>

abbreviation NUL :: char where "NUL \<equiv> CHR 0x00"
abbreviation NL :: char where "NL \<equiv> CHR 0x0A"

definition cstr :: "char list \<Rightarrow> string" where
  "cstr b = takeWhile (\<lambda>c. c \<noteq> NUL) b"

fun strcmp :: "string \<Rightarrow> string \<Rightarrow> int" where
  "strcmp [] [] = 0"
| "strcmp [] (_ # _) = - 1"
| "strcmp (_ # _) [] = 1"
| "strcmp (a # as) (b # bs) =
     (if a = b then strcmp as bs
      else if (of_char a :: nat) < of_char b then - 1 else 1)"

definition strncmp :: "string \<Rightarrow> string \<Rightarrow> nat \<Rightarrow> int" where
  "strncmp a b n = strcmp (take n a) (take n b)"

definition isspace :: "char \<Rightarrow> bool" where
  "isspace c \<longleftrightarrow> c \<in> {CHR '' '', CHR 0x09, CHR 0x0A, CHR 0x0B, CHR 0x0C, CHR 0x0D}"

definition isdigit :: "char \<Rightarrow> bool" where
  "isdigit c \<longleftrightarrow> 48 \<le> (of_char c :: nat) \<and> (of_char c :: nat) \<le> 57"

definition memcpy :: "char list \<Rightarrow> nat \<Rightarrow> char list \<Rightarrow> char list" where
  "memcpy b off xs = take off b @ xs @ drop (off + length xs) b"

lemma cstr_Nil [simp]: "cstr [] = []"
  by (simp add: cstr_def)

lemma cstr_Cons [simp]: "cstr (c # cs) = (if c = NUL then [] else c # cstr cs)"
  by (simp add: cstr_def)

lemma cstr_no_NUL [simp]: "NUL \<notin> set (cstr b)"
  by (auto simp: cstr_def dest: set_takeWhileD)

lemma cstr_id: "NUL \<notin> set s \<Longrightarrow> cstr s = s"
  by (auto simp: cstr_def)

lemma cstr_append_NUL: "NUL \<notin> set s \<Longrightarrow> cstr (s @ NUL # t) = s"
  by (induction s) auto

lemma length_cstr: "length (cstr b) \<le> length b"
  by (simp add: cstr_def length_takeWhile_le)

lemma strcmp_0_iff [simp]: "strcmp a b = 0 \<longleftrightarrow> a = b"
  by (induction a b rule: strcmp.induct) auto

lemma strncmp_prefix: "strncmp a b (length b) = 0 \<longleftrightarrow> (\<exists>r. a = b @ r)"
  by (simp add: strncmp_def) (metis append_eq_conv_conj append_take_drop_id)

lemma length_memcpy [simp]:
  "off + length xs \<le> length b \<Longrightarrow> length (memcpy b off xs) = length b"
  by (simp add: memcpy_def)

lemma take_memcpy:
  "off + length xs \<le> length b \<Longrightarrow> take (off + length xs) (memcpy b off xs) = take off b @ xs"
  by (simp add: memcpy_def)

lemma take_memcpy_0 [simp]: "take (length xs) (memcpy b 0 xs) = xs"
  by (simp add: memcpy_def)

subsection \<open>Big-endian fields: the \<open>BB_\<close> macros of tweak.h\<close>

fun BB_READ2 :: "b2 \<Rightarrow> u16" where
  "BB_READ2 (a, b) = of_nat (256 * unat a + unat b)"

definition BB_WRITE2 :: "u16 \<Rightarrow> b2" where
  "BB_WRITE2 w = (of_nat (unat w div 256), of_nat (unat w))"

fun BB_READ4 :: "b4 \<Rightarrow> u32" where
  "BB_READ4 (a, b, c, d) = of_nat (((unat a * 256 + unat b) * 256 + unat c) * 256 + unat d)"

definition BB_WRITE4 :: "u32 \<Rightarrow> b4" where
  "BB_WRITE4 w = (of_nat (unat w div 16777216), of_nat (unat w div 65536),
                  of_nat (unat w div 256), of_nat (unat w))"

definition byte_char :: "byte \<Rightarrow> char" where
  "byte_char b = char_of (unat b)"

definition char_byte :: "char \<Rightarrow> byte" where
  "char_byte c = of_nat (of_char c)"

fun b4_chars :: "b4 \<Rightarrow> char list" where
  "b4_chars (a, b, c, d) = map byte_char [a, b, c, d]"

lemma length_b4_chars [simp]: "length (b4_chars b) = 4"
  by (cases b) simp

fun b2_chars :: "b2 \<Rightarrow> char list" where
  "b2_chars (a, b) = map byte_char [a, b]"

lemma length_b2_chars [simp]: "length (b2_chars b) = 2"
  by (cases b) simp

lemma unat_byte_less [simp]: "unat (b :: byte) < 256"
  using unsigned_less [of b, where ?'a = nat] by simp

lemma unat_u16_less: "unat (w :: u16) < 65536"
  using unsigned_less [of w, where ?'a = nat] by simp

lemma unat_u32_less: "unat (w :: u32) < 4294967296"
  using unsigned_less [of w, where ?'a = nat] by simp

lemma unat_byte_of_nat: "unat (of_nat n :: byte) = n mod 256"
  by (simp add: unat_of_nat)

lemma unat_u16_of_nat: "unat (of_nat n :: u16) = n mod 65536"
  by (simp add: unat_of_nat)

lemma unat_u32_of_nat: "unat (of_nat n :: u32) = n mod 4294967296"
  by (simp add: unat_of_nat)

lemma byte_of_unat: "n mod 256 = unat b \<Longrightarrow> (of_nat n :: byte) = b"
  by (rule word_unat_eq_iff [THEN iffD2]) (simp only: unat_byte_of_nat)

lemma char_byte_inverse [simp]: "byte_char (char_byte c) = c"
  unfolding byte_char_def char_byte_def by (simp only: unat_byte_of_nat) simp

lemma byte_char_inverse [simp]: "char_byte (byte_char b) = b"
  unfolding byte_char_def char_byte_def by (rule byte_of_unat) simp

lemma byte_char_inject [simp]: "byte_char a = byte_char b \<longleftrightarrow> a = b"
  by (metis byte_char_inverse)

lemma unat_BB_READ2: "unat (BB_READ2 (a, b)) = 256 * unat a + unat b"
proof -
  have "256 * unat a + unat b < 65536"
    using unat_byte_less [of a] unat_byte_less [of b] by linarith
  then show ?thesis
    unfolding BB_READ2.simps unat_u16_of_nat by simp
qed

lemma BB_READ2_WRITE2 [simp]: "BB_READ2 (BB_WRITE2 w) = w"
proof -
  have "unat w div 256 < 256" using unat_u16_less [of w] by simp
  then have "256 * (unat w div 256 mod 256) + unat w mod 256 = unat w" by simp
  then show ?thesis
    unfolding BB_WRITE2_def BB_READ2.simps unat_byte_of_nat by simp
qed

lemma BB_WRITE2_READ2 [simp]: "BB_WRITE2 (BB_READ2 p) = p"
proof (cases p)
  case (Pair a b)
  have "(of_nat ((256 * unat a + unat b) div 256) :: byte) = a"
    by (rule byte_of_unat) simp
  moreover have "(of_nat (256 * unat a + unat b) :: byte) = b"
    by (rule byte_of_unat) simp
  ultimately show ?thesis
    unfolding Pair BB_WRITE2_def unat_BB_READ2 by simp
qed

lemma BB_READ4_WRITE4 [simp]: "BB_READ4 (BB_WRITE4 w) = w"
proof -
  define n where "n = unat w"
  have lt: "n < 4294967296" unfolding n_def by (rule unat_u32_less)
  have top: "n div 16777216 mod 256 = n div 16777216" using lt by simp
  have step: "k div (m * 256) * 256 + k div m mod 256 = k div m" for k m :: nat
    unfolding div_mult2_eq by simp
  have "n div 16777216 * 256 + n div 65536 mod 256 = n div 65536"
    using step [of n 65536] by simp
  moreover have "n div 65536 * 256 + n div 256 mod 256 = n div 256"
    using step [of n 256] by simp
  moreover have "n div 256 * 256 + n mod 256 = n" by simp
  ultimately have whole: "((n div 16777216 mod 256 * 256 + n div 65536 mod 256) * 256
                + n div 256 mod 256) * 256 + n mod 256 = n"
    by (simp only: top)
  have "(of_nat n :: u32) = w" by (simp add: n_def)
  then show ?thesis
    unfolding BB_WRITE4_def BB_READ4.simps unat_byte_of_nat n_def [symmetric] whole .
qed

lemma nat_and_le: "a AND b \<le> (a :: nat)"
proof -
  have "int (a AND b) \<le> int a" unfolding of_nat_and_eq by (rule AND_upper1) simp
  then show ?thesis by simp
qed

end
