(* ===== verification/FifoCache.thy ===== *)
theory FifoCache
  imports FspPrelude "HOL-Library.Multiset"
begin

text \<open>
  The generic FIFO cache of \<^verbatim>\<open>server/fifocache.c\<close>, which the server uses for directory
  listings, directory information and open file handles.

  The two C arrays are the lists \<open>k_head\<close> and \<open>e_head\<close>; the two cursors \<open>k_next\<close> and
  \<open>e_next\<close> advance together, so they are the one slot number \<open>next_slot\<close>. A pointer into
  the entry array is a slot number, a possibly null pointer a \<open>nat option\<close>. The value whose
  octets are all zero (what \<open>calloc\<close> and \<open>memset\<close> leave) is \<open>k_zero\<close> and \<open>e_zero\<close>. The
  destructors act on a state of type \<open>'s\<close> (the heap, or the open files), which every
  operation that calls them threads through. Allocation is taken to succeed.

  The interfaces are the locales \<open>entry_store\<close> (what is safe to assume of a found entry)
  and \<open>map_store\<close> (the cache as a finite map), both interpreted on the code's operations.
\<close>

record ('k, 'e, 's) fifo_cache =
  cachesize :: nat
  entrysize :: nat
  keysize :: nat
  k_head :: "'k list"
  e_head :: "'e list"
  next_slot :: nat
  k_zero :: 'k
  e_zero :: 'e
  k_destroy_func :: "('k \<Rightarrow> 's \<Rightarrow> 's) option"
  e_destroy_func :: "('e \<Rightarrow> 's \<Rightarrow> 's) option"
  k_compare_func :: "('k \<Rightarrow> 'k \<Rightarrow> int) option"
  hit :: u32
  miss :: u32
  get_keysize :: "('k \<Rightarrow> nat) option"
  get_entrysize :: "('e \<Rightarrow> nat) option"

definition f_cache_new ::
  "nat \<Rightarrow> nat \<Rightarrow> ('e \<Rightarrow> 's \<Rightarrow> 's) option \<Rightarrow> nat \<Rightarrow> ('k \<Rightarrow> 's \<Rightarrow> 's) option
    \<Rightarrow> ('k \<Rightarrow> 'k \<Rightarrow> int) option \<Rightarrow> 'k \<Rightarrow> 'e \<Rightarrow> ('k, 'e, 's) fifo_cache option" where
  "f_cache_new csize esize edf ksize kdf kcf kz ez =
     (if csize = 0 then None
      else if esize = 0 \<and> ksize = 0 then None
      else Some \<lparr> cachesize = csize, entrysize = esize, keysize = ksize,
                  k_head = replicate csize kz, e_head = replicate csize ez,
                  next_slot = 0, k_zero = kz, e_zero = ez,
                  k_destroy_func = kdf, e_destroy_func = edf, k_compare_func = kcf,
                  hit = 0, miss = 0, get_keysize = None, get_entrysize = None \<rparr>)"

definition f_cache_set_memory_profilers ::
  "('k, 'e, 's) fifo_cache \<Rightarrow> ('k \<Rightarrow> nat) \<Rightarrow> ('e \<Rightarrow> nat) \<Rightarrow> ('k, 'e, 's) fifo_cache" where
  "f_cache_set_memory_profilers c ks es = c\<lparr> get_keysize := Some ks, get_entrysize := Some es \<rparr>"

text \<open>The numbers \<open>f_cache_stats\<close> prints: entries, used, dynamic bytes of keys and of
  entries, hits and misses.\<close>

definition f_cache_stats ::
  "('k, 'e, 's) fifo_cache \<Rightarrow> u32 \<times> u32 \<times> u32 \<times> u32 \<times> u32 \<times> u32" where
  "f_cache_stats c =
     (of_nat (cachesize c),
      (if keysize c > 0 then of_nat (length (filter (\<lambda>k. k \<noteq> k_zero c) (k_head c))) else 0),
      (case get_keysize c of None \<Rightarrow> 0 | Some f \<Rightarrow> of_nat (sum_list (map f (k_head c)))),
      (case get_entrysize c of None \<Rightarrow> 0 | Some f \<Rightarrow> of_nat (sum_list (map f (e_head c)))),
      hit c, miss c)"

text \<open>\<open>f_cache_destroy\<close> frees the structure and calls no destructor.\<close>

definition f_cache_destroy ::
  "('k, 'e, 's) fifo_cache option \<Rightarrow> 's \<Rightarrow> ('k, 'e, 's) fifo_cache option \<times> 's" where
  "f_cache_destroy c s = (None, s)"

definition call_destroy :: "('a \<Rightarrow> 's \<Rightarrow> 's) option \<Rightarrow> 'a \<Rightarrow> 's \<Rightarrow> 's" where
  "call_destroy f x s = (case f of None \<Rightarrow> s | Some d \<Rightarrow> d x s)"

text \<open>
  The cursors reach their stop mark together after the last slot; a side of size zero has
  no storage, keeps its cursor and never stops.
\<close>

definition f_cache_put ::
  "('k, 'e, 's) fifo_cache \<Rightarrow> 'k \<Rightarrow> 'e \<Rightarrow> 's \<Rightarrow> nat \<times> ('k, 'e, 's) fifo_cache \<times> 's" where
  "f_cache_put c key data s =
     (let n = next_slot c;
          s1 = call_destroy (k_destroy_func c) (k_head c ! n) s;
          s2 = call_destroy (e_destroy_func c) (e_head c ! n) s1;
          c' = c\<lparr> k_head := (if keysize c = 0 then k_head c else (k_head c)[n := key]),
                  e_head := (if entrysize c = 0 then e_head c else (e_head c)[n := data]),
                  next_slot := (if Suc n = cachesize c then 0 else Suc n) \<rparr>
      in (if entrysize c = 0 then 0 else n, c', s2))"

fun find_slot :: "('k \<Rightarrow> 'k \<Rightarrow> int) \<Rightarrow> 'k \<Rightarrow> 'k list \<Rightarrow> nat \<Rightarrow> nat option" where
  "find_slot cmp key [] i = None"
| "find_slot cmp key (k # ks) i =
     (if cmp key k = 0 then Some i else find_slot cmp key ks (Suc i))"

definition f_cache_find ::
  "('k, 'e, 's) fifo_cache \<Rightarrow> 'k \<Rightarrow> nat option \<times> ('k, 'e, 's) fifo_cache" where
  "f_cache_find c key =
     (case k_compare_func c of
        None \<Rightarrow> (None, c)
      | Some cmp \<Rightarrow>
          (if keysize c = 0 then (None, c)
           else (case find_slot cmp key (k_head c) 0 of
                   Some i \<Rightarrow> (Some (if entrysize c = 0 then 0 else i), c\<lparr> hit := hit c + 1 \<rparr>)
                 | None \<Rightarrow> (None, c\<lparr> miss := miss c + 1 \<rparr>))))"

fun destroy_slots ::
  "('k \<Rightarrow> 's \<Rightarrow> 's) option \<Rightarrow> ('e \<Rightarrow> 's \<Rightarrow> 's) option \<Rightarrow> 'k list \<Rightarrow> 'e list \<Rightarrow> 's \<Rightarrow> 's" where
  "destroy_slots kd ed (k # ks) (e # es) s =
     destroy_slots kd ed ks es (call_destroy ed e (call_destroy kd k s))"
| "destroy_slots kd ed _ _ s = s"

definition f_cache_clear ::
  "('k, 'e, 's) fifo_cache \<Rightarrow> 's \<Rightarrow> ('k, 'e, 's) fifo_cache \<times> 's" where
  "f_cache_clear c s =
     (c\<lparr> k_head := replicate (cachesize c) (k_zero c),
         e_head := replicate (cachesize c) (e_zero c),
         next_slot := 0, hit := 0, miss := 0 \<rparr>,
      destroy_slots (k_destroy_func c) (e_destroy_func c) (k_head c) (e_head c) s)"

definition f_cache_get_key :: "('k, 'e, 's) fifo_cache \<Rightarrow> nat option \<Rightarrow> 'k option" where
  "f_cache_get_key c entry =
     (if entrysize c = 0 \<or> keysize c = 0 then None
      else (case entry of
              None \<Rightarrow> None
            | Some i \<Rightarrow> if i \<ge> cachesize c then None else Some (k_head c ! i)))"

definition f_cache_delete_entry ::
  "('k, 'e, 's) fifo_cache \<Rightarrow> nat option \<Rightarrow> 's \<Rightarrow> nat \<times> ('k, 'e, 's) fifo_cache \<times> 's" where
  "f_cache_delete_entry c entry s =
     (if entrysize c = 0 then (0, c, s)
      else (case entry of
              None \<Rightarrow> (0, c, s)
            | Some i \<Rightarrow>
                if i \<ge> cachesize c then (0, c, s)
                else (1, c\<lparr> e_head := (e_head c)[i := e_zero c],
                            k_head := (k_head c)[i := k_zero c] \<rparr>,
                      call_destroy (e_destroy_func c) (e_head c ! i)
                        (call_destroy (k_destroy_func c) (k_head c ! i) s))))"

text \<open>The loop of \<open>f_cache_delete_by_key\<close>; \<open>n\<close> slots remain, from slot
  \<open>cachesize - n\<close> on.\<close>

fun delete_by_key_loop ::
  "nat \<Rightarrow> ('k \<Rightarrow> 'k \<Rightarrow> int) \<Rightarrow> 'k \<Rightarrow> nat \<Rightarrow> ('k, 'e, 's) fifo_cache \<Rightarrow> 's
    \<Rightarrow> nat \<times> ('k, 'e, 's) fifo_cache \<times> 's" where
  "delete_by_key_loop 0 cmp key deleted c s = (deleted, c, s)"
| "delete_by_key_loop (Suc n) cmp key deleted c s =
     (let i = cachesize c - Suc n in
      if cmp key (k_head c ! i) = 0
      then (case f_cache_delete_entry c (Some (if entrysize c = 0 then 0 else i)) s of
              (d, c', s') \<Rightarrow> delete_by_key_loop n cmp key (deleted + d) c' s')
      else delete_by_key_loop n cmp key deleted c s)"

definition f_cache_delete_by_key ::
  "('k, 'e, 's) fifo_cache \<Rightarrow> 'k \<Rightarrow> 's \<Rightarrow> nat \<times> ('k, 'e, 's) fifo_cache \<times> 's" where
  "f_cache_delete_by_key c key s =
     (case k_compare_func c of
        None \<Rightarrow> (0, c, s)
      | Some cmp \<Rightarrow> delete_by_key_loop (cachesize c) cmp key 0 c s)"

text \<open>Reading and writing an entry through the pointer the cache returned.\<close>

definition entry_at :: "('k, 'e, 's) fifo_cache \<Rightarrow> nat \<Rightarrow> 'e" where
  "entry_at c p = e_head c ! p"

definition set_entry ::
  "('k, 'e, 's) fifo_cache \<Rightarrow> nat \<Rightarrow> ('e \<Rightarrow> 'e) \<Rightarrow> ('k, 'e, 's) fifo_cache" where
  "set_entry c p f = c\<lparr> e_head := (e_head c)[p := f (e_head c ! p)] \<rparr>"

subsection \<open>Well-formedness and the map a cache stands for\<close>

definition key_equality :: "('k \<Rightarrow> 'k \<Rightarrow> int) \<Rightarrow> 'k \<Rightarrow> bool" where
  "key_equality cmp kz \<longleftrightarrow> (\<forall>a b. cmp a b = 0 \<longleftrightarrow> a = b \<and> a \<noteq> kz)"

definition cache_wf :: "('k, 'e, 's) fifo_cache \<Rightarrow> bool" where
  "cache_wf c \<longleftrightarrow>
     length (k_head c) = cachesize c \<and> length (e_head c) = cachesize c \<and>
     next_slot c < cachesize c \<and> 0 < entrysize c \<and> 0 < keysize c \<and>
     (case k_compare_func c of None \<Rightarrow> False | Some cmp \<Rightarrow> key_equality cmp (k_zero c))"

definition distinct_keys :: "('k, 'e, 's) fifo_cache \<Rightarrow> bool" where
  "distinct_keys c \<longleftrightarrow> distinct (filter (\<lambda>k. k \<noteq> k_zero c) (k_head c))"

definition live_entries :: "('k, 'e, 's) fifo_cache \<Rightarrow> ('k \<times> 'e) set" where
  "live_entries c = {(k, e) \<in> set (zip (k_head c) (e_head c)). k \<noteq> k_zero c}"

definition cache_lookup :: "('k, 'e, 's) fifo_cache \<Rightarrow> 'k \<Rightarrow> 'e option" where
  "cache_lookup c k = (if k = k_zero c then None else map_of (zip (k_head c) (e_head c)) k)"

definition cache_victim :: "('k, 'e, 's) fifo_cache \<Rightarrow> 'k" where
  "cache_victim c = k_head c ! next_slot c"

definition cache_inv :: "('k, 'e, 's) fifo_cache \<Rightarrow> bool" where
  "cache_inv c \<longleftrightarrow> cache_wf c \<and> distinct_keys c"

lemma cache_wfD:
  assumes "cache_wf c"
  shows "length (k_head c) = cachesize c" "length (e_head c) = cachesize c"
    "next_slot c < cachesize c" "0 < entrysize c" "0 < keysize c"
  using assms by (auto simp: cache_wf_def)

lemma distinct_filter_nth:
  "distinct (filter P xs) \<longleftrightarrow>
     (\<forall>i j. i < j \<longrightarrow> j < length xs \<longrightarrow> P (xs ! i) \<longrightarrow> xs ! i \<noteq> xs ! j)"
proof (induction xs)
  case Nil
  show ?case by simp
next
  case (Cons x xs)
  have *: "(\<forall>i j. i < j \<longrightarrow> j < length (x # xs) \<longrightarrow> P ((x # xs) ! i) \<longrightarrow> (x # xs) ! i \<noteq> (x # xs) ! j)
    \<longleftrightarrow> (P x \<longrightarrow> x \<notin> set xs) \<and>
        (\<forall>i j. i < j \<longrightarrow> j < length xs \<longrightarrow> P (xs ! i) \<longrightarrow> xs ! i \<noteq> xs ! j)" (is "?L \<longleftrightarrow> ?R")
  proof
    assume L: ?L
    have "P x \<longrightarrow> x \<notin> set xs"
      using L [rule_format, of 0 "Suc k" for k] by (auto simp: in_set_conv_nth)
    moreover have "\<forall>i j. i < j \<longrightarrow> j < length xs \<longrightarrow> P (xs ! i) \<longrightarrow> xs ! i \<noteq> xs ! j"
      using L [rule_format, of "Suc i" "Suc j" for i j] by auto
    ultimately show ?R by blast
  next
    assume R: ?R
    show ?L
    proof (intro allI impI)
      fix i j assume "i < j" "j < length (x # xs)" "P ((x # xs) ! i)"
      with R show "(x # xs) ! i \<noteq> (x # xs) ! j"
        by (cases i; cases j) (auto simp: in_set_conv_nth)
    qed
  qed
  show ?case unfolding * by (auto simp: Cons.IH)
qed

lemma distinct_keys_nth:
  "distinct_keys c \<longleftrightarrow> (\<forall>i j. i < j \<longrightarrow> j < length (k_head c) \<longrightarrow> k_head c ! i \<noteq> k_zero c
     \<longrightarrow> k_head c ! i \<noteq> k_head c ! j)"
  by (simp add: distinct_keys_def distinct_filter_nth)

lemma live_entries_nth:
  assumes "cache_wf c"
  shows "(k, e) \<in> live_entries c \<longleftrightarrow>
    (\<exists>i < cachesize c. k_head c ! i = k \<and> e_head c ! i = e \<and> k \<noteq> k_zero c)"
  using assms by (auto simp: live_entries_def cache_wf_def set_zip)

lemma cache_lookup_live:
  assumes "cache_inv c"
  shows "cache_lookup c k = Some e \<longleftrightarrow> (k, e) \<in> live_entries c"
proof -
  have wf: "cache_wf c" and d: "distinct_keys c"
    using assms by (simp_all add: cache_inv_def)
  note len = cache_wfD [OF wf]
  have uniq: "e = e'" if "(k, e) \<in> live_entries c" "(k, e') \<in> live_entries c" for e e'
  proof -
    from that obtain i j where ij: "i < cachesize c" "j < cachesize c" "k_head c ! i = k"
        "k_head c ! j = k" "e_head c ! i = e" "e_head c ! j = e'" "k \<noteq> k_zero c"
      by (auto simp: live_entries_nth [OF wf])
    have "i = j"
      using d ij len(1) unfolding distinct_keys_nth by (metis linorder_neqE_nat)
    with ij show ?thesis by simp
  qed
  show ?thesis
  proof
    assume "cache_lookup c k = Some e"
    then show "(k, e) \<in> live_entries c"
      by (auto simp: cache_lookup_def live_entries_def dest: map_of_SomeD split: if_splits)
  next
    assume live: "(k, e) \<in> live_entries c"
    then have "k \<noteq> k_zero c" and "k \<in> fst ` set (zip (k_head c) (e_head c))"
      by (auto simp: live_entries_def intro: rev_image_eqI)
    then obtain e' where e': "map_of (zip (k_head c) (e_head c)) k = Some e'"
      by (metis map_of_eq_None_iff option.exhaust)
    with \<open>k \<noteq> k_zero c\<close> have "(k, e') \<in> live_entries c"
      by (auto simp: live_entries_def dest: map_of_SomeD)
    with uniq live have "e' = e" by blast
    with e' \<open>k \<noteq> k_zero c\<close> show "cache_lookup c k = Some e"
      by (simp add: cache_lookup_def)
  qed
qed

subsection \<open>The search\<close>

lemma find_slot_Some:
  "find_slot cmp key ks i = Some j \<Longrightarrow>
     i \<le> j \<and> j < i + length ks \<and> cmp key (ks ! (j - i)) = 0 \<and>
     (\<forall>m < j - i. cmp key (ks ! m) \<noteq> 0)"
proof (induction ks arbitrary: i)
  case Nil
  then show ?case by simp
next
  case (Cons k ks)
  show ?case
  proof (cases "cmp key k = 0")
    case True
    with Cons.prems show ?thesis by simp
  next
    case False
    with Cons.prems have "find_slot cmp key ks (Suc i) = Some j" by simp
    from Cons.IH [OF this] have IH: "Suc i \<le> j" "j < Suc i + length ks"
      "cmp key (ks ! (j - Suc i)) = 0" "\<forall>m < j - Suc i. cmp key (ks ! m) \<noteq> 0" by auto
    have "j - i = Suc (j - Suc i)" using IH(1) by simp
    with IH False show ?thesis by (auto simp: less_Suc_eq_0_disj)
  qed
qed

lemma find_slot_None:
  "find_slot cmp key ks i = None \<longleftrightarrow> (\<forall>k \<in> set ks. cmp key k \<noteq> 0)"
  by (induction ks arbitrary: i) auto

lemma f_cache_find_Some:
  assumes "cache_wf c" and "f_cache_find c key = (Some p, c')"
  shows "p < cachesize c \<and> k_head c ! p = key \<and> key \<noteq> k_zero c \<and>
         (key, entry_at c p) \<in> live_entries c \<and> c' = c\<lparr> hit := hit c + 1 \<rparr>"
proof -
  from assms(1) obtain cmp where cmp: "k_compare_func c = Some cmp" "key_equality cmp (k_zero c)"
    by (auto simp: cache_wf_def split: option.splits)
  from assms cmp have fs: "find_slot cmp key (k_head c) 0 = Some p"
    and c': "c' = c\<lparr> hit := hit c + 1 \<rparr>"
    by (auto simp: f_cache_find_def cache_wf_def split: option.splits if_splits)
  from find_slot_Some [OF fs] cmp(2) assms(1)
  have "p < cachesize c" "k_head c ! p = key" "key \<noteq> k_zero c"
    by (auto simp: cache_wf_def key_equality_def)
  with c' show ?thesis
    by (auto simp: live_entries_nth [OF assms(1)] entry_at_def)
qed

lemma f_cache_find_None:
  assumes "cache_wf c" and "f_cache_find c key = (None, c')" and "key \<noteq> k_zero c"
  shows "key \<notin> set (k_head c) \<and> c' = c\<lparr> miss := miss c + 1 \<rparr>"
proof -
  from assms(1) obtain cmp where cmp: "k_compare_func c = Some cmp" "key_equality cmp (k_zero c)"
    by (auto simp: cache_wf_def split: option.splits)
  from assms cmp have "find_slot cmp key (k_head c) 0 = None"
    and c': "c' = c\<lparr> miss := miss c + 1 \<rparr>"
    by (auto simp: f_cache_find_def cache_wf_def split: option.splits if_splits)
  then have "\<forall>k \<in> set (k_head c). \<not> (key = k \<and> key \<noteq> k_zero c)"
    using cmp(2) by (auto simp: find_slot_None key_equality_def)
  with assms(3) c' show ?thesis by blast
qed

lemma f_cache_find_frame:
  assumes "f_cache_find c key = (r, c')"
  shows "k_head c' = k_head c" "e_head c' = e_head c" "next_slot c' = next_slot c"
    "cachesize c' = cachesize c" "k_zero c' = k_zero c" "e_zero c' = e_zero c"
    "entrysize c' = entrysize c" "keysize c' = keysize c"
    "k_compare_func c' = k_compare_func c" "k_destroy_func c' = k_destroy_func c"
    "e_destroy_func c' = e_destroy_func c"
  using assms by (auto simp: f_cache_find_def split: option.splits if_splits)

lemma f_cache_find_abs:
  assumes "f_cache_find c key = (r, c')"
  shows "cache_wf c' = cache_wf c" "cache_inv c' = cache_inv c"
    "live_entries c' = live_entries c" "cache_lookup c' = cache_lookup c"
    "entry_at c' = entry_at c" "cache_victim c' = cache_victim c"
  using f_cache_find_frame [OF assms]
  by (auto simp: cache_wf_def cache_inv_def distinct_keys_def live_entries_def cache_lookup_def
      entry_at_def cache_victim_def fun_eq_iff cong: option.case_cong)

subsection \<open>Insertion and deletion\<close>

lemma f_cache_put_frame:
  assumes "cache_wf c" and "f_cache_put c k e s = (p, c', s')"
  shows "p = next_slot c" "k_head c' = (k_head c)[p := k]" "e_head c' = (e_head c)[p := e]"
    "cachesize c' = cachesize c" "k_zero c' = k_zero c" "e_zero c' = e_zero c"
    "entrysize c' = entrysize c" "keysize c' = keysize c"
    "k_compare_func c' = k_compare_func c"
    "k_destroy_func c' = k_destroy_func c" "e_destroy_func c' = e_destroy_func c"
    "next_slot c' = (if Suc p = cachesize c then 0 else Suc p)"
    "hit c' = hit c" "miss c' = miss c"
    "s' = call_destroy (e_destroy_func c) (e_head c ! p)
            (call_destroy (k_destroy_func c) (k_head c ! p) s)"
  using assms by (auto simp: f_cache_put_def Let_def cache_wf_def)

lemma f_cache_put_wf:
  assumes "cache_wf c" and "f_cache_put c k e s = (p, c', s')"
  shows "cache_wf c'" and "p < cachesize c" and "entry_at c' p = e"
  using assms(1) f_cache_put_frame [OF assms]
  by (auto simp: cache_wf_def entry_at_def cong: option.case_cong)

lemma f_cache_put_live:
  assumes wf: "cache_wf c" and put: "f_cache_put c k e s = (p, c', s')"
  shows "live_entries c' \<subseteq> insert (k, e) (live_entries c)"
    and "k \<noteq> k_zero c \<Longrightarrow> (k, e) \<in> live_entries c'"
proof -
  note fr = f_cache_put_frame [OF wf put]
  note wf' = f_cache_put_wf [OF wf put]
  note len = cache_wfD [OF wf]
  show "live_entries c' \<subseteq> insert (k, e) (live_entries c)"
  proof (rule subsetI)
    fix x assume "x \<in> live_entries c'"
    then obtain i where i: "i < cachesize c" "k_head c' ! i \<noteq> k_zero c"
      "x = (k_head c' ! i, e_head c' ! i)"
      by (cases x) (auto simp: live_entries_nth [OF wf'(1)] fr)
    then show "x \<in> insert (k, e) (live_entries c)"
      by (cases "i = p") (auto simp: fr(2,3) live_entries_nth [OF wf] len)
  qed
  show "k \<noteq> k_zero c \<Longrightarrow> (k, e) \<in> live_entries c'"
    using wf'(2) by (auto simp: live_entries_nth [OF wf'(1)] fr(2-6) len intro!: exI [of _ p])
qed

lemma f_cache_put_live_iff:
  assumes inv: "cache_inv c" and put: "f_cache_put c k e s = (p, c', s')"
    and fresh: "k \<notin> set (k_head c)" and kz: "k \<noteq> k_zero c"
  shows "(k', e') \<in> live_entries c' \<longleftrightarrow>
    (if k' = k then e' = e else (k', e') \<in> live_entries c \<and> k' \<noteq> cache_victim c)"
proof -
  have wf: "cache_wf c" and d: "distinct_keys c" using inv by (auto simp: cache_inv_def)
  note fr = f_cache_put_frame [OF wf put]
  note wf' = f_cache_put_wf [OF wf put]
  note len = cache_wfD [OF wf]
  have vic: "cache_victim c = k_head c ! p" by (simp add: cache_victim_def fr(1))
  have other: "i = p" if "i < cachesize c" "k_head c ! i = k_head c ! p" "k_head c ! i \<noteq> k_zero c" for i
    using d that wf'(2) len(1) unfolding distinct_keys_nth by (metis linorder_neqE_nat)
  have nk: "k_head c ! i \<noteq> k" if "i < cachesize c" for i
    using fresh that len(1) by auto
  show ?thesis
  proof (cases "k' = k")
    case True
    have "(k, e') \<in> live_entries c' \<longleftrightarrow> e' = e"
    proof
      assume "(k, e') \<in> live_entries c'"
      then obtain i where i: "i < cachesize c" "k_head c' ! i = k" "e_head c' ! i = e'"
        by (auto simp: live_entries_nth [OF wf'(1)] fr(4))
      then have "i = p" using nk by (cases "i = p") (auto simp: fr(2) len)
      with i show "e' = e" by (simp add: fr(3) len)
    next
      assume "e' = e"
      then show "(k, e') \<in> live_entries c'" using f_cache_put_live(2) [OF wf put kz] by simp
    qed
    with True show ?thesis by simp
  next
    case False
    have "(k', e') \<in> live_entries c' \<longleftrightarrow>
      (\<exists>i < cachesize c. i \<noteq> p \<and> k_head c ! i = k' \<and> e_head c ! i = e' \<and> k' \<noteq> k_zero c)"
      unfolding live_entries_nth [OF wf'(1)] fr(2-5) using False len wf'(2)
      by (metis nth_list_update_eq nth_list_update_neq)
    also have "\<dots> \<longleftrightarrow> (k', e') \<in> live_entries c \<and> k' \<noteq> cache_victim c"
      unfolding live_entries_nth [OF wf] vic using other by metis
    finally show ?thesis using False by simp
  qed
qed

lemma f_cache_put_inv:
  assumes inv: "cache_inv c" and put: "f_cache_put c k e s = (p, c', s')"
    and fresh: "k \<notin> set (k_head c)"
  shows "cache_inv c'"
proof -
  have wf: "cache_wf c" and d: "distinct_keys c" using inv by (auto simp: cache_inv_def)
  note fr = f_cache_put_frame [OF wf put] and len = cache_wfD [OF wf]
  have nk: "k_head c ! i \<noteq> k" if "i < cachesize c" for i
    using fresh that len(1) by auto
  have "distinct_keys c'"
    unfolding distinct_keys_nth
  proof (intro allI impI)
    fix i j assume ij: "i < j" "j < length (k_head c')" "k_head c' ! i \<noteq> k_zero c'"
    then have "i < cachesize c" "j < cachesize c" by (auto simp: fr(2) len)
    with nk [of i] nk [of j] d ij show "k_head c' ! i \<noteq> k_head c' ! j"
      by (cases "i = p"; cases "j = p") (auto simp: fr len distinct_keys_nth)
  qed
  with f_cache_put_wf(1) [OF wf put] show ?thesis by (simp add: cache_inv_def)
qed

lemma f_cache_put_lookup:
  assumes inv: "cache_inv c" and put: "f_cache_put c k e s = (p, c', s')"
    and fresh: "k \<notin> set (k_head c)" and kz: "k \<noteq> k_zero c"
  shows "cache_lookup c' = (cache_lookup c)(cache_victim c := None, k \<mapsto> e)"
proof (rule ext)
  fix k'
  have inv': "cache_inv c'" by (rule f_cache_put_inv [OF inv put fresh])
  have "cache_lookup c' k' = Some e' \<longleftrightarrow>
      ((cache_lookup c)(cache_victim c := None, k \<mapsto> e)) k' = Some e'" for e'
    unfolding cache_lookup_live [OF inv'] f_cache_put_live_iff [OF inv put fresh kz]
    by (auto simp: cache_lookup_live [OF inv])
  then show "cache_lookup c' k' = ((cache_lookup c)(cache_victim c := None, k \<mapsto> e)) k'"
    by (metis not_None_eq)
qed

lemma f_cache_delete_frame:
  assumes "cache_wf c" and "f_cache_delete_entry c (Some i) s = (d, c', s')" and "i < cachesize c"
  shows "d = 1" "k_head c' = (k_head c)[i := k_zero c]" "e_head c' = (e_head c)[i := e_zero c]"
    "cachesize c' = cachesize c" "k_zero c' = k_zero c" "e_zero c' = e_zero c"
    "next_slot c' = next_slot c" "k_compare_func c' = k_compare_func c"
    "k_destroy_func c' = k_destroy_func c" "e_destroy_func c' = e_destroy_func c"
    "entrysize c' = entrysize c" "keysize c' = keysize c"
    "s' = call_destroy (e_destroy_func c) (e_head c ! i)
            (call_destroy (k_destroy_func c) (k_head c ! i) s)"
  using assms by (auto simp: f_cache_delete_entry_def cache_wf_def)

lemma f_cache_delete_out:
  "cache_wf c \<Longrightarrow> f_cache_delete_entry c None s = (0, c, s)"
  "cache_wf c \<Longrightarrow> cachesize c \<le> i \<Longrightarrow> f_cache_delete_entry c (Some i) s = (0, c, s)"
  by (auto simp: f_cache_delete_entry_def)

lemma f_cache_delete_wf:
  assumes "cache_wf c" and "f_cache_delete_entry c q s = (d, c', s')"
  shows "cache_wf c'" "live_entries c' \<subseteq> live_entries c"
proof -
  have "cache_wf c' \<and> live_entries c' \<subseteq> live_entries c"
  proof (cases "\<exists>i. q = Some i \<and> i < cachesize c")
    case False
    with f_cache_delete_out [OF assms(1)] assms(2) have "c' = c"
      by (cases q) (auto simp: not_less)
    with assms(1) show ?thesis by simp
  next
    case True
    then obtain i where i: "q = Some i" "i < cachesize c" by blast
    note fr = f_cache_delete_frame [OF assms(1) assms(2) [unfolded i(1)] i(2)]
    have wf': "cache_wf c'"
      using assms(1) fr by (auto simp: cache_wf_def cong: option.case_cong)
    have "live_entries c' \<subseteq> live_entries c"
    proof (rule subrelI)
      fix k e assume "(k, e) \<in> live_entries c'"
      then obtain j where j: "j < cachesize c" "k_head c' ! j = k" "e_head c' ! j = e" "k \<noteq> k_zero c"
        by (auto simp: live_entries_nth [OF wf'] fr(4,5))
      then show "(k, e) \<in> live_entries c"
        using cache_wfD(1,2) [OF assms(1)]
        by (cases "j = i") (auto simp: live_entries_nth [OF assms(1)] fr(2,3))
    qed
    with wf' show ?thesis by simp
  qed
  then show "cache_wf c'" "live_entries c' \<subseteq> live_entries c" by auto
qed

lemma f_cache_delete_inv:
  assumes inv: "cache_inv c" and del: "f_cache_delete_entry c q s = (d, c', s')"
  shows "cache_inv c'"
proof (cases "\<exists>i. q = Some i \<and> i < cachesize c")
  case False
  have wf: "cache_wf c" using inv by (simp add: cache_inv_def)
  with f_cache_delete_out [OF wf] del False have "c' = c" by (cases q) (auto simp: not_less)
  with inv show ?thesis by simp
next
  case True
  have wf: "cache_wf c" and d: "distinct_keys c" using inv by (auto simp: cache_inv_def)
  from True obtain i where i: "q = Some i" "i < cachesize c" by blast
  note fr = f_cache_delete_frame [OF wf del [unfolded i(1)] i(2)]
  have "distinct_keys c'"
    unfolding distinct_keys_nth
  proof (intro allI impI)
    fix a b assume "a < b" "b < length (k_head c')" "k_head c' ! a \<noteq> k_zero c'"
    with d i(2) cache_wfD(1) [OF wf] show "k_head c' ! a \<noteq> k_head c' ! b"
      by (cases "a = i"; cases "b = i") (auto simp: fr distinct_keys_nth)
  qed
  with f_cache_delete_wf(1) [OF wf del] show ?thesis by (simp add: cache_inv_def)
qed

lemma f_cache_delete_lookup:
  assumes inv: "cache_inv c" and live: "i < cachesize c" "k_head c ! i = k" "k \<noteq> k_zero c"
    and del: "f_cache_delete_entry c (Some i) s = (d, c', s')"
  shows "cache_lookup c' = (cache_lookup c)(k := None)"
proof (rule ext)
  fix k'
  have wf: "cache_wf c" and d: "distinct_keys c" using inv by (auto simp: cache_inv_def)
  note fr = f_cache_delete_frame [OF wf del live(1)] and len = cache_wfD [OF wf]
  have inv': "cache_inv c'" by (rule f_cache_delete_inv [OF inv del])
  then have wf': "cache_wf c'" by (simp add: cache_inv_def)
  have other: "j = i" if "j < cachesize c" "k_head c ! j = k" for j
    using d that live len(1) unfolding distinct_keys_nth by (metis linorder_neqE_nat)
  have "(k', e') \<in> live_entries c' \<longleftrightarrow> (k', e') \<in> live_entries c \<and> k' \<noteq> k" for e'
    unfolding live_entries_nth [OF wf'] live_entries_nth [OF wf] fr(2-5)
    using other live len
    by (metis nth_list_update_eq nth_list_update_neq)
  then have "cache_lookup c' k' = Some e' \<longleftrightarrow> ((cache_lookup c)(k := None)) k' = Some e'" for e'
    by (auto simp: cache_lookup_live [OF inv'] cache_lookup_live [OF inv])
  then show "cache_lookup c' k' = ((cache_lookup c)(k := None)) k'"
    by (metis not_None_eq)
qed

subsection \<open>The interfaces its clients rely on\<close>

text \<open>
  \<open>entry_store\<close>: whatever a search returns was put there under that key, and nothing but
  insertions adds entries. This is all a client needs to carry an invariant of the entries.
\<close>

locale entry_store =
  fixes find :: "'c \<Rightarrow> 'k \<Rightarrow> nat option \<times> 'c"
    and put :: "'c \<Rightarrow> 'k \<Rightarrow> 'e \<Rightarrow> 's \<Rightarrow> nat \<times> 'c \<times> 's"
    and delete :: "'c \<Rightarrow> nat option \<Rightarrow> 's \<Rightarrow> nat \<times> 'c \<times> 's"
    and entry :: "'c \<Rightarrow> nat \<Rightarrow> 'e"
    and entries :: "'c \<Rightarrow> ('k \<times> 'e) set"
    and wf :: "'c \<Rightarrow> bool"
  assumes find_wf: "wf c \<Longrightarrow> find c k = (r, c') \<Longrightarrow> wf c' \<and> entries c' = entries c \<and> entry c' = entry c"
    and find_hit: "wf c \<Longrightarrow> find c k = (Some p, c') \<Longrightarrow> (k, entry c p) \<in> entries c"
    and put_wf: "wf c \<Longrightarrow> put c k e s = (p, c', s') \<Longrightarrow>
          wf c' \<and> entry c' p = e \<and> entries c' \<subseteq> insert (k, e) (entries c)"
    and delete_wf: "wf c \<Longrightarrow> delete c q s = (d, c', s') \<Longrightarrow> wf c' \<and> entries c' \<subseteq> entries c"
begin

lemma all_find:
  "wf c \<Longrightarrow> \<forall>(k, e) \<in> entries c. P k e \<Longrightarrow> find c k = (r, c') \<Longrightarrow>
     wf c' \<and> (\<forall>(k, e) \<in> entries c'. P k e) \<and> (\<forall>p. r = Some p \<longrightarrow> P k (entry c' p))"
  using find_wf [of c k r c'] find_hit [of c k] by (cases r) auto

lemma all_put:
  "wf c \<Longrightarrow> \<forall>(k, e) \<in> entries c. P k e \<Longrightarrow> P k e \<Longrightarrow> put c k e s = (p, c', s') \<Longrightarrow>
     wf c' \<and> (\<forall>(k, e) \<in> entries c'. P k e) \<and> entry c' p = e"
  using put_wf [of c k e s p c' s'] by blast

lemma all_delete:
  "wf c \<Longrightarrow> \<forall>(k, e) \<in> entries c. P k e \<Longrightarrow> delete c q s = (d, c', s') \<Longrightarrow>
     wf c' \<and> (\<forall>(k, e) \<in> entries c'. P k e)"
  using delete_wf [of c q s d c' s'] by blast

end

text \<open>
  \<open>map_store\<close>: as long as keys are inserted only after a miss, the cache is a finite map
  that forgets the victim of each insertion.
\<close>

locale map_store = entry_store find put delete entry entries wf
  for find :: "'c \<Rightarrow> 'k \<Rightarrow> nat option \<times> 'c"
    and put :: "'c \<Rightarrow> 'k \<Rightarrow> 'e \<Rightarrow> 's \<Rightarrow> nat \<times> 'c \<times> 's"
    and delete entry entries wf +
  fixes lookup :: "'c \<Rightarrow> 'k \<Rightarrow> 'e option"
    and victim :: "'c \<Rightarrow> 'k"
    and inv :: "'c \<Rightarrow> bool"
    and valid :: "'c \<Rightarrow> 'k \<Rightarrow> bool"
  assumes inv_wf: "inv c \<Longrightarrow> wf c"
    and find_map: "inv c \<Longrightarrow> find c k = (r, c') \<Longrightarrow>
          inv c' \<and> lookup c' = lookup c \<and> victim c' = victim c \<and> valid c' = valid c"
    and find_lookup: "inv c \<Longrightarrow> valid c k \<Longrightarrow>
          map_option (entry c) (fst (find c k)) = lookup c k"
    and put_map: "inv c \<Longrightarrow> valid c k \<Longrightarrow> lookup c k = None \<Longrightarrow> put c k e s = (p, c', s') \<Longrightarrow>
          inv c' \<and> lookup c' = (lookup c)(victim c := None, k \<mapsto> e) \<and> valid c' = valid c"
    and delete_map: "inv c \<Longrightarrow> valid c k \<Longrightarrow> find c k = (Some p, c1) \<Longrightarrow>
          delete c1 (Some p) s = (d, c', s') \<Longrightarrow>
          inv c' \<and> lookup c' = (lookup c)(k := None) \<and> valid c' = valid c"
begin

lemma miss_iff: "inv c \<Longrightarrow> valid c k \<Longrightarrow> find c k = (r, c') \<Longrightarrow> r = None \<longleftrightarrow> lookup c k = None"
  using find_lookup [of c k] by (cases r) (auto dest: sym)

lemma put_after_miss:
  assumes "inv c" "valid c k" "find c k = (None, c1)" "put c1 k e s = (p, c2, s2)"
  shows "inv c2" "lookup c2 = (lookup c)(victim c := None, k \<mapsto> e)"
    "map_option (entry c2) (fst (find c2 k)) = Some e"
proof -
  from find_map [OF assms(1,3)] have c1: "inv c1" "lookup c1 = lookup c" "victim c1 = victim c"
    "valid c1 = valid c" by auto
  from miss_iff [OF assms(1-3)] c1 have "lookup c1 k = None" by simp
  from put_map [OF c1(1) _ this assms(4)] assms(2) c1
  have c2: "inv c2" "lookup c2 = (lookup c)(victim c := None, k \<mapsto> e)" "valid c2 = valid c" by auto
  then show "inv c2" "lookup c2 = (lookup c)(victim c := None, k \<mapsto> e)" by simp_all
  show "map_option (entry c2) (fst (find c2 k)) = Some e"
    using find_lookup [OF c2(1), of k] assms(2) c2 by simp
qed

lemma miss_after_delete:
  assumes "inv c" "valid c k" "find c k = (Some p, c1)" "delete c1 (Some p) s = (d, c2, s2)"
  shows "fst (find c2 k) = None" "k' \<noteq> k \<Longrightarrow> lookup c2 k' = lookup c k'"
proof -
  from delete_map [OF assms] have c2: "inv c2" "lookup c2 = (lookup c)(k := None)"
    "valid c2 = valid c" by auto
  have "map_option (entry c2) (fst (find c2 k)) = None"
    using find_lookup [OF c2(1), of k] c2 assms(2) by simp
  then show "fst (find c2 k) = None" by simp
  show "k' \<noteq> k \<Longrightarrow> lookup c2 k' = lookup c k'" using c2 by simp
qed

end

interpretation fifo: entry_store f_cache_find f_cache_put f_cache_delete_entry entry_at
  live_entries cache_wf
proof unfold_locales
  fix c :: "('k, 'e, 's) fifo_cache" and k r c' p e s s' q d
  show "cache_wf c' \<and> live_entries c' = live_entries c \<and> entry_at c' = entry_at c"
    if "cache_wf c" "f_cache_find c k = (r, c')"
    using f_cache_find_abs(1,3,5) [OF that(2)] that(1) by (simp only: simp_thms)
  show "(k, entry_at c p) \<in> live_entries c"
    if "cache_wf c" "f_cache_find c k = (Some p, c')"
    using f_cache_find_Some [OF that] by simp
  show "cache_wf c' \<and> entry_at c' p = e \<and> live_entries c' \<subseteq> insert (k, e) (live_entries c)"
    if "cache_wf c" "f_cache_put c k e s = (p, c', s')"
    using f_cache_put_wf [OF that] f_cache_put_live(1) [OF that] by simp
  show "cache_wf c' \<and> live_entries c' \<subseteq> live_entries c"
    if "cache_wf c" "f_cache_delete_entry c q s = (d, c', s')"
    using f_cache_delete_wf [OF that] by simp
qed

lemma cache_lookup_None:
  assumes "cache_inv c" "k \<noteq> k_zero c"
  shows "cache_lookup c k = None \<longleftrightarrow> k \<notin> set (k_head c)"
proof -
  have "length (e_head c) = length (k_head c)" using assms(1) by (simp add: cache_inv_def cache_wf_def)
  then have "fst ` set (zip (k_head c) (e_head c)) = set (k_head c)"
    by (metis map_fst_zip set_map)
  with assms(2) show ?thesis by (simp add: cache_lookup_def map_of_eq_None_iff)
qed

interpretation fifo_map: map_store f_cache_find f_cache_put f_cache_delete_entry entry_at
  live_entries cache_wf cache_lookup cache_victim cache_inv "\<lambda>c k. k \<noteq> k_zero c"
proof unfold_locales
  fix c :: "('k, 'e, 's) fifo_cache" and k r c' p e s s' d c1
  show "cache_inv c \<Longrightarrow> cache_wf c" by (simp add: cache_inv_def)
  show "cache_inv c \<Longrightarrow> f_cache_find c k = (r, c') \<Longrightarrow>
      cache_inv c' \<and> cache_lookup c' = cache_lookup c \<and> cache_victim c' = cache_victim c \<and>
      (\<lambda>k. k \<noteq> k_zero c') = (\<lambda>k. k \<noteq> k_zero c)"
    using f_cache_find_frame(5) [of c k r c'] f_cache_find_abs(2,4,6) [of c k r c'] by metis
  show "map_option (entry_at c) (fst (f_cache_find c k)) = cache_lookup c k"
    if "cache_inv c" "k \<noteq> k_zero c"
  proof (cases "f_cache_find c k")
    case (Pair r c2)
    have wf: "cache_wf c" using that(1) by (simp add: cache_inv_def)
    show ?thesis
    proof (cases r)
      case None
      with f_cache_find_None [OF wf] Pair that cache_lookup_None show ?thesis by fastforce
    next
      case (Some p)
      with f_cache_find_Some [OF wf] Pair have "(k, entry_at c p) \<in> live_entries c" by blast
      with Some Pair show ?thesis by (simp add: cache_lookup_live [OF that(1), symmetric])
    qed
  qed
  show "cache_inv c \<Longrightarrow> k \<noteq> k_zero c \<Longrightarrow> cache_lookup c k = None \<Longrightarrow>
      f_cache_put c k e s = (p, c', s') \<Longrightarrow>
      cache_inv c' \<and> cache_lookup c' = (cache_lookup c)(cache_victim c := None, k \<mapsto> e) \<and>
      (\<lambda>k. k \<noteq> k_zero c') = (\<lambda>k. k \<noteq> k_zero c)"
    using f_cache_put_inv [of c k e s p c' s'] f_cache_put_lookup [of c k e s p c' s']
      f_cache_put_frame(5) [of c k e s p c' s'] cache_lookup_None [of c k]
    by (simp add: cache_inv_def)
  show "cache_inv c' \<and> cache_lookup c' = (cache_lookup c)(k := None) \<and>
      (\<lambda>k. k \<noteq> k_zero c') = (\<lambda>k. k \<noteq> k_zero c)"
    if "cache_inv c" "k \<noteq> k_zero c" "f_cache_find c k = (Some p, c1)"
      "f_cache_delete_entry c1 (Some p) s = (d, c', s')"
  proof -
    have wf: "cache_wf c" using that(1) by (simp add: cache_inv_def)
    note hit = f_cache_find_Some [OF wf that(3)]
    note abs = f_cache_find_abs [OF that(3)] f_cache_find_frame [OF that(3)]
    have inv1: "cache_inv c1" and p: "p < cachesize c1" "k_head c1 ! p = k" "k \<noteq> k_zero c1"
      using hit abs that(1) by auto
    from f_cache_delete_inv [OF inv1 that(4)] f_cache_delete_lookup [OF inv1 p that(4)]
      f_cache_delete_frame(5) [OF _ that(4) p(1)] inv1 abs
    show ?thesis by (auto simp: cache_inv_def)
  qed
qed

subsection \<open>A fresh cache\<close>

lemma f_cache_new_inv:
  assumes "f_cache_new n es edf ks kdf (Some cmp) kz ez = Some c"
    and "0 < es" "0 < ks" "key_equality cmp kz"
  shows "cache_inv c" "live_entries c = {}" "k_zero c = kz" "cachesize c = n"
proof -
  from assms have c: "c = \<lparr> cachesize = n, entrysize = es, keysize = ks,
      k_head = replicate n kz, e_head = replicate n ez, next_slot = 0, k_zero = kz, e_zero = ez,
      k_destroy_func = kdf, e_destroy_func = edf, k_compare_func = Some cmp,
      hit = 0, miss = 0, get_keysize = None, get_entrysize = None \<rparr>" "n > 0"
    by (auto simp: f_cache_new_def split: if_splits)
  show "cache_inv c" "k_zero c = kz" "cachesize c = n"
    using assms c by (auto simp: cache_inv_def cache_wf_def distinct_keys_def)
  show "live_entries c = {}"
    using c by (auto simp: live_entries_def dest: set_zip_leftD)
qed

subsection \<open>First in, first out\<close>

text \<open>A run of insertions.\<close>

fun f_cache_puts ::
  "('k, 'e, 's) fifo_cache \<Rightarrow> ('k \<times> 'e) list \<Rightarrow> 's \<Rightarrow> ('k, 'e, 's) fifo_cache \<times> 's" where
  "f_cache_puts c [] s = (c, s)"
| "f_cache_puts c ((k, e) # kes) s =
     (case f_cache_put c k e s of (p, c', s') \<Rightarrow> f_cache_puts c' kes s')"

text \<open>How many insertions slot \<open>p\<close> survives from now on.\<close>

definition slot_age :: "('k, 'e, 's) fifo_cache \<Rightarrow> nat \<Rightarrow> nat" where
  "slot_age c p = (if next_slot c \<le> p then p - next_slot c else p + cachesize c - next_slot c)"

lemma slot_age_put:
  assumes "cache_wf c" "f_cache_put c k e s = (q, c', s')" "p < cachesize c" "0 < slot_age c p"
  shows "slot_age c' p = slot_age c p - 1" "q \<noteq> p"
  using assms f_cache_put_frame [OF assms(1,2)] cache_wfD(3) [OF assms(1)]
  by (auto simp: slot_age_def split: if_splits)

lemma f_cache_puts_keep:
  assumes "cache_wf c" "p < cachesize c" "length kes \<le> slot_age c p"
    "f_cache_puts c kes s = (c', s')"
  shows "cache_wf c' \<and> cachesize c' = cachesize c \<and> k_head c' ! p = k_head c ! p \<and>
         e_head c' ! p = e_head c ! p \<and> slot_age c' p = slot_age c p - length kes"
  using assms
proof (induction c kes s rule: f_cache_puts.induct)
  case (1 c s)
  then show ?case by simp
next
  case (2 c k e kes s)
  obtain q c1 s1 where put: "f_cache_put c k e s = (q, c1, s1)" by (cases "f_cache_put c k e s")
  note wf1 = f_cache_put_wf [OF "2.prems"(1) put]
  note fr = f_cache_put_frame [OF "2.prems"(1) put]
  have age: "slot_age c1 p = slot_age c p - 1" "q \<noteq> p"
    using slot_age_put [OF "2.prems"(1) put "2.prems"(2)] "2.prems"(3) by auto
  have "cache_wf c' \<and> cachesize c' = cachesize c1 \<and> k_head c' ! p = k_head c1 ! p \<and>
      e_head c' ! p = e_head c1 ! p \<and> slot_age c' p = slot_age c1 p - length kes"
    using "2.IH" [OF put [symmetric] refl wf1(1)] "2.prems" put age fr by simp
  with age fr show ?case by auto
qed

subsection \<open>Ownership of keys and entries\<close>

text \<open>
  With a destructor that records what it is given, every entry the cache was handed is in
  the cache or has been destroyed, once.
\<close>

datatype ('k, 'e) cache_op = Put 'k 'e | Delete "nat option" | Clear

fun cache_run ::
  "('k, 'e, 'e list) fifo_cache \<Rightarrow> ('k, 'e) cache_op list \<Rightarrow> 'e list
    \<Rightarrow> ('k, 'e, 'e list) fifo_cache \<times> 'e list" where
  "cache_run c [] s = (c, s)"
| "cache_run c (Put k e # xs) s = (case f_cache_put c k e s of (_, c', s') \<Rightarrow> cache_run c' xs s')"
| "cache_run c (Delete q # xs) s =
     (case f_cache_delete_entry c q s of (_, c', s') \<Rightarrow> cache_run c' xs s')"
| "cache_run c (Clear # xs) s = (case f_cache_clear c s of (c', s') \<Rightarrow> cache_run c' xs s')"

fun handed_in :: "('k, 'e) cache_op list \<Rightarrow> 'e list" where
  "handed_in [] = []"
| "handed_in (Put k e # xs) = e # handed_in xs"
| "handed_in (_ # xs) = handed_in xs"

definition owned :: "'e \<Rightarrow> 'e list \<Rightarrow> 'e multiset" where
  "owned z xs = filter_mset (\<lambda>x. x \<noteq> z) (mset xs)"

lemma owned_simps [simp]:
  "owned z [] = {#}"
  "owned z (x # xs) = (if x = z then owned z xs else add_mset x (owned z xs))"
  "owned z (xs @ ys) = owned z xs + owned z ys"
  "owned z (replicate n z) = {#}"
  by (auto simp: owned_def)

lemma owned_update:
  assumes "i < length xs"
  shows "owned z (xs[i := x]) + owned z [xs ! i] = owned z [x] + owned z xs"
proof -
  from assms have "mset (xs[i := x]) + {#xs ! i#} = {#x#} + mset xs"
    by (simp add: mset_update)
  then have "filter_mset (\<lambda>x. x \<noteq> z) (mset (xs[i := x]) + {#xs ! i#}) =
      filter_mset (\<lambda>x. x \<noteq> z) ({#x#} + mset xs)" by (rule arg_cong)
  then show ?thesis by (auto simp: owned_def)
qed

lemma destroy_slots_log:
  "length ks = length es \<Longrightarrow>
     destroy_slots None (Some (\<lambda>e s. e # s)) ks es s = rev es @ s"
  by (induction ks es arbitrary: s rule: list_induct2) (simp_all add: call_destroy_def)

definition logging_cache :: "('k, 'e, 'e list) fifo_cache \<Rightarrow> bool" where
  "logging_cache c \<longleftrightarrow> cache_wf c \<and> k_destroy_func c = None \<and>
     e_destroy_func c = Some (\<lambda>e s. e # s)"

lemma logging_put:
  assumes "logging_cache c" "f_cache_put c k e s = (p, c', s')"
  shows "logging_cache c'" "e_zero c' = e_zero c"
    "owned z (e_head c') + owned z s' = owned z [e] + owned z (e_head c) + owned z s"
proof -
  have wf: "cache_wf c" using assms by (simp add: logging_cache_def)
  note fr = f_cache_put_frame [OF wf assms(2)] and wf' = f_cache_put_wf [OF wf assms(2)]
  show "logging_cache c'" "e_zero c' = e_zero c"
    using assms(1) fr wf' by (auto simp: logging_cache_def)
  have "s' = e_head c ! p # s" using assms(1) fr by (simp add: logging_cache_def call_destroy_def)
  moreover have "owned z (e_head c') + owned z [e_head c ! p] = owned z [e] + owned z (e_head c)"
    unfolding fr(3) by (rule owned_update) (use wf' cache_wfD(2) [OF wf] in simp)
  ultimately show "owned z (e_head c') + owned z s' = owned z [e] + owned z (e_head c) + owned z s"
    by (auto simp: add.assoc split: if_splits)
qed

lemma logging_delete:
  assumes "logging_cache c" "f_cache_delete_entry c q s = (d, c', s')"
  shows "logging_cache c' \<and> e_zero c' = e_zero c \<and>
    owned (e_zero c) (e_head c') + owned (e_zero c) s' = owned (e_zero c) (e_head c) + owned (e_zero c) s"
proof (cases "\<exists>i. q = Some i \<and> i < cachesize c")
  case False
  have wf: "cache_wf c" using assms by (simp add: logging_cache_def)
  from False f_cache_delete_out [OF wf] assms(2) have "c' = c" "s' = s"
    by (cases q; auto simp: not_less)+
  with assms(1) show ?thesis by simp
next
  case True
  have wf: "cache_wf c" using assms by (simp add: logging_cache_def)
  from True obtain i where i: "q = Some i" "i < cachesize c" by blast
  note fr = f_cache_delete_frame [OF wf assms(2) [unfolded i(1)] i(2)]
  have log: "logging_cache c'"
    using assms(1) fr f_cache_delete_wf(1) [OF wf assms(2)] by (auto simp: logging_cache_def)
  have s': "s' = e_head c ! i # s"
    using assms(1) fr by (simp add: logging_cache_def call_destroy_def)
  have "owned (e_zero c) (e_head c') + owned (e_zero c) [e_head c ! i] =
      owned (e_zero c) [e_zero c] + owned (e_zero c) (e_head c)"
    unfolding fr(3) by (rule owned_update) (use i(2) cache_wfD(2) [OF wf] in simp)
  with s' log fr show ?thesis by (auto split: if_splits)
qed

lemma logging_clear:
  assumes "logging_cache c" "f_cache_clear c s = (c', s')"
  shows "logging_cache c' \<and> e_zero c' = e_zero c \<and>
    owned (e_zero c) (e_head c') + owned (e_zero c) s' = owned (e_zero c) (e_head c) + owned (e_zero c) s"
proof -
  have wf: "cache_wf c" using assms by (simp add: logging_cache_def)
  have "s' = rev (e_head c) @ s"
    using assms cache_wfD(1,2) [OF wf]
    by (auto simp: f_cache_clear_def logging_cache_def destroy_slots_log)
  moreover have "owned (e_zero c) (rev (e_head c)) = owned (e_zero c) (e_head c)"
    by (simp add: owned_def)
  moreover have "logging_cache c' \<and> e_zero c' = e_zero c \<and>
      e_head c' = replicate (cachesize c) (e_zero c)"
    using assms by (auto simp: f_cache_clear_def logging_cache_def cache_wf_def
        cong: option.case_cong)
  ultimately show ?thesis by simp
qed

lemma cache_run_ownership:
  "logging_cache c \<Longrightarrow> cache_run c xs s = (c', s') \<Longrightarrow>
     owned (e_zero c) (e_head c') + owned (e_zero c) s' =
     owned (e_zero c) (handed_in xs) + owned (e_zero c) (e_head c) + owned (e_zero c) s"
proof (induction c xs s rule: cache_run.induct)
  case (1 c s)
  then show ?case by simp
next
  case (2 c k e xs s)
  obtain p c1 s1 where p: "f_cache_put c k e s = (p, c1, s1)" by (cases "f_cache_put c k e s")
  note l = logging_put [OF "2.prems"(1) p]
  from "2.IH" [OF p [symmetric] refl l(1)] "2.prems"(2) p l(2) l(3) [of "e_zero c"] show ?case
    by (auto simp: ac_simps split: if_splits)
next
  case (3 c q xs s)
  obtain d c1 s1 where p: "f_cache_delete_entry c q s = (d, c1, s1)"
    by (cases "f_cache_delete_entry c q s")
  from logging_delete [OF "3.prems"(1) p] "3.IH" [OF p [symmetric] refl] "3.prems"(2) p
  show ?case by (auto simp: ac_simps)
next
  case (4 c xs s)
  obtain c1 s1 where p: "f_cache_clear c s = (c1, s1)" by (cases "f_cache_clear c s")
  from logging_clear [OF "4.prems"(1) p] "4.IH" [OF p [symmetric]] "4.prems"(2) p
  show ?case by (auto simp: ac_simps)
qed

subsection \<open>Properties\<close>

text \<open>C14: After a search has missed, inserting the missed key makes the cache stand for the
  same finite map without the victim of the insertion and with the new binding; the next
  search for the key hits, at the slot the insertion returned.\<close>

theorem fifo_put_after_miss:
  assumes "cache_inv c" "k \<noteq> k_zero c"
    and "f_cache_find c k = (None, c1)" and "f_cache_put c1 k e s = (p, c2, s2)"
  shows "cache_inv c2 \<and>
    cache_lookup c2 = (cache_lookup c)(cache_victim c := None, k \<mapsto> e) \<and>
    fst (f_cache_find c2 k) = Some p \<and> entry_at c2 p = e"
proof -
  note pam = fifo_map.put_after_miss [OF assms]
  have wf: "cache_wf c" "cache_wf c1" "cache_wf c2"
    using assms(1) pam(1) f_cache_find_abs(1) [OF assms(3)] by (auto simp: cache_inv_def)
  note put = f_cache_put_frame [OF wf(2) assms(4)] f_cache_put_wf [OF wf(2) assms(4)]
  from pam(3) obtain q c3 where q: "f_cache_find c2 k = (Some q, c3)"
    by (cases "f_cache_find c2 k") auto
  have k1: "k \<notin> set (k_head c1)"
    using f_cache_find_None [OF wf(1) assms(3,2)] f_cache_find_frame(1) [OF assms(3)] by simp
  from f_cache_find_Some [OF wf(3) q] have "q < cachesize c2" "k_head c2 ! q = k" by auto
  then have "q = p"
    using k1 put cache_wfD(1) [OF wf(2)] by (metis nth_list_update_neq nth_mem)
  with q pam(1,2) put show ?thesis by simp
qed

text \<open>First in, first out: an inserted record stays in its slot through fewer than
  \<open>cachesize\<close> further insertions, whatever their keys, and the insertion after that takes
  its slot.\<close>

theorem fifo_survival:
  assumes "cache_wf c" "f_cache_put c k e s = (p, c1, s1)"
    and "length kes < cachesize c" "f_cache_puts c1 kes s1 = (c2, s2)"
  shows "k_head c2 ! p = k \<and> e_head c2 ! p = e \<and>
    (length kes = cachesize c - 1 \<longrightarrow> fst (f_cache_put c2 k' e' s2) = p)"
proof -
  note put = f_cache_put_frame [OF assms(1,2)] f_cache_put_wf [OF assms(1,2)]
  note len = cache_wfD [OF assms(1)]
  have age: "slot_age c1 p = cachesize c - 1"
    using put by (auto simp: slot_age_def)
  have keep: "cache_wf c2 \<and> cachesize c2 = cachesize c1 \<and> k_head c2 ! p = k_head c1 ! p \<and>
      e_head c2 ! p = e_head c1 ! p \<and> slot_age c2 p = slot_age c1 p - length kes"
    by (rule f_cache_puts_keep [OF _ _ _ assms(4)]) (use put age assms(3) in auto)
  have "fst (f_cache_put c2 k' e' s2) = p" if "length kes = cachesize c - 1"
  proof -
    from that keep age have "slot_age c2 p = 0" by simp
    with keep put have "next_slot c2 = p"
      using cache_wfD(3) [of c2] by (auto simp: slot_age_def split: if_splits)
    with keep show ?thesis
      using f_cache_put_frame(1) [of c2 k' e' s2] by (cases "f_cache_put c2 k' e' s2") auto
  qed
  with keep show ?thesis using put len by simp
qed


subsection \<open>Witnesses\<close>

definition demo_cmp :: "string option \<Rightarrow> string option \<Rightarrow> int" where
  "demo_cmp a b = (case (a, b) of (Some x, Some y) \<Rightarrow> strcmp x y | _ \<Rightarrow> 1)"

lemma demo_cmp_equality: "key_equality demo_cmp None"
  by (auto simp: key_equality_def demo_cmp_def split: option.splits)

definition demo_cache :: "(string option, nat, nat list) fifo_cache" where
  "demo_cache = the (f_cache_new 2 8 (Some (\<lambda>e s. e # s)) 8 None (Some demo_cmp) None 0)"

lemma demo_cache_new:
  "f_cache_new 2 8 (Some (\<lambda>e s. e # s)) 8 None (Some demo_cmp) None 0 = Some demo_cache"
  by (simp add: demo_cache_def f_cache_new_def)

lemma demo_cache_inv: "cache_inv demo_cache" "k_zero demo_cache = None" "cachesize demo_cache = 2"
  using f_cache_new_inv [OF demo_cache_new _ _ demo_cmp_equality] by simp_all

theorem fifo_put_after_miss_witness:
  "entry_at (fst (snd (f_cache_put (snd (f_cache_find demo_cache (Some ''a''))) (Some ''a'') 7 []))) 0 = 7"
proof -
  have m: "f_cache_find demo_cache (Some ''a'') = (None, demo_cache\<lparr> miss := 1 \<rparr>)"
    by (simp add: demo_cache_def f_cache_new_def f_cache_find_def demo_cmp_def numeral_2_eq_2)
  obtain c2 s2 where p: "f_cache_put (demo_cache\<lparr> miss := 1 \<rparr>) (Some ''a'') 7 [] = (0, c2, s2)"
    by (simp add: demo_cache_def f_cache_new_def f_cache_put_def Let_def)
  from fifo_put_after_miss [OF demo_cache_inv(1) _ m p] m p demo_cache_inv(2)
  show ?thesis by simp
qed

theorem fifo_survival_witness:
  "\<exists>c1 s1 c2 s2. f_cache_put demo_cache (Some ''a'') 7 [] = (0, c1, s1) \<and>
     f_cache_puts c1 [(Some ''b'', 8)] s1 = (c2, s2) \<and> e_head c2 ! 0 = 7 \<and>
     fst (f_cache_put c2 (Some ''c'') 9 s2) = 0"
proof -
  obtain c1 s1 where p: "f_cache_put demo_cache (Some ''a'') 7 [] = (0, c1, s1)"
    by (simp add: demo_cache_def f_cache_new_def f_cache_put_def Let_def)
  obtain c2 s2 where q: "f_cache_puts c1 [(Some ''b'', 8)] s1 = (c2, s2)"
    by (cases "f_cache_puts c1 [(Some ''b'', 8)] s1")
  have wf: "cache_wf demo_cache" using demo_cache_inv by (simp add: cache_inv_def)
  from fifo_survival [OF wf p _ q] p q demo_cache_inv(3) show ?thesis by auto
qed


end
