(* ===== verification/PathParse.thy ===== *)
theory PathParse
  imports FspPrelude
begin

text \<open>
  The path parser of \<^verbatim>\<open>server/path.c\<close> and the record \<^verbatim>\<open>PPATH\<close> of
  \<^verbatim>\<open>include/server_def.h\<close>.

  The code fills \<open>PPATH\<close> with pointers into the request buffer. Here the scan keeps the
  pointers as offsets (\<open>pscan\<close>), and the finished record holds, for each pointer, the C
  string it points to. The parser also writes zeros over the newlines that delimit the
  password, so it returns the changed buffer. \<open>char\<close> is signed on the target.
\<close>

record PPATH =
  fullp :: string
  f_ptr :: string
  f_len :: nat
  d_ptr :: string
  d_len :: nat
  passwd :: "string option"

record pscan =
  state :: nat
  fullp_ix :: nat
  f_ix :: nat
  d_ix :: nat
  dlen :: nat
  pw_ix :: "nat option"
  cuts :: "nat list"
  s_end :: nat

definition schar :: "char \<Rightarrow> int" where
  "schar c = (if (of_char c :: int) < 128 then of_char c else of_char c - 256)"

text \<open>\<open>strrchr\<close>: the offset of the last occurrence.\<close>

fun strrchr :: "string \<Rightarrow> char \<Rightarrow> nat option" where
  "strrchr [] x = None"
| "strrchr (c # cs) x =
     (case strrchr cs x of
        Some i \<Rightarrow> Some (Suc i)
      | None \<Rightarrow> if c = x then Some 0 else None)"

text \<open>The body of the scanning loop at offset \<open>s\<close>, with the rest of the C string.\<close>

fun parse_scan :: "string \<Rightarrow> nat \<Rightarrow> pscan \<Rightarrow> string + pscan" where
  "parse_scan [] s ps = Inr (ps\<lparr> s_end := s \<rparr>)"
| "parse_scan (c # cs) s ps =
     (if c = NL then
        (let p = (case strrchr (c # cs) NL of Some i \<Rightarrow> s + i | None \<Rightarrow> s)
         in Inr (ps\<lparr> pw_ix := Some (p + 1), cuts := [p, s], s_end := s \<rparr>))
      else if schar c < schar CHR '' '' then Inl ''Path contains control chars''
      else if schar c \<ge> schar CHR ''~'' then Inl ''Path contains high chars''
      else if c = CHR 0x5C \<or> c = CHR ''.'' then
        (if state ps = 0 then Inl (''Path can't begin with '.' or '' @ [CHR 0x27, CHR 0x5C, CHR 0x27])
         else if state ps = 2 then Inl (''Files can't begin with '.'' @ [CHR 0x27])
         else parse_scan cs (Suc s) (ps\<lparr> state := 1 \<rparr>))
      else if c = CHR ''/'' then
        (let ps1 = ps\<lparr> f_ix := Suc s \<rparr> in
         parse_scan cs (Suc s)
           (if state ps = 0 then ps1\<lparr> fullp_ix := Suc s, d_ix := Suc s, dlen := 0 \<rparr>
            else if state ps = 1 then ps1\<lparr> dlen := s - fullp_ix ps, state := 2 \<rparr>
            else ps1))
      else parse_scan cs (Suc s) (ps\<lparr> state := 1 \<rparr>))"

fun zero_at :: "char list \<Rightarrow> nat list \<Rightarrow> char list" where
  "zero_at b [] = b"
| "zero_at b (i # is) = zero_at (b[i := NUL]) is"

definition parse_start :: pscan where
  "parse_start = \<lparr> state = 0, fullp_ix = 0, f_ix = 0, d_ix = 0, dlen = 0,
                   pw_ix = None, cuts = [], s_end = 0 \<rparr>"

definition parse_path :: "char list \<Rightarrow> nat \<Rightarrow> string + (PPATH \<times> char list)" where
  "parse_path b len =
     (if len < 1 then Inl ''Path must have non-zero length''
      else if b ! (len - 1) \<noteq> NUL then Inl ''Path must be null terminated''
      else (case parse_scan (cstr b) 0 parse_start of
              Inl e \<Rightarrow> Inl e
            | Inr ps \<Rightarrow>
                (let b' = zero_at b (cuts ps);
                     full = cstr (drop (fullp_ix ps) b');
                     flen = s_end ps - f_ix ps
                 in Inr (\<lparr> fullp = (if full = [] then ''.'' else full),
                           f_ptr = (if flen = 0 then ''.'' else cstr (drop (f_ix ps) b')),
                           f_len = (if flen = 0 then 1 else flen),
                           d_ptr = (if dlen ps = 0 then ''.'' else cstr (drop (d_ix ps) b')),
                           d_len = (if dlen ps = 0 then 1 else dlen ps),
                           passwd = map_option (\<lambda>i. cstr (drop i b')) (pw_ix ps) \<rparr>, b'))))"

subsection \<open>What a path means\<close>

text \<open>
  The specification, without offsets or states: the path is the text before the first
  newline, its leading slashes are dropped, the file is what follows its last slash and the
  directory what precedes the last run of slashes; the password follows the last newline.
\<close>

definition file_part :: "string \<Rightarrow> string" where
  "file_part p = rev (takeWhile (\<lambda>c. c \<noteq> CHR ''/'') (rev p))"

definition dir_part :: "string \<Rightarrow> string" where
  "dir_part p = rev (dropWhile (\<lambda>c. c = CHR ''/'') (dropWhile (\<lambda>c. c \<noteq> CHR ''/'') (rev p)))"

definition dot_empty :: "string \<Rightarrow> string" where
  "dot_empty s = (if s = [] then ''.'' else s)"

definition path_chars :: "string \<Rightarrow> bool" where
  "path_chars p \<longleftrightarrow> (\<forall>c \<in> set p. 32 \<le> (of_char c :: int) \<and> (of_char c :: int) < 126)"

text \<open>No component starts with a dot or a backslash.\<close>

definition no_hidden :: "string \<Rightarrow> bool" where
  "no_hidden p \<longleftrightarrow> (\<forall>i < length p. (p ! i = CHR ''.'' \<or> p ! i = CHR 0x5C) \<longrightarrow>
     0 < i \<and> p ! (i - 1) \<noteq> CHR ''/'')"

definition path_text :: "char list \<Rightarrow> string" where
  "path_text b = takeWhile (\<lambda>c. c \<noteq> NL) (cstr b)"

definition path_password :: "char list \<Rightarrow> string option" where
  "path_password b = (if NL \<in> set (cstr b)
     then Some (rev (takeWhile (\<lambda>c. c \<noteq> NL) (rev (cstr b)))) else None)"

definition path_spec :: "char list \<Rightarrow> PPATH" where
  "path_spec b =
     (let q = dropWhile (\<lambda>c. c = CHR ''/'') (path_text b);
          d = dir_part q; f = file_part q in
      \<lparr> fullp = dot_empty q, f_ptr = dot_empty f, f_len = length (dot_empty f),
        d_ptr = (if d = [] then ''.'' else q), d_len = length (dot_empty d),
        passwd = path_password b \<rparr>)"

subsection \<open>Lists of path characters\<close>

lemma cstr_drop: "k \<le> length (cstr b) \<Longrightarrow> cstr (drop k b) = drop k (cstr b)"
proof (induction b arbitrary: k)
  case Nil
  then show ?case by simp
next
  case (Cons c b)
  then show ?case by (cases k) (auto split: if_splits)
qed

lemma length_cstr_update: "cstr (b[i := NUL]) = (if i < length (cstr b) then take i (cstr b) else cstr b)"
proof (induction b arbitrary: i)
  case Nil
  then show ?case by simp
next
  case (Cons c b)
  then show ?case by (cases i) auto
qed

lemma strrchr_None: "strrchr s x = None \<longleftrightarrow> x \<notin> set s"
  by (induction s) (auto split: option.splits)

lemma strrchr_Some:
  "strrchr s x = Some i \<Longrightarrow> i < length s \<and> s ! i = x \<and>
     drop (Suc i) s = rev (takeWhile (\<lambda>c. c \<noteq> x) (rev s))"
proof (induction s arbitrary: i)
  case Nil
  then show ?case by simp
next
  case (Cons c s)
  show ?case
  proof (cases "strrchr s x")
    case None
    with Cons.prems have "x \<notin> set s" "c = x" "i = 0"
      by (auto simp: strrchr_None split: if_splits)
    moreover from \<open>x \<notin> set s\<close> have "takeWhile (\<lambda>c. c \<noteq> x) (rev s @ [x]) = rev s @ takeWhile (\<lambda>c. c \<noteq> x) [x]"
      by (intro takeWhile_append2) auto
    ultimately show ?thesis by simp
  next
    case (Some j)
    with Cons.prems have i: "i = Suc j" by simp
    from Some have "x \<in> set (rev s)" using strrchr_None by (metis option.distinct(1) set_rev)
    then have "takeWhile (\<lambda>c. c \<noteq> x) (rev s @ [c]) = takeWhile (\<lambda>c. c \<noteq> x) (rev s)"
      by (intro takeWhile_append1) auto
    with Cons.IH [OF Some] i show ?thesis by simp
  qed
qed

lemma file_part_snoc [simp]: "file_part (p @ [c]) = (if c = CHR ''/'' then [] else file_part p @ [c])"
  by (simp add: file_part_def)

lemma dir_part_snoc:
  "dir_part (p @ [c]) = (if c = CHR ''/'' then rev (dropWhile (\<lambda>c. c = CHR ''/'') (rev p)) else dir_part p)"
  by (simp add: dir_part_def)

lemma dir_part_slash1: "p \<noteq> [] \<Longrightarrow> last p \<noteq> CHR ''/'' \<Longrightarrow> dir_part (p @ [CHR ''/'']) = p"
  unfolding dir_part_snoc by (cases p rule: rev_cases) simp_all

lemma dir_part_slash2: "p \<noteq> [] \<Longrightarrow> last p = CHR ''/'' \<Longrightarrow> dir_part (p @ [CHR ''/'']) = dir_part p"
  by (cases p rule: rev_cases) (simp_all add: dir_part_def)

lemma takeWhile_slashes:
  "takeWhile (\<lambda>c. c = CHR ''/'') r = replicate (length (takeWhile (\<lambda>c. c = CHR ''/'') r)) (CHR ''/'')"
  by (induction r) auto

lemma path_parts: "\<exists>n. p = dir_part p @ replicate n (CHR ''/'') @ file_part p \<and>
    (n = 0 \<longrightarrow> dir_part p = [])"
proof -
  define r where "r = dropWhile (\<lambda>c. c \<noteq> CHR ''/'') (rev p)"
  define d where "d = dropWhile (\<lambda>c. c = CHR ''/'') r"
  define n where "n = length (takeWhile (\<lambda>c. c = CHR ''/'') r)"
  have r: "replicate n (CHR ''/'') @ d = r"
    unfolding n_def d_def takeWhile_slashes [symmetric] by (rule takeWhile_dropWhile_id)
  have "rev (rev p) = rev (takeWhile (\<lambda>c. c \<noteq> CHR ''/'') (rev p) @ r)"
    unfolding r_def by (simp only: takeWhile_dropWhile_id)
  then have p: "p = rev r @ file_part p"
    by (simp only: rev_rev_ident rev_append file_part_def)
  have "rev r = rev d @ replicate n (CHR ''/'')"
    using arg_cong [OF r, of rev] by simp
  from p [unfolded this append_assoc] have "p = rev d @ replicate n (CHR ''/'') @ file_part p" .
  moreover have "rev d = dir_part p" by (simp add: d_def r_def dir_part_def)
  moreover have "n = 0 \<longrightarrow> dir_part p = []"
    unfolding n_def dir_part_def r_def [symmetric]
    using hd_dropWhile [of "\<lambda>c. c \<noteq> CHR ''/''" "rev p", folded r_def] by (cases r) auto
  ultimately show ?thesis by auto
qed

lemma length_dir_part: "length (dir_part p) \<le> length p"
  using length_dropWhile_le [of "\<lambda>c. c = CHR ''/''" "dropWhile (\<lambda>c. c \<noteq> CHR ''/'') (rev p)"]
    length_dropWhile_le [of "\<lambda>c. c \<noteq> CHR ''/''" "rev p"]
  by (simp add: dir_part_def)

lemma length_file_part: "length (file_part p) \<le> length p"
  using length_takeWhile_le [of "\<lambda>c. c \<noteq> CHR ''/''" "rev p"] by (simp add: file_part_def)

lemma drop_file_part: "drop (length p - length (file_part p)) p = file_part p"
proof -
  obtain n where "p = (dir_part p @ replicate n (CHR ''/'')) @ file_part p"
    using path_parts [of p] by auto
  then show ?thesis by (metis append_eq_conv_conj length_append add_diff_cancel_right')
qed

lemma path_chars_append [simp]: "path_chars (a @ b) \<longleftrightarrow> path_chars a \<and> path_chars b"
  by (auto simp: path_chars_def)

lemma path_chars_Cons [simp]: "path_chars (c # b) \<longleftrightarrow>
    32 \<le> (of_char c :: int) \<and> (of_char c :: int) < 126 \<and> path_chars b"
  by (auto simp: path_chars_def)

lemma path_chars_Nil [simp]: "path_chars []"
  by (simp add: path_chars_def)

lemma no_hidden_prefix: "no_hidden (a @ b) \<Longrightarrow> no_hidden a"
  unfolding no_hidden_def
proof (intro allI impI)
  fix i
  assume *: "\<forall>i < length (a @ b). ((a @ b) ! i = CHR ''.'' \<or> (a @ b) ! i = CHR 0x5C) \<longrightarrow>
      0 < i \<and> (a @ b) ! (i - 1) \<noteq> CHR ''/''"
    and i: "i < length a" "a ! i = CHR ''.'' \<or> a ! i = CHR 0x5C"
  with * [rule_format, of i] have "0 < i" "(a @ b) ! (i - 1) \<noteq> CHR ''/''"
    by (auto simp: nth_append)
  with i(1) show "0 < i \<and> a ! (i - 1) \<noteq> CHR ''/''" by (auto simp: nth_append split: if_splits)
qed

lemma no_hidden_snoc:
  "no_hidden (a @ [c]) \<longleftrightarrow> no_hidden a \<and>
     ((c = CHR ''.'' \<or> c = CHR 0x5C) \<longrightarrow> a \<noteq> [] \<and> last a \<noteq> CHR ''/'')"
proof
  assume h: "no_hidden (a @ [c])"
  then have "(c = CHR ''.'' \<or> c = CHR 0x5C) \<longrightarrow> 0 < length a \<and> (a @ [c]) ! (length a - 1) \<noteq> CHR ''/''"
    unfolding no_hidden_def by (metis length_append_singleton lessI nth_append_length)
  with no_hidden_prefix [OF h] show "no_hidden a \<and>
     ((c = CHR ''.'' \<or> c = CHR 0x5C) \<longrightarrow> a \<noteq> [] \<and> last a \<noteq> CHR ''/'')"
    by (auto simp: nth_append last_conv_nth)
next
  assume "no_hidden a \<and> ((c = CHR ''.'' \<or> c = CHR 0x5C) \<longrightarrow> a \<noteq> [] \<and> last a \<noteq> CHR ''/'')"
  then show "no_hidden (a @ [c])"
    unfolding no_hidden_def by (auto simp: nth_append last_conv_nth less_Suc_eq)
qed

lemma schar_range:
  "\<not> schar c < schar CHR '' '' \<and> \<not> schar c \<ge> schar CHR ''~'' \<longleftrightarrow>
     32 \<le> (of_char c :: int) \<and> (of_char c :: int) < 126"
proof -
  have "(of_char c :: int) < 256" by (metis nat_of_char_less_256 of_nat_less_numeral_iff of_nat_of_char)
  then show ?thesis by (auto simp: schar_def)
qed

subsection \<open>The scan computes the specification\<close>

definition scan_inv :: "string \<Rightarrow> pscan \<Rightarrow> bool" where
  "scan_inv pre ps \<longleftrightarrow>
     (let q = dropWhile (\<lambda>c. c = CHR ''/'') pre in
      state ps = (if q = [] then 0 else if last pre = CHR ''/'' then 2 else 1) \<and>
      fullp_ix ps = length pre - length q \<and> d_ix ps = fullp_ix ps \<and>
      dlen ps = length (dir_part q) \<and> f_ix ps = length pre - length (file_part q) \<and>
      pw_ix ps = None \<and> cuts ps = [])"

lemma scan_inv_start: "scan_inv [] parse_start"
  by (simp add: scan_inv_def parse_start_def dir_part_def file_part_def)

lemma dropWhile_snoc:
  "dropWhile P (xs @ [c]) = (if dropWhile P xs = [] then (if P c then [] else [c]) else dropWhile P xs @ [c])"
  by (induction xs) auto

lemma last_dropWhile: "dropWhile P xs \<noteq> [] \<Longrightarrow> last (dropWhile P xs) = last xs"
  by (induction xs) (auto split: if_splits)

lemma length_dropWhile_file: "length (file_part (dropWhile P pre)) \<le> length pre"
  using length_file_part [of "dropWhile P pre"] length_dropWhile_le [of P pre] by simp

lemma scan_invD:
  assumes "scan_inv pre ps" and "q = dropWhile (\<lambda>c. c = CHR ''/'') pre"
  shows "state ps = (if q = [] then 0 else if last pre = CHR ''/'' then 2 else 1)"
    "fullp_ix ps = length pre - length q" "d_ix ps = length pre - length q"
    "dlen ps = length (dir_part q)" "f_ix ps = length pre - length (file_part q)"
    "pw_ix ps = None" "cuts ps = []" "length q \<le> length pre" "length (file_part q) \<le> length q"
  using assms length_dropWhile_le [of "\<lambda>c. c = CHR ''/''" pre] length_file_part [of q]
  unfolding scan_inv_def Let_def by simp_all

lemma scan_invI:
  assumes "q = dropWhile (\<lambda>c. c = CHR ''/'') pre"
    "state ps = (if q = [] then 0 else if last pre = CHR ''/'' then 2 else 1)"
    "fullp_ix ps = length pre - length q" "d_ix ps = length pre - length q"
    "dlen ps = length (dir_part q)" "f_ix ps = length pre - length (file_part q)"
    "pw_ix ps = None" "cuts ps = []"
  shows "scan_inv pre ps"
  using assms unfolding scan_inv_def Let_def by simp

lemma scan_inv_plain:
  assumes inv: "scan_inv pre ps" and c: "c \<noteq> CHR ''/''"
  shows "scan_inv (pre @ [c]) (ps\<lparr> state := 1 \<rparr>)"
proof -
  define q where "q = dropWhile (\<lambda>c. c = CHR ''/'') pre"
  note D = scan_invD [OF inv q_def]
  have q': "dropWhile (\<lambda>c. c = CHR ''/'') (pre @ [c]) = q @ [c]"
    using c by (simp add: dropWhile_snoc q_def)
  show ?thesis
    by (rule scan_invI [OF q' [symmetric]]) (use D c in \<open>simp_all add: dir_part_snoc\<close>)
qed

lemma scan_inv_slash:
  assumes inv: "scan_inv pre ps"
  shows "scan_inv (pre @ [CHR ''/''])
    (let ps1 = ps\<lparr> f_ix := Suc (length pre) \<rparr> in
     if state ps = 0 then ps1\<lparr> fullp_ix := Suc (length pre), d_ix := Suc (length pre), dlen := 0 \<rparr>
     else if state ps = 1 then ps1\<lparr> dlen := length pre - fullp_ix ps, state := 2 \<rparr>
     else ps1)"
proof -
  define q where "q = dropWhile (\<lambda>c. c = CHR ''/'') pre"
  note D = scan_invD [OF inv q_def]
  show ?thesis
  proof (cases "q = []")
    case True
    then have q': "dropWhile (\<lambda>c. c = CHR ''/'') (pre @ [CHR ''/'']) = []"
      by (simp add: dropWhile_snoc q_def)
    show ?thesis
      by (rule scan_invI [OF q' [symmetric]])
        (use D True in \<open>simp_all add: Let_def dir_part_def file_part_def\<close>)
  next
    case False
    then have q': "dropWhile (\<lambda>c. c = CHR ''/'') (pre @ [CHR ''/'']) = q @ [CHR ''/'']"
      by (simp add: dropWhile_snoc q_def)
    have last: "last q = last pre" using False unfolding q_def by (rule last_dropWhile)
    show ?thesis
    proof (cases "last pre = CHR ''/''")
      case True
      with last dir_part_slash2 [OF False]
      have "dir_part (q @ [CHR ''/'']) = dir_part q" by simp
      with True False D show ?thesis
        by (intro scan_invI [OF q' [symmetric]]) (simp_all add: Let_def)
    next
      case slash: False
      with last dir_part_slash1 [OF False] have "dir_part (q @ [CHR ''/'']) = q" by simp
      with slash False D show ?thesis
        by (intro scan_invI [OF q' [symmetric]]) (simp_all add: Let_def)
    qed
  qed
qed

text \<open>The first newline and the text after the last one.\<close>

definition scan_result :: "string \<Rightarrow> string \<Rightarrow> pscan \<Rightarrow> bool" where
  "scan_result pre cs ps' \<longleftrightarrow>
     (let p = takeWhile (\<lambda>c. c \<noteq> NL) cs; n = length pre + length p in
      path_chars (pre @ p) \<and> no_hidden (pre @ p) \<and>
      (\<exists>ps0. scan_inv (pre @ p) ps0 \<and>
         ps' = (case strrchr cs NL of
                  None \<Rightarrow> ps0\<lparr> s_end := n \<rparr>
                | Some i \<Rightarrow> ps0\<lparr> pw_ix := Some (length pre + i + 1),
                                 cuts := [length pre + i, n], s_end := n \<rparr>)))"

lemma scan_result_step:
  assumes "c \<noteq> NL" "scan_result (pre @ [c]) cs ps'"
  shows "scan_result pre (c # cs) ps'"
  using assms by (auto simp: scan_result_def Let_def split: option.splits)

lemma parse_scan_correct:
  "scan_inv pre ps \<Longrightarrow> path_chars pre \<Longrightarrow> no_hidden pre \<Longrightarrow>
   (case parse_scan cs (length pre) ps of
      Inl e \<Rightarrow> \<not> (path_chars (pre @ takeWhile (\<lambda>c. c \<noteq> NL) cs) \<and>
                no_hidden (pre @ takeWhile (\<lambda>c. c \<noteq> NL) cs))
    | Inr ps' \<Rightarrow> scan_result pre cs ps')"
proof (induction cs arbitrary: pre ps)
  case Nil
  then show ?case by (auto simp: scan_result_def Let_def)
next
  case (Cons c cs)
  show ?case
  proof (cases "c = NL")
    case True
    then obtain i where "strrchr (c # cs) NL = Some i"
      using strrchr_None [of "c # cs" NL] by (cases "strrchr (c # cs) NL") (auto simp del: strrchr.simps)
    with True Cons.prems show ?thesis by (auto simp: scan_result_def Let_def)
  next
    case c: False
    define hidden where "hidden \<longleftrightarrow> c = CHR ''.'' \<or> c = CHR 0x5C"
    have step: ?thesis
      if range: "32 \<le> (of_char c :: int) \<and> (of_char c :: int) < 126"
        and ok: "hidden \<longrightarrow> pre \<noteq> [] \<and> last pre \<noteq> CHR ''/''"
        and inv: "scan_inv (pre @ [c]) ps1"
        and eq: "parse_scan (c # cs) (length pre) ps = parse_scan cs (Suc (length pre)) ps1" for ps1
    proof -
      have "path_chars (pre @ [c])" "no_hidden (pre @ [c])"
        using Cons.prems range ok by (simp_all add: no_hidden_snoc hidden_def)
      from Cons.IH [OF inv this] eq c show ?thesis
        by (auto intro: scan_result_step split: sum.splits)
    qed
    show ?thesis
    proof (cases "32 \<le> (of_char c :: int) \<and> (of_char c :: int) < 126")
      case False
      then have "schar c < schar CHR '' '' \<or> schar CHR ''~'' \<le> schar c"
        using schar_range [of c] by blast
      with c have "\<exists>e. parse_scan (c # cs) (length pre) ps = Inl e"
        by (cases "schar c < schar CHR '' ''") simp_all
      then obtain e where e: "parse_scan (c # cs) (length pre) ps = Inl e" ..
      have "\<not> path_chars (pre @ takeWhile (\<lambda>c. c \<noteq> NL) (c # cs))" using False c by auto
      then show ?thesis unfolding e sum.case by blast
    next
      case range: True
      with schar_range [of c] have guard: "\<not> schar c < schar CHR '' ''" "\<not> schar c \<ge> schar CHR ''~''"
        by auto
      have state: "state ps = (if dropWhile (\<lambda>c. c = CHR ''/'') pre = [] then 0
                         else if last pre = CHR ''/'' then 2 else 1)"
        by (rule scan_invD(1) [OF Cons.prems(1) refl])
      show ?thesis
      proof (cases "hidden \<and> (pre = [] \<or> last pre = CHR ''/'')")
        case True
        then have "\<not> no_hidden (pre @ [c])" by (auto simp: no_hidden_snoc hidden_def)
        then have bad: "\<not> no_hidden (pre @ takeWhile (\<lambda>c. c \<noteq> NL) (c # cs))"
          using c no_hidden_prefix [of "pre @ [c]" "takeWhile (\<lambda>c. c \<noteq> NL) cs"] by auto
        have "\<exists>e. parse_scan (c # cs) (length pre) ps = Inl e"
        proof -
          have "state ps = 0 \<or> state ps = 2" using True state by auto
          moreover have "c = CHR 0x5C \<or> c = CHR ''.''" using True by (auto simp: hidden_def)
          ultimately show ?thesis using c guard by (elim disjE) simp_all
        qed
        then obtain e where e: "parse_scan (c # cs) (length pre) ps = Inl e" ..
        show ?thesis unfolding e sum.case using bad by blast
      next
        case ok: False
        show ?thesis
        proof (cases "c = CHR ''/''")
          case True
          note inv = scan_inv_slash [OF Cons.prems(1), folded True]
          have "parse_scan (c # cs) (length pre) ps = parse_scan cs (Suc (length pre))
              (let ps1 = ps\<lparr> f_ix := Suc (length pre) \<rparr> in
               if state ps = 0 then ps1\<lparr> fullp_ix := Suc (length pre), d_ix := Suc (length pre), dlen := 0 \<rparr>
               else if state ps = 1 then ps1\<lparr> dlen := length pre - fullp_ix ps, state := 2 \<rparr>
               else ps1)"
            using c guard True by (simp add: Let_def)
          from step [OF range _ inv this] True show ?thesis by (simp only: hidden_def) auto
        next
          case ns: False
          have "hidden \<longrightarrow> state ps = 1"
            using ok state
            by (auto simp: dropWhile_eq_Nil_conv dest: last_in_set)
          then have "parse_scan (c # cs) (length pre) ps = parse_scan cs (Suc (length pre)) (ps\<lparr> state := 1 \<rparr>)"
            using c guard ns by (cases hidden) (auto simp: hidden_def)
          from step [OF range _ scan_inv_plain [OF Cons.prems(1) ns] this] ok show ?thesis by auto
        qed
      qed
    qed
  qed
qed

subsection \<open>The parser meets the specification\<close>

definition acceptable :: "char list \<Rightarrow> nat \<Rightarrow> bool" where
  "acceptable b len \<longleftrightarrow> 1 \<le> len \<and> b ! (len - 1) = NUL \<and>
     path_chars (path_text b) \<and> no_hidden (path_text b)"

lemma drop_dropWhile_length: "drop (length p - length (dropWhile P p)) p = dropWhile P p"
  by (metis append_eq_conv_conj diff_add_inverse2 length_append takeWhile_dropWhile_id)

lemma drop_file_part_dropWhile:
  "drop (length p - length (file_part (dropWhile P p))) p = file_part (dropWhile P p)"
proof -
  define q where "q = dropWhile P p"
  have lq: "length q \<le> length p" unfolding q_def by (rule length_dropWhile_le)
  have lf: "length (file_part q) \<le> length q" by (rule length_file_part)
  have "length p - length (file_part q) = (length q - length (file_part q)) + (length p - length q)"
    using lq lf by simp
  then have "drop (length p - length (file_part q)) p =
      drop (length q - length (file_part q)) (drop (length p - length q) p)" by simp
  also have "drop (length p - length q) p = q" unfolding q_def by (rule drop_dropWhile_length)
  also have "drop (length q - length (file_part q)) q = file_part q" by (rule drop_file_part)
  finally show ?thesis unfolding q_def .
qed

lemma cut_text:
  assumes "strrchr (cstr b) NL = Some i"
  shows "cstr (zero_at b [i, length (path_text b)]) = path_text b"
    and "cstr (drop (Suc i) (zero_at b [i, length (path_text b)])) =
         rev (takeWhile (\<lambda>c. c \<noteq> NL) (rev (cstr b)))"
proof -
  define t where "t = cstr b"
  define n where "n = length (path_text b)"
  have i: "i < length t" "t ! i = NL" "drop (Suc i) t = rev (takeWhile (\<lambda>c. c \<noteq> NL) (rev t))"
    using strrchr_Some [OF assms] unfolding t_def by simp_all
  have n: "path_text b = take n t"
    unfolding path_text_def n_def t_def by (rule takeWhile_eq_take)
  have "n \<le> i"
  proof (rule ccontr)
    assume "\<not> n \<le> i"
    then have "i < length (path_text b)" by (simp add: n_def)
    moreover from this have "path_text b ! i = NL"
      using i(2) unfolding path_text_def t_def [symmetric] by (simp add: takeWhile_nth)
    ultimately have "NL \<in> set (path_text b)" by (metis nth_mem)
    then show False unfolding path_text_def by (auto dest: set_takeWhileD)
  qed
  then show "cstr (zero_at b [i, length (path_text b)]) = path_text b"
    using i(1) unfolding n_def [symmetric] n by (auto simp: length_cstr_update t_def [symmetric])
  have "drop (Suc i) (zero_at b [i, n]) = drop (Suc i) b"
    using \<open>n \<le> i\<close> by simp
  then show "cstr (drop (Suc i) (zero_at b [i, length (path_text b)])) =
         rev (takeWhile (\<lambda>c. c \<noteq> NL) (rev (cstr b)))"
    using i(1,3) by (simp add: n_def [symmetric] cstr_drop t_def [symmetric])
qed

text \<open>What the pointers of a finished scan denote in the buffer the parser leaves.\<close>

lemma scan_pointers:
  assumes inv: "scan_inv p ps" and b: "cstr b = p" and q: "q = dropWhile (\<lambda>c. c = CHR ''/'') p"
  shows "cstr (drop (fullp_ix ps) b) = q" "cstr (drop (d_ix ps) b) = q"
    "cstr (drop (f_ix ps) b) = file_part q" "length p - f_ix ps = length (file_part q)"
    "dlen ps = length (dir_part q)"
  using scan_invD [OF inv q] cstr_drop [of "length p - length q" b]
    cstr_drop [of "length p - length (file_part q)" b] b q
    drop_dropWhile_length [of p "\<lambda>c. c = CHR ''/''"] drop_file_part_dropWhile [of p "\<lambda>c. c = CHR ''/''"]
  by simp_all

lemma parse_path_scan:
  assumes ok: "parse_scan (cstr b) 0 parse_start = Inr ps"
    and len: "1 \<le> len" "b ! (len - 1) = NUL"
  shows "\<exists>b'. parse_path b len = Inr (path_spec b, b')"
proof -
  define p where "p = path_text b"
  define q where "q = dropWhile (\<lambda>c. c = CHR ''/'') p"
  have "scan_result [] (cstr b) ps"
    using parse_scan_correct [OF scan_inv_start, of "cstr b"] ok by (simp add: no_hidden_def)
  then obtain ps0 where inv: "scan_inv p ps0" and
    ps: "ps = (case strrchr (cstr b) NL of
                  None \<Rightarrow> ps0\<lparr> s_end := length p \<rparr>
                | Some i \<Rightarrow> ps0\<lparr> pw_ix := Some (i + 1), cuts := [i, length p], s_end := length p \<rparr>)"
    unfolding scan_result_def Let_def p_def path_text_def append_Nil list.size add_0 by blast
  note none = scan_invD(6,7) [OF inv q_def]
  define b' where "b' = zero_at b (cuts ps)"
  have whole: "cstr b' = p" and pw: "map_option (\<lambda>i. cstr (drop i b')) (pw_ix ps) = path_password b"
    and flds: "fullp_ix ps = fullp_ix ps0" "d_ix ps = d_ix ps0" "f_ix ps = f_ix ps0"
      "dlen ps = dlen ps0" "s_end ps = length p"
  proof -
    have "cstr b' = p \<and> map_option (\<lambda>i. cstr (drop i b')) (pw_ix ps) = path_password b"
    proof (cases "strrchr (cstr b) NL")
      case None
      then have "NL \<notin> set (cstr b)" by (simp add: strrchr_None)
      moreover from this have "p = cstr b" unfolding p_def path_text_def by (auto simp: takeWhile_eq_all_conv)
      ultimately show ?thesis using None ps none by (simp add: b'_def path_password_def)
    next
      case (Some i)
      then have "NL \<in> set (cstr b)" using strrchr_None [of "cstr b" NL] by auto
      with cut_text [OF Some] Some ps show ?thesis
        by (simp add: b'_def path_password_def p_def del: zero_at.simps)
    qed
    then show "cstr b' = p" "map_option (\<lambda>i. cstr (drop i b')) (pw_ix ps) = path_password b" by auto
  qed (auto simp: ps split: option.splits)
  note ptr = scan_pointers [OF inv whole q_def]
  have "parse_path b len = Inr (path_spec b, b')"
    using len ok pw ptr unfolding parse_path_def path_spec_def Let_def p_def [symmetric] q_def [symmetric]
    by (simp add: b'_def [symmetric] flds dot_empty_def)
  then show ?thesis ..
qed

lemma parse_path_Inl_iff:
  "(\<exists>e. parse_path b len = Inl e) \<longleftrightarrow> \<not> acceptable b len"
proof (cases "1 \<le> len \<and> b ! (len - 1) = NUL")
  case False
  then show ?thesis by (auto simp: parse_path_def acceptable_def)
next
  case len: True
  show ?thesis
  proof (cases "parse_scan (cstr b) 0 parse_start")
    case (Inl e)
    with parse_scan_correct [OF scan_inv_start, of "cstr b"]
    have "\<not> (path_chars (path_text b) \<and> no_hidden (path_text b))"
      by (simp add: no_hidden_def path_text_def)
    with Inl len show ?thesis by (auto simp: parse_path_def acceptable_def)
  next
    case (Inr ps)
    with parse_scan_correct [OF scan_inv_start, of "cstr b"] have "scan_result [] (cstr b) ps"
      by (simp add: no_hidden_def)
    then have "acceptable b len"
      using len unfolding scan_result_def Let_def acceptable_def path_text_def by auto
    moreover obtain b' where "parse_path b len = Inr (path_spec b, b')"
      using parse_path_scan [OF Inr] len by blast
    ultimately show ?thesis by simp
  qed
qed

lemma parse_path_Inr: "parse_path b len = Inr (pp, b') \<Longrightarrow> pp = path_spec b \<and> acceptable b len"
proof -
  assume *: "parse_path b len = Inr (pp, b')"
  then have acc: "acceptable b len" using parse_path_Inl_iff [of b len] by auto
  from * obtain ps where "parse_scan (cstr b) 0 parse_start = Inr ps"
    by (auto simp: parse_path_def split: if_splits sum.splits)
  from parse_path_scan [OF this] acc obtain c where "parse_path b len = Inr (path_spec b, c)"
    unfolding acceptable_def by blast
  with acc * show ?thesis by simp
qed

text \<open>C5: the path parser accepts exactly the non-empty zero-terminated paths of printable
  characters in which no component starts with a dot or a backslash, and what it computes for
  them with its one-pass state machine is the specification \<open>path_spec\<close>: full path, file
  and directory part with their lengths, and password; every other input is an error.\<close>

theorem parse_path_correct:
  "(acceptable b len \<and> (\<exists>b'. parse_path b len = Inr (path_spec b, b')))
    \<or> (\<not> acceptable b len \<and> (\<exists>e. parse_path b len = Inl e))"
proof (cases "parse_path b len")
  case (Inl e)
  then show ?thesis using parse_path_Inl_iff [of b len] by auto
next
  case (Inr r)
  then show ?thesis using parse_path_Inr [of b len "fst r" "snd r"] by (cases r) auto
qed

subsection \<open>Containment\<close>

text \<open>The components of a path.\<close>

fun components :: "string \<Rightarrow> string list" where
  "components [] = [[]]"
| "components (c # cs) =
     (if c = CHR ''/'' then [] # components cs
      else (case components cs of [] \<Rightarrow> [[c]] | w # ws \<Rightarrow> (c # w) # ws))"

definition visible :: "string \<Rightarrow> bool" where
  "visible w \<longleftrightarrow> w \<noteq> [] \<longrightarrow> hd w \<noteq> CHR ''.'' \<and> hd w \<noteq> CHR 0x5C"

lemma components_not_Nil [simp]: "components p \<noteq> []"
  by (cases p) (auto split: list.splits)

lemma components_hd_Nil: "hd (components p) = [] \<longleftrightarrow> p = [] \<or> hd p = CHR ''/''"
  by (cases p) (auto split: list.splits)

lemma no_hidden_components_aux:
  "(\<forall>i < length p. (p ! i = CHR ''.'' \<or> p ! i = CHR 0x5C) \<longrightarrow> 0 < i \<longrightarrow> p ! (i - 1) \<noteq> CHR ''/'')
    \<longrightarrow> (\<forall>w \<in> set (tl (components p)). visible w)"
proof (induction p)
  case Nil
  then show ?case by simp
next
  case (Cons c p)
  show ?case
  proof (intro impI)
    assume h: "\<forall>i < length (c # p). ((c # p) ! i = CHR ''.'' \<or> (c # p) ! i = CHR 0x5C) \<longrightarrow>
        0 < i \<longrightarrow> (c # p) ! (i - 1) \<noteq> CHR ''/''"
    have "\<forall>i < length p. (p ! i = CHR ''.'' \<or> p ! i = CHR 0x5C) \<longrightarrow> 0 < i \<longrightarrow> p ! (i - 1) \<noteq> CHR ''/''"
    proof (intro allI impI)
      fix i assume "i < length p" "p ! i = CHR ''.'' \<or> p ! i = CHR 0x5C" "0 < i"
      then show "p ! (i - 1) \<noteq> CHR ''/''" using h [rule_format, of "Suc i"] by (cases i) auto
    qed
    with Cons.IH have tl: "\<forall>w \<in> set (tl (components p)). visible w" by blast
    have "visible (hd (components p))" if "c = CHR ''/''"
      using h [rule_format, of 1] that by (cases p) (auto simp: visible_def split: list.splits)
    with tl show "\<forall>w \<in> set (tl (components (c # p))). visible w"
      by (cases "components p") auto
  qed
qed

lemma no_hidden_components:
  assumes "no_hidden p" "w \<in> set (components p)"
  shows "visible w"
proof -
  have "\<forall>w \<in> set (tl (components p)). visible w"
    using assms(1) no_hidden_components_aux [of p] by (auto simp: no_hidden_def)
  moreover have "visible (hd (components p))"
    using assms(1) by (cases p) (auto simp: no_hidden_def visible_def split: list.splits)
  ultimately show ?thesis using assms(2) by (cases "components p") auto
qed

lemma no_hidden_dropWhile_slash: "no_hidden p \<Longrightarrow> no_hidden (dropWhile (\<lambda>c. c = CHR ''/'') p)"
proof (induction p)
  case (Cons c p)
  have "no_hidden p" if "c = CHR ''/''"
    unfolding no_hidden_def
  proof (intro allI impI)
    fix i assume "i < length p" "p ! i = CHR ''.'' \<or> p ! i = CHR 0x5C"
    then show "0 < i \<and> p ! (i - 1) \<noteq> CHR ''/''"
      using Cons.prems [unfolded no_hidden_def, rule_format, of "Suc i"] that by (cases i) auto
  qed
  with Cons show ?case by auto
qed simp

text \<open>C4: whatever octets a client sends, an accepted path is relative and stays below the
  directory it is resolved in: it is the root ``.'', or it does not start with a slash and none
  of its components starts with a dot or a backslash, so none is ``..''; all its characters are
  printable.\<close>

theorem accepted_path_contained:
  assumes "parse_path b len = Inr (pp, b')"
  shows "(fullp pp = ''.'' \<or>
          fullp pp \<noteq> [] \<and> hd (fullp pp) \<noteq> CHR ''/'' \<and> (\<forall>w \<in> set (components (fullp pp)). visible w))
       \<and> ''..'' \<notin> set (components (fullp pp)) \<and> path_chars (fullp pp)"
proof -
  define q where "q = dropWhile (\<lambda>c. c = CHR ''/'') (path_text b)"
  have pp: "fullp pp = dot_empty q" and acc: "acceptable b len"
    using parse_path_Inr [OF assms] by (simp_all add: path_spec_def Let_def q_def)
  have nh: "no_hidden q" using acc by (simp add: acceptable_def q_def no_hidden_dropWhile_slash)
  have pc: "path_chars q"
    using acc by (auto simp: acceptable_def q_def path_chars_def dest: set_dropWhileD)
  have hd: "q \<noteq> [] \<longrightarrow> hd q \<noteq> CHR ''/''"
    using hd_dropWhile [of "\<lambda>c. c = CHR ''/''" "path_text b"] by (auto simp: q_def)
  have vis: "\<forall>w \<in> set (components q). visible w" using no_hidden_components [OF nh] by blast
  then have dd: "''..'' \<notin> set (components q)" by (auto simp: visible_def)
  show ?thesis
  proof (cases "q = []")
    case True
    then show ?thesis by (simp add: pp dot_empty_def)
  next
    case False
    then have "fullp pp = q" by (simp add: pp dot_empty_def)
    with False hd vis dd pc show ?thesis by blast
  qed
qed

theorem accepted_path_contained_witness:
  "\<exists>pp b'. parse_path (''/pub//x\<newline>pw'' @ [NUL]) 11 = Inr (pp, b') \<and> fullp pp = ''pub//x'' \<and>
     ''..'' \<notin> set (components (fullp pp))"
proof -
  obtain pp b' where *: "parse_path (''/pub//x\<newline>pw'' @ [NUL]) 11 = Inr (pp, b') \<and> fullp pp = ''pub//x''"
    by (simp add: parse_path_def parse_start_def schar_def Let_def)
  with accepted_path_contained [of "''/pub//x\<newline>pw'' @ [NUL]" 11 pp b'] show ?thesis by blast
qed

text \<open>An accepted path other than the root is its directory part, one or more slashes and
  its file name (no slash at all exactly when there is no directory part); an empty part is
  reported as ``.'', the directory part never ends in a slash, the file name holds none, and the
  lengths are those of the parts.\<close>

theorem accepted_path_splits:
  assumes "parse_path b len = Inr (pp, b')" and "fullp pp \<noteq> ''.''"
  shows "\<exists>d n f. fullp pp = d @ replicate n (CHR ''/'') @ f \<and> (n = 0 \<longleftrightarrow> d = []) \<and>
     (d \<noteq> [] \<longrightarrow> last d \<noteq> CHR ''/'') \<and> CHR ''/'' \<notin> set f \<and>
     f_ptr pp = dot_empty f \<and> f_len pp = length (f_ptr pp) \<and>
     take (d_len pp) (d_ptr pp) = dot_empty d \<and> d_len pp = length (dot_empty d)"
proof -
  define q where "q = dropWhile (\<lambda>c. c = CHR ''/'') (path_text b)"
  have pp: "pp = path_spec b" using parse_path_Inr [OF assms(1)] by simp
  then have full: "fullp pp = q"
    using assms(2) by (simp add: path_spec_def Let_def q_def dot_empty_def split: if_splits)
  obtain n where split: "q = dir_part q @ replicate n (CHR ''/'') @ file_part q"
    and n: "n = 0 \<longrightarrow> dir_part q = []"
    using path_parts [of q] by auto
  have "dir_part q \<noteq> []" if "n \<noteq> 0"
  proof
    assume "dir_part q = []"
    with that obtain m where "q = CHR ''/'' # replicate m (CHR ''/'') @ file_part q"
      using split by (cases n) auto
    then have "q \<noteq> [] \<and> hd q = CHR ''/''" by (metis list.sel(1) list.distinct(1))
    then show False using hd_dropWhile [of "\<lambda>c. c = CHR ''/''" "path_text b"] by (auto simp: q_def)
  qed
  moreover have "last (dir_part q) \<noteq> CHR ''/''" if "dir_part q \<noteq> []"
    using that hd_dropWhile [of "\<lambda>c. c = CHR ''/''" "dropWhile (\<lambda>c. c \<noteq> CHR ''/'') (rev q)"]
    unfolding dir_part_def by (simp add: last_rev)
  moreover have "CHR ''/'' \<notin> set (file_part q)" by (auto simp: file_part_def dest: set_takeWhileD)
  moreover have "f_ptr pp = dot_empty (file_part q)" "f_len pp = length (f_ptr pp)"
    "d_len pp = length (dot_empty (dir_part q))"
    unfolding pp path_spec_def Let_def q_def [symmetric] by simp_all
  moreover have "take (d_len pp) (d_ptr pp) = dot_empty (dir_part q)"
  proof -
    have "take (length (dir_part q)) q = dir_part q" by (metis split append_eq_conv_conj)
    then show ?thesis
      unfolding pp path_spec_def Let_def q_def [symmetric] by (simp add: dot_empty_def)
  qed
  ultimately show ?thesis using split n unfolding full
    by (intro exI [of _ "dir_part q"] exI [of _ n] exI [of _ "file_part q"] conjI) (assumption | blast)+
qed

theorem accepted_path_splits_witness:
  "\<exists>pp b' d n f. parse_path (''a//b'' @ [NUL]) 5 = Inr (pp, b') \<and> fullp pp = ''a//b'' \<and>
     fullp pp = d @ replicate n (CHR ''/'') @ f \<and> f_ptr pp = dot_empty f"
proof -
  obtain pp b' where *: "parse_path (''a//b'' @ [NUL]) 5 = Inr (pp, b')" "fullp pp = ''a//b''"
    by (simp add: parse_path_def parse_start_def schar_def Let_def)
  from accepted_path_splits [OF *(1)] *(2) have "\<exists>d n f. fullp pp = d @ replicate n (CHR ''/'') @ f \<and> f_ptr pp = dot_empty f"
    by auto
  with * show ?thesis by blast
qed

end
