(* ===== verification/IpRange.thy ===== *)
theory IpRange
  imports FspPrelude "HOL-Library.Multiset"
begin

text \<open>
  Host rules: \<^verbatim>\<open>server/iprange.c\<close>. A rule (\<open>IPrange\<close>) is a range per octet and a text
  whose first character is the host type; a table is an array of rules ended by one whose text
  is null, here the list of its rules with that end mark (the null table is the empty list).

  The arrays \<open>lo\<close> and \<open>hi\<close> are lists of four octets, index 3 for the first octet of a dotted
  quad, as \<open>parse_ipnumber\<close> fills them. The resolver \<open>gethostbyname\<close> is the parameter \<open>dns\<close>;
  it returns the first address in network byte order, as the 32-bit value a little-endian
  machine loads.
\<close>

record IPrange =
  lo :: "byte list"
  hi :: "byte list"
  rtext :: "string option"

type_synonym resolver = "string \<Rightarrow> u32 option"

definition octet :: "nat \<Rightarrow> u32 \<Rightarrow> byte" where
  "octet k n = ucast (drop_bit (8 * k) (n AND push_bit (8 * k) 0xff))"

definition ntohl :: "u32 \<Rightarrow> u32" where
  "ntohl n = BB_READ4 (octet 0 n, octet 1 n, octet 2 n, octet 3 n)"

definition octets :: "u32 \<Rightarrow> byte list" where
  "octets n = [octet 0 n, octet 1 n, octet 2 n, octet 3 n]"

definition check_ip :: "u32 \<Rightarrow> IPrange \<Rightarrow> string option" where
  "check_ip inet_num r =
     (let val = octets (ntohl inet_num)
      in if list_ex (\<lambda>j. lo r ! j > val ! j \<or> val ! j > hi r ! j) [0, 1, 2, 3]
         then None else rtext r)"

fun check_ip_table :: "u32 \<Rightarrow> IPrange list \<Rightarrow> string option" where
  "check_ip_table inet_num [] = None"
| "check_ip_table inet_num (r # table) =
     (if rtext r = None then None
      else (case check_ip inet_num r of
              Some t \<Rightarrow> Some t
            | None \<Rightarrow> check_ip_table inet_num table))"

text \<open>The texts \<open>free_ip_table\<close> releases: the pointer is advanced before the first look.\<close>

fun free_texts :: "IPrange list \<Rightarrow> string list" where
  "free_texts [] = []"
| "free_texts (r # table) =
     (case rtext r of None \<Rightarrow> [] | Some t \<Rightarrow> t # free_texts table)"

definition free_ip_table :: "IPrange list \<Rightarrow> string list" where
  "free_ip_table table = (if table = [] then [] else free_texts (tl table))"

text \<open>The digit loop, in \<open>unsigned long\<close>.\<close>

fun ip_digits :: "u64 \<Rightarrow> string \<Rightarrow> u64 \<times> string" where
  "ip_digits val [] = (val, [])"
| "ip_digits val (c # cs) =
     (if isdigit c then ip_digits (10 * val + of_nat (of_char c - 48)) cs else (val, c # cs))"

text \<open>The text pointer becomes null on an error.\<close>

definition parse_ipcomponentnum :: "string \<Rightarrow> byte \<times> string option" where
  "parse_ipcomponentnum s =
     (if s = [] \<or> \<not> isdigit (hd s) then (0, None)
      else (let (val, r) = ip_digits 0 s
            in if val > 0xff then (0, None) else (ucast val, Some r)))"

definition parse_ipcomponent :: "string \<Rightarrow> (string \<times> byte \<times> byte) option" where
  "parse_ipcomponent s =
     (if s \<noteq> [] \<and> hd s = CHR ''*'' then Some (tl s, 0, 0xff)
      else (case parse_ipcomponentnum s of
              (_, None) \<Rightarrow> None
            | (l, Some r) \<Rightarrow>
                (if r \<noteq> [] \<and> hd r = CHR ''-''
                 then (case parse_ipcomponentnum (tl r) of
                         (_, None) \<Rightarrow> None
                       | (h, Some r') \<Rightarrow> Some (r', l, h))
                 else Some (r, l, l))))"

text \<open>The loop of \<open>parse_ipnumber\<close> with \<open>i + 1\<close> octets to go, and the fill of the rest.\<close>

fun fill_gaps :: "nat \<Rightarrow> IPrange \<Rightarrow> IPrange" where
  "fill_gaps 0 r = r"
| "fill_gaps (Suc i) r = fill_gaps i (r\<lparr> lo := (lo r)[i := 0], hi := (hi r)[i := 0xff] \<rparr>)"

fun ip_fields :: "nat \<Rightarrow> string \<Rightarrow> IPrange \<Rightarrow> IPrange option" where
  "ip_fields 0 s r = Some r"
| "ip_fields (Suc i) s r =
     (if s \<noteq> [] \<and> isspace (hd s) then Some (fill_gaps (Suc i) r)
      else if i < 3 \<and> (s = [] \<or> hd s \<noteq> CHR ''.'') then None
      else (case parse_ipcomponent (if i < 3 then tl s else s) of
              None \<Rightarrow> None
            | Some (s', l, h) \<Rightarrow>
                ip_fields i s' (r\<lparr> lo := (lo r)[i := l], hi := (hi r)[i := h] \<rparr>)))"

definition new_range :: IPrange where
  "new_range = \<lparr> lo = replicate 4 0, hi = replicate 4 0, rtext = None \<rparr>"

definition parse_ipnumber :: "string \<Rightarrow> IPrange option" where
  "parse_ipnumber s = ip_fields 4 s new_range"

definition parse_hostname :: "resolver \<Rightarrow> string \<Rightarrow> nat \<Rightarrow> IPrange option" where
  "parse_hostname dns s len =
     (case dns (take len s) of
        None \<Rightarrow> None
      | Some inet_num \<Rightarrow> Some (new_range\<lparr> lo := octets inet_num, hi := octets inet_num \<rparr>))"

definition skip_whitespace :: "string \<Rightarrow> string" where
  "skip_whitespace s = dropWhile isspace s"

definition trim_end :: "string \<Rightarrow> string" where
  "trim_end s = rev (dropWhile isspace (rev s))"

definition parse_ipline :: "resolver \<Rightarrow> string \<Rightarrow> IPrange option" where
  "parse_ipline dns line =
     (let s = skip_whitespace line in
      if s = [] \<or> hd s = CHR ''#'' then None
      else
        (let addresslen = length (takeWhile (\<lambda>c. \<not> isspace c) s);
             m = skip_whitespace (drop addresslen s)
         in if m = [] \<or> hd m = CHR ''#'' then None
            else
              (let message = trim_end (skip_whitespace (tl m));
                   reply = (if hd s = CHR ''*'' \<or> isdigit (hd s) then parse_ipnumber s
                            else parse_hostname dns s addresslen)
               in map_option (\<lambda>r. r\<lparr> rtext := Some (hd m # message) \<rparr>) reply)))"

text \<open>
  The end mark \<open>malloc\<close> leaves uninitialised but for its text. A second line reallocates
  \<open>table\<close>, the address of the caller's variable, which no allocator returned: the behaviour
  is undefined, the value \<open>None\<close>.
\<close>

definition add_ipline :: "resolver \<Rightarrow> string \<Rightarrow> IPrange list \<Rightarrow> IPrange list option" where
  "add_ipline dns s table =
     (case parse_ipline dns s of
        None \<Rightarrow> Some table
      | Some nl \<Rightarrow> (if table = [] then Some [nl, new_range] else None))"

text \<open>\<open>%d\<close> of a non-negative number.\<close>

fun dec :: "nat \<Rightarrow> string" where
  "dec n = (if n < 10 then [char_of (48 + n)] else dec (n div 10) @ [char_of (48 + n mod 10)])"

declare dec.simps [simp del]

definition dump_range :: "IPrange \<Rightarrow> nat \<Rightarrow> string" where
  "dump_range r j = dec (unat (lo r ! j)) @ ''-'' @ dec (unat (hi r ! j))"

definition dump_line :: "IPrange \<Rightarrow> string \<Rightarrow> string" where
  "dump_line r t =
     dump_range r 3 @ ''.'' @ dump_range r 2 @ ''.'' @ dump_range r 1 @ ''.'' @ dump_range r 0 @
     ''  '' @ [hd t] @ ''  '' @ tl t @ [NL]"

fun dump_lines :: "IPrange list \<Rightarrow> string" where
  "dump_lines [] = []"
| "dump_lines (r # table) =
     (case rtext r of None \<Rightarrow> [] | Some t \<Rightarrow> dump_line r t @ dump_lines table)"

text \<open>What \<open>dump_iptab\<close> writes, for the debug flag and whether the stream is there.\<close>

definition dump_iptab :: "bool \<Rightarrow> bool \<Rightarrow> IPrange list \<Rightarrow> string" where
  "dump_iptab dbug fp table = (if \<not> fp \<and> \<not> dbug then [] else dump_lines table)"

subsection \<open>Octets and byte order\<close>

lemma mask8: "(255 :: u32) = mask 8"
  by (simp add: mask_eq_exp_minus_1)

lemma octet_mask: "octet k n = ucast (drop_bit (8 * k) n)"
  unfolding octet_def mask8
  by (rule bit_word_eqI)
    (auto simp: bit_ucast_iff bit_drop_bit_eq bit_and_iff bit_push_bit_iff bit_mask_iff
      dest: bit_imp_le_length)

lemma octet_nat: "octet k n = of_nat (unat n div 256 ^ k)"
proof -
  have "unat (octet k n) = take_bit 8 (drop_bit (8 * k) (unat n))"
    unfolding octet_mask unsigned_ucast_eq unat_drop_bit_eq by simp
  also have "\<dots> = unat n div 256 ^ k mod 256"
    by (simp only: take_bit_eq_mod drop_bit_eq_div power_mult) simp
  finally show ?thesis by (intro byte_of_unat [symmetric]) simp
qed

text \<open>The address \<open>a.b.c.d\<close> as a little-endian machine loads it from network order.\<close>

fun s_addr :: "b4 \<Rightarrow> u32" where
  "s_addr (a, b, c, d) = of_nat (unat a + 256 * (unat b + 256 * (unat c + 256 * unat d)))"

lemma unat_byte_le: "unat (b :: byte) \<le> 255"
  using unat_byte_less [of b] by linarith

lemma unat_s_addr: "unat (s_addr (a, b, c, d)) = unat a + 256 * (unat b + 256 * (unat c + 256 * unat d))"
proof -
  have "unat a + 256 * (unat b + 256 * (unat c + 256 * unat d)) \<le> 4294967295"
    using unat_byte_le [of a] unat_byte_le [of b] unat_byte_le [of c] unat_byte_le [of d]
    by simp
  then show ?thesis unfolding s_addr.simps unat_u32_of_nat by simp
qed

lemma octet_s_addr [simp]:
  "octet 0 (s_addr (a, b, c, d)) = a" "octet (Suc 0) (s_addr (a, b, c, d)) = b"
  "octet 2 (s_addr (a, b, c, d)) = c" "octet 3 (s_addr (a, b, c, d)) = d"
proof -
  have div1: "(unat x + 256 * m) div (256 * k) = m div k" for x :: byte and m k
    using div_mult2_eq [of "unat x + 256 * m" 256 k] unat_byte_less [of x] by simp
  have div0: "(unat x + 256 * m) div 256 = m" for x :: byte and m
    using div1 [of x m 1] by simp
  have mod1: "(unat x + 256 * m) mod 256 = unat x" for x :: byte and m
    using unat_byte_less [of x] by (simp only: mod_mult_self2 mod_less)
  note octs = octet_nat unat_s_addr power_0 One_nat_def [symmetric] power_one_right power2_eq_square power3_eq_cube mult.assoc
    div1 div0 div_by_1
  show "octet 0 (s_addr (a, b, c, d)) = a" "octet (Suc 0) (s_addr (a, b, c, d)) = b"
    "octet 2 (s_addr (a, b, c, d)) = c" "octet 3 (s_addr (a, b, c, d)) = d"
    unfolding octs by (intro byte_of_unat mod1 | simp)+
qed

lemma BB_READ4_s_addr: "BB_READ4 (a, b, c, d) = s_addr (d, c, b, a)"
  unfolding BB_READ4.simps s_addr.simps by (rule arg_cong [of _ _ of_nat]) simp

declare s_addr.simps [simp del] BB_READ4.simps [simp del]

lemma ntohl_s_addr: "ntohl (s_addr (a, b, c, d)) = s_addr (d, c, b, a)"
  by (simp add: ntohl_def BB_READ4_s_addr)

lemma octets_ntohl_s_addr [simp]: "octets (ntohl (s_addr (a, b, c, d))) = [d, c, b, a]"
  by (simp add: ntohl_s_addr octets_def)

lemma octets_s_addr [simp]: "octets (s_addr (a, b, c, d)) = [a, b, c, d]"
  by (simp add: octets_def)

subsection \<open>Matching\<close>

definition quad_in :: "b4 \<Rightarrow> IPrange \<Rightarrow> bool" where
  "quad_in q r = (case q of (a, b, c, d) \<Rightarrow>
     lo r ! 3 \<le> a \<and> a \<le> hi r ! 3 \<and> lo r ! 2 \<le> b \<and> b \<le> hi r ! 2 \<and>
     lo r ! 1 \<le> c \<and> c \<le> hi r ! 1 \<and> lo r ! 0 \<le> d \<and> d \<le> hi r ! 0)"

lemma check_ip_quad: "check_ip (s_addr q) r = (if quad_in q r then rtext r else None)"
  by (cases q) (auto simp: check_ip_def quad_in_def)

text \<open>The rules in force, those before the end mark.\<close>

definition live_rules :: "IPrange list \<Rightarrow> IPrange list" where
  "live_rules table = takeWhile (\<lambda>r. rtext r \<noteq> None) table"

text \<open>The host table is searched in order: a client at the dotted quad \<open>q\<close>, its address in
  network byte order, gets the text of the first rule before the end mark all of whose octet
  ranges contain \<open>q\<close>, and no text exactly when no rule does.\<close>

theorem check_ip_table_first_match:
  "check_ip_table (s_addr q) table =
     (case List.find (quad_in q) (live_rules table) of None \<Rightarrow> None | Some r \<Rightarrow> rtext r)"
  by (induction table) (auto simp: live_rules_def check_ip_quad)

subsection \<open>Numbers\<close>

fun digits_value :: "nat \<Rightarrow> string \<Rightarrow> nat" where
  "digits_value v [] = v"
| "digits_value v (c # cs) = digits_value (10 * v + (of_char c - 48)) cs"

lemma digits_value_mono: "v \<le> digits_value v ds"
proof (induction ds arbitrary: v)
  case (Cons c ds)
  have "v \<le> 10 * v + (of_char c - 48)" by simp
  also have "\<dots> \<le> digits_value \<dots> ds" by (rule Cons.IH)
  finally show ?case by simp
qed simp

lemma ip_digits_value:
  "list_all isdigit ds \<Longrightarrow> r = [] \<or> \<not> isdigit (hd r) \<Longrightarrow>
   ip_digits (of_nat v) (ds @ r) = (of_nat (digits_value v ds), r)"
proof (induction ds arbitrary: v)
  case Nil
  then show ?case by (cases r) auto
next
  case (Cons c ds)
  have "10 * of_nat v + of_nat (of_char c - 48) = (of_nat (10 * v + (of_char c - 48)) :: u64)"
    by simp
  with Cons show ?case by (simp del: of_nat_add of_nat_mult)
qed

lemma unat_u64_of_nat: "n < 18446744073709551616 \<Longrightarrow> unat (of_nat n :: u64) = n"
  by (simp add: unat_of_nat)

text \<open>The number reader of a host rule takes all the digits there are and, as long as the
  number fits in the 64-bit accumulator, returns exactly its value when that is at most 255 and
  fails on everything else, in particular on a text that starts with no digit.\<close>

theorem parse_ipcomponentnum_value:
  assumes "list_all isdigit ds" and "r = [] \<or> \<not> isdigit (hd r)"
    and "digits_value 0 ds < 18446744073709551616"
  shows "parse_ipcomponentnum (ds @ r) =
    (if ds \<noteq> [] \<and> digits_value 0 ds \<le> 255 then (of_nat (digits_value 0 ds), Some r) else (0, None))"
proof (cases "ds = []")
  case True
  with assms(2) show ?thesis by (auto simp: parse_ipcomponentnum_def)
next
  case False
  define n where "n = digits_value 0 ds"
  have n: "unat (of_nat n :: u64) = n" using assms(3) by (intro unat_u64_of_nat) (simp add: n_def)
  have le: "(of_nat n :: u64) > 0xff \<longleftrightarrow> n > 255"
    unfolding word_less_nat_alt n by simp
  have "ip_digits 0 (ds @ r) = (of_nat n, r)"
    using ip_digits_value [OF assms(1,2), of 0] by (simp add: n_def)
  moreover have "(ucast (of_nat n :: u64) :: byte) = of_nat n"
    by (rule word_unat_eq_iff [THEN iffD2])
      (simp only: unsigned_ucast_eq n unat_byte_of_nat, simp add: take_bit_eq_mod)
  moreover have "isdigit (hd (ds @ r))" using False assms(1) by (cases ds) auto
  ultimately show ?thesis
    using False le unfolding parse_ipcomponentnum_def n_def [symmetric] by (auto simp: Let_def not_less)
qed

theorem parse_ipcomponentnum_value_witness:
  "parse_ipcomponentnum (''240'' @ ''.1'') = (240, Some ''.1'')"
  using parse_ipcomponentnum_value [of "''240''" "''.1''"] by (simp add: isdigit_def)

text \<open>Beyond 64 bits the accumulator wraps, so a number the reader is documented to reject
  as too large is read as a small one: 2 to the 64 plus 1 is read as 1.\<close>

theorem parse_ipcomponentnum_wraps:
  "parse_ipcomponentnum ''18446744073709551617.0'' = (1, Some ''.0'')"
  by (simp add: parse_ipcomponentnum_def isdigit_def)

subsection \<open>A dumped table reads back\<close>

lemma of_char_digit [simp]: "d < 10 \<Longrightarrow> (of_char (char_of (48 + d)) :: nat) = 48 + d" for d :: nat
  by simp

lemma isdigit_char [simp]: "d < 10 \<Longrightarrow> isdigit (char_of (48 + d))" for d :: nat
  by (simp add: isdigit_def)

lemma isdigit_dec: "list_all isdigit (dec n)"
  by (induction n rule: dec.induct) (subst dec.simps, simp)

lemma dec_not_Nil [simp]: "dec n \<noteq> []"
  by (subst dec.simps) simp

lemma digits_value_snoc: "digits_value v (ds @ [c]) = 10 * digits_value v ds + (of_char c - 48)"
  by (induction ds arbitrary: v) auto

lemma digits_value_dec: "digits_value 0 (dec n) = n"
proof (induction n rule: dec.induct)
  case (1 n)
  show ?case
  proof (cases "n < 10")
    case True
    then show ?thesis by (simp add: dec.simps [of n])
  next
    case False
    moreover have "(of_char (char_of (48 + n mod 10)) :: nat) = 48 + n mod 10"
      by (rule of_char_digit) simp
    ultimately show ?thesis using 1
      by (simp add: dec.simps [of n] digits_value_snoc)
  qed
qed

lemma parse_dec:
  assumes "r = [] \<or> \<not> isdigit (hd r)"
  shows "parse_ipcomponentnum (dec (unat (b :: byte)) @ r) = (b, Some r)"
proof -
  have "unat b \<le> 255" by (rule unat_byte_le)
  then have "unat b < 18446744073709551616" by linarith
  then show ?thesis
    using parse_ipcomponentnum_value [OF isdigit_dec assms, of "unat b"] \<open>unat b \<le> 255\<close>
    by (simp add: digits_value_dec)
qed


lemma dec_hd: "\<exists>c cs. dec n = c # cs \<and> isdigit c"
  using isdigit_dec [of n] dec_not_Nil [of n] by (cases "dec n") auto

lemma isdigit_other: "isdigit c \<Longrightarrow> c \<noteq> CHR ''*'' \<and> \<not> isspace c \<and> c \<noteq> CHR ''.'' \<and> c \<noteq> CHR ''#''"
  by (auto simp: isdigit_def isspace_def)

lemma parse_dump_range:
  assumes "r = [] \<or> \<not> isdigit (hd r)"
  shows "parse_ipcomponent (dump_range e j @ r) = Some (r, lo e ! j, hi e ! j)"
proof -
  obtain c cs where c: "dec (unat (lo e ! j)) = c # cs" "isdigit c" using dec_hd by blast
  then have "c \<noteq> CHR ''*''" by (simp add: isdigit_other)
  have "\<not> isdigit (CHR ''-'')" by (simp add: isdigit_def)
  then have "parse_ipcomponentnum (dec (unat (lo e ! j)) @ (''-'' @ dec (unat (hi e ! j)) @ r)) =
      (lo e ! j, Some (''-'' @ dec (unat (hi e ! j)) @ r))"
    by (intro parse_dec) simp
  moreover have "parse_ipcomponentnum (dec (unat (hi e ! j)) @ r) = (hi e ! j, Some r)"
    by (rule parse_dec [OF assms])
  ultimately show ?thesis
    using c \<open>c \<noteq> CHR ''*''\<close> unfolding parse_ipcomponent_def dump_range_def by (simp del: char_byte_inverse)
qed

definition wf_rule :: "IPrange \<Rightarrow> bool" where
  "wf_rule e \<longleftrightarrow> length (lo e) = 4 \<and> length (hi e) = 4"

lemma list4: "length xs = 4 \<Longrightarrow> xs = [xs ! 0, xs ! 1, xs ! 2, xs ! 3]"
  by (auto simp: numeral_eq_Suc length_Suc_conv)

lemma parse_dump_quad:
  assumes "wf_rule e" and sp: "r = [] \<or> \<not> isdigit (hd r)"
  shows "parse_ipnumber (dump_range e 3 @ ''.'' @ dump_range e 2 @ ''.'' @ dump_range e 1 @ ''.'' @
           dump_range e 0 @ r) = Some (e\<lparr> rtext := None \<rparr>)"
proof -
  have dot: "\<not> isdigit (CHR ''.'')" "\<not> isspace (CHR ''.'')" by (simp_all add: isdigit_def isspace_def)
  have pr: "parse_ipcomponent (dump_range e j @ CHR ''.'' # s) = Some (CHR ''.'' # s, lo e ! j, hi e ! j)" for j s
    by (rule parse_dump_range) (simp add: dot)
  obtain c cs where c: "dump_range e 3 = c # cs" "isdigit c"
    using dec_hd [of "unat (lo e ! 3)"] by (auto simp: dump_range_def)
  have ns: "\<not> isspace (hd (dump_range e 3 @ s))" for s using c isdigit_other by simp
  have [simp]: "replicate 4 (0 :: byte) = [0, 0, 0, 0]" by (simp add: numeral_eq_Suc)
  have 4: "(4 :: nat) = Suc (Suc (Suc (Suc 0)))" by simp
  have "lo e = [lo e ! 0, lo e ! 1, lo e ! 2, lo e ! 3]" "hi e = [hi e ! 0, hi e ! 1, hi e ! 2, hi e ! 3]"
    using assms(1) list4 [of "lo e"] list4 [of "hi e"] unfolding wf_rule_def by blast+
  then have "e\<lparr> rtext := None \<rparr> = \<lparr> lo = [lo e ! 0, lo e ! 1, lo e ! 2, lo e ! 3],
      hi = [hi e ! 0, hi e ! 1, hi e ! 2, hi e ! 3], rtext = None \<rparr>" by simp
  then show ?thesis
    using ns [of "''.'' @ dump_range e 2 @ ''.'' @ dump_range e 1 @ ''.'' @ dump_range e 0 @ r"]
    unfolding parse_ipnumber_def new_range_def 4
    by (simp add: pr dot numeral_eq_Suc parse_dump_range [OF sp])
qed

definition wf_text :: "string \<Rightarrow> bool" where
  "wf_text t \<longleftrightarrow> t \<noteq> [] \<and> \<not> isspace (hd t) \<and> hd t \<noteq> CHR ''#'' \<and>
     (tl t = [] \<or> \<not> isspace (hd (tl t)) \<and> \<not> isspace (last t))"

lemma dump_range_no_space: "c \<in> set (dump_range e j) \<Longrightarrow> \<not> isspace c"
  using isdigit_dec [of "unat (lo e ! j)"] isdigit_dec [of "unat (hi e ! j)"]
  by (auto simp: dump_range_def list_all_iff isdigit_other) (simp add: isspace_def)

lemma trim_end_NL: "m = [] \<or> \<not> isspace (last m) \<Longrightarrow> trim_end (m @ [NL]) = m"
  by (cases m rule: rev_cases) (auto simp: trim_end_def isspace_def)

lemma trim_end_id: "m = [] \<or> \<not> isspace (last m) \<Longrightarrow> trim_end m = m"
  by (cases m rule: rev_cases) (auto simp: trim_end_def)

lemma skip_whitespace_id: "m = [] \<or> \<not> isspace (hd m) \<Longrightarrow> skip_whitespace m = m"
  by (cases m) (auto simp: skip_whitespace_def)

lemma takeWhile_break: "\<forall>c \<in> set q. P c \<Longrightarrow> \<not> P x \<Longrightarrow> takeWhile P (q @ x # s) = q"
  by (induction q) auto

text \<open>A printed line reads back with or without its newline.\<close>

definition dump_body :: "IPrange \<Rightarrow> string \<Rightarrow> string" where
  "dump_body r t = dump_range r 3 @ ''.'' @ dump_range r 2 @ ''.'' @ dump_range r 1 @ ''.'' @ dump_range r 0 @
     ''  '' @ [hd t] @ ''  '' @ tl t"

lemma dump_line_body: "dump_line r t = dump_body r t @ [NL]"
  by (simp add: dump_line_def dump_body_def)

lemma dump_body_parse:
  assumes "wf_rule e" and "rtext e = Some t" and "wf_text t" and n: "n = [] \<or> n = [NL]"
  shows "parse_ipline dns (dump_body e t @ n) = Some e"
proof -
  obtain ty m where t: "t = ty # m" and ty: "\<not> isspace ty" "ty \<noteq> CHR ''#''"
    and m: "m = [] \<or> \<not> isspace (hd m) \<and> \<not> isspace (last m)"
    using assms(3) by (cases t) (auto simp: wf_text_def split: if_splits)
  define quad where "quad = dump_range e 3 @ ''.'' @ dump_range e 2 @ ''.'' @ dump_range e 1 @ ''.'' @ dump_range e 0"
  define rest where "rest = ''  '' @ [ty] @ ''  '' @ m @ n"
  have line: "dump_body e t @ n = quad @ rest" by (simp add: dump_body_def quad_def rest_def t)
  have sp: "isspace (CHR '' '')" "isspace NL" "\<not> isdigit (CHR '' '')" by (simp_all add: isspace_def isdigit_def)
  obtain c cs where c: "quad = c # cs" "isdigit c"
    using dec_hd [of "unat (lo e ! 3)"] by (auto simp: quad_def dump_range_def)
  have q: "\<forall>c \<in> set quad. \<not> isspace c"
    using dump_range_no_space by (auto simp: quad_def isspace_def)
  have num: "parse_ipnumber (quad @ rest) = Some (e\<lparr> rtext := None \<rparr>)"
    using parse_dump_quad [OF assms(1), of rest] sp by (simp add: quad_def rest_def)
  have len: "takeWhile (\<lambda>c. \<not> isspace c) (quad @ rest) = quad"
    using takeWhile_break [OF q, of "CHR '' ''"] sp by (simp add: rest_def)
  have msg: "trim_end (skip_whitespace (''  '' @ m @ n)) = m"
    using m n trim_end_NL [of m] trim_end_id [of m] sp
    by (cases m) (auto simp: skip_whitespace_def trim_end_def)
  have "skip_whitespace (quad @ rest) = quad @ rest"
    using c isdigit_other [of c] by (simp add: skip_whitespace_def)
  moreover have "skip_whitespace rest = ty # ''  '' @ m @ n"
    using ty sp by (simp add: rest_def skip_whitespace_def)
  moreover have "hd (quad @ rest) \<noteq> CHR ''#'' \<and> isdigit (hd (quad @ rest)) \<and> quad @ rest \<noteq> []"
    using c isdigit_other by auto
  ultimately show ?thesis
    using ty msg num assms(2) unfolding parse_ipline_def line Let_def by (simp add: t len)
qed

text \<open>C27: a rule printed by \<open>dump_iptab\<close> and read again as a line of the host file is the same
  rule: ranges, host type and message.\<close>

theorem dump_parse_roundtrip:
  assumes "wf_rule e" and "rtext e = Some t" and "wf_text t"
  shows "parse_ipline dns (dump_line e t) = Some e"
  using dump_body_parse [OF assms, of "[NL]"] by (simp add: dump_line_body)

theorem dump_parse_roundtrip_witness:
  "parse_ipline (\<lambda>_. None)
     (dump_line \<lparr> lo = [0, 0, 4, 128], hi = [255, 255, 8, 128], rtext = Some ''Dgo away'' \<rparr> ''Dgo away'')
   = Some \<lparr> lo = [0, 0, 4, 128], hi = [255, 255, 8, 128], rtext = Some ''Dgo away'' \<rparr>"
  by (rule dump_parse_roundtrip) (simp_all add: wf_rule_def wf_text_def isspace_def)

subsection \<open>Host names, later lines and release\<close>

lemma parse_ipline_hostname:
  assumes "name \<noteq> []" "\<forall>c \<in> set name. \<not> isspace c" "hd name \<noteq> CHR ''#''" "hd name \<noteq> CHR ''*''" "\<not> isdigit (hd name)"
    and "dns name = Some n" and "wf_text t"
  shows "parse_ipline dns (name @ '' '' @ t) = Some \<lparr> lo = octets n, hi = octets n, rtext = Some t \<rparr>"
proof -
  obtain ty m where t: "t = ty # m" and ty: "\<not> isspace ty" "ty \<noteq> CHR ''#''"
    and m: "m = [] \<or> \<not> isspace (hd m) \<and> \<not> isspace (last m)"
    using assms(7) by (cases t) (auto simp: wf_text_def split: if_splits)
  have sp: "isspace (CHR '' '')" by (simp add: isspace_def)
  have len: "takeWhile (\<lambda>c. \<not> isspace c) (name @ CHR '' '' # t) = name"
    using takeWhile_break [OF assms(2)] sp by simp
  obtain c cs where c: "name = c # cs" using assms(1) by (cases name) auto
  then have nc: "\<not> isspace c" using assms(2) by simp
  have "trim_end (skip_whitespace m) = m"
    using m trim_end_id [of m] skip_whitespace_id [of m] by auto
  with assms(3-6) c nc ty len sp show ?thesis
    unfolding parse_ipline_def Let_def by (simp add: skip_whitespace_def parse_hostname_def new_range_def t)
qed

text \<open>A rule given by host name is stored with its octets in the reverse of the order
  \<open>check_ip\<close> compares them in: a line naming a host at \<open>a.b.c.d\<close> gives its text to
  \<open>d.c.b.a\<close> and to no other address, so not to the named host unless the two coincide.\<close>

theorem hostname_rule_reversed:
  assumes "name \<noteq> []" "\<forall>c \<in> set name. \<not> isspace c" "hd name \<noteq> CHR ''#''" "hd name \<noteq> CHR ''*''" "\<not> isdigit (hd name)"
    and "dns name = Some (s_addr (a, b, c, d))" and "wf_text t"
  shows "\<exists>table. add_ipline dns (name @ '' '' @ t) [] = Some table \<and>
     (\<forall>q. check_ip_table (s_addr q) table = (if q = (d, c, b, a) then Some t else None))"
proof -
  have eq: "x \<le> y \<and> y \<le> x \<longleftrightarrow> y = x" for x y :: byte by auto
  have "check_ip (s_addr q) \<lparr> lo = [a, b, c, d], hi = [a, b, c, d], rtext = Some t \<rparr> =
      (if q = (d, c, b, a) then Some t else None)" for q
    by (cases q) (auto simp: check_ip_quad quad_in_def)
  then show ?thesis
    using parse_ipline_hostname [of name dns "s_addr (a, b, c, d)" t] assms by (simp add: add_ipline_def new_range_def)
qed

theorem hostname_rule_reversed_witness:
  "\<exists>table. add_ipline (\<lambda>_. Some (s_addr (10, 0, 0, 1))) ''badhost Dgo'' [] = Some table \<and>
     check_ip_table (s_addr (10, 0, 0, 1)) table = None"
proof -
  let ?dns = "\<lambda>_ :: string. Some (s_addr (10, 0, 0, 1))"
  have "\<exists>table. add_ipline ?dns (''badhost'' @ '' '' @ ''Dgo'') [] = Some table \<and>
     (\<forall>q. check_ip_table (s_addr q) table = (if q = (1, 0, 0, 10) then Some ''Dgo'' else None))"
    by (rule hostname_rule_reversed) (simp_all add: isspace_def isdigit_def wf_text_def)
  then show ?thesis by force
qed

text \<open>The lines of a host file, added one after the other.\<close>

fun add_iplines :: "resolver \<Rightarrow> string list \<Rightarrow> IPrange list \<Rightarrow> IPrange list option" where
  "add_iplines dns [] table = Some table"
| "add_iplines dns (l # ls) table =
     (case add_ipline dns l table of None \<Rightarrow> None | Some table' \<Rightarrow> add_iplines dns ls table')"

lemma add_iplines_nonempty:
  "table \<noteq> [] \<Longrightarrow> add_iplines dns ls table =
     (if List.map_filter (parse_ipline dns) ls = [] then Some table else None)"
  by (induction ls) (auto simp: add_ipline_def split: option.splits)

text \<open>A host table never holds more than one rule: reading the lines of a file into an empty
  table gives the table of its one good line, or the empty table when it has none, and with two
  good lines or more the second one reallocates the address of the table variable, which is
  undefined behaviour.\<close>

theorem host_file_holds_one_rule:
  "add_iplines dns ls [] =
     (case List.map_filter (parse_ipline dns) ls of
        [] \<Rightarrow> Some []
      | [r] \<Rightarrow> Some [r, new_range]
      | r # r' # rs \<Rightarrow> None)"
  by (induction ls)
    (auto simp: add_ipline_def add_iplines_nonempty split: option.splits list.splits)

text \<open>\<open>free_ip_table\<close> releases the text of every rule but the first: the first one leaks.\<close>

theorem free_ip_table_leaks_first:
  assumes "table = r # rules @ stop # junk" and "rtext stop = None" and "\<forall>x \<in> set (r # rules). rtext x \<noteq> None"
  shows "map Some (free_ip_table table) = map rtext rules \<and>
     mset (map rtext (live_rules table)) = add_mset (rtext r) (mset (map Some (free_ip_table table)))"
proof -
  have free: "map Some (free_texts (rules @ stop # junk)) = map rtext rules"
    using assms(2,3) by (induction rules) auto
  moreover have "live_rules table = r # rules"
    using assms by (simp add: live_rules_def takeWhile_break)
  ultimately show ?thesis using assms(1) by (simp add: free_ip_table_def flip: free)
qed

theorem free_ip_table_leaks_first_witness:
  "free_ip_table [new_range\<lparr> rtext := Some ''Da'' \<rparr>, new_range\<lparr> rtext := Some ''N'' \<rparr>, new_range] = [''N''] \<and>
   \<not> mset [Some ''Da'', Some ''N''] \<subseteq># mset (map Some [''N''])"
proof -
  let ?t = "[new_range\<lparr> rtext := Some ''Da'' \<rparr>, new_range\<lparr> rtext := Some ''N'' \<rparr>, new_range]"
  have "map Some (free_ip_table ?t) = map rtext [new_range\<lparr> rtext := Some ''N'' \<rparr>]"
    by (rule free_ip_table_leaks_first [where stop = new_range and junk = "[]"
          and r = "new_range\<lparr> rtext := Some ''Da'' \<rparr>", THEN conjunct1]) (simp_all add: new_range_def)
  then show ?thesis by auto
qed

end
