(* ===== verification/ServerConf.thy ===== *)
theory ServerConf
  imports FspPrelude
begin

text \<open>
  The run-time settings of the server: the global variables \<^verbatim>\<open>server/conf.c\<close> defines and
  \<^verbatim>\<open>s_extern.h\<close> exports, and the constants of \<^verbatim>\<open>common_def.h\<close> and \<^verbatim>\<open>server_def.h\<close>.
  The C flags of type \<open>int\<close> that only hold 0 or 1 are booleans. A pointer that may be null is
  an option.
\<close>

record fsp_conf =
  daemonize :: bool
  use_prebuild_dirlists :: bool
  grab_enabled :: bool
  ver_enabled :: bool
  read_only :: bool
  udp_port :: u16
  dbug :: bool
  run_uid :: int
  run_gid :: int
  priv_mode :: bool
  no_unnamed :: bool
  logging :: nat
  use_access_files :: bool
  use_directory_mtime :: bool
  maxthcallowed :: int
  packetsize :: u16
  retry_timeout :: time
  session_timeout :: time
  stat_cache_timeout :: time
  logname :: "string option"
  tlogname :: "string option"
  pidlogname :: "string option"
  dumpname :: "string option"
  home_dir :: "string option"
  tmp_dir :: "string option"
  listen_on :: "string option"
  homedir_restricted :: bool
  permit_passwordless_owners :: bool
  readme_file :: "string option"
  dir_cache_limit :: int
  fp_cache_limit :: int
  stat_cache_limit :: int
  upload_umask :: nat
  system_umask :: nat

abbreviation (input) UBUF_HSIZE :: nat where "UBUF_HSIZE \<equiv> 12"
abbreviation (input) UBUF_SPACE :: nat where "UBUF_SPACE \<equiv> 1024"
abbreviation (input) DEFAULT_SPACE :: nat where "DEFAULT_SPACE \<equiv> 1452"
abbreviation (input) UBUF_MAXSPACE :: nat where "UBUF_MAXSPACE \<equiv> 4380"
abbreviation (input) PRO_BYTES :: nat where "PRO_BYTES \<equiv> 1"
abbreviation (input) RDHSIZE :: nat where "RDHSIZE \<equiv> 9"

text \<open>The initial values of the variables.\<close>

definition default_conf :: fsp_conf where
  "default_conf = \<lparr>
     daemonize = True, use_prebuild_dirlists = True, grab_enabled = True, ver_enabled = True,
     read_only = False, udp_port = 21, dbug = False, run_uid = 0, run_gid = 0,
     priv_mode = False, no_unnamed = False, logging = 0, use_access_files = True,
     use_directory_mtime = True, maxthcallowed = 0, packetsize = of_nat DEFAULT_SPACE,
     retry_timeout = 3, session_timeout = 60, stat_cache_timeout = 25,
     logname = None, tlogname = None, pidlogname = None, dumpname = None, home_dir = None,
     tmp_dir = None, listen_on = None, homedir_restricted = True,
     permit_passwordless_owners = False, readme_file = None, dir_cache_limit = 100,
     fp_cache_limit = 20, stat_cache_limit = 30, upload_umask = 27, system_umask = 63 \<rparr>"

text \<open>The commands of the protocol.\<close>

abbreviation (input) CC_VERSION :: byte where "CC_VERSION \<equiv> 0x10"
abbreviation (input) CC_INFO :: byte where "CC_INFO \<equiv> 0x11"
abbreviation (input) CC_ERR :: byte where "CC_ERR \<equiv> 0x40"
abbreviation (input) CC_GET_DIR :: byte where "CC_GET_DIR \<equiv> 0x41"
abbreviation (input) CC_GET_FILE :: byte where "CC_GET_FILE \<equiv> 0x42"
abbreviation (input) CC_UP_LOAD :: byte where "CC_UP_LOAD \<equiv> 0x43"
abbreviation (input) CC_INSTALL :: byte where "CC_INSTALL \<equiv> 0x44"
abbreviation (input) CC_DEL_FILE :: byte where "CC_DEL_FILE \<equiv> 0x45"
abbreviation (input) CC_DEL_DIR :: byte where "CC_DEL_DIR \<equiv> 0x46"
abbreviation (input) CC_GET_PRO :: byte where "CC_GET_PRO \<equiv> 0x47"
abbreviation (input) CC_SET_PRO :: byte where "CC_SET_PRO \<equiv> 0x48"
abbreviation (input) CC_MAKE_DIR :: byte where "CC_MAKE_DIR \<equiv> 0x49"
abbreviation (input) CC_BYE :: byte where "CC_BYE \<equiv> 0x4A"
abbreviation (input) CC_GRAB_FILE :: byte where "CC_GRAB_FILE \<equiv> 0x4B"
abbreviation (input) CC_GRAB_DONE :: byte where "CC_GRAB_DONE \<equiv> 0x4C"
abbreviation (input) CC_STAT :: byte where "CC_STAT \<equiv> 0x4D"
abbreviation (input) CC_RENAME :: byte where "CC_RENAME \<equiv> 0x4E"
abbreviation (input) CC_LIMIT :: byte where "CC_LIMIT \<equiv> 0x80"

end
