(* ===== verification/Hosts.thy ===== *)
theory Hosts
  imports FspPrelude
begin

text \<open>
  The client database of \<^verbatim>\<open>server/host.c\<close>: a sorted array of sessions, one per client
  address, between two sentinels, searched by bisection.

  The array is the list of its \<open>hcnt\<close> used entries; the capacity \<open>htot\<close> only decides when
  to reallocate. The reverse resolver \<open>gethostbyaddr\<close> is the parameter \<open>rdns\<close> of an address
  and of the length of the address object the code passes, which is the size of an
  \<open>unsigned long\<close>, 8 on the target.

  The interface \<open>host_table\<close> is what the session filter relies on; it is interpreted on
  \<open>find_host\<close>.
\<close>

record HTAB =
  inet_num :: u32
  hostname :: "string option"
  last_acc :: time
  next_key :: u16
  last_key :: u16
  acc_cnt :: u16
  active :: bool

type_synonym htab = "HTAB list"
type_synonym reverse_resolver = "u32 \<Rightarrow> nat \<Rightarrow> string option"

definition hzero :: HTAB where
  "hzero = \<lparr> inet_num = 0, hostname = None, last_acc = 0, next_key = 0, last_key = 0,
             acc_cnt = 0, active = False \<rparr>"

definition init_htab :: htab where
  "init_htab = [hzero, hzero\<lparr> inet_num := 0xffffffff \<rparr>]"

definition find_hostname :: "reverse_resolver \<Rightarrow> u32 \<Rightarrow> string option" where
  "find_hostname rdns n = rdns n 8"

text \<open>The binary search: \<open>Inr m\<close> is a hit at \<open>m\<close>, \<open>Inl m\<close> the place the loop ends at.
  The bounds never cross: the second test only makes the recursion total.\<close>

function host_search :: "htab \<Rightarrow> u32 \<Rightarrow> nat \<Rightarrow> nat \<Rightarrow> nat + nat" where
  "host_search tab n l h =
     (let m = (l + h) div 2 in
      if m = l \<or> h < l then Inl m
      else if inet_num (tab ! m) > n then host_search tab n l m
      else if inet_num (tab ! m) < n then host_search tab n m h
      else Inr m)"
  by pat_completeness auto
termination by (relation "measure (\<lambda>(tab, n, l, h). h - l)") auto

declare host_search.simps [simp del]

definition find_host :: "bool \<Rightarrow> reverse_resolver \<Rightarrow> htab \<Rightarrow> u32 \<Rightarrow> nat \<times> htab" where
  "find_host no_unnamed rdns tab n =
     (case host_search tab n 0 (length tab - 1) of
        Inr m \<Rightarrow>
          (let e = tab ! m;
               e' = (if no_unnamed \<and> hostname e = None
                     then e\<lparr> hostname := find_hostname rdns (inet_num e) \<rparr> else e)
           in (m, tab[m := e'\<lparr> acc_cnt := acc_cnt e' + 1 \<rparr>]))
      | Inl m0 \<Rightarrow>
          (let m = (if inet_num (tab ! m0) < n then m0 + 1 else m0)
           in (m, take m tab @ [hzero\<lparr> inet_num := n, hostname := find_hostname rdns n \<rparr>] @ drop m tab)))"

text \<open>The lines of \<open>dump_htab\<close>, as address, count and time; the sentinels are left out.\<close>

definition dump_htab :: "htab \<Rightarrow> (u32 \<times> u16 \<times> time) list" where
  "dump_htab tab = map (\<lambda>e. (inet_num e, acc_cnt e, last_acc e)) (take (length tab - 2) (drop 1 tab))"

subsection \<open>The table invariant\<close>

definition htab_inv :: "htab \<Rightarrow> bool" where
  "htab_inv tab \<longleftrightarrow> 2 \<le> length tab \<and> sorted_wrt (<) (map inet_num tab) \<and>
     inet_num (hd tab) = 0 \<and> inet_num (last tab) = 0xffffffff"

definition client_addr :: "u32 \<Rightarrow> bool" where
  "client_addr n \<longleftrightarrow> n \<noteq> 0 \<and> n \<noteq> 0xffffffff"

fun host_lookup :: "htab \<Rightarrow> u32 \<Rightarrow> HTAB option" where
  "host_lookup [] n = None"
| "host_lookup (e # tab) n = (if inet_num e = n then Some e else host_lookup tab n)"

lemma init_htab_inv: "htab_inv init_htab"
  by (simp add: htab_inv_def init_htab_def hzero_def)

lemma htab_invD:
  assumes "htab_inv tab"
  shows "2 \<le> length tab" "i < j \<Longrightarrow> j < length tab \<Longrightarrow> inet_num (tab ! i) < inet_num (tab ! j)"
    "inet_num (tab ! 0) = 0" "inet_num (tab ! (length tab - 1)) = 0xffffffff"
proof -
  from assms have "tab \<noteq> []" "2 \<le> length tab" by (auto simp: htab_inv_def)
  with assms show "2 \<le> length tab" "inet_num (tab ! 0) = 0"
    "inet_num (tab ! (length tab - 1)) = 0xffffffff"
    by (simp_all add: htab_inv_def hd_conv_nth last_conv_nth)
  show "i < j \<Longrightarrow> j < length tab \<Longrightarrow> inet_num (tab ! i) < inet_num (tab ! j)"
    using assms by (auto simp: htab_inv_def sorted_wrt_iff_nth_less)
qed

lemma host_lookup_nth:
  "sorted_wrt (<) (map inet_num tab) \<Longrightarrow> i < length tab \<Longrightarrow> inet_num (tab ! i) = n \<Longrightarrow>
     host_lookup tab n = Some (tab ! i)"
proof (induction tab arbitrary: i)
  case (Cons e tab)
  then show ?case by (cases i) auto
qed simp

lemma host_lookup_None: "host_lookup tab n = None \<longleftrightarrow> n \<notin> inet_num ` set tab"
  by (induction tab) auto

lemma host_lookup_inet: "host_lookup tab n = Some e \<Longrightarrow> inet_num e = n"
  by (induction tab) (auto split: if_splits)

lemma host_lookup_append:
  "host_lookup (xs @ ys) n = (case host_lookup xs n of None \<Rightarrow> host_lookup ys n | Some e \<Rightarrow> Some e)"
  by (induction xs) auto

lemma host_search_result:
  assumes "l < h" "h < length tab" "sorted_wrt (<) (map inet_num tab)"
    "inet_num (tab ! l) < n" "n < inet_num (tab ! h)"
  shows "case host_search tab n l h of
      Inr m \<Rightarrow> l < m \<and> m < h \<and> inet_num (tab ! m) = n
    | Inl m \<Rightarrow> l \<le> m \<and> m < h \<and> inet_num (tab ! m) < n \<and> n < inet_num (tab ! Suc m)"
  using assms
proof (induction tab n l h rule: host_search.induct)
  case (1 tab n l h)
  define m where "m = (l + h) div 2"
  note step = host_search.simps [of tab n l h, folded m_def, unfolded Let_def]
  show ?case
  proof (cases "m = l")
    case True
    then have "h = Suc l" using \<open>l < h\<close> by (simp add: m_def)
    with True "1.prems" step show ?thesis by simp
  next
    case False
    then have m: "l < m" "m < h" using \<open>l < h\<close> unfolding m_def by auto
    have nc: "\<not> (m = l \<or> h < l)" using m by simp
    consider "inet_num (tab ! m) > n" | "inet_num (tab ! m) < n" | "inet_num (tab ! m) = n"
      by (rule linorder_cases)
    then show ?thesis
    proof cases
      case 1
      have "host_search tab n l h = host_search tab n l m" using step nc 1 by simp
      with "1.IH"(1) [OF m_def nc 1 m(1)] "1.prems" m 1 show ?thesis
        by (auto split: sum.splits)
    next
      case 2
      then have nl: "\<not> inet_num (tab ! m) > n" by simp
      with 2 have "host_search tab n l h = host_search tab n m h" using step nc by simp
      with "1.IH"(2) [OF m_def nc nl 2 m(2)] "1.prems" m 2 show ?thesis
        by (auto split: sum.splits)
    next
      case 3
      with step nc m show ?thesis by simp
    qed
  qed
qed

text \<open>What a search must come to: the client's own entry, its session kept when it had one, a
  blank one when it had none, and no change to anybody else.\<close>

definition find_host_spec :: "bool \<Rightarrow> reverse_resolver \<Rightarrow> htab \<Rightarrow> u32 \<Rightarrow> nat \<Rightarrow> htab \<Rightarrow> bool" where
  "find_host_spec nu rdns tab n m tab' \<longleftrightarrow>
     htab_inv tab' \<and> m < length tab' \<and> host_lookup tab' n = Some (tab' ! m) \<and>
     (\<forall>k. k \<noteq> n \<longrightarrow> host_lookup tab' k = host_lookup tab k) \<and>
     tab' ! m =
       (case host_lookup tab n of
          None \<Rightarrow> hzero\<lparr> inet_num := n, hostname := find_hostname rdns n \<rparr>
        | Some e \<Rightarrow> e\<lparr>
            hostname := (if nu \<and> hostname e = None then find_hostname rdns n else hostname e),
            acc_cnt := acc_cnt e + 1 \<rparr>)"

lemma find_host_hit:
  assumes inv: "htab_inv tab" and i: "i < length tab" "inet_num (tab ! i) = n"
    and e: "inet_num e = n"
  shows "htab_inv (tab[i := e])" "host_lookup (tab[i := e]) n = Some e"
    "k \<noteq> n \<Longrightarrow> host_lookup (tab[i := e]) k = host_lookup tab k"
    "host_lookup tab n = Some (tab ! i)"
proof -
  have keys: "map inet_num (tab[i := e]) = map inet_num tab"
    using i e by (metis list_update_id map_update)
  have len: "2 \<le> length tab" "tab \<noteq> []" using htab_invD(1) [OF inv] by auto
  have "inet_num (hd (tab[i := e])) = inet_num (hd tab)" "inet_num (last (tab[i := e])) = inet_num (last tab)"
    using keys len by (metis hd_map list_update_nonempty, metis last_map list_update_nonempty)
  then show "htab_inv (tab[i := e])" using inv by (simp add: htab_inv_def keys)
  have srt: "sorted_wrt (<) (map inet_num tab)" using inv by (simp add: htab_inv_def)
  show "host_lookup (tab[i := e]) n = Some e"
    using host_lookup_nth [of "tab[i := e]" i n] srt i e by (simp add: keys)
  show "host_lookup tab n = Some (tab ! i)" using host_lookup_nth [OF srt i] .
  show "host_lookup (tab[i := e]) k = host_lookup tab k" if "k \<noteq> n"
    using i e that by (induction tab arbitrary: i) (auto split: nat.splits)
qed

lemma find_host_insert:
  assumes inv: "htab_inv tab" and m: "Suc m < length tab" and e: "inet_num e = n"
    and gap: "inet_num (tab ! m) < n" "n < inet_num (tab ! Suc m)"
  shows "htab_inv (take (Suc m) tab @ [e] @ drop (Suc m) tab)"
    "host_lookup (take (Suc m) tab @ [e] @ drop (Suc m) tab) n = Some e"
    "k \<noteq> n \<Longrightarrow> host_lookup (take (Suc m) tab @ [e] @ drop (Suc m) tab) k = host_lookup tab k"
    "host_lookup tab n = None"
proof -
  let ?a = "take (Suc m) tab" and ?b = "drop (Suc m) tab"
  have srt: "sorted_wrt (<) (map inet_num (?a @ ?b))" using inv by (simp add: htab_inv_def)
  have lo: "inet_num x < n" if x: "x \<in> set ?a" for x
  proof -
    from x obtain j where "j \<le> m" "x = tab ! j" by (auto simp: in_set_conv_nth less_Suc_eq_le)
    with htab_invD(2) [OF inv, of j m] m gap show ?thesis by (cases "j = m") auto
  qed
  have hi: "n < inet_num x" if x: "x \<in> set ?b" for x
  proof -
    from x obtain j where "Suc m \<le> j" "j < length tab" "x = tab ! j"
      by (auto simp: in_set_conv_nth) (metis add_Suc le_add1 add.commute less_diff_conv)
    with htab_invD(2) [OF inv, of "Suc m" j] gap show ?thesis by (cases "j = Suc m") auto
  qed
  have ends: "?a \<noteq> []" "?b \<noteq> []" "hd ?a = hd tab" "last ?b = last tab"
    using m by auto
  show "htab_inv (?a @ [e] @ ?b)"
  proof -
    have "sorted_wrt (<) (map inet_num ?a)" "sorted_wrt (<) (map inet_num ?b)"
      using srt unfolding map_append sorted_wrt_append by blast+
    moreover have "\<forall>x \<in> set ?a. \<forall>y \<in> set ?b. inet_num x < inet_num y"
      using lo hi by (metis less_trans)
    ultimately have "sorted_wrt (<) (map inet_num (?a @ [e] @ ?b))"
      using lo hi e by (simp add: sorted_wrt_append)
    then show ?thesis using inv ends m unfolding htab_inv_def by simp
  qed
  have "n \<notin> inet_num ` set ?a" "n \<notin> inet_num ` set ?b" using lo hi by fastforce+
  then have none: "host_lookup ?a n = None" "host_lookup ?b n = None" by (simp_all add: host_lookup_None)
  show "host_lookup (?a @ [e] @ ?b) n = Some e" using none e by (simp add: host_lookup_append)
  show "host_lookup (?a @ [e] @ ?b) k = host_lookup tab k" if "k \<noteq> n"
    using that e host_lookup_append [of ?a ?b k] by (simp add: host_lookup_append split: option.split)
  show "host_lookup tab n = None"
    using none host_lookup_append [of ?a ?b n] by simp
qed

lemma client_addr_bounds: "client_addr n \<longleftrightarrow> 0 < n \<and> n < 0xffffffff"
proof -
  have "(0xffffffff :: u32) = - 1" by simp
  then show ?thesis
    unfolding client_addr_def by (metis word_gt_0 word_order.not_eq_extremum)
qed

lemma find_host_correct:
  assumes inv: "htab_inv tab" and n: "client_addr n" and f: "find_host nu rdns tab n = (m, tab')"
  shows "find_host_spec nu rdns tab n m tab'"
proof -
  have len: "2 \<le> length tab" by (rule htab_invD(1) [OF inv])
  have "inet_num (tab ! 0) < n" "n < inet_num (tab ! (length tab - 1))"
    using n htab_invD(3,4) [OF inv] client_addr_bounds by simp_all
  with host_search_result [of 0 "length tab - 1" tab n] inv len
  have res: "case host_search tab n 0 (length tab - 1) of
      Inr m \<Rightarrow> 0 < m \<and> m < length tab - 1 \<and> inet_num (tab ! m) = n
    | Inl m \<Rightarrow> 0 \<le> m \<and> m < length tab - 1 \<and> inet_num (tab ! m) < n \<and> n < inet_num (tab ! Suc m)"
    by (simp add: htab_inv_def)
  show ?thesis
  proof (cases "host_search tab n 0 (length tab - 1)")
    case (Inr i)
    with res have i: "i < length tab" "inet_num (tab ! i) = n" by auto
    define e where "e = (tab ! i)\<lparr>
        hostname := (if nu \<and> hostname (tab ! i) = None then find_hostname rdns n else hostname (tab ! i)),
        acc_cnt := acc_cnt (tab ! i) + 1 \<rparr>"
    have "find_host nu rdns tab n = (i, tab[i := e])"
      using Inr i by (simp add: find_host_def e_def Let_def)
    moreover have "inet_num e = n" using i by (simp add: e_def)
    ultimately show ?thesis
      using f i find_host_hit [OF inv i, of e] unfolding find_host_spec_def by (auto simp: e_def)
  next
    case (Inl i)
    with res have i: "Suc i < length tab" "inet_num (tab ! i) < n" "n < inet_num (tab ! Suc i)" by auto
    define e where "e = hzero\<lparr> inet_num := n, hostname := find_hostname rdns n \<rparr>"
    have "find_host nu rdns tab n = (Suc i, take (Suc i) tab @ [e] @ drop (Suc i) tab)"
      using Inl i by (simp add: find_host_def e_def)
    moreover have "inet_num e = n" by (simp add: e_def)
    ultimately show ?thesis
      using f i find_host_insert [OF inv i(1) _ i(2,3), of e] unfolding find_host_spec_def
      by (auto simp: e_def nth_append)
  qed
qed

subsection \<open>The interface of the session filter\<close>

definition same_session :: "HTAB \<Rightarrow> HTAB \<Rightarrow> bool" where
  "same_session a b \<longleftrightarrow> last_acc a = last_acc b \<and> next_key a = next_key b \<and>
     last_key a = last_key b \<and> active a = active b"

lemma same_session_refl [simp]: "same_session a a"
  by (simp add: same_session_def)

locale host_table =
  fixes find :: "'t \<Rightarrow> u32 \<Rightarrow> nat \<times> 't"
    and entry :: "'t \<Rightarrow> nat \<Rightarrow> HTAB"
    and set_entry :: "'t \<Rightarrow> nat \<Rightarrow> HTAB \<Rightarrow> 't"
    and lookup :: "'t \<Rightarrow> u32 \<Rightarrow> HTAB option"
    and holds :: "'t \<Rightarrow> nat \<Rightarrow> u32 \<Rightarrow> bool"
    and inv :: "'t \<Rightarrow> bool"
    and valid :: "u32 \<Rightarrow> bool"
  assumes find_own: "inv t \<Longrightarrow> valid n \<Longrightarrow> find t n = (m, t') \<Longrightarrow>
        inv t' \<and> holds t' m n \<and> lookup t' n = Some (entry t' m) \<and> inet_num (entry t' m) = n"
    and find_other: "inv t \<Longrightarrow> valid n \<Longrightarrow> find t n = (m, t') \<Longrightarrow> k \<noteq> n \<Longrightarrow> lookup t' k = lookup t k"
    and find_session: "inv t \<Longrightarrow> valid n \<Longrightarrow> find t n = (m, t') \<Longrightarrow>
        same_session (entry t' m) (case lookup t n of None \<Rightarrow> hzero | Some e \<Rightarrow> e)"
    and set_own: "inv t \<Longrightarrow> holds t m n \<Longrightarrow> inet_num e = n \<Longrightarrow>
        inv (set_entry t m e) \<and> holds (set_entry t m e) m n \<and>
        lookup (set_entry t m e) n = Some e \<and> entry (set_entry t m e) m = e"
    and set_other: "inv t \<Longrightarrow> holds t m n \<Longrightarrow> inet_num e = n \<Longrightarrow> k \<noteq> n \<Longrightarrow>
        lookup (set_entry t m e) k = lookup t k"
begin

text \<open>What the filter writes for a client is what it finds for that client at its next packet,
  whoever's packets come in between.\<close>

lemma find_after_set:
  assumes "inv t" "valid n" "find t n = (m, t1)" "inet_num e = n" "find (set_entry t1 m e) n = (m2, t2)"
  shows "inv t2" "same_session (entry t2 m2) e"
proof -
  note own = find_own [OF assms(1-3)]
  note st = set_own [OF own [THEN conjunct1] own [THEN conjunct2, THEN conjunct1] assms(4)]
  show "inv t2" using find_own [OF st [THEN conjunct1] assms(2,5)] by blast
  show "same_session (entry t2 m2) e"
    using find_session [OF st [THEN conjunct1] assms(2,5)] st by simp
qed

lemma others_kept:
  assumes "inv t" "valid n" "find t n = (m, t1)" "inet_num e = n" "k \<noteq> n"
  shows "lookup t1 k = lookup t k" "lookup (set_entry t1 m e) k = lookup t k"
  using find_own [OF assms(1-3)] find_other [OF assms(1-3,5)] set_other [of t1 m n e k] assms(4,5)
  by auto

end

definition slot_of :: "htab \<Rightarrow> nat \<Rightarrow> u32 \<Rightarrow> bool" where
  "slot_of tab m n \<longleftrightarrow> m < length tab \<and> inet_num (tab ! m) = n"

interpretation hosts: host_table "find_host nu rdns" nth list_update host_lookup slot_of htab_inv client_addr
  for nu rdns
proof unfold_locales
  fix t t' :: htab and n m
  assume a: "htab_inv t" "client_addr n" "find_host nu rdns t n = (m, t')"
  note s = find_host_correct [OF a, unfolded find_host_spec_def]
  have "inet_num (t' ! m) = n"
    using s by (auto split: option.splits simp: host_lookup_inet)
  with s show "htab_inv t' \<and> slot_of t' m n \<and> host_lookup t' n = Some (t' ! m) \<and> inet_num (t' ! m) = n"
    by (simp add: slot_of_def)
  show "same_session (t' ! m) (case host_lookup t n of None \<Rightarrow> hzero | Some e \<Rightarrow> e)"
    using s by (auto simp: same_session_def split: option.splits)
  show "k \<noteq> n \<Longrightarrow> host_lookup t' k = host_lookup t k" for k using s by blast
next
  fix t :: htab and m n and e :: HTAB
  assume a: "htab_inv t" "slot_of t m n" "inet_num e = n"
  note h = find_host_hit [of t m n e]
  show "htab_inv (t[m := e]) \<and> slot_of (t[m := e]) m n \<and> host_lookup (t[m := e]) n = Some e \<and> t[m := e] ! m = e"
    using a h by (auto simp: slot_of_def)
  show "k \<noteq> n \<Longrightarrow> host_lookup (t[m := e]) k = host_lookup t k" for k
    using a h by (auto simp: slot_of_def)
qed

subsection \<open>Properties\<close>

fun find_hosts :: "bool \<Rightarrow> reverse_resolver \<Rightarrow> htab \<Rightarrow> u32 list \<Rightarrow> htab" where
  "find_hosts nu rdns tab [] = tab"
| "find_hosts nu rdns tab (n # ns) = find_hosts nu rdns (snd (find_host nu rdns tab n)) ns"

lemma find_hosts_snoc:
  "find_hosts nu rdns tab (ns @ [n]) = snd (find_host nu rdns (find_hosts nu rdns tab ns) n)"
  by (induction ns arbitrary: tab) auto

lemma find_host_length:
  assumes inv: "htab_inv tab" and n: "client_addr n" and f: "find_host nu rdns tab n = (m, tab')"
  shows "length tab' = (if host_lookup tab n = None then Suc (length tab) else length tab)"
proof (cases "host_search tab n 0 (length tab - 1)")
  case (Inl i)
  then have "length tab' = Suc (length tab)" using f by (auto simp: find_host_def Let_def)
  moreover have "host_lookup tab n = None"
  proof -
    have "inet_num (tab ! 0) < n" "n < inet_num (tab ! (length tab - 1))" "2 \<le> length tab"
      "length tab - 1 < length tab"
      using n htab_invD [OF inv] client_addr_bounds by simp_all
    with host_search_result [of 0 "length tab - 1" tab n] inv Inl
    have i: "Suc i < length tab" "inet_num (tab ! i) < n" "n < inet_num (tab ! Suc i)"
      by (auto simp: htab_inv_def)
    from find_host_insert(4) [OF inv i(1) _ i(2,3), of "hzero\<lparr> inet_num := n \<rparr>"] show ?thesis by simp
  qed
  ultimately show ?thesis by simp
next
  case (Inr i)
  then have "length tab' = length tab" using f by (auto simp: find_host_def Let_def)
  moreover have "host_lookup tab n \<noteq> None"
  proof -
    have "inet_num (tab ! 0) < n" "n < inet_num (tab ! (length tab - 1))" "2 \<le> length tab"
      "length tab - 1 < length tab"
      using n htab_invD [OF inv] client_addr_bounds by simp_all
    with host_search_result [of 0 "length tab - 1" tab n] inv Inr
    have "i < length tab" "inet_num (tab ! i) = n" by (auto simp: htab_inv_def)
    with host_lookup_nth [of tab i n] inv show ?thesis by (simp add: htab_inv_def)
  qed
  ultimately show ?thesis by simp
qed

definition counted :: "htab \<Rightarrow> u32 list \<Rightarrow> bool" where
  "counted tab ns \<longleftrightarrow> htab_inv tab \<and> length tab = 2 + card (set ns) \<and>
     (\<forall>n. client_addr n \<longrightarrow>
        (case host_lookup tab n of
           None \<Rightarrow> n \<notin> set ns
         | Some e \<Rightarrow> n \<in> set ns \<and> inet_num e = n \<and> acc_cnt e = of_nat (count_list ns n - 1)))"

lemma counted_step:
  assumes c: "counted tab ns" and n: "client_addr n" and f: "find_host nu rdns tab n = (m, tab')"
  shows "counted tab' (ns @ [n])"
proof -
  have inv: "htab_inv tab" using c by (simp add: counted_def)
  note s = find_host_correct [OF inv n f, unfolded find_host_spec_def]
  have in_ns: "host_lookup tab n = None \<longleftrightarrow> n \<notin> set ns"
    using c n by (auto simp: counted_def split: option.splits)
  have len: "length tab' = 2 + card (set (ns @ [n]))"
    using find_host_length [OF inv n f] c in_ns by (auto simp: counted_def insert_absorb)
  have each: "case host_lookup tab' k of
           None \<Rightarrow> k \<notin> set (ns @ [n])
         | Some e \<Rightarrow> k \<in> set (ns @ [n]) \<and> inet_num e = k \<and> acc_cnt e = of_nat (count_list (ns @ [n]) k - 1)"
    if k: "client_addr k" for k
  proof (cases "k = n")
    case False
    with s have "host_lookup tab' k = host_lookup tab k" by blast
    with c k False show ?thesis by (auto simp: counted_def split: option.splits)
  next
    case True
    show ?thesis
    proof (cases "host_lookup tab n")
      case None
      with in_ns have "count_list ns n = 0" by (simp add: count_list_0_iff)
      with True None s show ?thesis by (auto simp: hzero_def)
    next
      case (Some e)
      with c n have e: "inet_num e = n" "acc_cnt e = of_nat (count_list ns n - 1)"
        by (auto simp: counted_def)
      have "count_list ns n \<noteq> 0" using in_ns Some by (simp add: count_list_0_iff)
      then have "acc_cnt e + 1 = of_nat (count_list ns n)"
        using e(2) by (metis Suc_pred' add.commute bot_nat_0.not_eq_extremum of_nat_Suc)
      with True Some s e show ?thesis by auto
    qed
  qed
  show ?thesis using s len each by (simp add: counted_def)
qed

text \<open>C20: starting from the initial table and searching for any sequence of client addresses, the
  binary search never loses or duplicates a client: the table stays sorted between its
  sentinels, it holds one entry for each distinct address and no other, and an entry counts
  the searches after the one that created it, modulo 2 to the 16.\<close>

theorem host_table_counts_clients:
  assumes "\<forall>n \<in> set ns. client_addr n"
  shows "counted (find_hosts nu rdns init_htab ns) ns"
  using assms
proof (induction ns rule: rev_induct)
  case Nil
  have "host_lookup init_htab n = None" if "client_addr n" for n
    using that by (auto simp: init_htab_def hzero_def client_addr_def)
  then show ?case using init_htab_inv by (simp add: counted_def) (simp add: init_htab_def)
next
  case (snoc n ns)
  then have "counted (find_hosts nu rdns init_htab ns) ns" "client_addr n" by auto
  then show ?case
    using counted_step [of _ ns n nu rdns] by (metis find_hosts_snoc prod.collapse)
qed

theorem host_table_counts_clients_witness:
  "acc_cnt (the (host_lookup (find_hosts False (\<lambda>_ _. None) init_htab [5, 9, 5]) 5)) = 1 \<and>
   length (find_hosts False (\<lambda>_ _. None) init_htab [5, 9, 5]) = 4"
proof -
  define t where "t = find_hosts False (\<lambda>_ _. None) init_htab [5, 9, 5]"
  have c: "client_addr 5" "client_addr 9" by (simp_all add: client_addr_def)
  then have "counted t [5, 9, 5]"
    unfolding t_def by (intro host_table_counts_clients) simp
  then have t: "length t = 2 + card (set [5 :: u32, 9, 5])"
    and "case host_lookup t 5 of None \<Rightarrow> (5 :: u32) \<notin> set [5, 9, 5]
         | Some e \<Rightarrow> (5 :: u32) \<in> set [5, 9, 5] \<and> inet_num e = 5 \<and>
             acc_cnt e = of_nat (count_list [5 :: u32, 9, 5] 5 - 1)"
    using c(1) unfolding counted_def by blast+
  then have "acc_cnt (the (host_lookup t 5)) = 1" by (cases "host_lookup t 5") simp_all
  moreover have "set [5 :: u32, 9, 5] = {5, 9}" by auto
  ultimately show ?thesis using t unfolding t_def [symmetric] by simp
qed

text \<open>C37: sessions are private: the session a client's packet leaves in the table is what the
  client's next packet finds, also when other clients' packets were filtered in between, and
  searching for or updating one client leaves the session of every other client as it was.\<close>

theorem sessions_are_private:
  assumes "htab_inv t" "client_addr n" "client_addr k" "k \<noteq> n"
    and "find_host nu rdns t n = (m, t1)" and "inet_num e = n"
    and "find_host nu rdns (t1[m := e]) k = (j, t2)" and "inet_num f = k"
    and "find_host nu rdns (t2[j := f]) n = (m', t3)"
  shows "same_session (t3 ! m') e \<and> host_lookup t1 k = host_lookup t k \<and>
     host_lookup (t1[m := e]) k = host_lookup t k \<and> host_lookup t3 k = Some f"
proof -
  have own: "htab_inv t1" "slot_of t1 m n"
    using hosts.find_own [OF assms(1,2,5)] by auto
  then have t1': "htab_inv (t1[m := e])" "host_lookup (t1[m := e]) n = Some e"
    using hosts.set_own [OF own assms(6)] by auto
  have "host_lookup (t2[j := f]) n = host_lookup (t1[m := e]) n"
    using hosts.others_kept(2) [OF t1'(1) assms(3,7,8)] assms(4) by simp
  moreover have t2: "htab_inv t2" "slot_of t2 j k" using hosts.find_own [OF t1'(1) assms(3,7)] by auto
  then have t2': "htab_inv (t2[j := f])" "host_lookup (t2[j := f]) k = Some f"
    using hosts.set_own [OF t2 assms(8)] by auto
  ultimately have "same_session (t3 ! m') e"
    using hosts.find_session [OF t2'(1) assms(2,9)] t1'(2) by simp
  moreover have "host_lookup t3 k = Some f"
    using hosts.find_other [OF t2'(1) assms(2,9)] assms(4) t2'(2) by simp
  ultimately show ?thesis
    using hosts.others_kept [OF assms(1,2,5,6,4)] by simp
qed

theorem sessions_are_private_witness:
  "\<exists>m t1 j t2 m' t3. find_host False (\<lambda>_ _. None) init_htab 5 = (m, t1) \<and>
     find_host False (\<lambda>_ _. None) (t1[m := (hzero\<lparr> inet_num := 5, next_key := 77 \<rparr>)]) 9 = (j, t2) \<and>
     find_host False (\<lambda>_ _. None) (t2[j := (hzero\<lparr> inet_num := 9, next_key := 3 \<rparr>)]) 5 = (m', t3) \<and>
     next_key (t3 ! m') = 77"
proof -
  let ?e = "hzero\<lparr> inet_num := 5, next_key := 77 \<rparr>" and ?f = "hzero\<lparr> inet_num := 9, next_key := 3 \<rparr>"
  obtain m t1 where 1: "find_host False (\<lambda>_ _. None) init_htab 5 = (m, t1)" by fastforce
  obtain j t2 where 2: "find_host False (\<lambda>_ _. None) (t1[m := ?e]) 9 = (j, t2)" by fastforce
  obtain m' t3 where 3: "find_host False (\<lambda>_ _. None) (t2[j := ?f]) 5 = (m', t3)" by fastforce
  have c: "client_addr 5" "client_addr 9" by (simp_all add: client_addr_def)
  from sessions_are_private [OF init_htab_inv c _ 1 _ 2 _ 3]
  have "next_key (t3 ! m') = 77" by (simp add: same_session_def)
  with 1 2 3 show ?thesis by blast
qed

end
