(* ===== verification/Packet.thy ===== *)
theory Packet
  imports ServerConf
begin

text \<open>
  The message of \<^verbatim>\<open>include/common_def.h\<close> (\<open>UBUF\<close>), how the two ends lay it out in a
  datagram, and the checksum, which the code computes in four places: \<open>server_reply\<close> and
  \<open>server_loop\<close> of \<^verbatim>\<open>server/server.c\<close>, the sending and the receiving half of
  \<open>client_interact\<close> of \<^verbatim>\<open>client/lib.c\<close>. Replies are summed from 0, requests from their
  length. The sums stay far below the width of \<open>unsigned\<close> and are natural numbers.

  The interface \<open>checksummed_link\<close> is what a receiver relies on; it is interpreted once per
  direction.
\<close>

record UBUF =
  cmd :: byte
  ub_sum :: byte
  bb_key :: b2
  bb_seq :: b2
  bb_len :: b2
  bb_pos :: b4
  buf :: "char list"

fun b2_octets :: "b2 \<Rightarrow> byte list" where
  "b2_octets (a, b) = [a, b]"

fun b4_octets :: "b4 \<Rightarrow> byte list" where
  "b4_octets (a, b, c, d) = [a, b, c, d]"

definition ubuf_octets :: "UBUF \<Rightarrow> byte list" where
  "ubuf_octets u = [cmd u, ub_sum u] @ b2_octets (bb_key u) @ b2_octets (bb_seq u) @
     b2_octets (bb_len u) @ b4_octets (bb_pos u) @ map char_byte (buf u)"

definition wf_ubuf :: "UBUF \<Rightarrow> bool" where
  "wf_ubuf u \<longleftrightarrow> length (buf u) = UBUF_MAXSPACE"

text \<open>What \<open>recvfrom\<close> leaves in a message buffer: the octets received over the old content.\<close>

definition recv_into :: "UBUF \<Rightarrow> byte list \<Rightarrow> UBUF" where
  "recv_into old bs =
     (let m = bs @ drop (length bs) (ubuf_octets old) in
      \<lparr> cmd = m ! 0, ub_sum = m ! 1, bb_key = (m ! 2, m ! 3), bb_seq = (m ! 4, m ! 5),
        bb_len = (m ! 6, m ! 7), bb_pos = (m ! 8, m ! 9, m ! 10, m ! 11),
        buf = map byte_char (drop 12 m) \<rparr>)"

fun sum_octets :: "byte list \<Rightarrow> nat \<Rightarrow> nat" where
  "sum_octets [] acc = acc"
| "sum_octets (t # ts) acc = sum_octets ts (acc + unat t)"

text \<open>Sending: the sum field is the checksum of the packet with that field zero.\<close>

definition server_seal :: "byte list \<Rightarrow> byte list" where
  "server_seal bs =
     (let z = bs[1 := 0]; s = sum_octets z 0 in z[1 := of_nat (s + s div 256)])"

definition client_seal :: "byte list \<Rightarrow> byte list" where
  "client_seal bs =
     (let z = bs[1 := 0]; s = sum_octets z (length bs) in z[1 := of_nat (s + s div 256)])"

text \<open>Receiving.\<close>

definition server_check :: "byte list \<Rightarrow> bool" where
  "server_check bs =
     (let u = bs ! 1; s = sum_octets (bs[1 := 0]) (length bs)
      in (s + s div 256) mod 256 = unat u)"

definition client_check :: "byte list \<Rightarrow> bool" where
  "client_check bs =
     (let u = bs ! 1; s = sum_octets (bs[1 := 0]) 0
      in (s + s div 256) mod 256 = unat u)"

text \<open>The datagram \<open>server_reply\<close> hands to \<open>sendto\<close>.\<close>

definition reply_packet :: "UBUF \<Rightarrow> nat \<Rightarrow> nat \<Rightarrow> byte list" where
  "reply_packet ub len1 len2 =
     server_seal (take (len1 + len2 + UBUF_HSIZE)
       (ubuf_octets (ub\<lparr> bb_len := BB_WRITE2 (of_nat len1) \<rparr>)))"

text \<open>The datagram of \<open>client_interact\<close>: the two data regions follow the header.\<close>

definition request_packet :: "byte \<Rightarrow> u32 \<Rightarrow> char list \<Rightarrow> char list \<Rightarrow> u16 \<Rightarrow> b2 \<Rightarrow> byte list" where
  "request_packet c pos p1 p2 key seq =
     client_seal (ubuf_octets
       \<lparr> cmd = c, ub_sum = 0, bb_key = BB_WRITE2 key, bb_seq = seq,
         bb_len = BB_WRITE2 (of_nat (length p1)), bb_pos = BB_WRITE4 pos, buf = p1 @ p2 \<rparr>)"

text \<open>The header tests of both receivers, on the number of octets received.\<close>

definition length_ok :: "UBUF \<Rightarrow> nat \<Rightarrow> bool" where
  "length_ok rbuf bytes \<longleftrightarrow>
     \<not> bytes < UBUF_HSIZE \<and> \<not> unat (BB_READ2 (bb_len rbuf)) + UBUF_HSIZE > bytes"

subsection \<open>Layout\<close>

lemma length_b2_octets [simp]: "length (b2_octets p) = 2"
  by (cases p) simp

lemma length_b4_octets [simp]: "length (b4_octets p) = 4"
  by (cases p) simp

lemma length_ubuf_octets [simp]: "length (ubuf_octets u) = 12 + length (buf u)"
  by (simp add: ubuf_octets_def)

text \<open>A message buffer whose first octets are those of \<open>u\<close>.\<close>

lemma recv_into_prefix:
  assumes "bs = take n (ubuf_octets u)" and "12 \<le> n" and "n \<le> 12 + length (buf u)"
  shows "cmd (recv_into old bs) = cmd u" "ub_sum (recv_into old bs) = ub_sum u"
    "bb_key (recv_into old bs) = bb_key u" "bb_seq (recv_into old bs) = bb_seq u"
    "bb_len (recv_into old bs) = bb_len u" "bb_pos (recv_into old bs) = bb_pos u"
    "take (n - 12) (buf (recv_into old bs)) = take (n - 12) (buf u)"
proof -
  obtain k1 k2 s1 s2 l1 l2 p1 p2 p3 p4 where f:
    "bb_key u = (k1, k2)" "bb_seq u = (s1, s2)" "bb_len u = (l1, l2)" "bb_pos u = (p1, p2, p3, p4)"
    by (metis prod.collapse)
  define k where "k = n - 12"
  have n: "n = 12 + k" using assms(2) by (simp add: k_def)
  define h where "h = [cmd u, ub_sum u, k1, k2, s1, s2, l1, l2, p1, p2, p3, p4]"
  have "ubuf_octets u = h @ map char_byte (buf u)" by (simp add: ubuf_octets_def h_def f)
  moreover have "length h = 12" by (simp add: h_def)
  ultimately have "bs = h @ take k (map char_byte (buf u))"
    unfolding assms(1) n by simp
  note bs = this [unfolded h_def]
  have k: "k \<le> length (buf u)" using assms(3) n by simp
  show "cmd (recv_into old bs) = cmd u" "ub_sum (recv_into old bs) = ub_sum u"
    "bb_key (recv_into old bs) = bb_key u" "bb_seq (recv_into old bs) = bb_seq u"
    "bb_len (recv_into old bs) = bb_len u" "bb_pos (recv_into old bs) = bb_pos u"
    unfolding recv_into_def bs f by (simp_all add: Let_def nth_append)
  show "take (n - 12) (buf (recv_into old bs)) = take (n - 12) (buf u)"
    unfolding recv_into_def bs n using k by (simp add: Let_def take_map o_def)
qed

subsection \<open>The checksum\<close>

lemma sum_octets_sum: "sum_octets bs acc = acc + sum_list (map unat bs)"
  by (induction bs arbitrary: acc) auto

lemma sum_octets_update:
  assumes "i < length bs"
  shows "sum_octets (bs[i := v]) acc + unat (bs ! i) = sum_octets bs acc + unat v"
  using assms unfolding sum_octets_sum
proof (induction bs arbitrary: i)
  case (Cons b bs)
  show ?case
  proof (cases i)
    case (Suc j)
    with Cons.IH [of j] Cons.prems show ?thesis by simp
  qed simp
qed simp

text \<open>Folding the carry in keeps apart sums that differ by less than 255.\<close>

lemma fold_differs:
  fixes s d :: nat
  assumes "1 \<le> d" "d \<le> 254"
  shows "(s + s div 256) mod 256 \<noteq> ((s + d) + (s + d) div 256) mod 256"
proof -
  define q where "q = s div 256"
  define r where "r = s mod 256"
  have s: "s = 256 * q + r" "r < 256" by (simp_all add: q_def r_def)
  define e where "e = (s + d) div 256 - q"
  have e: "(s + d) div 256 = q + e" "e \<le> 1"
    using s assms by (auto simp: e_def)
  have "((s + d) + (s + d) div 256) = (s + q) + (d + e)" using e by simp
  moreover have "(s + s div 256) = s + q" by (simp add: q_def)
  moreover have "(x + (d + e)) mod 256 \<noteq> x mod 256" for x :: nat
  proof
    assume "(x + (d + e)) mod 256 = x mod 256"
    then have "256 dvd (x + (d + e)) - x" by (metis mod_eq_dvd_iff_nat le_add1)
    then have "256 dvd d + e" by simp
    then have "256 \<le> d + e" using assms by (intro dvd_imp_le) auto
    then show False using assms e by simp
  qed
  ultimately show ?thesis by (metis (full_types))
qed

lemma fold_differs_int:
  fixes s t :: nat
  assumes "s \<noteq> t" "s \<le> t + 254" "t \<le> s + 254"
  shows "(s + s div 256) mod 256 \<noteq> (t + t div 256) mod 256"
proof (cases "s < t")
  case True
  then obtain d where "t = s + d" "1 \<le> d" by (metis less_eqE less_imp_le_nat nat_neq_iff less_one not_less add.right_neutral)
  with fold_differs [of d s] assms show ?thesis by simp
next
  case False
  then obtain d where d: "s = t + d" by (metis linorder_not_le nat_le_iff_add nat_le_linear)
  with assms have "1 \<le> d" by (cases d) auto
  with fold_differs [of d t] d assms show ?thesis by simp
qed

locale checksummed_link =
  fixes seal :: "byte list \<Rightarrow> byte list" and check :: "byte list \<Rightarrow> bool"
  assumes check_seal: "2 \<le> length bs \<Longrightarrow> check (seal bs)"
    and length_seal: "length (seal bs) = length bs"
    and seal_frame: "i \<noteq> 1 \<Longrightarrow> seal bs ! i = bs ! i"
    and damage: "2 \<le> length bs \<Longrightarrow> check bs \<Longrightarrow> i < length bs \<Longrightarrow> v \<noteq> bs ! i \<Longrightarrow>
          {v, bs ! i} \<noteq> {0, 255} \<Longrightarrow> \<not> check (bs[i := v])"
begin

text \<open>What a receiver may conclude from a datagram that passes the check and differs from a
  sealed one in at most one octet, other than by an exchange of 0 and 255.\<close>

lemma accepted_is_sent:
  assumes "2 \<le> length bs" "i < length bs" "check ((seal bs)[i := v])" "{v, seal bs ! i} \<noteq> {0, 255}"
  shows "(seal bs)[i := v] = seal bs"
proof (rule ccontr)
  assume "(seal bs)[i := v] \<noteq> seal bs"
  then have "v \<noteq> seal bs ! i" by (metis list_update_id)
  then show False
    using damage [of "seal bs" i v] check_seal [OF assms(1)] assms by (simp add: length_seal)
qed

lemma take_seal_payload: "2 \<le> n \<Longrightarrow> drop n (seal bs) = drop n bs"
  by (intro nth_equalityI) (auto simp: length_seal seal_frame)

end

lemma sealed_sum:
  assumes "2 \<le> length bs"
  shows "(let z = bs[1 := 0]; s = sum_octets z acc; w = z[1 := of_nat (s + s div 256)];
              s' = sum_octets (w[1 := 0]) acc in (s' + s' div 256) mod 256 = unat (w ! 1))"
proof -
  have "Suc 0 < length bs" using assms by simp
  moreover have "unat (of_nat n :: byte) = n mod 256" for n by (rule unat_byte_of_nat)
  ultimately show ?thesis unfolding Let_def by (simp del: of_nat_add)
qed

lemma damaged_sum:
  assumes len: "2 \<le> length bs"
    and ok: "(sum_octets (bs[1 := 0]) acc + sum_octets (bs[1 := 0]) acc div 256) mod 256 = unat (bs ! 1)"
    and i: "i < length bs" and v: "v \<noteq> bs ! i" "{v, bs ! i} \<noteq> {0, 255}"
  defines "s \<equiv> sum_octets (bs[i := v, 1 := 0]) acc"
  shows "(s + s div 256) mod 256 \<noteq> unat (bs[i := v] ! 1)"
proof (cases "i = 1")
  case True
  have "unat v \<noteq> unat (bs ! 1)" using v(1) True by (simp add: word_unat_eq_iff)
  with True i ok show ?thesis by (simp add: s_def)
next
  case False
  define z where "z = bs[1 := 0]"
  have z: "z ! i = bs ! i" "bs[i := v, 1 := 0] = z[i := v]" "i < length z"
    using False i by (simp_all add: z_def list_update_swap)
  have s: "s + unat (bs ! i) = sum_octets z acc + unat v"
    using sum_octets_update [OF z(3), of v acc] z by (simp add: s_def)
  have "unat v \<noteq> unat (bs ! i)" using v(1) by (simp add: word_unat_eq_iff)
  moreover have "unat v \<le> 255" "unat (bs ! i) \<le> 255"
    using unat_byte_less [of v] unat_byte_less [of "bs ! i"] by linarith+
  moreover have "\<not> (unat v = 0 \<and> unat (bs ! i) = 255)" "\<not> (unat v = 255 \<and> unat (bs ! i) = 0)"
  proof -
    have *: "unat x = 255 \<Longrightarrow> x = 255" "unat x = 0 \<Longrightarrow> x = 0" for x :: byte
      by (auto simp: unat_eq_0 intro: word_unat_eq_iff [THEN iffD2])
    show "\<not> (unat v = 0 \<and> unat (bs ! i) = 255)" "\<not> (unat v = 255 \<and> unat (bs ! i) = 0)"
      using v(2) * [of v] * [of "bs ! i"] by auto
  qed
  ultimately have "sum_octets z acc \<noteq> s" "sum_octets z acc \<le> s + 254" "s \<le> sum_octets z acc + 254"
    using s by linarith+
  from fold_differs_int [OF this] ok False show ?thesis by (simp add: z_def)
qed

interpretation down: checksummed_link server_seal client_check
proof unfold_locales
  fix bs :: "byte list" and i :: nat and v :: byte
  show "2 \<le> length bs \<Longrightarrow> client_check (server_seal bs)"
    using sealed_sum [of bs 0] by (simp add: client_check_def server_seal_def Let_def)
  show "length (server_seal bs) = length bs" by (simp add: server_seal_def Let_def)
  show "i \<noteq> 1 \<Longrightarrow> server_seal bs ! i = bs ! i" by (simp add: server_seal_def Let_def)
  show "2 \<le> length bs \<Longrightarrow> client_check bs \<Longrightarrow> i < length bs \<Longrightarrow> v \<noteq> bs ! i \<Longrightarrow>
      {v, bs ! i} \<noteq> {0, 255} \<Longrightarrow> \<not> client_check (bs[i := v])"
    using damaged_sum [of bs 0 i v] unfolding client_check_def Let_def by blast
qed

interpretation up: checksummed_link client_seal server_check
proof unfold_locales
  fix bs :: "byte list" and i :: nat and v :: byte
  show "2 \<le> length bs \<Longrightarrow> server_check (client_seal bs)"
    using sealed_sum [of bs "length bs"] by (simp add: server_check_def client_seal_def Let_def)
  show "length (client_seal bs) = length bs" by (simp add: client_seal_def Let_def)
  show "i \<noteq> 1 \<Longrightarrow> client_seal bs ! i = bs ! i" by (simp add: client_seal_def Let_def)
  show "2 \<le> length bs \<Longrightarrow> server_check bs \<Longrightarrow> i < length bs \<Longrightarrow> v \<noteq> bs ! i \<Longrightarrow>
      {v, bs ! i} \<noteq> {0, 255} \<Longrightarrow> \<not> server_check (bs[i := v])"
    using damaged_sum [of bs "length bs" i v] unfolding server_check_def Let_def length_list_update
    by blast
qed

subsection \<open>Properties\<close>

lemma sealed_prefix:
  assumes len: "length (seal bs) = length bs" and frame: "\<And>i. i \<noteq> 1 \<Longrightarrow> seal bs ! i = bs ! i"
    and bs: "bs = take n (ubuf_octets u)" "12 \<le> n" "n \<le> 12 + length (buf u)"
  shows "\<exists>w. seal bs = take n (ubuf_octets (u\<lparr> ub_sum := w \<rparr>))"
proof -
  have "1 < length bs" using bs by simp
  have "seal bs = bs[1 := seal bs ! 1]"
    by (rule nth_equalityI) (use len frame \<open>1 < length bs\<close> in \<open>auto simp: nth_list_update\<close>)
  also have "\<dots> = take n ((ubuf_octets u)[1 := seal bs ! 1])"
    by (simp only: bs(1) take_update_swap)
  also have "(ubuf_octets u)[1 := seal bs ! 1] = ubuf_octets (u\<lparr> ub_sum := seal bs ! 1 \<rparr>)"
    by (simp add: ubuf_octets_def)
  finally show ?thesis ..
qed

lemma reply_arrives:
  assumes "len1 + len2 \<le> length (buf ub)" and "len1 + len2 \<le> UBUF_MAXSPACE"
  defines "p \<equiv> reply_packet ub len1 len2"
  shows "length p = len1 + len2 + UBUF_HSIZE \<and> client_check p \<and> length_ok (recv_into old p) (length p) \<and>
    cmd (recv_into old p) = cmd ub \<and> bb_key (recv_into old p) = bb_key ub \<and>
    bb_seq (recv_into old p) = bb_seq ub \<and> bb_pos (recv_into old p) = bb_pos ub \<and>
    unat (BB_READ2 (bb_len (recv_into old p))) = len1 \<and>
    take (len1 + len2) (buf (recv_into old p)) = take (len1 + len2) (buf ub)"
proof -
  define u where "u = ub\<lparr> bb_len := BB_WRITE2 (of_nat len1) \<rparr>"
  define n where "n = len1 + len2 + UBUF_HSIZE"
  define bs where "bs = take n (ubuf_octets u)"
  have n: "12 \<le> n" "n \<le> 12 + length (buf u)"
    using assms(1,2) by (simp_all add: n_def u_def)
  have p: "p = server_seal bs" unfolding p_def reply_packet_def bs_def n_def u_def ..
  have len: "length bs = n" using n by (simp add: bs_def)
  obtain w where w: "p = take n (ubuf_octets (u\<lparr> ub_sum := w \<rparr>))"
    using sealed_prefix [of server_seal bs n u] down.length_seal down.seal_frame bs_def n p by auto
  note r = recv_into_prefix [OF w n(1), unfolded UBUF.simps, of old]
  have "unat (of_nat len1 :: u16) = len1"
    unfolding unat_u16_of_nat using assms(2) by simp
  with r n len down.length_seal [of bs] down.check_seal [of bs] show ?thesis
    unfolding p by (auto simp: n_def u_def length_ok_def)
qed

text \<open>C23: a reply of the server arrives: for every message buffer and every two data regions that
  fit it, the datagram \<open>server_reply\<close> sends has the length of header and regions, passes the
  length tests and the checksum of the client, and reads back with the command, key, sequence
  number and position of the buffer, the first length in the length field, and the data.\<close>

theorem reply_is_accepted:
  assumes "wf_ubuf ub" and "len1 + len2 \<le> UBUF_MAXSPACE"
  defines "p \<equiv> reply_packet ub len1 len2"
  shows "length p = len1 + len2 + UBUF_HSIZE \<and> client_check p \<and> length_ok (recv_into old p) (length p) \<and>
    cmd (recv_into old p) = cmd ub \<and> bb_key (recv_into old p) = bb_key ub \<and>
    bb_seq (recv_into old p) = bb_seq ub \<and> bb_pos (recv_into old p) = bb_pos ub \<and>
    unat (BB_READ2 (bb_len (recv_into old p))) = len1 \<and>
    take (len1 + len2) (buf (recv_into old p)) = take (len1 + len2) (buf ub)"
  unfolding p_def using assms(1,2) by (intro reply_arrives) (simp_all add: wf_ubuf_def)

theorem reply_is_accepted_witness:
  "\<exists>ub. wf_ubuf ub \<and> client_check (reply_packet ub 3 2) \<and> length (reply_packet ub 3 2) = 17"
proof -
  let ?u = "\<lparr> cmd = CC_STAT, ub_sum = 0, bb_key = (0, 0), bb_seq = (0, 0), bb_len = (0, 0),
              bb_pos = (0, 0, 0, 0), buf = replicate 4380 NUL \<rparr>"
  have "wf_ubuf ?u" by (simp add: wf_ubuf_def)
  with reply_is_accepted [OF this, of 3 2] show ?thesis by (intro exI [of _ ?u]) simp
qed

lemma request_arrives:
  assumes "length p1 + length p2 \<le> UBUF_MAXSPACE" and p_def: "p = request_packet c pos p1 p2 key seq"
  shows "length p = length p1 + length p2 + UBUF_HSIZE \<and> server_check p \<and>
    length_ok (recv_into old p) (length p) \<and> cmd (recv_into old p) = c \<and>
    BB_READ2 (bb_key (recv_into old p)) = key \<and> bb_seq (recv_into old p) = seq \<and>
    BB_READ4 (bb_pos (recv_into old p)) = pos \<and>
    unat (BB_READ2 (bb_len (recv_into old p))) = length p1 \<and>
    take (length p - UBUF_HSIZE) (buf (recv_into old p)) = p1 @ p2"
proof -
  define u where "u = \<lparr> cmd = c, ub_sum = 0, bb_key = BB_WRITE2 key, bb_seq = seq,
         bb_len = BB_WRITE2 (of_nat (length p1)), bb_pos = BB_WRITE4 pos, buf = p1 @ p2 \<rparr>"
  define n where "n = 12 + length (buf u)"
  have n: "12 \<le> n" "n \<le> 12 + length (buf u)" by (simp_all add: n_def)
  have bs: "ubuf_octets u = take n (ubuf_octets u)" by (simp add: n_def)
  have p: "p = client_seal (ubuf_octets u)" unfolding p_def request_packet_def u_def ..
  have len: "length p = n" by (simp add: p up.length_seal n_def)
  obtain w where w: "p = take n (ubuf_octets (u\<lparr> ub_sum := w \<rparr>))"
    using sealed_prefix [of client_seal "ubuf_octets u" n u] up.length_seal up.seal_frame bs n p by auto
  note r = recv_into_prefix [OF w n(1), unfolded UBUF.simps, of old]
  have "unat (of_nat (length p1) :: u16) = length p1"
    unfolding unat_u16_of_nat using assms(1) by simp
  with r n len up.check_seal [of "ubuf_octets u"] show ?thesis
    unfolding p by (auto simp: n_def u_def length_ok_def)
qed

text \<open>A request of the client arrives: whatever the command, position, key, sequence number and
  two data regions, the datagram \<open>client_interact\<close> sends passes the length tests and the
  checksum of the server and reads back with all its fields and data.\<close>

theorem request_is_accepted:
  assumes "length p1 + length p2 \<le> UBUF_MAXSPACE" and p_def: "p = request_packet c pos p1 p2 key seq"
  shows "length p = length p1 + length p2 + UBUF_HSIZE \<and> server_check p \<and>
    length_ok (recv_into old p) (length p) \<and> cmd (recv_into old p) = c \<and>
    BB_READ2 (bb_key (recv_into old p)) = key \<and> bb_seq (recv_into old p) = seq \<and>
    BB_READ4 (bb_pos (recv_into old p)) = pos \<and>
    unat (BB_READ2 (bb_len (recv_into old p))) = length p1 \<and>
    take (length p - UBUF_HSIZE) (buf (recv_into old p)) = p1 @ p2"
  using request_arrives [OF assms] .

theorem request_is_accepted_witness:
  "server_check (request_packet CC_GET_FILE 1024 (''a/b'' @ [NUL]) (map byte_char [2, 0]) 7 (1, 8)) \<and>
   length (request_packet CC_GET_FILE 1024 (''a/b'' @ [NUL]) (map byte_char [2, 0]) 7 (1, 8)) = 18"
  using request_is_accepted [of "''a/b'' @ [NUL]" "map byte_char [2, 0]" _ CC_GET_FILE 1024 7 "(1, 8)", OF _ refl]
  by simp



end
