(* ===== verification/Throttle.thy ===== *)
theory Throttle
  imports ServerConf "HOL-Library.While_Combinator"
begin

text \<open>
  The throughput control of \<open>server_reply\<close> in \<^verbatim>\<open>server/server.c\<close>: the octets sent in each
  of the last ten seconds, newest first (\<open>thc\<close>, ending at the second \<open>thcbase\<close>), and the loop
  that waits until their average is allowed. The loop sleeps but does not read the clock
  again, so it may never end: it is \<^const>\<open>while_option\<close>, where \<open>None\<close> is that case.
\<close>

type_synonym thc_state = "nat list \<times> time"

abbreviation (input) THCCOUNT :: nat where "THCCOUNT \<equiv> 10"

definition thc_init :: "time \<Rightarrow> thc_state" where
  "thc_init now = (replicate THCCOUNT 0, now)"

fun thc_down :: "nat \<Rightarrow> nat list \<Rightarrow> nat list" where
  "thc_down 0 thc = thc"
| "thc_down (Suc k) thc = thc_down k (0 # take (THCCOUNT - 1) thc)"

definition thc_shift :: "time \<Rightarrow> thc_state \<Rightarrow> thc_state" where
  "thc_shift cur_time s =
     (case s of (thc, thcbase) \<Rightarrow>
        if cur_time > thcbase then
          (if cur_time > thcbase + int THCCOUNT then (replicate THCCOUNT 0, cur_time)
           else (thc_down (nat (cur_time - thcbase)) thc, cur_time))
        else (thc, thcbase))"

definition thc_average :: "thc_state \<Rightarrow> nat" where
  "thc_average s = sum_list (fst s) div THCCOUNT"

text \<open>The comparison is of unsigned values, so a negative limit is a huge one.\<close>

definition thc_allowed :: "int \<Rightarrow> thc_state \<Rightarrow> bool" where
  "thc_allowed limit s \<longleftrightarrow> thc_average s \<le> unat (of_int limit :: u32)"

definition throttle :: "int \<Rightarrow> time \<Rightarrow> nat \<Rightarrow> thc_state \<Rightarrow> thc_state option" where
  "throttle limit cur_time octets s =
     (if limit = 0 then Some s
      else map_option (\<lambda>(thc, thcbase). (thc[0 := thc ! 0 + octets], thcbase))
             (while_option (\<lambda>s. \<not> thc_allowed limit s) (thc_shift cur_time) (thc_shift cur_time s)))"

lemma thc_shift_idem: "thc_shift cur (thc_shift cur s) = thc_shift cur s"
  by (auto simp: thc_shift_def split: prod.splits)

lemma throttle_eq:
  assumes "limit \<noteq> 0"
  shows "throttle limit cur n s =
     (if thc_allowed limit (thc_shift cur s)
      then Some ((fst (thc_shift cur s))[0 := fst (thc_shift cur s) ! 0 + n], snd (thc_shift cur s))
      else None)"
proof (cases "thc_allowed limit (thc_shift cur s)")
  case True
  then show ?thesis
    using assms by (subst throttle_def, subst while_option_unfold) (simp add: case_prod_beta)
next
  case False
  have "while_option (\<lambda>s. \<not> thc_allowed limit s) (thc_shift cur) (thc_shift cur s) = None"
  proof (rule ccontr)
    assume "while_option (\<lambda>s. \<not> thc_allowed limit s) (thc_shift cur) (thc_shift cur s) \<noteq> None"
    then obtain t where t: "while_option (\<lambda>s. \<not> thc_allowed limit s) (thc_shift cur) (thc_shift cur s) = Some t"
      by blast
    have "t = thc_shift cur s"
      by (rule while_option_rule [OF _ t, where P = "\<lambda>x. x = thc_shift cur s"]) (simp_all add: thc_shift_idem)
    with while_option_stop [OF t] False show "False" by simp
  qed
  then show ?thesis using False assms by (simp add: throttle_def)
qed

text \<open>The octets sent at second \<open>t\<close>, for the list of the datagrams sent.\<close>

definition sent_at :: "(time \<times> nat) list \<Rightarrow> time \<Rightarrow> nat" where
  "sent_at es t = sum_list (map snd (filter (\<lambda>e. fst e = t) es))"

definition window :: "(time \<times> nat) list \<Rightarrow> thc_state \<Rightarrow> bool" where
  "window es s \<longleftrightarrow> length (fst s) = THCCOUNT \<and> (\<forall>e \<in> set es. fst e \<le> snd s) \<and>
     (\<forall>i < THCCOUNT. fst s ! i = sent_at es (snd s - int i))"

lemma sent_at_future: "\<forall>e \<in> set es. fst e \<le> b \<Longrightarrow> b < t \<Longrightarrow> sent_at es t = 0"
proof -
  assume "\<forall>e \<in> set es. fst e \<le> b" "b < t"
  then have "filter (\<lambda>e. fst e = t) es = []" by (auto simp: filter_empty_conv)
  then show ?thesis by (simp add: sent_at_def)
qed

lemma thc_down_window:
  assumes "window es (thc, b)"
  shows "window es (thc_down k thc, b + int k)"
  using assms
proof (induction k arbitrary: thc b)
  case (Suc k)
  have "window es (0 # take (THCCOUNT - 1) thc, b + 1)"
    unfolding window_def fst_conv snd_conv
  proof (intro conjI allI impI)
    show "length (0 # take (THCCOUNT - 1) thc) = THCCOUNT" using Suc.prems by (simp add: window_def)
    show "\<forall>e \<in> set es. fst e \<le> b + 1" using Suc.prems by (auto simp: window_def)
    fix i assume i: "i < THCCOUNT"
    show "(0 # take (THCCOUNT - 1) thc) ! i = sent_at es (b + 1 - int i)"
    proof (cases i)
      case 0
      then show ?thesis using sent_at_future [of es b "b + 1"] Suc.prems by (simp add: window_def)
    next
      case (Suc j)
      with i \<open>window es (thc, b)\<close> show ?thesis by (simp add: window_def algebra_simps)
    qed
  qed
  from Suc.IH [OF this] show ?case by (simp add: algebra_simps)
qed simp

lemma thc_shift_window:
  assumes w: "window es s" and "snd s \<le> cur"
  shows "window es (thc_shift cur s) \<and> snd (thc_shift cur s) = cur"
proof (cases s)
  case (Pair thc b)
  show ?thesis
  proof (cases "cur > b")
    case False
    with assms Pair show ?thesis by (simp add: thc_shift_def)
  next
    case gt: True
    show ?thesis
    proof (cases "cur > b + int THCCOUNT")
      case True
      have "sent_at es (cur - int i) = 0" if "i < THCCOUNT" for i
        using sent_at_future [of es b "cur - int i"] w True that Pair by (simp add: window_def)
      with w True gt Pair show ?thesis by (auto simp: thc_shift_def window_def)
    next
      case False
      with gt thc_down_window [of es thc b "nat (cur - b)"] w Pair show ?thesis
        by (simp add: thc_shift_def)
    qed
  qed
qed

text \<open>The throughput control keeps a sliding window: if the table holds what was sent in each of the
  ten seconds up to its base and the clock has not gone back, then a datagram that is let
  through is let through because the last ten seconds average to at most the limit, and
  afterwards the table holds what was sent in the ten seconds up to now, this datagram
  included.\<close>

theorem throttle_window:
  assumes "window es (thc, b)" and "b \<le> cur" and "limit \<noteq> 0"
    and "throttle limit cur n (thc, b) = Some s'"
  shows "window ((cur, n) # es) s' \<and> snd s' = cur \<and>
    sum_list (map (\<lambda>i. sent_at es (cur - int i)) [0..<THCCOUNT]) div THCCOUNT \<le> unat (of_int limit :: u32)"
proof -
  define s1 where "s1 = thc_shift cur (thc, b)"
  have w: "window es s1" "snd s1 = cur" using thc_shift_window [OF assms(1)] assms(2) by (auto simp: s1_def)
  have s': "thc_allowed limit s1" "s' = ((fst s1)[0 := fst s1 ! 0 + n], cur)"
    using assms(3,4) w(2) throttle_eq [OF assms(3), of cur n "(thc, b)"]
    by (auto simp: s1_def [symmetric] split: if_splits)
  have "fst s1 = map (\<lambda>i. sent_at es (cur - int i)) [0..<THCCOUNT]"
    using w by (intro nth_equalityI) (auto simp: window_def simp del: upt_rec_numeral)
  then have "sum_list (map (\<lambda>i. sent_at es (cur - int i)) [0..<THCCOUNT]) div THCCOUNT \<le> unat (of_int limit :: u32)"
    using s'(1) unfolding thc_allowed_def thc_average_def by metis
  moreover have "window ((cur, n) # es) s'"
    using w unfolding s'(2) window_def fst_conv snd_conv
    by (auto simp: nth_list_update sent_at_def)
  ultimately show ?thesis using s'(2) by simp
qed

theorem throttle_window_witness:
  "throttle 100 7 50 (thc_init 5) = Some (50 # replicate 9 0, 7) \<and> window [(7, 50)] (50 # replicate 9 0, 7)"
proof -
  have w: "window [] (thc_init 5)" by (simp add: window_def thc_init_def sent_at_def)
  have r: "replicate 10 (0 :: nat) = [0, 0, 0, 0, 0, 0, 0, 0, 0, 0]" "replicate 9 (0 :: nat) = [0, 0, 0, 0, 0, 0, 0, 0, 0]"
    by (simp_all add: eval_nat_numeral)
  have "thc_down 2 xs = 0 # take 9 (0 # take 9 xs)" for xs by (simp add: numeral_2_eq_2)
  then have t: "throttle 100 7 50 (replicate 10 0, 5) = Some (50 # replicate 9 0, 7)"
    by (simp add: throttle_eq thc_shift_def thc_allowed_def thc_average_def r)
  from throttle_window [OF w [unfolded thc_init_def] _ _ t] t show ?thesis by (simp add: thc_init_def)
qed

text \<open>C40: the wait for throughput never ends once it starts: with a limit set, \<open>server_reply\<close> sends the
  datagram at once exactly when the average over the window at the current time is within the
  limit, and otherwise loops for ever, because the time the window depends on is not read
  again while it waits.\<close>

theorem throttle_hangs:
  "throttle limit cur n s = None \<longleftrightarrow> limit \<noteq> 0 \<and> \<not> thc_allowed limit (thc_shift cur s)"
proof (cases "limit = 0")
  case True
  then show ?thesis by (simp add: throttle_def)
next
  case False
  then show ?thesis by (simp add: throttle_eq)
qed

end
