(* ===== verification/Session.thy ===== *)
theory Session
  imports Packet Hosts IpRange
begin

text \<open>
  The message filter of \<open>server_loop\<close> in \<^verbatim>\<open>server/server.c\<close>: which datagrams reach the
  command dispatcher, and the session keys. \<open>session_check\<close> is the key test, \<open>server_filter\<close>
  the whole sequence of tests on a datagram that lies in the message buffer, \<open>server_receive\<close>
  a call of \<open>recvfrom\<close> followed by the filter. The clock value the code reads with \<open>time\<close> is
  the argument \<open>now\<close>; \<open>next_keys\<close> is what \<open>server_process_packet\<close> does first with the keys, the new
  key (a random number) being an argument.
\<close>

datatype verdict =
    Ignored
  | Error_reply string
  | Accepted bool nat
  | Illegal_host_type
  | Out_of_bounds

definition session_check :: "fsp_conf \<Rightarrow> time \<Rightarrow> u16 \<Rightarrow> HTAB \<Rightarrow> (bool \<times> HTAB) option" where
  "session_check conf now rkey hp =
     (if next_key hp \<noteq> rkey then
        (if \<not> active hp then Some (False, hp\<lparr> next_key := rkey \<rparr>)
         else if last_key hp = rkey then
           (if now < last_acc hp + retry_timeout conf then None else Some (True, hp))
         else (if now < last_acc hp + session_timeout conf then None
               else Some (False, hp\<lparr> active := False, next_key := rkey \<rparr>)))
      else Some (False, hp))"

definition REVERSE_ERR_MSG :: string where
  "REVERSE_ERR_MSG =
     ''Permission denied -- can'' @ [CHR 0x27] @ ''t identify host.'' @ [NL] @
     ''  Sorry, we can'' @ [CHR 0x27] @ ''t reverse name you.  If you know that your site normally'' @ [NL] @
     ''  can be, try again in a few minutes when the local maps may have been'' @ [NL] @
     ''  updated.  Otherwise, this service is unavailable to you; check'' @ [NL] @
     ''  with your local admins for as to why this is the case.'' @ [NL]"

definition host_verdict :: "fsp_conf \<Rightarrow> IPrange list \<Rightarrow> u32 \<Rightarrow> string" where
  "host_verdict conf iptab addr =
     (case check_ip_table addr iptab of
        Some ir \<Rightarrow> ir
      | None \<Rightarrow> if priv_mode conf then ''DFSP service not available'' else ''N'')"

text \<open>The tests from the search of the host on.\<close>

definition filter_session ::
  "fsp_conf \<Rightarrow> reverse_resolver \<Rightarrow> time \<Rightarrow> UBUF \<Rightarrow> nat \<Rightarrow> u32 \<Rightarrow> htab \<Rightarrow> verdict \<times> htab" where
  "filter_session conf rdns now rbuf bytes addr tab0 =
     (let (hp, tab) = find_host (no_unnamed conf) rdns tab0 addr in
      if hostname (tab ! hp) = None \<and> no_unnamed conf then (Error_reply REVERSE_ERR_MSG, tab)
      else (case session_check conf now (BB_READ2 (bb_key rbuf)) (tab ! hp) of
              None \<Rightarrow> (Ignored, tab)
            | Some (old, e) \<Rightarrow>
                (let tab' = tab[hp := e\<lparr> last_acc := now, active := True \<rparr>] in
                 if bytes > UBUF_HSIZE + UBUF_MAXSPACE then (Out_of_bounds, tab')
                 else if \<not> server_check (take bytes (ubuf_octets rbuf)) then (Ignored, tab')
                 else (Accepted old hp, tab'))))"

definition server_filter ::
  "fsp_conf \<Rightarrow> reverse_resolver \<Rightarrow> IPrange list \<Rightarrow> time \<Rightarrow> UBUF \<Rightarrow> nat \<Rightarrow> u32 \<Rightarrow> htab \<Rightarrow> verdict \<times> htab" where
  "server_filter conf rdns iptab now rbuf bytes addr tab =
     (if \<not> length_ok rbuf bytes then (Ignored, tab)
      else (let ir = host_verdict conf iptab addr;
                kind = (if ir = [] then NUL else hd ir) in
            if kind = CHR ''D'' \<and> cmd rbuf \<noteq> CC_BYE then (Error_reply (tl ir), tab)
            else if kind = CHR ''I'' then (Ignored, tab)
            else if kind \<noteq> CHR ''D'' \<and> kind \<noteq> CHR ''N'' then (Illegal_host_type, tab)
            else filter_session conf rdns now rbuf bytes addr tab))"

text \<open>
  A datagram longer than the buffer is cut. When \<open>recvfrom\<close> fails it returns -1, which the
  code stores in an unsigned variable; buffer and sender keep their old contents.
\<close>

datatype received = Datagram "byte list" u32 | Recv_failed

definition server_receive ::
  "fsp_conf \<Rightarrow> reverse_resolver \<Rightarrow> IPrange list \<Rightarrow> time \<Rightarrow> received \<Rightarrow> UBUF \<Rightarrow> u32 \<Rightarrow> htab
    \<Rightarrow> verdict \<times> UBUF \<times> nat \<times> u32 \<times> htab" where
  "server_receive conf rdns iptab now r rbuf from tab =
     (case r of
        Datagram d addr \<Rightarrow>
          (let bs = take (UBUF_HSIZE + UBUF_MAXSPACE) d;
               rbuf' = recv_into rbuf bs;
               (v, tab') = server_filter conf rdns iptab now rbuf' (length bs) addr tab
           in (v, rbuf', length bs, addr, tab'))
      | Recv_failed \<Rightarrow>
          (let (v, tab') = server_filter conf rdns iptab now rbuf 4294967295 from tab
           in (v, rbuf, 4294967295, from, tab')))"

definition next_keys :: "bool \<Rightarrow> u16 \<Rightarrow> HTAB \<Rightarrow> HTAB" where
  "next_keys old k hp = (if old then hp else hp\<lparr> next_key := k, last_key := next_key hp \<rparr>)"

subsection \<open>Keys\<close>

text \<open>One packet with key \<open>rkey\<close>, seen by the session alone: whether it is dropped, executed as a
  repetition or executed as new, and the session afterwards.\<close>

datatype service = Dropped | Repeated | Fresh

definition session_step :: "fsp_conf \<Rightarrow> time \<Rightarrow> u16 \<Rightarrow> u16 \<Rightarrow> HTAB \<Rightarrow> service \<times> HTAB" where
  "session_step conf now rkey k hp =
     (case session_check conf now rkey hp of
        None \<Rightarrow> (Dropped, hp)
      | Some (old, e) \<Rightarrow>
          (if old then Repeated else Fresh, next_keys old k (e\<lparr> last_acc := now, active := True \<rparr>)))"

lemma session_step_fresh:
  assumes "session_step conf now rkey k hp = (Fresh, hp')"
  shows "last_key hp' = rkey" "next_key hp' = k" "active hp'" "last_acc hp' = now"
  using assms by (auto simp: session_step_def session_check_def next_keys_def split: if_splits)

text \<open>Several packets, each with its time, key and the new key drawn for it.\<close>

fun session_steps :: "fsp_conf \<Rightarrow> (time \<times> u16 \<times> u16) list \<Rightarrow> HTAB \<Rightarrow> service list \<times> HTAB" where
  "session_steps conf [] hp = ([], hp)"
| "session_steps conf ((now, rkey, k) # ps) hp =
     (let (r, hp1) = session_step conf now rkey k hp; (rs, hp2) = session_steps conf ps hp1
      in (r # rs, hp2))"

lemma repeats_not_fresh:
  assumes "last_key hp = rkey" "next_key hp \<noteq> rkey" "active hp"
    and "session_steps conf (map (\<lambda>(t, k). (t, rkey, k)) ps) hp = (rs, hp')"
  shows "Fresh \<notin> set rs \<and> last_key hp' = rkey \<and> next_key hp' = next_key hp"
  using assms
proof (induction ps arbitrary: hp rs)
  case (Cons p ps)
  obtain t k where p: "p = (t, k)" by (cases p)
  obtain r hp1 where s: "session_step conf t rkey k hp = (r, hp1)" by fastforce
  obtain rs' where rs: "session_steps conf (map (\<lambda>(t, k). (t, rkey, k)) ps) hp1 = (rs', hp')" "rs = r # rs'"
    using Cons.prems(4) s by (auto simp: p split: prod.splits)
  have "r \<noteq> Fresh \<and> last_key hp1 = rkey \<and> next_key hp1 = next_key hp \<and> active hp1"
    using s Cons.prems(1-3)
    by (auto simp: session_step_def session_check_def next_keys_def split: if_splits)
  with Cons.IH [OF _ _ _ rs(1)] Cons.prems(2) rs(2) show ?case by auto
qed simp



subsection \<open>The filter\<close>

text \<open>The session of an address, blank when it has none.\<close>

definition session_of :: "htab \<Rightarrow> u32 \<Rightarrow> HTAB" where
  "session_of tab n = (case host_lookup tab n of None \<Rightarrow> hzero | Some e \<Rightarrow> e)"

lemma session_check_cong:
  assumes "same_session a b"
  shows "session_check conf now k a = None \<longleftrightarrow> session_check conf now k b = None"
    "session_check conf now k a = Some (old, a') \<Longrightarrow>
       \<exists>b'. session_check conf now k b = Some (old, b') \<and> same_session a' b'"
  using assms by (auto simp: session_check_def same_session_def split: if_splits)

lemma session_check_inet: "session_check conf now k a = Some (old, a') \<Longrightarrow> inet_num a' = inet_num a"
  by (auto simp: session_check_def split: if_splits)

lemma filter_session_cases:
  assumes inv: "htab_inv tab" and n: "client_addr addr"
    and f: "filter_session conf rdns now rbuf bytes addr tab = (v, tab')"
  shows "htab_inv tab'" "k \<noteq> addr \<Longrightarrow> host_lookup tab' k = host_lookup tab k"
    "case session_check conf now (BB_READ2 (bb_key rbuf)) (session_of tab addr) of
       None \<Rightarrow> same_session (session_of tab' addr) (session_of tab addr) \<and> (v = Ignored \<or> (\<exists>m. v = Error_reply m))
     | Some (old, e) \<Rightarrow>
         (no_unnamed conf \<and> v = Error_reply REVERSE_ERR_MSG) \<or>
         (same_session (session_of tab' addr) (e\<lparr> last_acc := now, active := True \<rparr>) \<and>
          v = (if bytes > UBUF_HSIZE + UBUF_MAXSPACE then Out_of_bounds
               else if \<not> server_check (take bytes (ubuf_octets rbuf)) then Ignored
               else Accepted old (fst (find_host (no_unnamed conf) rdns tab addr))))"
proof -
  obtain hp t1 where h: "find_host (no_unnamed conf) rdns tab addr = (hp, t1)" by fastforce
  note own = hosts.find_own [OF inv n h] and other = hosts.find_other [OF inv n h]
    and ses = hosts.find_session [OF inv n h]
  have same: "same_session (t1 ! hp) (session_of tab addr)" using ses by (simp add: session_of_def)
  note cg = session_check_cong [OF same, of conf now "BB_READ2 (bb_key rbuf)"]
  have so1: "session_of t1 addr = t1 ! hp" using own by (simp add: session_of_def)
  let ?c = "session_check conf now (BB_READ2 (bb_key rbuf)) (t1 ! hp)"
  show "htab_inv tab'" "k \<noteq> addr \<Longrightarrow> host_lookup tab' k = host_lookup tab k"
  proof -
    have "tab' = t1 \<or> (\<exists>old e. ?c = Some (old, e) \<and> tab' = t1[hp := e\<lparr> last_acc := now, active := True \<rparr>])"
      using f h by (auto simp: filter_session_def Let_def split: if_splits option.splits)
    then have "htab_inv tab' \<and> (k \<noteq> addr \<longrightarrow> host_lookup tab' k = host_lookup tab k)"
    proof
      assume "tab' = t1"
      with own other show ?thesis by auto
    next
      assume "\<exists>old e. ?c = Some (old, e) \<and> tab' = t1[hp := e\<lparr> last_acc := now, active := True \<rparr>]"
      then obtain old e where e: "?c = Some (old, e)" "tab' = t1[hp := e\<lparr> last_acc := now, active := True \<rparr>]"
        by blast
      have "inet_num (e\<lparr> last_acc := now, active := True \<rparr>) = addr"
        using session_check_inet [OF e(1)] own by simp
      with hosts.set_own [of t1 hp addr] hosts.set_other [of t1 hp addr] own other e(2)
      show ?thesis by auto
    qed
    then show "htab_inv tab'" "k \<noteq> addr \<Longrightarrow> host_lookup tab' k = host_lookup tab k" by auto
  qed
  show "case session_check conf now (BB_READ2 (bb_key rbuf)) (session_of tab addr) of
       None \<Rightarrow> same_session (session_of tab' addr) (session_of tab addr) \<and> (v = Ignored \<or> (\<exists>m. v = Error_reply m))
     | Some (old, e) \<Rightarrow>
         (no_unnamed conf \<and> v = Error_reply REVERSE_ERR_MSG) \<or>
         (same_session (session_of tab' addr) (e\<lparr> last_acc := now, active := True \<rparr>) \<and>
          v = (if bytes > UBUF_HSIZE + UBUF_MAXSPACE then Out_of_bounds
               else if \<not> server_check (take bytes (ubuf_octets rbuf)) then Ignored
               else Accepted old (fst (find_host (no_unnamed conf) rdns tab addr))))"
  proof (cases "?c")
    case None
    then have "tab' = t1" "v = Ignored \<or> (\<exists>m. v = Error_reply m)"
      using f h by (auto simp: filter_session_def Let_def split: if_splits)
    with None cg(1) same so1 show ?thesis by simp
  next
    case (Some p)
    obtain old a where p: "p = (old, a)" by (cases p)
    with Some cg(2) obtain b where b: "session_check conf now (BB_READ2 (bb_key rbuf)) (session_of tab addr) = Some (old, b)"
      "same_session a b" by blast
    have "inet_num (a\<lparr> last_acc := now, active := True \<rparr>) = addr"
      using session_check_inet Some p own by simp
    with hosts.set_own [of t1 hp addr "a\<lparr> last_acc := now, active := True \<rparr>"] own
    have so: "session_of (t1[hp := a\<lparr> last_acc := now, active := True \<rparr>]) addr = a\<lparr> last_acc := now, active := True \<rparr>"
      by (simp add: session_of_def)
    have sm: "same_session (a\<lparr> last_acc := now, active := True \<rparr>) (b\<lparr> last_acc := now, active := True \<rparr>)"
      using b(2) by (simp add: same_session_def)
    from f h Some p so sm b(1) show ?thesis
      by (auto simp: filter_session_def Let_def split: if_splits)
  qed
qed

lemma server_filter_session:
  assumes "length_ok rbuf bytes" "host_verdict conf iptab addr = CHR ''N'' # r"
  shows "server_filter conf rdns iptab now rbuf bytes addr tab = filter_session conf rdns now rbuf bytes addr tab"
  using assms by (simp add: server_filter_def)

subsection \<open>Examples\<close>

definition blank_ubuf :: UBUF where
  "blank_ubuf = \<lparr> cmd = 0, ub_sum = 0, bb_key = (0, 0), bb_seq = (0, 0), bb_len = (0, 0),
                  bb_pos = (0, 0, 0, 0), buf = [] \<rparr>"

definition demo_bye :: "byte list" where
  "demo_bye = [74, 91, 0, 5, 0, 0, 0, 0, 0, 0, 0, 0]"

definition demo_htab :: htab where
  "demo_htab = [hzero, hzero\<lparr> inet_num := 5, last_acc := 100, next_key := 7, last_key := 6, active := True \<rparr>,
                hzero\<lparr> inet_num := 0xffffffff \<rparr>]"

definition no_rdns :: reverse_resolver where
  "no_rdns = (\<lambda>_ _. None)"

lemma demo_htab_inv: "htab_inv demo_htab" "client_addr 5"
  by (simp_all add: demo_htab_def htab_inv_def hzero_def client_addr_def)

lemma demo_session: "session_of demo_htab 5 =
    hzero\<lparr> inet_num := 5, last_acc := 100, next_key := 7, last_key := 6, active := True \<rparr>"
  by (simp add: session_of_def demo_htab_def hzero_def)

lemma no_rules: "host_verdict default_conf [] a = ''N''"
  by (simp add: host_verdict_def default_conf_def)



text \<open>A session cannot be taken over while it is alive: as long as the session of an address is
  active and was used less than the session timeout ago, a datagram from that address with a
  key other than its next or last one is never accepted, whatever else it contains, and leaves
  the session and every other client's session as they were.\<close>

theorem foreign_keys_are_refused:
  assumes "htab_inv tab" and "client_addr addr" and "active (session_of tab addr)"
    and "BB_READ2 (bb_key rbuf) \<noteq> next_key (session_of tab addr)"
    and "BB_READ2 (bb_key rbuf) \<noteq> last_key (session_of tab addr)"
    and "now < last_acc (session_of tab addr) + session_timeout conf"
    and "server_filter conf rdns iptab now rbuf bytes addr tab = (v, tab')"
  shows "(\<forall>old hp. v \<noteq> Accepted old hp) \<and> same_session (session_of tab' addr) (session_of tab addr) \<and>
    (\<forall>k. k \<noteq> addr \<longrightarrow> host_lookup tab' k = host_lookup tab k)"
proof -
  have c: "session_check conf now (BB_READ2 (bb_key rbuf)) (session_of tab addr) = None"
    using assms(3-6) by (auto simp: session_check_def)
  have "(tab' = tab \<and> (\<forall>old hp. v \<noteq> Accepted old hp)) \<or> filter_session conf rdns now rbuf bytes addr tab = (v, tab')"
    using assms(7) by (auto simp: server_filter_def Let_def split: if_splits)
  then show ?thesis
  proof
    assume f: "filter_session conf rdns now rbuf bytes addr tab = (v, tab')"
    note cs = filter_session_cases [OF assms(1,2) f]
    from cs(3) c cs(2) show ?thesis by auto
  qed simp
qed

theorem foreign_keys_are_refused_witness:
  "\<exists>v tab'. server_filter default_conf no_rdns [] 120 (recv_into blank_ubuf demo_bye) 12 5 demo_htab = (v, tab') \<and>
     v \<noteq> Accepted False 1 \<and> next_key (session_of tab' 5) = 7"
proof -
  obtain v tab' where r: "server_filter default_conf no_rdns [] 120 (recv_into blank_ubuf demo_bye) 12 5 demo_htab = (v, tab')"
    by fastforce
  have k: "BB_READ2 (bb_key (recv_into blank_ubuf demo_bye)) = 5" by code_simp
  have "(\<forall>old hp. v \<noteq> Accepted old hp) \<and> same_session (session_of tab' 5) (session_of demo_htab 5) \<and>
    (\<forall>k. k \<noteq> 5 \<longrightarrow> host_lookup tab' k = host_lookup demo_htab k)"
    by (rule foreign_keys_are_refused [OF demo_htab_inv _ _ _ _ r])
      (simp_all add: demo_session k default_conf_def)
  with r show ?thesis by (simp add: same_session_def demo_session)
qed

text \<open>The session is updated before the checksum is looked at: a damaged or forged datagram, whose
  checksum is wrong, from an address without an active session is dropped, but it opens the
  session with its own key, so a correct request of that client with another key is then
  dropped until the session timeout has passed.\<close>

theorem bad_checksum_locks_session:
  assumes "htab_inv tab" and "client_addr addr" and "host_lookup tab addr = None"
    and "\<not> no_unnamed conf" and "host_verdict conf iptab addr = CHR ''N'' # r"
    and "length_ok bad b1" and "b1 \<le> UBUF_HSIZE + UBUF_MAXSPACE" and "\<not> server_check (take b1 (ubuf_octets bad))"
    and "server_filter conf rdns iptab now bad b1 addr tab = (v1, tab1)"
    and "BB_READ2 (bb_key good) \<noteq> BB_READ2 (bb_key bad)" and "BB_READ2 (bb_key good) \<noteq> 0"
    and "now2 < now + session_timeout conf"
    and "server_filter conf rdns iptab now2 good b2 addr tab1 = (v2, tab2)"
  shows "v1 = Ignored \<and> v2 = Ignored \<and> next_key (session_of tab1 addr) = BB_READ2 (bb_key bad)"
proof -
  note f = assms(9) [unfolded server_filter_session [OF assms(6,5)]]
  note cs = filter_session_cases [OF assms(1,2) f]
  have c: "session_check conf now (BB_READ2 (bb_key bad)) (session_of tab addr) =
      Some (False, hzero\<lparr> next_key := BB_READ2 (bb_key bad) \<rparr>)"
    using assms(3) by (simp add: session_of_def session_check_def hzero_def)
  with cs(3) assms(4,7,8)
  have v1: "v1 = Ignored" and s1: "same_session (session_of tab1 addr)
      (hzero\<lparr> next_key := BB_READ2 (bb_key bad), last_acc := now, active := True \<rparr>)" by auto
  have "v2 = Ignored"
  proof (cases "length_ok good b2")
    case False
    with assms(13) show ?thesis by (simp add: server_filter_def)
  next
    case True
    note f2 = assms(13) [unfolded server_filter_session [OF True assms(5)]]
    have c2: "session_check conf now2 (BB_READ2 (bb_key good)) (session_of tab1 addr) = None"
      using s1 assms(10-12) by (auto simp: session_check_def same_session_def hzero_def)
    obtain hp t where h: "find_host (no_unnamed conf) rdns tab1 addr = (hp, t)" by fastforce
    note own = hosts.find_session [OF cs(1) assms(2) h]
    then have "session_check conf now2 (BB_READ2 (bb_key good)) (t ! hp) = None"
      using session_check_cong(1) c2 by (simp add: session_of_def)
    with f2 h assms(4) show ?thesis by (simp add: filter_session_def)
  qed
  with v1 s1 show ?thesis by (simp add: same_session_def)
qed

theorem bad_checksum_locks_session_witness:
  "\<exists>v1 tab1 v2 tab2.
     server_filter default_conf no_rdns [] 100 (recv_into blank_ubuf (demo_bye[3 := 9])) 12 5 init_htab = (v1, tab1) \<and>
     server_filter default_conf no_rdns [] 101 (recv_into blank_ubuf demo_bye) 12 5 tab1 = (v2, tab2) \<and>
     v1 = Ignored \<and> v2 = Ignored"
proof -
  let ?bad = "recv_into blank_ubuf (demo_bye[3 := 9])" and ?good = "recv_into blank_ubuf demo_bye"
  obtain v1 tab1 where 1: "server_filter default_conf no_rdns [] 100 ?bad 12 5 init_htab = (v1, tab1)" by fastforce
  obtain v2 tab2 where 2: "server_filter default_conf no_rdns [] 101 ?good 12 5 tab1 = (v2, tab2)" by fastforce
  have k: "BB_READ2 (bb_key ?good) = 5" "BB_READ2 (bb_key ?bad) = 9" by code_simp+
  have bad: "length_ok ?bad 12" "\<not> server_check (take 12 (ubuf_octets ?bad))" by code_simp+
  have "host_lookup init_htab 5 = None" by code_simp
  then have "v1 = Ignored \<and> v2 = Ignored \<and> next_key (session_of tab1 5) = BB_READ2 (bb_key ?bad)"
    by (intro bad_checksum_locks_session [OF init_htab_inv demo_htab_inv(2) _ _ no_rules bad(1) _ bad(2) 1 _ _ _ 2])
      (simp_all add: k default_conf_def)
  with 1 2 show ?thesis by blast
qed

text \<open>A failed \<open>recvfrom\<close> is taken for a datagram of 4294967295 octets: its result -1 passes the
  length tests in the unsigned variable it is stored in, whatever the buffer holds, and when
  the sender of the previous datagram is let through and its key is accepted, the checksum
  loop runs beyond the end of the message buffer.\<close>

theorem failed_receive_overruns:
  assumes "htab_inv tab" and "client_addr from"
    and "\<not> no_unnamed conf" and "host_verdict conf iptab from = CHR ''N'' # r"
    and "session_check conf now (BB_READ2 (bb_key rbuf)) (session_of tab from) = Some q"
  shows "fst (server_receive conf rdns iptab now Recv_failed rbuf from tab) = Out_of_bounds"
proof -
  have "unat (BB_READ2 (bb_len rbuf)) < 65536" by (rule unat_u16_less)
  then have ok: "length_ok rbuf 4294967295" by (simp add: length_ok_def)
  obtain v t where f: "filter_session conf rdns now rbuf 4294967295 from tab = (v, t)" by fastforce
  from filter_session_cases(3) [OF assms(1,2) f] assms(3,5) have "v = Out_of_bounds"
    by (cases q) auto
  with f ok assms(4) show ?thesis by (simp add: server_receive_def server_filter_session)
qed

theorem failed_receive_overruns_witness:
  "fst (server_receive default_conf no_rdns [] 100 Recv_failed (recv_into blank_ubuf demo_bye) 5 init_htab) = Out_of_bounds"
proof -
  have "session_check default_conf 100 (BB_READ2 (bb_key (recv_into blank_ubuf demo_bye))) (session_of init_htab 5)
      = Some (False, hzero\<lparr> next_key := 5 \<rparr>)" by code_simp
  then show ?thesis
    by (intro failed_receive_overruns [OF init_htab_inv demo_htab_inv(2) _ no_rules]) (simp add: default_conf_def)
qed

end
