(* ===== verification/Posix.thy ===== *)
theory Posix
  imports PathParse "HOL-Library.Monad_Syntax"
begin

text \<open>
  What the server uses of the C library and the operating system: a file tree, a working
  directory, stdio streams and a clock.

  A path is the list of its names. The tree is the list \<open>entries\<close> from paths to inode numbers,
  in creation order; inodes outlive their names while a stream holds them. Symbolic links are
  followed at most 40 times, the usual limit. Access is decided by the owner bits of the mode.
  Written octets are visible at once (a stream is a position in its inode); \<open>room\<close> is the space
  left on the disk, so a write may be cut short. A failing call leaves the world as it was.
  Operations on a stream that is not open are undefined in C: the result is \<open>None\<close>.
\<close>

type_synonym path = "string list"

datatype content = Regular "char list" | Directory | Symlink string | Special

record inode =
  kind :: content
  mtime :: time
  mode :: nat

record stream =
  s_ino :: nat
  s_pos :: nat
  s_write :: bool
  s_err :: bool

record world =
  entries :: "(path \<times> nat) list"
  inodes :: "nat \<Rightarrow> inode"
  next_ino :: nat
  streams :: "(nat \<times> stream) list"
  next_stream :: nat
  cwd :: path
  cur_umask :: nat
  clock :: time
  room :: nat

datatype file_type = S_IFREG | S_IFDIR | S_IFLNK | S_IFOTHER

record stat_buf =
  st_type :: file_type
  st_size :: nat
  st_mtime :: time

abbreviation S_ISDIR :: "stat_buf \<Rightarrow> bool" where "S_ISDIR sb \<equiv> st_type sb = S_IFDIR"
abbreviation S_ISREG :: "stat_buf \<Rightarrow> bool" where "S_ISREG sb \<equiv> st_type sb = S_IFREG"

subsection \<open>The tree\<close>

definition lookup :: "world \<Rightarrow> path \<Rightarrow> nat option" where
  "lookup w p = map_of (entries w) p"

definition node :: "world \<Rightarrow> path \<Rightarrow> inode option" where
  "node w p = map_option (inodes w) (lookup w p)"

definition is_dir :: "world \<Rightarrow> path \<Rightarrow> bool" where
  "is_dir w p = (case node w p of Some i \<Rightarrow> kind i = Directory | None \<Rightarrow> False)"

definition link_at :: "world \<Rightarrow> path \<Rightarrow> string option" where
  "link_at w p = (case node w p of
     Some i \<Rightarrow> (case kind i of Symlink t \<Rightarrow> Some t | _ \<Rightarrow> None) | None \<Rightarrow> None)"

definition may_read :: "inode \<Rightarrow> bool" where
  "may_read i \<longleftrightarrow> odd (mode i div 256)"

definition may_write :: "inode \<Rightarrow> bool" where
  "may_write i \<longleftrightarrow> odd (mode i div 128)"

text \<open>Path resolution; the last name need not exist.\<close>

fun walk :: "nat \<Rightarrow> world \<Rightarrow> bool \<Rightarrow> path \<Rightarrow> string list \<Rightarrow> path option" where
  "walk fuel w follow cur [] = Some cur"
| "walk fuel w follow cur (c # cs) =
     (if c = [] \<or> c = ''.'' then walk fuel w follow cur cs
      else if c = ''..'' then walk fuel w follow (butlast cur) cs
      else (case link_at w (cur @ [c]) of
              Some t \<Rightarrow>
                (if cs = [] \<and> \<not> follow then Some (cur @ [c])
                 else (case fuel of
                         0 \<Rightarrow> None
                       | Suc n \<Rightarrow> walk n w follow (if t \<noteq> [] \<and> hd t = CHR ''/'' then [] else cur)
                                    (components t @ cs)))
            | None \<Rightarrow>
                (if cs = [] then Some (cur @ [c])
                 else if is_dir w (cur @ [c]) then walk fuel w follow (cur @ [c]) cs
                 else if node w (cur @ [c]) = None \<and> list_all (\<lambda>x. x = []) cs then Some (cur @ [c])
                 else None)))"

definition resolve :: "world \<Rightarrow> bool \<Rightarrow> string \<Rightarrow> path option" where
  "resolve w follow s =
     (if s = [] then None
      else walk 40 w follow (if hd s = CHR ''/'' then [] else cwd w) (components s))"

definition path_string :: "path \<Rightarrow> string" where
  "path_string p = (if p = [] then ''/'' else concat (map (\<lambda>n. CHR ''/'' # n) p))"

definition stat_of :: "inode \<Rightarrow> stat_buf" where
  "stat_of i = (case kind i of
     Regular c \<Rightarrow> \<lparr> st_type = S_IFREG, st_size = length c, st_mtime = mtime i \<rparr>
   | Directory \<Rightarrow> \<lparr> st_type = S_IFDIR, st_size = 4096, st_mtime = mtime i \<rparr>
   | Symlink t \<Rightarrow> \<lparr> st_type = S_IFLNK, st_size = length t, st_mtime = mtime i \<rparr>
   | Special \<Rightarrow> \<lparr> st_type = S_IFOTHER, st_size = 0, st_mtime = mtime i \<rparr>)"

definition stat :: "world \<Rightarrow> string \<Rightarrow> stat_buf option" where
  "stat w s = do { p \<leftarrow> resolve w True s; i \<leftarrow> node w p; Some (stat_of i) }"

definition lstat :: "world \<Rightarrow> string \<Rightarrow> stat_buf option" where
  "lstat w s = do { p \<leftarrow> resolve w False s; i \<leftarrow> node w p; Some (stat_of i) }"

definition fexist :: "world \<Rightarrow> string \<Rightarrow> bool" where
  "fexist w s \<longleftrightarrow> stat w s \<noteq> None"

definition chdir :: "world \<Rightarrow> string \<Rightarrow> world option" where
  "chdir w s = do { p \<leftarrow> resolve w True s; if is_dir w p then Some (w\<lparr> cwd := p \<rparr>) else None }"

text \<open>\<open>chdir\<close> where the code ignores the result.\<close>

definition chdir_to :: "world \<Rightarrow> string \<Rightarrow> world" where
  "chdir_to w s = (case chdir w s of None \<Rightarrow> w | Some w' \<Rightarrow> w')"

definition getcwd :: "world \<Rightarrow> nat \<Rightarrow> string option" where
  "getcwd w n = (let s = path_string (cwd w) in if length s < n then Some s else None)"

subsection \<open>Changes to the tree\<close>

definition set_inode :: "world \<Rightarrow> nat \<Rightarrow> inode \<Rightarrow> world" where
  "set_inode w n i = w\<lparr> inodes := (inodes w)(n := i) \<rparr>"

definition stamp_dir :: "world \<Rightarrow> path \<Rightarrow> world" where
  "stamp_dir w p = (case lookup w p of
     None \<Rightarrow> w | Some n \<Rightarrow> set_inode w n ((inodes w n)\<lparr> mtime := clock w \<rparr>))"

definition dir_writable :: "world \<Rightarrow> path \<Rightarrow> bool" where
  "dir_writable w p = (case node w p of Some i \<Rightarrow> kind i = Directory \<and> may_write i | None \<Rightarrow> False)"

definition add_entry :: "world \<Rightarrow> path \<Rightarrow> content \<Rightarrow> nat \<Rightarrow> world" where
  "add_entry w p k m =
     stamp_dir (w\<lparr> entries := entries w @ [(p, next_ino w)],
                  inodes := (inodes w)(next_ino w := \<lparr> kind = k, mtime = clock w,
                     mode = m - (m AND cur_umask w) \<rparr>),
                  next_ino := Suc (next_ino w) \<rparr>) (butlast p)"

definition del_entry :: "world \<Rightarrow> path \<Rightarrow> world" where
  "del_entry w p = stamp_dir (w\<lparr> entries := filter (\<lambda>e. fst e \<noteq> p) (entries w) \<rparr>) (butlast p)"

definition children :: "world \<Rightarrow> path \<Rightarrow> string list" where
  "children w p = map (\<lambda>e. last (fst e)) (filter (\<lambda>e. fst e \<noteq> [] \<and> butlast (fst e) = p) (entries w))"

definition mkdir :: "world \<Rightarrow> string \<Rightarrow> nat \<Rightarrow> world option" where
  "mkdir w s m = do {
     p \<leftarrow> resolve w False s;
     if p \<noteq> [] \<and> node w p = None \<and> dir_writable w (butlast p) then Some (add_entry w p Directory m) else None }"

definition rmdir :: "world \<Rightarrow> string \<Rightarrow> world option" where
  "rmdir w s = do {
     p \<leftarrow> resolve w False s;
     if p \<noteq> [] \<and> is_dir w p \<and> children w p = [] \<and> dir_writable w (butlast p) then Some (del_entry w p) else None }"

definition unlink :: "world \<Rightarrow> string \<Rightarrow> world option" where
  "unlink w s = do {
     p \<leftarrow> resolve w False s;
     i \<leftarrow> node w p;
     if kind i \<noteq> Directory \<and> dir_writable w (butlast p) then Some (del_entry w p) else None }"

text \<open>\<open>unlink\<close> and others where the code ignores the result.\<close>

definition attempt :: "(world \<Rightarrow> world option) \<Rightarrow> world \<Rightarrow> world" where
  "attempt f w = (case f w of None \<Rightarrow> w | Some w' \<Rightarrow> w')"

fun move_path :: "path \<Rightarrow> path \<Rightarrow> path \<Rightarrow> path" where
  "move_path p q r = (if take (length p) r = p then q @ drop (length p) r else r)"

definition rename :: "world \<Rightarrow> string \<Rightarrow> string \<Rightarrow> world option" where
  "rename w s d = do {
     p \<leftarrow> resolve w False s;
     q \<leftarrow> resolve w False d;
     i \<leftarrow> node w p;
     if p = q then Some w
     else if p = [] \<or> q = [] \<or> take (length p) q = p then None
     else if \<not> dir_writable w (butlast p) \<or> \<not> dir_writable w (butlast q) then None
     else if kind i \<noteq> Directory \<and> d \<noteq> [] \<and> last d = CHR ''/'' then None
     else (case node w q of
             Some j \<Rightarrow>
               if kind i = Directory \<and> (kind j \<noteq> Directory \<or> children w q \<noteq> []) then None
               else if kind i \<noteq> Directory \<and> kind j = Directory then None
               else Some w
           | None \<Rightarrow> Some w) \<bind> (\<lambda>w.
       Some (stamp_dir (stamp_dir
         (w\<lparr> entries := map (\<lambda>e. (move_path p q (fst e), snd e)) (filter (\<lambda>e. fst e \<noteq> q) (entries w)) \<rparr>)
         (butlast p)) (butlast q))) }"

definition chmod :: "world \<Rightarrow> string \<Rightarrow> nat \<Rightarrow> world option" where
  "chmod w s m = do {
     p \<leftarrow> resolve w True s; n \<leftarrow> lookup w p; Some (set_inode w n ((inodes w n)\<lparr> mode := m \<rparr>)) }"

definition utime :: "world \<Rightarrow> string \<Rightarrow> time \<Rightarrow> world option" where
  "utime w s t = do {
     p \<leftarrow> resolve w True s; n \<leftarrow> lookup w p; Some (set_inode w n ((inodes w n)\<lparr> mtime := t \<rparr>)) }"

definition umask :: "world \<Rightarrow> nat \<Rightarrow> world" where
  "umask w m = w\<lparr> cur_umask := m \<rparr>"

text \<open>A name that may be created: no trailing slash, in a writable directory.\<close>

definition creatable :: "world \<Rightarrow> string \<Rightarrow> path \<Rightarrow> bool" where
  "creatable w s p \<longleftrightarrow> p \<noteq> [] \<and> node w p = None \<and> last s \<noteq> CHR ''/'' \<and> dir_writable w (butlast p)"

text \<open>\<open>close(open(A,O_CREAT,0600))\<close>: 384 is octal 600.\<close>

definition touch :: "world \<Rightarrow> string \<Rightarrow> world option" where
  "touch w s = do {
     p \<leftarrow> resolve w True s;
     if node w p \<noteq> None then Some w
     else if creatable w s p then Some (add_entry w p (Regular []) 384) else None }"

text \<open>\<open>opendir\<close> and all of \<open>readdir\<close>.\<close>

definition list_dir :: "world \<Rightarrow> string \<Rightarrow> string list option" where
  "list_dir w s = do {
     p \<leftarrow> resolve w True s;
     i \<leftarrow> node w p;
     if kind i = Directory \<and> may_read i then Some (''.'' # ''..'' # children w p) else None }"

subsection \<open>Streams\<close>

datatype open_mode = Read | Write | Update

definition new_stream :: "world \<Rightarrow> nat \<Rightarrow> bool \<Rightarrow> nat \<times> world" where
  "new_stream w n wr =
     (next_stream w, w\<lparr> streams := (next_stream w, \<lparr> s_ino = n, s_pos = 0, s_write = wr, s_err = False \<rparr>) # streams w,
                       next_stream := Suc (next_stream w) \<rparr>)"

text \<open>438 is octal 666.\<close>

definition fopen :: "world \<Rightarrow> string \<Rightarrow> open_mode \<Rightarrow> (nat \<times> world) option" where
  "fopen w s m = do {
     p \<leftarrow> resolve w True s;
     (case m of
        Read \<Rightarrow> do { n \<leftarrow> lookup w p; if may_read (inodes w n) then Some (new_stream w n False) else None }
      | Update \<Rightarrow> do { n \<leftarrow> lookup w p;
                    if may_read (inodes w n) \<and> may_write (inodes w n) \<and> kind (inodes w n) \<noteq> Directory
                    then Some (new_stream w n True) else None }
      | Write \<Rightarrow>
          (case lookup w p of
             Some n \<Rightarrow>
               (if may_write (inodes w n) \<and> kind (inodes w n) \<noteq> Directory
                then Some (new_stream (set_inode w n
                       ((inodes w n)\<lparr> kind := (case kind (inodes w n) of Regular _ \<Rightarrow> Regular [] | k \<Rightarrow> k),
                                      mtime := clock w \<rparr>)) n True)
                else None)
           | None \<Rightarrow>
               (if creatable w s p
                then Some (new_stream (add_entry w p (Regular []) 438) (next_ino w) True)
                else None))) }"

definition stream :: "world \<Rightarrow> nat \<Rightarrow> stream option" where
  "stream w f = map_of (streams w) f"

definition set_stream :: "world \<Rightarrow> nat \<Rightarrow> stream \<Rightarrow> world" where
  "set_stream w f st = w\<lparr> streams := (f, st) # filter (\<lambda>e. fst e \<noteq> f) (streams w) \<rparr>"

definition fclose :: "world \<Rightarrow> nat \<Rightarrow> world option" where
  "fclose w f = (case stream w f of
     None \<Rightarrow> None | Some _ \<Rightarrow> Some (w\<lparr> streams := filter (\<lambda>e. fst e \<noteq> f) (streams w) \<rparr>))"

definition fread :: "world \<Rightarrow> nat \<Rightarrow> nat \<Rightarrow> (char list \<times> world) option" where
  "fread w f n = do {
     st \<leftarrow> stream w f;
     (case kind (inodes w (s_ino st)) of
        Regular c \<Rightarrow>
          (let d = take n (drop (s_pos st) c)
           in Some (d, set_stream w f (st\<lparr> s_pos := s_pos st + length d \<rparr>)))
      | _ \<Rightarrow> Some ([], set_stream w f (st\<lparr> s_err := True \<rparr>))) }"

definition overwrite :: "char list \<Rightarrow> nat \<Rightarrow> char list \<Rightarrow> char list" where
  "overwrite c pos d = take pos c @ replicate (pos - length c) NUL @ d @ drop (pos + length d) c"

definition fwrite :: "world \<Rightarrow> nat \<Rightarrow> char list \<Rightarrow> (nat \<times> world) option" where
  "fwrite w f d = do {
     st \<leftarrow> stream w f;
     (case kind (inodes w (s_ino st)) of
        Regular c \<Rightarrow>
          (if \<not> s_write st then Some (0, set_stream w f (st\<lparr> s_err := True \<rparr>))
           else
             (let k = (if s_pos st + length d \<le> length c + room w then length d
                       else length c + room w - s_pos st);
                  c' = overwrite c (s_pos st) (take k d);
                  st' = st\<lparr> s_pos := s_pos st + k, s_err := (s_err st \<or> k < length d) \<rparr>
              in if k = 0 then Some (0, set_stream w f st')
                 else Some (k, (set_stream (set_inode w (s_ino st)
                          ((inodes w (s_ino st))\<lparr> kind := Regular c', mtime := clock w \<rparr>)) f st')
                         \<lparr> room := room w - (length c' - length c) \<rparr>)))
      | _ \<Rightarrow> Some (0, set_stream w f (st\<lparr> s_err := True \<rparr>))) }"

definition fseek :: "world \<Rightarrow> nat \<Rightarrow> nat \<Rightarrow> world option" where
  "fseek w f n = do { st \<leftarrow> stream w f; Some (set_stream w f (st\<lparr> s_pos := n \<rparr>)) }"

definition ftell :: "world \<Rightarrow> nat \<Rightarrow> nat option" where
  "ftell w f = do { st \<leftarrow> stream w f; Some (s_pos st) }"

definition ferror :: "world \<Rightarrow> nat \<Rightarrow> bool option" where
  "ferror w f = do { st \<leftarrow> stream w f; Some (s_err st) }"

text \<open>What is left to read from a stream.\<close>

definition stream_rest :: "world \<Rightarrow> nat \<Rightarrow> char list" where
  "stream_rest w f = (case stream w f of
     Some st \<Rightarrow> (case kind (inodes w (s_ino st)) of Regular c \<Rightarrow> drop (s_pos st) c | _ \<Rightarrow> [])
   | None \<Rightarrow> [])"

text \<open>Opening, reading to the end and closing; opening, writing and closing.\<close>

definition read_file :: "world \<Rightarrow> string \<Rightarrow> (char list \<times> world) option" where
  "read_file w s = do { (f, w1) \<leftarrow> fopen w s Read; w2 \<leftarrow> fclose w1 f; Some (stream_rest w1 f, w2) }"

definition write_file :: "world \<Rightarrow> string \<Rightarrow> char list \<Rightarrow> world option" where
  "write_file w s d = do { (f, w1) \<leftarrow> fopen w s Write; (k, w2) \<leftarrow> fwrite w1 f d; fclose w2 f }"

subsection \<open>Plain files of the working directory\<close>

text \<open>The interface of code that keeps a set of small files in one directory. The environment
  (working directory and umask) is what such files are created under.\<close>

locale name_space =
  fixes ok :: "'w \<Rightarrow> bool"
    and files :: "'w \<Rightarrow> string \<Rightarrow> 'f option"
    and env :: "'w \<Rightarrow> 'v"
    and space :: "'w \<Rightarrow> nat"
    and remove :: "string \<Rightarrow> 'w \<Rightarrow> 'w"
    and create :: "string \<Rightarrow> 'w \<Rightarrow> 'w"
    and save :: "string \<Rightarrow> char list \<Rightarrow> 'w \<Rightarrow> 'w"
    and new_file :: "'v \<Rightarrow> 'f"
    and file_of :: "'v \<Rightarrow> char list \<Rightarrow> 'f"
    and names :: "string set"
  assumes remove_law: "ok w \<Longrightarrow> s \<in> names \<Longrightarrow> ok (remove s w) \<and> files (remove s w) = (files w)(s := None) \<and>
        env (remove s w) = env w \<and> space (remove s w) = space w"
    and create_law: "ok w \<Longrightarrow> s \<in> names \<Longrightarrow> files w s = None \<Longrightarrow>
        ok (create s w) \<and> files (create s w) = (files w)(s := Some (new_file (env w))) \<and>
        env (create s w) = env w \<and> space (create s w) = space w"
    and save_law: "ok w \<Longrightarrow> s \<in> names \<Longrightarrow> files w s = None \<Longrightarrow> length d \<le> space w \<Longrightarrow>
        ok (save s d w) \<and> files (save s d w) = (files w)(s := Some (file_of (env w) d)) \<and>
        env (save s d w) = env w \<and> space (save s d w) = space w - length d"
begin

lemma remove_all:
  "ok w \<Longrightarrow> set fs \<subseteq> names \<Longrightarrow> ok (fold remove fs w) \<and>
     files (fold remove fs w) = (\<lambda>s. if s \<in> set fs then None else files w s) \<and>
     env (fold remove fs w) = env w \<and> space (fold remove fs w) = space w"
proof (induction fs arbitrary: w)
  case (Cons f fs)
  with remove_law [of w f] Cons.IH [of "remove f w"] show ?case by (auto simp: fun_eq_iff)
qed simp

lemma create_all:
  "ok w \<Longrightarrow> set fs \<subseteq> names \<Longrightarrow> distinct fs \<Longrightarrow> \<forall>s \<in> set fs. files w s = None \<Longrightarrow> ok (fold create fs w) \<and>
     files (fold create fs w) = (\<lambda>s. if s \<in> set fs then Some (new_file (env w)) else files w s) \<and>
     env (fold create fs w) = env w \<and> space (fold create fs w) = space w"
proof (induction fs arbitrary: w)
  case (Cons f fs)
  note c = create_law [of w f]
  have "\<forall>s \<in> set fs. files (create f w) s = None" using Cons.prems c by auto
  with Cons.IH [of "create f w"] Cons.prems c show ?case by (auto simp: fun_eq_iff)
qed simp

text \<open>A file that may be left out.\<close>

lemma save_opt:
  assumes "ok w" "s \<in> names" "files w s = None" "\<forall>d. x = Some d \<longrightarrow> length d \<le> n" "n \<le> space w"
  defines "w' \<equiv> (case x of None \<Rightarrow> w | Some d \<Rightarrow> save s d w)"
  shows "ok w' \<and> files w' = (files w)(s := map_option (file_of (env w)) x) \<and> env w' = env w \<and> space w - n \<le> space w'"
  using assms(1-5) save_law [of w s] unfolding w'_def by (cases x) (auto simp: fun_eq_iff)

end

definition simple_name :: "string \<Rightarrow> bool" where
  "simple_name s \<longleftrightarrow> s \<noteq> [] \<and> CHR ''/'' \<notin> set s \<and> s \<noteq> ''.'' \<and> s \<noteq> ''..''"

text \<open>Contents and mode of the regular file a simple name stands for.\<close>

definition view :: "world \<Rightarrow> string \<Rightarrow> (char list \<times> nat) option" where
  "view w s = (case node w (cwd w @ [s]) of
     Some i \<Rightarrow> (case kind i of Regular c \<Rightarrow> Some (c, mode i) | _ \<Rightarrow> None)
   | None \<Rightarrow> None)"

definition plain :: "world \<Rightarrow> string \<Rightarrow> bool" where
  "plain w s \<longleftrightarrow> (\<forall>i. node w (cwd w @ [s]) = Some i \<longrightarrow> (\<exists>c. kind i = Regular c))"

text \<open>A writable working directory in which the given names are plain files, and inode numbers
  that are not yet in use above \<open>next_ino\<close>.\<close>

definition work_dir :: "string set \<Rightarrow> world \<Rightarrow> bool" where
  "work_dir ns w \<longleftrightarrow> dir_writable w (cwd w) \<and> (\<forall>s \<in> ns. simple_name s \<and> plain w s) \<and>
     (\<forall>e \<in> set (entries w). snd e < next_ino w)"

lemma components_simple: "CHR ''/'' \<notin> set s \<Longrightarrow> components s = [s]"
  by (induction s) auto

lemma resolve_simple: "simple_name s \<Longrightarrow> plain w s \<Longrightarrow> resolve w b s = Some (cwd w @ [s])"
proof -
  assume s: "simple_name s" "plain w s"
  then have "link_at w (cwd w @ [s]) = None"
    by (auto simp: link_at_def plain_def split: option.splits content.splits)
  moreover have "hd s \<noteq> CHR ''/''" "s \<noteq> []" "CHR ''/'' \<notin> set s"
    using s(1) by (cases s; auto simp: simple_name_def)+
  ultimately show ?thesis using s(1)
    by (simp add: resolve_def components_simple simple_name_def)
qed

lemma lookup_less: "work_dir ns w \<Longrightarrow> lookup w p = Some n \<Longrightarrow> n < next_ino w"
  by (auto simp: work_dir_def lookup_def dest!: map_of_SomeD bspec)

lemma view_plain: "plain w s \<Longrightarrow> node w (cwd w @ [s]) = None \<longleftrightarrow> view w s = None"
  by (auto simp: view_def plain_def split: option.splits content.splits)

text \<open>Changes of time stamps are not seen.\<close>

lemma node_stamp: "node (stamp_dir w d) p =
    map_option (\<lambda>i. if lookup w d \<noteq> None \<and> lookup w p = lookup w d then i\<lparr> mtime := clock w \<rparr> else i) (node w p)"
  by (cases "map_of (entries w) d"; cases "map_of (entries w) p")
    (auto simp: stamp_dir_def node_def set_inode_def lookup_def)

lemma stamp_frame [simp]:
  "cwd (stamp_dir w d) = cwd w" "entries (stamp_dir w d) = entries w" "next_ino (stamp_dir w d) = next_ino w"
  "lookup (stamp_dir w d) p = lookup w p" "room (stamp_dir w d) = room w" "cur_umask (stamp_dir w d) = cur_umask w"
  "streams (stamp_dir w d) = streams w" "next_stream (stamp_dir w d) = next_stream w" "clock (stamp_dir w d) = clock w"
  by (simp_all add: stamp_dir_def set_inode_def lookup_def split: option.splits)

lemma view_stamp [simp]: "view (stamp_dir w d) s = view w s"
  unfolding view_def stamp_frame node_stamp
  by (cases "node w (cwd w @ [s])") (simp_all split: content.split)

lemma plain_stamp [simp]: "plain (stamp_dir w d) s = plain w s"
  unfolding plain_def stamp_frame node_stamp by (cases "node w (cwd w @ [s])") simp_all

lemma dir_writable_stamp [simp]: "dir_writable (stamp_dir w d) p = dir_writable w p"
  unfolding dir_writable_def node_stamp by (cases "node w p") (simp_all add: may_write_def)

text \<open>Removing and adding a file of the working directory.\<close>

lemma map_of_filter_fst: "map_of (filter (\<lambda>e. fst e \<noteq> p) es) = (map_of es)(p := None)"
  by (induction es) auto

lemma del_file:
  assumes "work_dir ns w" "s \<in> ns"
  shows "work_dir ns (del_entry w (cwd w @ [s]))" "view (del_entry w (cwd w @ [s])) = (view w)(s := None)"
    "cwd (del_entry w (cwd w @ [s])) = cwd w" "room (del_entry w (cwd w @ [s])) = room w"
    "cur_umask (del_entry w (cwd w @ [s])) = cur_umask w"
proof -
  define w1 where "w1 = w\<lparr> entries := filter (\<lambda>e. fst e \<noteq> cwd w @ [s]) (entries w) \<rparr>"
  have w1: "del_entry w (cwd w @ [s]) = stamp_dir w1 (cwd w)" by (simp add: del_entry_def w1_def)
  have n: "node w1 p = (if p = cwd w @ [s] then None else node w p)" for p
    by (simp add: node_def lookup_def w1_def map_of_filter_fst)
  have "work_dir ns w1"
    using assms n by (auto simp: work_dir_def dir_writable_def plain_def) (auto simp: w1_def)
  then show "work_dir ns (del_entry w (cwd w @ [s]))" by (simp add: w1 work_dir_def)
  have "view w1 = (view w)(s := None)"
    by (rule ext) (simp add: view_def n, simp add: w1_def)
  then show "view (del_entry w (cwd w @ [s])) = (view w)(s := None)" by (simp add: w1 fun_eq_iff)
qed (simp_all add: del_entry_def)

lemma add_file:
  assumes "work_dir ns w" "s \<in> ns" "view w s = None"
  shows "work_dir ns (add_entry w (cwd w @ [s]) (Regular c) m)"
    "view (add_entry w (cwd w @ [s]) (Regular c) m) = (view w)(s := Some (c, m - (m AND cur_umask w)))"
    "cwd (add_entry w (cwd w @ [s]) (Regular c) m) = cwd w"
    "room (add_entry w (cwd w @ [s]) (Regular c) m) = room w"
    "cur_umask (add_entry w (cwd w @ [s]) (Regular c) m) = cur_umask w"
    "lookup (add_entry w (cwd w @ [s]) (Regular c) m) q = Some (next_ino w) \<longleftrightarrow> q = cwd w @ [s]"
    "streams (add_entry w (cwd w @ [s]) (Regular c) m) = streams w"
    "next_stream (add_entry w (cwd w @ [s]) (Regular c) m) = next_stream w"
proof -
  let ?p = "cwd w @ [s]" and ?i = "\<lparr> kind = Regular c, mtime = clock w, mode = m - (m AND cur_umask w) \<rparr>"
  define w1 where "w1 = w\<lparr> entries := entries w @ [(?p, next_ino w)],
      inodes := (inodes w)(next_ino w := ?i), next_ino := Suc (next_ino w) \<rparr>"
  have w1: "add_entry w ?p (Regular c) m = stamp_dir w1 (cwd w)" by (simp add: add_entry_def w1_def)
  have pl: "plain w s" using assms by (auto simp: work_dir_def)
  have none: "lookup w ?p = None"
    using view_plain [OF pl] assms(3) by (simp add: node_def)
  have l: "lookup w1 p = (if p = ?p then Some (next_ino w) else lookup w p)" for p
    using none by (auto simp: lookup_def w1_def map_add_def split: option.splits)
  have n: "node w1 p = (if p = ?p then Some ?i else node w p)" for p
    using lookup_less [OF assms(1), of p] by (auto simp: node_def l) (auto simp: w1_def map_option_case split: option.splits)
  have "work_dir ns w1"
    using assms(1) n by (auto simp: work_dir_def dir_writable_def plain_def) (auto simp: w1_def less_Suc_eq)
  then show "work_dir ns (add_entry w ?p (Regular c) m)" by (simp add: w1 work_dir_def)
  have "view w1 = (view w)(s := Some (c, m - (m AND cur_umask w)))"
    by (rule ext) (simp add: view_def n, simp add: w1_def)
  then show "view (add_entry w ?p (Regular c) m) = (view w)(s := Some (c, m - (m AND cur_umask w)))"
    by (simp add: w1 fun_eq_iff)
  show "lookup (add_entry w ?p (Regular c) m) q = Some (next_ino w) \<longleftrightarrow> q = ?p"
    using lookup_less [OF assms(1), of q] by (auto simp: w1 l)
qed (simp_all add: add_entry_def)

lemma creatable_file:
  assumes "work_dir ns w" "s \<in> ns" "view w s = None"
  shows "creatable w s (cwd w @ [s])"
proof -
  have pl: "plain w s" "simple_name s" "dir_writable w (cwd w)" using assms(1,2) by (auto simp: work_dir_def)
  then have "last s \<noteq> CHR ''/''" by (metis last_in_set simple_name_def)
  with pl view_plain [OF pl(1)] assms(3) show ?thesis by (simp add: creatable_def)
qed

text \<open>The calls the server makes for such files.\<close>

lemma unlink_file:
  assumes "work_dir ns w" "s \<in> ns"
  defines "w' \<equiv> attempt (\<lambda>w. unlink w s) w"
  shows "work_dir ns w'" "view w' = (view w)(s := None)" "cwd w' = cwd w" "room w' = room w"
    "cur_umask w' = cur_umask w"
proof -
  have pl: "plain w s" "simple_name s" "dir_writable w (cwd w)" using assms(1,2) by (auto simp: work_dir_def)
  note r = resolve_simple [OF pl(2,1), of False]
  have "w' = (if view w s = None then w else del_entry w (cwd w @ [s]))"
  proof (cases "node w (cwd w @ [s])")
    case None
    then show ?thesis using view_plain [OF pl(1)] by (simp add: w'_def attempt_def unlink_def r)
  next
    case (Some i)
    then have "kind i \<noteq> Directory" "view w s \<noteq> None" using pl(1) view_plain [OF pl(1)] by (auto simp: plain_def)
    with Some pl(3) show ?thesis by (auto simp: w'_def attempt_def unlink_def r)
  qed
  with del_file [OF assms(1,2)] assms(1)
  show "work_dir ns w'" "view w' = (view w)(s := None)" "cwd w' = cwd w" "room w' = room w"
    "cur_umask w' = cur_umask w"
    by (auto simp: fun_eq_iff)
qed

lemma touch_file:
  assumes "work_dir ns w" "s \<in> ns" "view w s = None"
  defines "w' \<equiv> attempt (\<lambda>w. touch w s) w"
  shows "work_dir ns w'" "view w' = (view w)(s := Some ([], 384 - (384 AND cur_umask w)))" "cwd w' = cwd w"
    "room w' = room w" "cur_umask w' = cur_umask w"
proof -
  have pl: "plain w s" "simple_name s" using assms(1,2) by (auto simp: work_dir_def)
  note r = resolve_simple [OF pl(2,1), of True] and a = add_file [OF assms(1-3), where c = "[]" and m = 384] and cr = creatable_file [OF assms(1-3)]
  have "w' = add_entry w (cwd w @ [s]) (Regular []) 384"
    using cr view_plain [OF pl(1)] assms(3) by (simp add: w'_def attempt_def touch_def r)
  with a show "work_dir ns w'" "view w' = (view w)(s := Some ([], 384 - (384 AND cur_umask w)))" "cwd w' = cwd w"
    "room w' = room w" "cur_umask w' = cur_umask w" by simp_all
qed

text \<open>Streams and free space do not matter to the tree.\<close>

lemma same_tree:
  assumes "entries w' = entries w" "inodes w' = inodes w" "cwd w' = cwd w" "next_ino w' = next_ino w"
  shows "view w' = view w" "work_dir ns w' = work_dir ns w" "node w' = node w" "lookup w' = lookup w"
proof -
  show l: "lookup w' = lookup w" by (rule ext) (simp add: lookup_def assms)
  show n: "node w' = node w" by (rule ext) (simp add: node_def l assms)
  show "view w' = view w" by (rule ext) (simp add: view_def n assms)
  show "work_dir ns w' = work_dir ns w" by (simp add: work_dir_def plain_def dir_writable_def n assms)
qed

lemma set_content:
  assumes "work_dir ns w" "s \<in> ns" "\<And>q. lookup w q = Some n \<longleftrightarrow> q = cwd w @ [s]"
    and "view w s = Some (c, m)" and w'_def: "w' = set_inode w n ((inodes w n)\<lparr> kind := Regular d, mtime := t \<rparr>)"
  shows "work_dir ns w'" "view w' = (view w)(s := Some (d, m))"
proof -
  have n: "node w' q = (if q = cwd w @ [s] then Some ((inodes w n)\<lparr> kind := Regular d, mtime := t \<rparr>) else node w q)" for q
    using assms(3) [of q] by (auto simp: w'_def node_def set_inode_def lookup_def map_option_case split: option.splits)
  have k: "kind (inodes w n) = Regular c" "mode (inodes w n) = m"
    using assms(3) [of "cwd w @ [s]"] assms(4) by (auto simp: view_def node_def split: content.splits)
  have "cwd w' = cwd w" "entries w' = entries w" "next_ino w' = next_ino w" by (simp_all add: w'_def set_inode_def)
  with n assms(1) show "work_dir ns w'"
    by (auto simp: work_dir_def dir_writable_def plain_def)
  show "view w' = (view w)(s := Some (d, m))"
    using \<open>cwd w' = cwd w\<close> n k by (auto simp: view_def fun_eq_iff)
qed

lemma write_new_file:
  assumes "work_dir ns w" "s \<in> ns" "view w s = None" "length d \<le> room w"
  shows "\<exists>f w1 k w2 w'. fopen w s Write = Some (f, w1) \<and> fwrite w1 f d = Some (k, w2) \<and> fclose w2 f = Some w' \<and>
     work_dir ns w' \<and> view w' = (view w)(s := Some (d, 438 - (438 AND cur_umask w))) \<and> cwd w' = cwd w \<and>
     cur_umask w' = cur_umask w \<and> room w' = room w - length d"
proof -
  let ?p = "cwd w @ [s]" and ?n = "next_ino w" and ?f = "next_stream w"
  have pl: "plain w s" "simple_name s" using assms(1,2) by (auto simp: work_dir_def)
  note r = resolve_simple [OF pl(2,1), of True] and a = add_file [OF assms(1-3), where c = "[]" and m = 438] and cr = creatable_file [OF assms(1-3)]
  define w0 where "w0 = add_entry w ?p (Regular []) 438"
  define st where "st = \<lparr> s_ino = ?n, s_pos = 0, s_write = True, s_err = False \<rparr>"
  define w1 where "w1 = w0\<lparr> streams := (?f, st) # streams w, next_stream := Suc ?f \<rparr>"
  have "lookup w ?p = None" using view_plain [OF pl(1)] assms(3) by (simp add: node_def)
  then have open1: "fopen w s Write = Some (?f, w1)"
    using a(7,8) cr by (simp add: fopen_def r new_stream_def w0_def w1_def st_def)
  have v0: "view w0 s = Some ([], 438 - (438 AND cur_umask w))" using a(2) by (simp add: w0_def)
  have l0: "\<And>q. lookup w0 q = Some ?n \<longleftrightarrow> q = cwd w0 @ [s]" using a(3,6) by (simp add: w0_def)
  have k0: "kind (inodes w1 ?n) = Regular []"
    using v0 l0 [of ?p] a(3) by (auto simp: view_def node_def w0_def w1_def split: content.splits)
  define w2 where "w2 = (if d = [] then set_stream w1 ?f st
     else (set_stream (set_inode w1 ?n ((inodes w1 ?n)\<lparr> kind := Regular d, mtime := clock w1 \<rparr>)) ?f
            (st\<lparr> s_pos := length d \<rparr>))\<lparr> room := room w - length d \<rparr>)"
  have room: "room w1 = room w" using a(4) by (simp add: w1_def w0_def)
  have wr: "fwrite w1 ?f d = Some (length d, w2)"
    using k0 assms(4) room
    by (auto simp: fwrite_def stream_def w1_def st_def w2_def Let_def overwrite_def)
  define w' where "w' = w2\<lparr> streams := filter (\<lambda>e. fst e \<noteq> ?f) (streams w2) \<rparr>"
  have cl: "fclose w2 ?f = Some w'"
    by (simp add: fclose_def stream_def w2_def set_stream_def w'_def)
  have frame: "inodes w1 = inodes w0" "clock w1 = clock w0" by (simp_all add: w1_def)
  note sc = set_content [OF a(1)[folded w0_def] assms(2) l0 v0 refl, where d = d and t = "clock w1"]
  define u where "u = (if d = [] then w0 else set_inode w0 ?n ((inodes w0 ?n)\<lparr> kind := Regular d, mtime := clock w1 \<rparr>))"
  have "entries w' = entries u" "inodes w' = inodes u" "cwd w' = cwd u" "next_ino w' = next_ino u"
    by (simp_all add: w'_def w2_def set_stream_def set_inode_def w1_def u_def)
  note eq = same_tree(1,2) [OF this]
  have "work_dir ns w'" "view w' = (view w)(s := Some (d, 438 - (438 AND cur_umask w)))"
    unfolding eq using sc a(1,2) by (cases d; simp add: u_def w0_def fun_eq_iff)+
  moreover have "cwd w' = cwd w" "cur_umask w' = cur_umask w" "room w' = room w - length d"
    using a(3-5) by (simp_all add: w'_def w2_def set_stream_def set_inode_def w1_def w0_def)
  ultimately show ?thesis using open1 wr cl by blast
qed

lemma view_stat:
  assumes "work_dir ns w" "s \<in> ns"
  shows "stat w s = None \<longleftrightarrow> view w s = None" "view w s = Some (c, m) \<Longrightarrow> \<exists>sb. stat w s = Some sb \<and> st_size sb = length c \<and> S_ISREG sb"
    "fexist w s \<longleftrightarrow> view w s \<noteq> None"
proof -
  have pl: "plain w s" "simple_name s" using assms by (auto simp: work_dir_def)
  have "stat w s = map_option stat_of (node w (cwd w @ [s]))"
    using resolve_simple [OF pl(2,1), of True] by (simp add: stat_def map_option_case split: option.splits)
  with view_plain [OF pl(1)] show "stat w s = None \<longleftrightarrow> view w s = None"
    "view w s = Some (c, m) \<Longrightarrow> \<exists>sb. stat w s = Some sb \<and> st_size sb = length c \<and> S_ISREG sb"
    by (auto simp: view_def stat_of_def split: option.splits content.splits)
  then show "fexist w s \<longleftrightarrow> view w s \<noteq> None" by (simp add: fexist_def)
qed

lemma view_read:
  assumes "work_dir ns w" "s \<in> ns"
  shows "view w s = None \<Longrightarrow> read_file w s = None"
    "view w s = Some (c, m) \<Longrightarrow> odd (m div 256) \<Longrightarrow>
       \<exists>w'. read_file w s = Some (c, w') \<and> view w' = view w \<and> work_dir ns w' = work_dir ns w"
proof -
  have pl: "plain w s" "simple_name s" using assms by (auto simp: work_dir_def)
  note r = resolve_simple [OF pl(2,1), of True]
  show "view w s = None \<Longrightarrow> read_file w s = None"
    using r view_plain [OF pl(1)] by (simp add: read_file_def fopen_def node_def)
  assume v: "view w s = Some (c, m)" "odd (m div 256)"
  then obtain n where n: "lookup w (cwd w @ [s]) = Some n" "kind (inodes w n) = Regular c" "mode (inodes w n) = m"
    by (auto simp: view_def node_def split: option.splits content.splits)
  let ?st = "\<lparr> s_ino = n, s_pos = 0, s_write = False, s_err = False \<rparr>"
  define w1 where "w1 = w\<lparr> streams := (next_stream w, ?st) # streams w, next_stream := Suc (next_stream w) \<rparr>"
  define w2 where "w2 = w1\<lparr> streams := filter (\<lambda>e. fst e \<noteq> next_stream w) (streams w1) \<rparr>"
  have "fopen w s Read = Some (next_stream w, w1)"
    using r n v(2) by (simp add: fopen_def may_read_def new_stream_def w1_def)
  moreover have "fclose w1 (next_stream w) = Some w2" by (simp add: fclose_def stream_def w1_def w2_def)
  moreover have "stream_rest w1 (next_stream w) = c" using n by (simp add: stream_rest_def stream_def w1_def)
  ultimately have "read_file w s = Some (c, w2)" by (simp add: read_file_def)
  moreover have "view w2 = view w" "work_dir ns w2 = work_dir ns w"
    by (rule same_tree; simp add: w2_def w1_def)+
  ultimately show "\<exists>w'. read_file w s = Some (c, w') \<and> view w' = view w \<and> work_dir ns w' = work_dir ns w"
    by blast
qed

interpretation dir_files: name_space "work_dir ns" view "\<lambda>w. (cwd w, cur_umask w)" room
  "\<lambda>s. attempt (\<lambda>w. unlink w s)" "\<lambda>s. attempt (\<lambda>w. touch w s)" "\<lambda>s d. attempt (\<lambda>w. write_file w s d)"
  "\<lambda>v. ([], 384 - (384 AND snd v))" "\<lambda>v d. (d, 438 - (438 AND snd v))" ns
  for ns
proof unfold_locales
  fix w :: world and s :: string and d :: "char list"
  assume a: "work_dir ns w" "s \<in> ns"
  show "work_dir ns (attempt (\<lambda>w. unlink w s) w) \<and> view (attempt (\<lambda>w. unlink w s) w) = (view w)(s := None) \<and>
      (cwd (attempt (\<lambda>w. unlink w s) w), cur_umask (attempt (\<lambda>w. unlink w s) w)) = (cwd w, cur_umask w) \<and>
      room (attempt (\<lambda>w. unlink w s) w) = room w"
    using unlink_file [OF a] by simp
  assume n: "view w s = None"
  show "work_dir ns (attempt (\<lambda>w. touch w s) w) \<and>
      view (attempt (\<lambda>w. touch w s) w) = (view w)(s := Some ([], 384 - (384 AND snd (cwd w, cur_umask w)))) \<and>
      (cwd (attempt (\<lambda>w. touch w s) w), cur_umask (attempt (\<lambda>w. touch w s) w)) = (cwd w, cur_umask w) \<and>
      room (attempt (\<lambda>w. touch w s) w) = room w"
    using touch_file [OF a n] by simp
  assume l: "length d \<le> room w"
  show "work_dir ns (attempt (\<lambda>w. write_file w s d) w) \<and>
      view (attempt (\<lambda>w. write_file w s d) w) = (view w)(s := Some (d, 438 - (438 AND snd (cwd w, cur_umask w)))) \<and>
      (cwd (attempt (\<lambda>w. write_file w s d) w), cur_umask (attempt (\<lambda>w. write_file w s d) w)) = (cwd w, cur_umask w) \<and>
      room (attempt (\<lambda>w. write_file w s d) w) = room w - length d"
    using write_new_file [OF a n l] by (auto simp: attempt_def write_file_def)
qed

end
