(* ===== verification/Acl.thy ===== *)
theory Acl
  imports ServerConf IpRange Posix
begin

text \<open>
  Access control: \<^verbatim>\<open>server/acl.c\<close> and the record \<open>DIRINFO\<close> of
  \<^verbatim>\<open>include/server_def.h\<close>. The rights of a directory live in files of that directory;
  \<open>load_access_rights\<close> and \<open>save_access_rights\<close> run with it as working directory. Loading
  goes through \<open>add_ipline\<close>, whose undefined behaviour makes its result an option.
\<close>

record DIRINFO =
  realname :: string
  owner :: "IPrange list"
  protection :: u32
  public_password :: "string option"
  owner_password :: "string option"
  readme :: "string option"
  di_mtime :: time
  lastcheck :: time

abbreviation (input) DIR_OWNER :: u32 where "DIR_OWNER \<equiv> 0x01"
abbreviation (input) DIR_DEL :: u32 where "DIR_DEL \<equiv> 0x02"
abbreviation (input) DIR_ADD :: u32 where "DIR_ADD \<equiv> 0x04"
abbreviation (input) DIR_MKDIR :: u32 where "DIR_MKDIR \<equiv> 0x08"
abbreviation (input) DIR_GET :: u32 where "DIR_GET \<equiv> 0x10"
abbreviation (input) DIR_README :: u32 where "DIR_README \<equiv> 0x20"
abbreviation (input) DIR_LIST :: u32 where "DIR_LIST \<equiv> 0x40"
abbreviation (input) DIR_RENAME :: u32 where "DIR_RENAME \<equiv> 0x80"

abbreviation (input) FSP_DIRLISTING :: string where "FSP_DIRLISTING \<equiv> ''.FSP_CONTENT''"
abbreviation (input) FSP_NOGET :: string where "FSP_NOGET \<equiv> ''.FSP_NO_GET''"
abbreviation (input) FSP_DEL :: string where "FSP_DEL \<equiv> ''.FSP_OK_DEL''"
abbreviation (input) FSP_ADD :: string where "FSP_ADD \<equiv> ''.FSP_OK_ADD''"
abbreviation (input) FSP_MKDIR :: string where "FSP_MKDIR \<equiv> ''.FSP_OK_MKDIR''"
abbreviation (input) FSP_RENAME :: string where "FSP_RENAME \<equiv> ''.FSP_OK_RENAME''"
abbreviation (input) FSP_NOLIST :: string where "FSP_NOLIST \<equiv> ''.FSP_NO_LIST''"
abbreviation (input) FSP_OWNER :: string where "FSP_OWNER \<equiv> ''.FSP_OWNER''"
abbreviation (input) FSP_PASSWORD :: string where "FSP_PASSWORD \<equiv> ''.FSP_OK_PASSWORD''"
abbreviation (input) FSP_OWNERPASSWORD :: string where "FSP_OWNERPASSWORD \<equiv> ''.FSP_OWNER_PASSWORD''"

definition flag :: "u32 \<Rightarrow> u32 \<Rightarrow> bool" where
  "flag p d \<longleftrightarrow> p AND d \<noteq> 0"

text \<open>\<open>fscanf\<close> with \<open>%79s\<close>, and the copy \<open>strdup\<close> makes of the result.\<close>

definition scan_word :: "nat \<Rightarrow> char list \<Rightarrow> string option" where
  "scan_word n c =
     (let t = take n (takeWhile (\<lambda>x. \<not> isspace x) (dropWhile isspace c))
      in if t = [] then None else Some (cstr t))"

definition load_password :: "world \<Rightarrow> string \<Rightarrow> string option \<times> world" where
  "load_password w file =
     (case read_file w file of None \<Rightarrow> (None, w) | Some (c, w') \<Rightarrow> (scan_word 79 c, w'))"

definition save_password :: "world \<Rightarrow> string \<Rightarrow> string \<Rightarrow> world" where
  "save_password w file password = attempt (\<lambda>w. write_file w file (password @ [NL])) w"

definition unlink_all :: "string list \<Rightarrow> world \<Rightarrow> world" where
  "unlink_all fs w = fold (\<lambda>f. attempt (\<lambda>w. unlink w f)) fs w"

definition touch_if :: "bool \<Rightarrow> string \<Rightarrow> world \<Rightarrow> world" where
  "touch_if b f w = (if b then attempt (\<lambda>w. touch w f) w else w)"

definition save_access_rights :: "fsp_conf \<Rightarrow> DIRINFO \<Rightarrow> world \<Rightarrow> world" where
  "save_access_rights conf di w =
     (let w0 = unlink_all [FSP_NOGET, FSP_DEL, FSP_ADD, FSP_MKDIR, FSP_RENAME, FSP_NOLIST,
                           FSP_PASSWORD, FSP_OWNER, FSP_OWNERPASSWORD, FSP_DIRLISTING] w
      in if \<not> use_access_files conf then w0
         else
           (let p = protection di;
                w1 = touch_if (\<not> flag p DIR_GET) FSP_NOGET w0;
                w2 = touch_if (flag p DIR_DEL) FSP_DEL w1;
                w3 = touch_if (flag p DIR_ADD) FSP_ADD w2;
                w4 = touch_if (flag p DIR_MKDIR) FSP_MKDIR w3;
                w5 = touch_if (flag p DIR_RENAME) FSP_RENAME w4;
                w6 = touch_if (\<not> flag p DIR_LIST) FSP_NOLIST w5;
                w7 = (case public_password di of None \<Rightarrow> w6 | Some pw \<Rightarrow> save_password w6 FSP_PASSWORD pw);
                w8 = (case owner_password di of None \<Rightarrow> w7 | Some pw \<Rightarrow> save_password w7 FSP_OWNERPASSWORD pw)
            in if owner di = [] then w8
               else attempt (\<lambda>w. write_file w FSP_OWNER (dump_iptab (dbug conf) True (owner di))) w8))"

text \<open>The lines \<open>fscanf\<close> with \<open>%255[^\n\r]\<close> returns before it fails to match.\<close>

function owner_lines :: "char list \<Rightarrow> string list" where
  "owner_lines c =
     (let l = take 255 (takeWhile (\<lambda>x. x \<noteq> NL \<and> x \<noteq> CHR 0x0D) c)
      in if l = [] then [] else cstr l # owner_lines (drop (length l) c))"
  by pat_completeness auto
termination
proof (relation "measure length")
  fix c l :: "char list"
  assume l: "l = take 255 (takeWhile (\<lambda>x. x \<noteq> NL \<and> x \<noteq> CHR 0x0D) c)" "l \<noteq> []"
  then have "0 < length l" "c \<noteq> []" by auto
  then show "(drop (length l) c, c) \<in> measure length" by simp
qed simp

declare owner_lines.simps [simp del]

definition load_readme :: "fsp_conf \<Rightarrow> world \<Rightarrow> DIRINFO \<Rightarrow> DIRINFO \<times> world" where
  "load_readme conf w di =
     (case readme_file conf of
        None \<Rightarrow> (di, w)
      | Some name \<Rightarrow>
          (case stat w name of
             None \<Rightarrow> (di, w)
           | Some sf \<Rightarrow>
               (case read_file w name of
                  None \<Rightarrow> (di, w)
                | Some (c, w') \<Rightarrow>
                    (let s = min (unat (packetsize conf) - PRO_BYTES - 1) (st_size sf)
                     in (di\<lparr> protection := protection di OR DIR_README,
                             readme := Some (cstr (take s c)) \<rparr>, w')))))"

definition load_sized_password :: "world \<Rightarrow> string \<Rightarrow> string option \<times> world" where
  "load_sized_password w file =
     (case stat w file of
        None \<Rightarrow> (None, w)
      | Some sf \<Rightarrow> if st_size sf > 0 then load_password w file else (None, w))"

definition load_flags :: "world \<Rightarrow> u32 \<Rightarrow> u32" where
  "load_flags w p0 =
     (let p1 = (if fexist w FSP_NOGET then p0 XOR DIR_GET else p0);
          p2 = (if fexist w FSP_DEL then p1 OR DIR_DEL else p1);
          p3 = (if fexist w FSP_ADD then p2 OR DIR_ADD else p2);
          p4 = (if fexist w FSP_MKDIR then p3 OR DIR_MKDIR else p3);
          p5 = (if fexist w FSP_RENAME then p4 OR DIR_RENAME else p4)
      in if fexist w FSP_NOLIST then p5 XOR DIR_LIST else p5)"

definition load_access_rights ::
  "fsp_conf \<Rightarrow> resolver \<Rightarrow> DIRINFO \<Rightarrow> world \<Rightarrow> (DIRINFO \<times> world) option" where
  "load_access_rights conf dns di0 w =
     (let di1 = di0\<lparr> owner := [], protection := DIR_LIST OR DIR_GET, public_password := None,
                     owner_password := None, readme := None \<rparr>;
          (di2, w2) = load_readme conf w di1
      in if \<not> use_access_files conf then Some (di2, w2)
         else
           (let di3 = di2\<lparr> protection := load_flags w2 (protection di2) \<rparr>;
                (pw, w4) = load_sized_password w2 FSP_PASSWORD;
                di4 = di3\<lparr> public_password := pw \<rparr>
            in (case read_file w4 FSP_OWNER of
                  None \<Rightarrow> Some (di4, w4)
                | Some (c, w5) \<Rightarrow>
                    (case add_iplines dns (owner_lines c) [] of
                       None \<Rightarrow> None
                     | Some table \<Rightarrow>
                         (let (opw, w6) = load_sized_password w5 FSP_OWNERPASSWORD
                          in Some (di4\<lparr> owner := table, owner_password := opw \<rparr>, w6))))))"

definition first_char :: "string \<Rightarrow> char" where
  "first_char s = (if s = [] then NUL else hd s)"

text \<open>The second half of \<open>require_access_rights\<close>, for callers that are not proven owners.\<close>

definition public_rights :: "DIRINFO \<Rightarrow> u32 \<Rightarrow> string option \<Rightarrow> string" where
  "public_rights di rights pass =
     (if flag rights DIR_OWNER then ''DNot an owner''
      else
        (let verdict = (if flag rights (protection di) \<or> rights = 0
                        then ''NWelcome on board captain!'' else ''DPermission denied'')
         in (case public_password di of
               None \<Rightarrow> verdict
             | Some pp \<Rightarrow>
                 (case pass of
                    None \<Rightarrow> ''DYou need a password''
                  | Some pw \<Rightarrow> if strcmp pp pw \<noteq> 0 then ''DInvalid password'' else verdict))))"

definition require_access_rights ::
  "fsp_conf \<Rightarrow> DIRINFO \<Rightarrow> u32 \<Rightarrow> u32 \<Rightarrow> string option \<Rightarrow> string" where
  "require_access_rights conf di rights ip_addr pass =
     (case (if owner di = [] then None else check_ip_table ip_addr (owner di)) of
        None \<Rightarrow> public_rights di rights pass
      | Some acc \<Rightarrow>
          (if first_char acc = CHR ''I'' \<or> first_char acc = CHR ''D'' then acc
           else if first_char acc = CHR ''O'' then
             (case owner_password di of
                None \<Rightarrow> if permit_passwordless_owners conf then acc else public_rights di rights pass
              | Some op \<Rightarrow>
                  (case pass of
                     Some pw \<Rightarrow> if strcmp pw op = 0 then acc else public_rights di rights pass
                   | None \<Rightarrow> if flag rights DIR_OWNER then ''DPassword required for owner''
                             else public_rights di rights pass))
           else public_rights di rights pass))"

subsection \<open>What a decision means\<close>

definition granted :: "string \<Rightarrow> bool" where
  "granted r \<longleftrightarrow> first_char r = CHR ''N'' \<or> first_char r = CHR ''O''"

definition owner_record :: "DIRINFO \<Rightarrow> u32 \<Rightarrow> char" where
  "owner_record di ip = (case check_ip_table ip (owner di) of None \<Rightarrow> NUL | Some a \<Rightarrow> first_char a)"

definition is_owner :: "fsp_conf \<Rightarrow> DIRINFO \<Rightarrow> u32 \<Rightarrow> string option \<Rightarrow> bool" where
  "is_owner conf di ip pass \<longleftrightarrow> owner_record di ip = CHR ''O'' \<and>
     (case owner_password di of None \<Rightarrow> permit_passwordless_owners conf | Some p \<Rightarrow> pass = Some p)"

definition public_access :: "DIRINFO \<Rightarrow> u32 \<Rightarrow> string option \<Rightarrow> bool" where
  "public_access di rights pass \<longleftrightarrow> \<not> flag rights DIR_OWNER \<and>
     (public_password di = None \<or> pass = public_password di) \<and>
     (rights = 0 \<or> flag rights (protection di))"

lemma granted_public: "granted (public_rights di rights pass) \<longleftrightarrow> public_access di rights pass"
  by (auto simp: public_rights_def granted_def public_access_def first_char_def Let_def split: option.splits)

lemma granted_NO: "granted a \<longleftrightarrow> first_char a = CHR ''N'' \<or> first_char a = CHR ''O''"
  by (simp add: granted_def)

text \<open>C12: access is decided as documented: a host the directory's owner table ignores or disables is
  refused; anybody else gets a right exactly if he is a proven owner of the directory (an owner
  record, with its password, or without one if there is none and the server permits that) or if
  the right is not the owner's, the directory's public password (if any) was given, and the
  directory's protection grants it; owners are told apart by the record they get back.\<close>

theorem access_decision:
  "granted (require_access_rights conf di rights ip pass) \<longleftrightarrow>
     owner_record di ip \<noteq> CHR ''I'' \<and> owner_record di ip \<noteq> CHR ''D'' \<and>
     (is_owner conf di ip pass \<or> public_access di rights pass)"
proof (cases "check_ip_table ip (owner di)")
  case None
  then have "require_access_rights conf di rights ip pass = public_rights di rights pass"
    by (simp add: require_access_rights_def)
  then show ?thesis using None by (simp add: granted_public owner_record_def is_owner_def)
next
  case (Some a)
  then have "owner di \<noteq> []" by auto
  note r = require_access_rights_def [of conf di rights ip pass] and rec = owner_record_def [of di ip]
  have no: "\<not> granted ''DPassword required for owner''" by (simp add: granted_def first_char_def)
  have ow: "public_access di rights pass \<Longrightarrow> \<not> flag rights DIR_OWNER" by (simp add: public_access_def)
  show ?thesis
  proof (cases "owner_password di")
    case None
    with Some \<open>owner di \<noteq> []\<close> show ?thesis
      unfolding r rec is_owner_def by (auto simp: granted_public granted_NO [of a])
  next
    case (Some op)
    note op = this
    show ?thesis
    proof (cases pass)
      case None
      with op \<open>check_ip_table ip (owner di) = Some a\<close> \<open>owner di \<noteq> []\<close> no ow show ?thesis
        unfolding r rec is_owner_def by (auto simp: granted_public granted_NO [of a])
    next
      case (Some pw)
      with op \<open>check_ip_table ip (owner di) = Some a\<close> \<open>owner di \<noteq> []\<close> show ?thesis
        unfolding r rec is_owner_def by (auto simp: granted_public granted_NO [of a])
    qed
  qed
qed

subsection \<open>Saved rights are loaded again\<close>

text \<open>The bits the flag files hold.\<close>

definition file_bits :: "u32 \<Rightarrow> bool" where
  "file_bits p \<longleftrightarrow> (\<exists>d a m g l r. p = (if d then DIR_DEL else 0) OR (if a then DIR_ADD else 0) OR
     (if m then DIR_MKDIR else 0) OR (if g then DIR_GET else 0) OR (if l then DIR_LIST else 0) OR
     (if r then DIR_RENAME else 0))"

definition flag_table :: "u32 \<Rightarrow> (string \<times> bool) list" where
  "flag_table p = [(FSP_NOGET, \<not> flag p DIR_GET), (FSP_DEL, flag p DIR_DEL), (FSP_ADD, flag p DIR_ADD),
     (FSP_MKDIR, flag p DIR_MKDIR), (FSP_RENAME, flag p DIR_RENAME), (FSP_NOLIST, \<not> flag p DIR_LIST)]"

definition flag_files :: "u32 \<Rightarrow> string list" where
  "flag_files p = map fst (filter snd (flag_table p))"

definition acl_names :: "string set" where
  "acl_names = {FSP_NOGET, FSP_DEL, FSP_ADD, FSP_MKDIR, FSP_RENAME, FSP_NOLIST,
                FSP_PASSWORD, FSP_OWNER, FSP_OWNERPASSWORD, FSP_DIRLISTING}"

lemma touch_table:
  "fold (\<lambda>e. touch_if (snd e) (fst e)) es w = fold (\<lambda>f. attempt (\<lambda>w. touch w f)) (map fst (filter snd es)) w"
  by (induction es arbitrary: w) (auto simp: touch_if_def)

lemma touch_flags:
  "touch_if (\<not> flag p DIR_LIST) FSP_NOLIST (touch_if (flag p DIR_RENAME) FSP_RENAME
     (touch_if (flag p DIR_MKDIR) FSP_MKDIR (touch_if (flag p DIR_ADD) FSP_ADD
       (touch_if (flag p DIR_DEL) FSP_DEL (touch_if (\<not> flag p DIR_GET) FSP_NOGET w)))))
   = fold (\<lambda>f. attempt (\<lambda>w. touch w f)) (flag_files p) w"
  using touch_table [of "flag_table p" w] unfolding flag_files_def by (simp add: flag_table_def)

lemma flag_files_names: "set (flag_files p) \<subseteq> set (map fst (flag_table p))"
  unfolding flag_files_def set_map by (rule image_mono) (rule filter_is_subset)

lemma flag_files_facts: "set (flag_files p) \<subseteq> acl_names" "distinct (flag_files p)"
  "FSP_PASSWORD \<notin> set (flag_files p)" "FSP_OWNER \<notin> set (flag_files p)" "FSP_OWNERPASSWORD \<notin> set (flag_files p)"
proof -
  have "set (map fst (flag_table p)) \<subseteq> acl_names" by (simp add: flag_table_def acl_names_def)
  with flag_files_names [of p] show "set (flag_files p) \<subseteq> acl_names" by (rule order_trans)
  have "distinct (map fst (flag_table p))" by (simp add: flag_table_def)
  then show "distinct (flag_files p)" unfolding flag_files_def by (rule distinct_map_filter)
  show "FSP_PASSWORD \<notin> set (flag_files p)" "FSP_OWNER \<notin> set (flag_files p)" "FSP_OWNERPASSWORD \<notin> set (flag_files p)"
    using flag_files_names [of p] by (auto simp: flag_table_def)
qed

lemma in_flag_files: "f \<in> set (flag_files p) \<longleftrightarrow> (f, True) \<in> set (flag_table p)"
  by (force simp: flag_files_def)

lemma load_flags_restores:
  assumes "file_bits p"
    and "\<And>f. f \<in> {FSP_NOGET, FSP_DEL, FSP_ADD, FSP_MKDIR, FSP_RENAME, FSP_NOLIST} \<Longrightarrow>
           fexist w f \<longleftrightarrow> f \<in> set (flag_files p)"
  shows "load_flags w (DIR_LIST OR DIR_GET) = p"
proof -
  have "fexist w FSP_NOGET = (\<not> flag p DIR_GET)" "fexist w FSP_DEL = flag p DIR_DEL"
    "fexist w FSP_ADD = flag p DIR_ADD" "fexist w FSP_MKDIR = flag p DIR_MKDIR"
    "fexist w FSP_RENAME = flag p DIR_RENAME" "fexist w FSP_NOLIST = (\<not> flag p DIR_LIST)"
    using assms(2) by (simp_all add: in_flag_files flag_table_def)
  then have *: "load_flags w (DIR_LIST OR DIR_GET) =
    (let p1 = (if \<not> flag p DIR_GET then (DIR_LIST OR DIR_GET) XOR DIR_GET else DIR_LIST OR DIR_GET);
         p2 = (if flag p DIR_DEL then p1 OR DIR_DEL else p1);
         p3 = (if flag p DIR_ADD then p2 OR DIR_ADD else p2);
         p4 = (if flag p DIR_MKDIR then p3 OR DIR_MKDIR else p3);
         p5 = (if flag p DIR_RENAME then p4 OR DIR_RENAME else p4)
     in if \<not> flag p DIR_LIST then p5 XOR DIR_LIST else p5)"
    unfolding load_flags_def by (simp only:)
  from assms(1) obtain d a m g l r where p: "p = (if d then DIR_DEL else 0) OR (if a then DIR_ADD else 0) OR
     (if m then DIR_MKDIR else 0) OR (if g then DIR_GET else 0) OR (if l then DIR_LIST else 0) OR
     (if r then DIR_RENAME else 0)" unfolding file_bits_def by blast
  show ?thesis unfolding * p flag_def Let_def
    by (cases d; cases a; cases m; cases g; cases l; cases r) simp_all
qed

lemma readable_mode:
  assumes "um < (256 :: nat)"
  shows "odd ((438 - (438 AND um)) div 256)"
proof -
  have u: "take_bit 8 um = um" using assms by (simp add: take_bit_nat_eq_self)
  have "438 AND um = 438 AND take_bit 8 um" by (simp only: u)
  also have "\<dots> = take_bit 8 438 AND um" by (simp only: take_bit_eq_mask ac_simps)
  also have "\<dots> \<le> take_bit 8 438" by (rule nat_and_le)
  finally have "438 AND um \<le> 182" by simp
  then have "256 \<le> 438 - (438 AND um)" "438 - (438 AND um) < 512" by simp_all
  then have "(438 - (438 AND um)) div 256 = 1" by (simp add: div_nat_eqI)
  then show ?thesis by simp
qed

definition word_ok :: "string \<Rightarrow> bool" where
  "word_ok pw \<longleftrightarrow> pw \<noteq> [] \<and> length pw \<le> 79 \<and> (\<forall>c \<in> set pw. \<not> isspace c \<and> c \<noteq> NUL)"

lemma scan_word_saved: "word_ok pw \<Longrightarrow> scan_word 79 (pw @ [NL]) = Some pw"
proof -
  assume pw: "word_ok pw"
  have "dropWhile isspace (pw @ [NL]) = pw @ [NL]"
    using pw by (cases pw) (auto simp: word_ok_def)
  moreover have "takeWhile (\<lambda>x. \<not> isspace x) (pw @ [NL]) = pw"
    using pw takeWhile_break [of pw "\<lambda>x. \<not> isspace x" NL "[]"] by (simp add: word_ok_def isspace_def)
  moreover have "cstr pw = pw" using pw by (intro cstr_id) (auto simp: word_ok_def)
  ultimately show ?thesis using pw by (simp add: scan_word_def word_ok_def)
qed

text \<open>The first line of the owner file is all that is read.\<close>

lemma owner_lines_first:
  assumes "l \<noteq> []" "length l \<le> 255" "NL \<notin> set l" "CHR 0x0D \<notin> set l"
  shows "owner_lines (l @ NL # xs) = [cstr l]"
proof -
  have "takeWhile (\<lambda>x. x \<noteq> NL \<and> x \<noteq> CHR 0x0D) (l @ NL # xs) = l"
    using assms(3,4) by (intro takeWhile_break) auto
  moreover have "owner_lines (NL # xs) = []" by (simp add: owner_lines.simps)
  ultimately show ?thesis using assms(1,2) by (subst owner_lines.simps) (simp add: Let_def)
qed

text \<open>An owner record that fits the line.\<close>

definition owner_ok :: "IPrange list \<Rightarrow> bool" where
  "owner_ok tab \<longleftrightarrow> tab = [] \<or> (\<exists>r t. tab = [r, new_range] \<and> wf_rule r \<and> rtext r = Some t \<and> wf_text t \<and>
     length (dump_line r t) \<le> 256 \<and> NL \<notin> set t \<and> CHR 0x0D \<notin> set t \<and> NUL \<notin> set t)"

lemma dump_body_chars:
  assumes "x \<notin> set t" "t \<noteq> []" "\<not> isdigit x" "x \<notin> {CHR '' '', CHR ''.'', CHR ''-''}"
  shows "x \<notin> set (dump_body r t)"
proof -
  have "x \<notin> set (dump_range r j)" for j
    using isdigit_dec [of "unat (lo r ! j)"] isdigit_dec [of "unat (hi r ! j)"] assms(3,4)
    by (auto simp: dump_range_def list_all_iff)
  then show ?thesis using assms by (cases t) (auto simp: dump_body_def)
qed

lemma owner_file_loads:
  assumes "owner_ok tab" "tab \<noteq> []"
  shows "add_iplines dns (owner_lines (dump_iptab b True tab)) [] = Some tab"
proof -
  obtain r t where t: "tab = [r, new_range]" "wf_rule r" "rtext r = Some t" "wf_text t"
    "length (dump_line r t) \<le> 256" "NL \<notin> set t" "CHR 0x0D \<notin> set t" "NUL \<notin> set t"
    using assms by (auto simp: owner_ok_def)
  define l where "l = dump_body r t"
  have "t \<noteq> []" using t(4) by (simp add: wf_text_def)
  then have l: "NL \<notin> set l" "CHR 0x0D \<notin> set l" "NUL \<notin> set l"
    using dump_body_chars [of _ t r] t(6-8) unfolding l_def by (simp_all add: isdigit_def)
  have ln: "l \<noteq> []" "length l \<le> 255"
    using t(5) by (simp_all add: l_def dump_line_body) (simp add: dump_body_def)
  have "dump_iptab b True tab = l @ NL # []"
    using t(1,3) by (simp add: dump_iptab_def new_range_def l_def dump_line_body)
  then have "owner_lines (dump_iptab b True tab) = [l]"
    using owner_lines_first [OF ln l(1,2), of "[]"] l(3) by (simp add: cstr_id)
  moreover have "parse_ipline dns l = Some r"
    using dump_body_parse [OF t(2-4), of "[]" dns] by (simp add: l_def)
  ultimately show ?thesis using t(1) by (simp add: add_ipline_def)
qed

definition small_texts :: "DIRINFO \<Rightarrow> bool" where
  "small_texts di \<longleftrightarrow> (\<forall>pw. public_password di = Some pw \<longrightarrow> word_ok pw) \<and>
     (\<forall>pw. owner_password di = Some pw \<longrightarrow> word_ok pw) \<and> owner_ok (owner di)"

text \<open>The names and contents \<open>save_access_rights\<close> leaves in a directory.\<close>

definition saved_files :: "fsp_conf \<Rightarrow> DIRINFO \<Rightarrow> nat \<Rightarrow> string \<Rightarrow> (char list \<times> nat) option" where
  "saved_files conf di um s =
     (let m = 438 - (438 AND um) in
      if s \<in> set (flag_files (protection di)) then Some ([], 384 - (384 AND um))
      else if s = FSP_PASSWORD then map_option (\<lambda>pw. (pw @ [NL], m)) (public_password di)
      else if s = FSP_OWNERPASSWORD then map_option (\<lambda>pw. (pw @ [NL], m)) (owner_password di)
      else if s = FSP_OWNER \<and> owner di \<noteq> [] then Some (dump_iptab (dbug conf) True (owner di), m)
      else None)"

lemma save_access_rights_files:
  assumes "use_access_files conf" "work_dir ns w" "acl_names \<subseteq> ns" "small_texts di" "500 \<le> room w"
  defines "w' \<equiv> save_access_rights conf di w"
  shows "work_dir ns w' \<and> cwd w' = cwd w \<and>
    view w' = (\<lambda>s. if s \<in> acl_names then saved_files conf di (cur_umask w) s else view w s)"
proof -
  have small: "public_password di = Some pw \<Longrightarrow> word_ok pw" "owner_password di = Some pw \<Longrightarrow> word_ok pw"
    "owner_ok (owner di)" for pw
    using assms(4) by (simp_all add: small_texts_def)
  let ?um = "cur_umask w"
  let ?pf = "\<lambda>v d. (d, 438 - (438 AND snd v))"
  define w0 where "w0 = unlink_all [FSP_NOGET, FSP_DEL, FSP_ADD, FSP_MKDIR, FSP_RENAME, FSP_NOLIST,
                           FSP_PASSWORD, FSP_OWNER, FSP_OWNERPASSWORD, FSP_DIRLISTING] w"
  define w6 where "w6 = fold (\<lambda>f. attempt (\<lambda>w. touch w f)) (flag_files (protection di)) w0"
  define w7 where "w7 = (case map_option (\<lambda>pw. pw @ [NL]) (public_password di) of None \<Rightarrow> w6
      | Some d \<Rightarrow> attempt (\<lambda>w. write_file w FSP_PASSWORD d) w6)"
  define w8 where "w8 = (case map_option (\<lambda>pw. pw @ [NL]) (owner_password di) of None \<Rightarrow> w7
      | Some d \<Rightarrow> attempt (\<lambda>w. write_file w FSP_OWNERPASSWORD d) w7)"
  define x where "x = (if owner di = [] then None else Some (dump_iptab (dbug conf) True (owner di)))"
  have w': "w' = (case x of None \<Rightarrow> w8 | Some d \<Rightarrow> attempt (\<lambda>w. write_file w FSP_OWNER d) w8)"
    using assms(1) unfolding w'_def save_access_rights_def Let_def touch_flags w0_def [symmetric]
    by (cases "public_password di"; cases "owner_password di")
      (simp_all add: w6_def w7_def w8_def x_def save_password_def)
  have ns: "FSP_PASSWORD \<in> ns" "FSP_OWNERPASSWORD \<in> ns" "FSP_OWNER \<in> ns" "set (flag_files (protection di)) \<subseteq> ns"
    using assms(3) flag_files_facts(1) by (auto simp: acl_names_def)
  have 0: "work_dir ns w0 \<and> view w0 = (\<lambda>s. if s \<in> acl_names then None else view w s) \<and>
      (cwd w0, cur_umask w0) = (cwd w, ?um) \<and> room w0 = room w"
    using dir_files.remove_all [OF assms(2), of "[FSP_NOGET, FSP_DEL, FSP_ADD, FSP_MKDIR, FSP_RENAME, FSP_NOLIST,
                           FSP_PASSWORD, FSP_OWNER, FSP_OWNERPASSWORD, FSP_DIRLISTING]"] assms(3)
    unfolding w0_def unlink_all_def acl_names_def by (simp add: fun_eq_iff)
  have v0: "view w0 s = (if s \<in> acl_names then None else view w s)" for s using 0 by simp
  have absent: "\<forall>s \<in> set (flag_files (protection di)). view w0 s = None"
    using v0 flag_files_facts(1) [of "protection di"] by auto
  have 6: "work_dir ns w6 \<and> view w6 = (\<lambda>s. if s \<in> set (flag_files (protection di)) then Some ([], 384 - (384 AND ?um)) else view w0 s) \<and>
      (cwd w6, cur_umask w6) = (cwd w, ?um) \<and> room w6 = room w"
    using dir_files.create_all [OF _ ns(4) flag_files_facts(2) absent] 0 unfolding w6_def by (simp cong: if_cong)
  have v6: "view w6 FSP_PASSWORD = None" "view w6 FSP_OWNERPASSWORD = None" "view w6 FSP_OWNER = None"
    using 6 v0 flag_files_facts(3-5) [of "protection di"] by (simp_all add: acl_names_def)
  have 7: "work_dir ns w7 \<and> view w7 = (view w6)(FSP_PASSWORD := map_option (?pf (cwd w, ?um)) (map_option (\<lambda>pw. pw @ [NL]) (public_password di))) \<and>
      (cwd w7, cur_umask w7) = (cwd w, ?um) \<and> room w6 - 80 \<le> room w7"
  proof -
    have "\<forall>d. map_option (\<lambda>pw. pw @ [NL]) (public_password di) = Some d \<longrightarrow> length d \<le> 80"
      using small(1) unfolding word_ok_def by (cases "public_password di") force+
    moreover have "80 \<le> room w6" "work_dir ns w6" using 6 assms(5) by auto
    ultimately show ?thesis
      using dir_files.save_opt [OF _ ns(1) v6(1), of "map_option (\<lambda>pw. pw @ [NL]) (public_password di)" 80] 6
      unfolding w7_def by simp
  qed
  have 8: "work_dir ns w8 \<and> view w8 = (view w7)(FSP_OWNERPASSWORD := map_option (?pf (cwd w, ?um)) (map_option (\<lambda>pw. pw @ [NL]) (owner_password di))) \<and>
      (cwd w8, cur_umask w8) = (cwd w, ?um) \<and> room w7 - 80 \<le> room w8"
  proof -
    have "\<forall>d. map_option (\<lambda>pw. pw @ [NL]) (owner_password di) = Some d \<longrightarrow> length d \<le> 80"
      using small(2) unfolding word_ok_def by (cases "owner_password di") force+
    moreover have "80 \<le> room w7" "work_dir ns w7" "view w7 FSP_OWNERPASSWORD = None"
      using 6 7 assms(5) v6 by auto
    ultimately show ?thesis
      using dir_files.save_opt [OF _ ns(2), of w7 "map_option (\<lambda>pw. pw @ [NL]) (owner_password di)" 80] 7
      unfolding w8_def by simp
  qed
  have xl: "\<forall>d. x = Some d \<longrightarrow> length d \<le> 256"
    using small(3) by (auto simp: x_def owner_ok_def dump_iptab_def new_range_def)
  have 9: "work_dir ns w' \<and> view w' = (view w8)(FSP_OWNER := map_option (?pf (cwd w, ?um)) x) \<and>
      (cwd w', cur_umask w') = (cwd w, ?um) \<and> room w8 - 256 \<le> room w'"
  proof -
    have "256 \<le> room w8" "work_dir ns w8" "view w8 FSP_OWNER = None"
      using 6 7 8 assms(5) v6 by auto
    with dir_files.save_opt [OF _ ns(3), of w8 x 256] 8 xl show ?thesis unfolding w' by simp
  qed
  have "view w' s = (if s \<in> acl_names then saved_files conf di ?um s else view w s)" for s
  proof -
    have vs: "view w' s = (if s = FSP_OWNER then map_option (?pf (cwd w, ?um)) x
      else if s = FSP_OWNERPASSWORD then map_option (?pf (cwd w, ?um)) (map_option (\<lambda>pw. pw @ [NL]) (owner_password di))
      else if s = FSP_PASSWORD then map_option (?pf (cwd w, ?um)) (map_option (\<lambda>pw. pw @ [NL]) (public_password di))
      else if s \<in> set (flag_files (protection di)) then Some ([], 384 - (384 AND ?um))
      else if s \<in> acl_names then None else view w s)"
      using 6 7 8 9 v0 [of s] by simp
    note facts = flag_files_facts [of "protection di"]
    consider "s = FSP_OWNER" | "s = FSP_OWNERPASSWORD" | "s = FSP_PASSWORD" | "s \<in> set (flag_files (protection di))"
      | "s \<notin> {FSP_OWNER, FSP_OWNERPASSWORD, FSP_PASSWORD}" "s \<notin> set (flag_files (protection di))" by blast
    then show ?thesis
    proof cases
      case 4
      then have "s \<in> acl_names" "s \<noteq> FSP_OWNER" "s \<noteq> FSP_OWNERPASSWORD" "s \<noteq> FSP_PASSWORD"
        using facts by auto
      with 4 vs show ?thesis by (simp add: saved_files_def)
    next
      case 5
      with vs show ?thesis by (simp add: saved_files_def)
    qed (use vs facts in \<open>simp_all add: saved_files_def Let_def x_def acl_names_def option.map_comp o_def\<close>)
  qed
  with 9 show ?thesis by auto
qed

lemma load_sized_saved:
  assumes "work_dir ns w" "s \<in> ns" "view w s = map_option (\<lambda>pw. (pw @ [NL], m)) x" "odd (m div 256)"
    and "\<And>pw. x = Some pw \<Longrightarrow> word_ok pw"
  shows "\<exists>w'. load_sized_password w s = (x, w') \<and> view w' = view w \<and> work_dir ns w'"
proof (cases x)
  case None
  then show ?thesis using view_stat(1) [OF assms(1,2)] assms(1,3) by (simp add: load_sized_password_def)
next
  case (Some pw)
  then have v: "view w s = Some (pw @ [NL], m)" using assms(3) by simp
  obtain sb where sb: "stat w s = Some sb" "st_size sb = length (pw @ [NL])"
    using view_stat(2) [OF assms(1,2) v] by blast
  obtain w' where w': "read_file w s = Some (pw @ [NL], w')" "view w' = view w" "work_dir ns w' = work_dir ns w"
    using view_read(2) [OF assms(1,2) v assms(4)] by blast
  have "load_sized_password w s = (Some pw, w')"
    using sb w'(1) scan_word_saved [OF assms(5) [OF Some]]
    by (simp add: load_sized_password_def load_password_def)
  with Some w' assms(1) show ?thesis by simp
qed

text \<open>A world with an empty root directory, and rights to store in it.\<close>

definition demo_world :: world where
  "demo_world = \<lparr> entries = [([], 0)],
     inodes = (\<lambda>_. \<lparr> kind = Directory, mtime = 0, mode = 493 \<rparr>), next_ino = 1,
     streams = [], next_stream = 1, cwd = [], cur_umask = 63, clock = 7, room = 1000 \<rparr>"

definition demo_owner :: IPrange where
  "demo_owner = \<lparr> lo = [10,0,0,1], hi = [10,0,0,9], rtext = Some ''O'' \<rparr>"

definition demo_rights :: DIRINFO where
  "demo_rights = \<lparr> realname = [], owner = [demo_owner, new_range], protection = DIR_GET OR DIR_ADD,
     public_password = Some ''guest'', owner_password = Some ''secret'', readme = None,
     di_mtime = 0, lastcheck = 0 \<rparr>"

definition demo_conf :: fsp_conf where
  "demo_conf = default_conf\<lparr> readme_file := Some ''.README'' \<rparr>"
text \<open>C13: the rights of a directory survive being stored: for a record whose flags are the six that files
  can hold, whose passwords are single words of at most 79 characters and whose owner table is
  empty (then there is no owner password either) or one printable record that fits a line, the
  files \<open>save_access_rights\<close> writes into a writable directory with plain or no files of those names
  are read back by \<open>load_access_rights\<close> as the same flags, passwords and owner table.\<close>

theorem rights_roundtrip:
  assumes "use_access_files conf" and "readme_file conf = Some rf"
    and "work_dir (insert rf acl_names) w" and "view w rf = None" and "rf \<notin> acl_names"
    and "small_texts di" and "file_bits (protection di)" and "owner di = [] \<longrightarrow> owner_password di = None"
    and "500 \<le> room w" and "cur_umask w < 256"
  shows "\<exists>di' w'. load_access_rights conf dns di0 (save_access_rights conf di w) = Some (di', w') \<and>
    protection di' = protection di \<and> public_password di' = public_password di \<and>
    owner_password di' = owner_password di \<and> owner di' = owner di \<and> readme di' = None"
proof -
  define w1 where "w1 = save_access_rights conf di w"
  let ?ns = "insert rf acl_names" and ?m = "438 - (438 AND cur_umask w)"
  note f = save_access_rights_files [OF assms(1,3) subset_insertI assms(6,9), folded w1_def]
  have m: "odd (?m div 256)" by (rule readable_mode [OF assms(10)])
  have wd: "work_dir ?ns w1" using f by blast
  have v: "view w1 s = (if s \<in> acl_names then saved_files conf di (cur_umask w) s else view w s)" for s
    using f by simp
  note fl = flag_files_facts [of "protection di"]
  have names: "FSP_PASSWORD \<in> acl_names" "FSP_OWNER \<in> acl_names" "FSP_OWNERPASSWORD \<in> acl_names"
    by (simp_all add: acl_names_def)
  have vp: "view w1 FSP_PASSWORD = map_option (\<lambda>pw. (pw @ [NL], ?m)) (public_password di)"
    "view w1 FSP_OWNERPASSWORD = map_option (\<lambda>pw. (pw @ [NL], ?m)) (owner_password di)"
    "view w1 FSP_OWNER = (if owner di = [] then None else Some (dump_iptab (dbug conf) True (owner di), ?m))"
    using fl names by (simp_all add: v saved_files_def Let_def)
  have rd: "load_readme conf w1 d = (d, w1)" for d
    using view_stat(1) [OF wd, of rf] v [of rf] assms(2,4,5) by (simp add: load_readme_def)
  have flags: "load_flags w1 (DIR_LIST OR DIR_GET) = protection di"
  proof (rule load_flags_restores [OF assms(7)])
    fix s assume s: "s \<in> {FSP_NOGET, FSP_DEL, FSP_ADD, FSP_MKDIR, FSP_RENAME, FSP_NOLIST}"
    then have "s \<in> acl_names" "s \<noteq> FSP_PASSWORD" "s \<noteq> FSP_OWNERPASSWORD" "s \<noteq> FSP_OWNER"
      by (auto simp: acl_names_def)
    then show "fexist w1 s \<longleftrightarrow> s \<in> set (flag_files (protection di))"
      using view_stat(3) [OF wd, of s] v [of s] by (simp add: saved_files_def Let_def)
  qed
  have small: "\<And>pw. public_password di = Some pw \<Longrightarrow> word_ok pw" "\<And>pw. owner_password di = Some pw \<Longrightarrow> word_ok pw"
    "owner_ok (owner di)" using assms(6) by (simp_all add: small_texts_def)
  obtain w4 where w4: "load_sized_password w1 FSP_PASSWORD = (public_password di, w4)" "view w4 = view w1" "work_dir ?ns w4"
    using load_sized_saved [OF wd _ vp(1) m small(1)] names by blast
  show ?thesis
  proof (cases "owner di = []")
    case True
    then have "read_file w4 FSP_OWNER = None"
      using view_read(1) [OF w4(3), of FSP_OWNER] vp(3) w4(2) names by simp
    then show ?thesis
      using assms(1,8) True flags rd w4(1) unfolding w1_def [symmetric] load_access_rights_def by simp
  next
    case False
    obtain w5 where w5: "read_file w4 FSP_OWNER = Some (dump_iptab (dbug conf) True (owner di), w5)"
      "view w5 = view w4" "work_dir ?ns w5"
      using view_read(2) [OF w4(3), of FSP_OWNER _ ?m] vp(3) w4(2,3) names m False by auto
    obtain w6 where w6: "load_sized_password w5 FSP_OWNERPASSWORD = (owner_password di, w6)"
      using load_sized_saved [OF w5(3), of FSP_OWNERPASSWORD ?m "owner_password di"] vp(2) w5(2) w4(2) names m small(2) by auto
    have "add_iplines dns (owner_lines (dump_iptab (dbug conf) True (owner di))) [] = Some (owner di)"
      by (rule owner_file_loads [OF small(3) False])
    then show ?thesis
      using assms(1) flags rd w4(1) w5(1) w6 unfolding w1_def [symmetric] load_access_rights_def by simp
  qed
qed

theorem rights_roundtrip_witness:
  "\<exists>di' w'. load_access_rights demo_conf (\<lambda>_. None) demo_rights (save_access_rights demo_conf demo_rights demo_world) = Some (di', w') \<and>
    protection di' = (DIR_GET OR DIR_ADD) \<and> public_password di' = Some ''guest'' \<and>
    owner_password di' = Some ''secret'' \<and> owner di' = owner demo_rights \<and> readme di' = None"
proof -
  have "use_access_files demo_conf" "readme_file demo_conf = Some ''.README''"
    by (simp_all add: demo_conf_def default_conf_def)
  moreover have "work_dir (insert ''.README'' acl_names) demo_world"
    by (simp add: work_dir_def acl_names_def simple_name_def plain_def node_def lookup_def demo_world_def dir_writable_def may_write_def)
  moreover have "view demo_world ''.README'' = None"
    by (simp add: view_def node_def lookup_def demo_world_def)
  moreover have "''.README'' \<notin> acl_names" by (simp add: acl_names_def)
  moreover have "small_texts demo_rights"
  proof -
    have "wf_rule demo_owner" by code_simp
    moreover have "wf_text ''O''" "length (dump_line demo_owner ''O'') \<le> 256" by code_simp+
    ultimately have "owner_ok [demo_owner, new_range]" by (auto simp: owner_ok_def demo_owner_def)
    then show ?thesis by (simp add: small_texts_def demo_rights_def word_ok_def isspace_def)
  qed
  moreover have "file_bits (protection demo_rights)"
    unfolding file_bits_def by (rule exI [of _ False], rule exI [of _ True], rule exI [of _ False], rule exI [of _ True],
      rule exI [of _ False], rule exI [of _ False], simp add: demo_rights_def)
  moreover have "owner demo_rights = [] \<longrightarrow> owner_password demo_rights = None" by (simp add: demo_rights_def)
  moreover have "500 \<le> room demo_world" "cur_umask demo_world < 256" by (simp_all add: demo_world_def)
  ultimately have "\<exists>di' w'. load_access_rights demo_conf (\<lambda>_. None) demo_rights (save_access_rights demo_conf demo_rights demo_world) = Some (di', w') \<and>
    protection di' = protection demo_rights \<and> public_password di' = public_password demo_rights \<and>
    owner_password di' = owner_password demo_rights \<and> owner di' = owner demo_rights \<and> readme di' = None"
    by (rule rights_roundtrip)
  then show ?thesis by (simp add: demo_rights_def)
qed

text \<open>Only the first line of an owner file counts: whatever follows the first line (of at most
  255 characters) of the file, a further owner or a host to be refused, is not read, because the
  scan format stops in front of the line end and never passes it.\<close>

theorem owner_file_first_line_only:
  assumes "l \<noteq> []" "length l \<le> 255" "NL \<notin> set l" "CHR 0x0D \<notin> set l"
  shows "add_iplines dns (owner_lines (l @ NL # rest)) [] = add_iplines dns (owner_lines (l @ [NL])) []"
  using owner_lines_first [OF assms, of rest] owner_lines_first [OF assms, of "[]"] by simp

theorem owner_file_first_line_only_witness:
  "add_iplines (\<lambda>_. None) (owner_lines (''10.0.0.1 O'' @ NL # ''10.0.0.2 D go away'')) [] =
   add_iplines (\<lambda>_. None) (owner_lines (''10.0.0.1 O'' @ [NL])) []"
  by (rule owner_file_first_line_only) simp_all

end
