(* ===== verification/Caches.thy ===== *)
theory Caches
  imports Acl FifoCache
begin

text \<open>
  The three caches of \<^verbatim>\<open>server/file.c\<close> and the state all file operations share: directory
  listings by real name, directory records by the name a client used, and open streams by
  file name, client address and port.

  A pointer into a cache is a slot number, so two pointers alias exactly if the code's do.
  Memory is not modelled: the destructors that only release it do nothing, the one of the
  stream cache closes the stream, which is undefined (\<open>None\<close>) if it is closed already. The empty
  \<open>realname\<close> stands for the null pointer. \<open>os\<close> is the operating system and \<open>cur_time\<close> the clock
  value the dispatcher last read.
\<close>

record DIRLISTING =
  listing :: "char list option"
  li_mtime :: time

record FPCACHE =
  fp :: "nat option"
  fp_inet_num :: u32
  fp_port_num :: u16

type_synonym 'e file_cache = "(string option, 'e, world option) fifo_cache"

record fsrv =
  os :: world
  dirlistcache :: "DIRLISTING file_cache"
  dirstatcache :: "DIRINFO file_cache"
  fpcache :: "FPCACHE file_cache"
  cur_time :: time

definition zero_DIRLISTING :: DIRLISTING where
  "zero_DIRLISTING = \<lparr> listing = None, li_mtime = 0 \<rparr>"

definition zero_DIRINFO :: DIRINFO where
  "zero_DIRINFO = \<lparr> realname = [], owner = [], protection = 0, public_password = None,
     owner_password = None, readme = None, di_mtime = 0, lastcheck = 0 \<rparr>"

definition zero_FPCACHE :: FPCACHE where
  "zero_FPCACHE = \<lparr> fp = None, fp_inet_num = 0, fp_port_num = 0 \<rparr>"

definition fpcache_free_entry :: "FPCACHE \<Rightarrow> world option \<Rightarrow> world option" where
  "fpcache_free_entry f w =
     (case w of None \<Rightarrow> None
      | Some w \<Rightarrow> (case fp f of None \<Rightarrow> Some w | Some s \<Rightarrow> fclose w s))"

definition memory_only :: "'a \<Rightarrow> world option \<Rightarrow> world option" where
  "memory_only _ w = w"

text \<open>The size of a pointer is 8.\<close>

definition fpcache_entry_profiler :: "FPCACHE \<Rightarrow> nat" where
  "fpcache_entry_profiler f = (if fp f \<noteq> None then 8 else 0)"

definition dirlistcache_entry_profiler :: "DIRLISTING \<Rightarrow> nat" where
  "dirlistcache_entry_profiler d = (case listing d of None \<Rightarrow> 0 | Some l \<Rightarrow> length l)"

definition string_size :: "string option \<Rightarrow> nat" where
  "string_size s = (case s of None \<Rightarrow> 0 | Some s \<Rightarrow> length s + 1)"

definition dirstatcache_entry_profiler :: "DIRINFO \<Rightarrow> nat" where
  "dirstatcache_entry_profiler d =
     (if realname d = [] then 0 else length (realname d) + 1) +
     string_size (owner_password d) + string_size (public_password d) + string_size (readme d)"

definition string_profiler :: "string option \<Rightarrow> nat" where
  "string_profiler s = (case s of None \<Rightarrow> 0 | Some s \<Rightarrow> length s)"

definition string_compare :: "string option \<Rightarrow> string option \<Rightarrow> int" where
  "string_compare e1 e2 =
     (case (e1, e2) of (Some s1, Some s2) \<Rightarrow> strcmp s1 s2 | _ \<Rightarrow> 1)"

text \<open>The sizes of the three records are 24, 64 and 24. A limit that is not positive makes
  \<open>calloc\<close> fail.\<close>

definition init_caches :: "fsp_conf \<Rightarrow> world \<Rightarrow> fsrv option" where
  "init_caches conf w =
     (case (f_cache_new (nat (dir_cache_limit conf)) 24 (Some memory_only) 8 (Some memory_only)
              (Some string_compare) None zero_DIRLISTING,
            f_cache_new (nat (stat_cache_limit conf)) 64 (Some memory_only) 8 (Some memory_only)
              (Some string_compare) None zero_DIRINFO,
            f_cache_new (nat (fp_cache_limit conf)) 24 (Some fpcache_free_entry) 8 (Some memory_only)
              (Some string_compare) None zero_FPCACHE) of
        (Some dl, Some ds, Some fc) \<Rightarrow>
          Some \<lparr> os = w,
            dirlistcache = f_cache_set_memory_profilers dl string_profiler dirlistcache_entry_profiler,
            dirstatcache = f_cache_set_memory_profilers ds string_profiler dirstatcache_entry_profiler,
            fpcache = f_cache_set_memory_profilers fc string_profiler fpcache_entry_profiler,
            cur_time = 0 \<rparr>
      | _ \<Rightarrow> None)"

definition stat_caches :: "fsrv \<Rightarrow> (u32 \<times> u32 \<times> u32 \<times> u32 \<times> u32 \<times> u32) list" where
  "stat_caches \<sigma> =
     [f_cache_stats (dirlistcache \<sigma>), f_cache_stats (dirstatcache \<sigma>), f_cache_stats (fpcache \<sigma>)]"

definition shutdown_caches :: "fsrv \<Rightarrow> fsrv option" where
  "shutdown_caches \<sigma> =
     (let (dl, w1) = f_cache_clear (dirlistcache \<sigma>) (Some (os \<sigma>));
          (ds, w2) = f_cache_clear (dirstatcache \<sigma>) w1;
          (fc, w3) = f_cache_clear (fpcache \<sigma>) w2
      in map_option (\<lambda>w. \<sigma>\<lparr> os := w, dirlistcache := dl, dirstatcache := ds, fpcache := fc \<rparr>) w3)"

subsection \<open>The calls the file operations make\<close>

definition dirlist_find :: "string \<Rightarrow> fsrv \<Rightarrow> nat option \<times> fsrv" where
  "dirlist_find k \<sigma> = (case f_cache_find (dirlistcache \<sigma>) (Some k) of (p, c) \<Rightarrow> (p, \<sigma>\<lparr> dirlistcache := c \<rparr>))"

definition dirlist_put :: "string \<Rightarrow> DIRLISTING \<Rightarrow> fsrv \<Rightarrow> nat \<times> fsrv" where
  "dirlist_put k e \<sigma> =
     (case f_cache_put (dirlistcache \<sigma>) (Some k) e (Some (os \<sigma>)) of (p, c, _) \<Rightarrow> (p, \<sigma>\<lparr> dirlistcache := c \<rparr>))"

definition dirlist_delete :: "nat option \<Rightarrow> fsrv \<Rightarrow> fsrv" where
  "dirlist_delete p \<sigma> =
     (case f_cache_delete_entry (dirlistcache \<sigma>) p (Some (os \<sigma>)) of (_, c, _) \<Rightarrow> \<sigma>\<lparr> dirlistcache := c \<rparr>)"

definition dirlist_at :: "fsrv \<Rightarrow> nat \<Rightarrow> DIRLISTING" where
  "dirlist_at \<sigma> p = entry_at (dirlistcache \<sigma>) p"

definition dirstat_find :: "string \<Rightarrow> fsrv \<Rightarrow> nat option \<times> fsrv" where
  "dirstat_find k \<sigma> = (case f_cache_find (dirstatcache \<sigma>) (Some k) of (p, c) \<Rightarrow> (p, \<sigma>\<lparr> dirstatcache := c \<rparr>))"

definition dirstat_put :: "string \<Rightarrow> DIRINFO \<Rightarrow> fsrv \<Rightarrow> nat \<times> fsrv" where
  "dirstat_put k e \<sigma> =
     (case f_cache_put (dirstatcache \<sigma>) (Some k) e (Some (os \<sigma>)) of (p, c, _) \<Rightarrow> (p, \<sigma>\<lparr> dirstatcache := c \<rparr>))"

definition dirstat_delete :: "nat option \<Rightarrow> fsrv \<Rightarrow> fsrv" where
  "dirstat_delete p \<sigma> =
     (case f_cache_delete_entry (dirstatcache \<sigma>) p (Some (os \<sigma>)) of (_, c, _) \<Rightarrow> \<sigma>\<lparr> dirstatcache := c \<rparr>)"

definition dirstat_at :: "fsrv \<Rightarrow> nat \<Rightarrow> DIRINFO" where
  "dirstat_at \<sigma> p = entry_at (dirstatcache \<sigma>) p"

definition dirstat_set :: "nat \<Rightarrow> (DIRINFO \<Rightarrow> DIRINFO) \<Rightarrow> fsrv \<Rightarrow> fsrv" where
  "dirstat_set p f \<sigma> = \<sigma>\<lparr> dirstatcache := set_entry (dirstatcache \<sigma>) p f \<rparr>"

definition fp_find :: "string \<Rightarrow> fsrv \<Rightarrow> nat option \<times> fsrv" where
  "fp_find k \<sigma> = (case f_cache_find (fpcache \<sigma>) (Some k) of (p, c) \<Rightarrow> (p, \<sigma>\<lparr> fpcache := c \<rparr>))"

text \<open>Storing and deleting in the stream cache close a stream.\<close>

definition fp_put :: "string \<Rightarrow> FPCACHE \<Rightarrow> fsrv \<Rightarrow> fsrv option" where
  "fp_put k e \<sigma> =
     (case f_cache_put (fpcache \<sigma>) (Some k) e (Some (os \<sigma>)) of
        (_, c, w) \<Rightarrow> map_option (\<lambda>w. \<sigma>\<lparr> fpcache := c, os := w \<rparr>) w)"

definition fp_delete :: "nat option \<Rightarrow> fsrv \<Rightarrow> fsrv option" where
  "fp_delete p \<sigma> =
     (case f_cache_delete_entry (fpcache \<sigma>) p (Some (os \<sigma>)) of
        (_, c, w) \<Rightarrow> map_option (\<lambda>w. \<sigma>\<lparr> fpcache := c, os := w \<rparr>) w)"

definition fp_at :: "fsrv \<Rightarrow> nat \<Rightarrow> FPCACHE" where
  "fp_at \<sigma> p = entry_at (fpcache \<sigma>) p"

text \<open>The search of \<open>search_fpcache\<close> from slot \<open>i\<close> on, over \<open>n\<close> slots; comparing with a null key is
  undefined.\<close>

fun fpcache_scan :: "fsrv \<Rightarrow> u32 \<Rightarrow> u16 \<Rightarrow> string \<Rightarrow> nat \<Rightarrow> nat \<Rightarrow> nat option option" where
  "fpcache_scan \<sigma> inet port fname i 0 = Some None"
| "fpcache_scan \<sigma> inet port fname i (Suc n) =
     (if port = fp_port_num (fp_at \<sigma> i) \<and> inet = fp_inet_num (fp_at \<sigma> i) then
        (case f_cache_get_key (fpcache \<sigma>) (Some i) of
           Some (Some key) \<Rightarrow>
             if strcmp fname key = 0 then Some (Some i) else fpcache_scan \<sigma> inet port fname (Suc i) n
         | _ \<Rightarrow> None)
      else fpcache_scan \<sigma> inet port fname (Suc i) n)"

definition search_fpcache ::
  "fsp_conf \<Rightarrow> u32 \<Rightarrow> u16 \<Rightarrow> string \<Rightarrow> fsrv \<Rightarrow> (nat option \<times> fsrv) option" where
  "search_fpcache conf inet port fname \<sigma> =
     (case fpcache_scan \<sigma> inet port fname 0 (nat (fp_cache_limit conf)) of
        None \<Rightarrow> None
      | Some (Some i) \<Rightarrow> Some (Some i, \<sigma>\<lparr> fpcache := (fpcache \<sigma>)\<lparr> hit := hit (fpcache \<sigma>) + 1 \<rparr> \<rparr>)
      | Some None \<Rightarrow> Some (None, \<sigma>\<lparr> fpcache := (fpcache \<sigma>)\<lparr> miss := miss (fpcache \<sigma>) + 1 \<rparr> \<rparr>))"

abbreviation (input) NBSIZE :: nat where "NBSIZE \<equiv> 5404"

end
