(* ===== verification/DirCheck.thy ===== *)
theory DirCheck
  imports Caches PathParse
begin

text \<open>
  \<open>validate_path\<close> of \<^verbatim>\<open>server/file.c\<close>: from the path of a request to the record of its
  directory, through the cache of such records.

  The result is undefined (\<open>None\<close>) only where a called function is. It is an error text, or the
  parsed path with the slot of the directory's record; in both cases with the request buffer,
  which the parser changes.
\<close>

definition go_home :: "fsp_conf \<Rightarrow> world \<Rightarrow> world" where
  "go_home conf w = chdir_to w (case home_dir conf of None \<Rightarrow> [] | Some h \<Rightarrow> h)"

definition os_update_with :: "(world \<Rightarrow> world) \<Rightarrow> fsrv \<Rightarrow> fsrv" where
  "os_update_with f \<sigma> = \<sigma>\<lparr> os := f (os \<sigma>) \<rparr>"

text \<open>The first steps: an operation on a directory takes the whole path as directory. What is
  copied ends at the zero octet behind the path, so the copy may be shorter than \<open>d_len\<close>.\<close>

definition directory_path :: "bool \<Rightarrow> PPATH \<Rightarrow> PPATH" where
  "directory_path want_directory pp =
     (if want_directory then pp\<lparr> d_ptr := fullp pp, d_len := d_len pp + f_len pp + 1 \<rparr> else pp)"

definition dir_name :: "PPATH \<Rightarrow> string" where
  "dir_name pp = take (d_len pp) (d_ptr pp)"

text \<open>From \<open>chdir(work)\<close> on: a new record for the directory.\<close>

definition build_dirinfo ::
  "fsp_conf \<Rightarrow> resolver \<Rightarrow> string \<Rightarrow> stat_buf \<Rightarrow> fsrv \<Rightarrow> ((string + nat) \<times> fsrv) option" where
  "build_dirinfo conf dns work sd \<sigma> =
     (case chdir (os \<sigma>) work of
        None \<Rightarrow> Some (Inl ''Can't change directory'', \<sigma>)
      | Some w1 \<Rightarrow>
          (case getcwd w1 NBSIZE of
             None \<Rightarrow> Some (Inl ''Can't get current directory'', \<sigma>\<lparr> os := go_home conf w1 \<rparr>)
           | Some real \<Rightarrow>
               (if homedir_restricted conf \<and> home_dir conf = None then None
                else if homedir_restricted conf \<and> strncmp real (the (home_dir conf)) (length (the (home_dir conf))) \<noteq> 0
                then Some (Inl ''Not following link out of restricted area'', \<sigma>\<lparr> os := go_home conf w1 \<rparr>)
                else
                  (let newdir = zero_DIRINFO\<lparr> realname := real,
                         di_mtime := (if use_directory_mtime conf then st_mtime sd else cur_time \<sigma>),
                         lastcheck := cur_time \<sigma> \<rparr>
                   in (case load_access_rights conf dns newdir w1 of
                         None \<Rightarrow> None
                       | Some (newdir', w2) \<Rightarrow>
                           (let (p, \<sigma>') = dirstat_put work newdir' (\<sigma>\<lparr> os := go_home conf w2 \<rparr>)
                            in Some (Inr p, \<sigma>')))))))"

text \<open>From the search of the cache on.\<close>

definition check_directory ::
  "fsp_conf \<Rightarrow> resolver \<Rightarrow> string \<Rightarrow> fsrv \<Rightarrow> ((string + nat) \<times> fsrv) option" where
  "check_directory conf dns work \<sigma>0 =
     (let (found, \<sigma>) = dirstat_find work \<sigma>0 in
      if found \<noteq> None \<and> lastcheck (dirstat_at \<sigma> (the found)) + stat_cache_timeout conf > cur_time \<sigma>
      then Some (Inr (the found), \<sigma>)
      else (case stat (os \<sigma>) work of
              None \<Rightarrow> Some (Inl ''No such directory'', \<sigma>)
            | Some sd \<Rightarrow>
                (if \<not> S_ISDIR sd then Some (Inl ''Not a directory'', \<sigma>)
                 else if found \<noteq> None \<and> use_directory_mtime conf \<and>
                         st_mtime sd = di_mtime (dirstat_at \<sigma> (the found))
                 then Some (Inr (the found), dirstat_set (the found) (\<lambda>d. d\<lparr> lastcheck := cur_time \<sigma> \<rparr>) \<sigma>)
                 else build_dirinfo conf dns work sd (if found \<noteq> None then dirstat_delete found \<sigma> else \<sigma>))))"

definition validate_path ::
  "fsp_conf \<Rightarrow> resolver \<Rightarrow> char list \<Rightarrow> nat \<Rightarrow> bool \<Rightarrow> fsrv
    \<Rightarrow> ((string + (PPATH \<times> nat)) \<times> char list \<times> fsrv) option" where
  "validate_path conf dns b len want_directory \<sigma> =
     (case parse_path b len of
        Inl e \<Rightarrow> Some (Inl e, b, \<sigma>)
      | Inr (pp0, b') \<Rightarrow>
          (let pp = directory_path want_directory pp0
           in (case check_directory conf dns (dir_name pp) \<sigma> of
                 None \<Rightarrow> None
               | Some (Inl e, \<sigma>') \<Rightarrow> Some (Inl e, b', \<sigma>')
               | Some (Inr p, \<sigma>') \<Rightarrow> Some (Inr (pp, p), b', \<sigma>'))))"

end
