(* ===== verification/DirList.thy ===== *)
theory DirList
  imports Caches
begin

text \<open>
  Directory listings: \<open>append_dir_listing\<close>, \<open>build_dir_listing\<close> and \<open>server_get_dir\<close> of
  \<^verbatim>\<open>server/file.c\<close>.

  The builder fills a block in a buffer of \<open>UBUF_SPACE\<close> octets on the stack, of which the first
  \<open>dirblocksize\<close> are cleared; the others are taken to be zero too. \<open>rem\<close> is the unsigned count of
  free octets, and wraps as it does in C; a write outside the buffer is undefined (\<open>None\<close>).
\<close>

record list_state =
  buffer :: "char list"
  bufpos :: nat
  rem :: u32
  blocks :: "char list"

abbreviation (input) RDTYPE_END :: char where "RDTYPE_END \<equiv> CHR 0x00"
abbreviation (input) RDTYPE_FILE :: char where "RDTYPE_FILE \<equiv> CHR 0x01"
abbreviation (input) RDTYPE_DIR :: char where "RDTYPE_DIR \<equiv> CHR 0x02"
abbreviation (input) RDTYPE_SKIP :: char where "RDTYPE_SKIP \<equiv> CHR 0x2A"
abbreviation (input) FOURGIGS :: nat where "FOURGIGS \<equiv> 0xffffffff"

definition put_at :: "char list \<Rightarrow> nat \<Rightarrow> char list \<Rightarrow> char list option" where
  "put_at b off xs = (if off + length xs \<le> length b then Some (memcpy b off xs) else None)"

definition append_dir_listing :: "char list \<Rightarrow> char list \<Rightarrow> nat \<Rightarrow> char list" where
  "append_dir_listing bs b n = bs @ take n b"

text \<open>Names that are not shown: those with a dot in front, except the two directories.\<close>

definition hidden :: "string \<Rightarrow> bool" where
  "hidden s \<longleftrightarrow> s \<noteq> [] \<and> hd s = CHR ''.'' \<and> tl s \<noteq> [] \<and> (hd (tl s) \<noteq> CHR ''.'' \<or> tl (tl s) \<noteq> [])"

text \<open>Header and name of an entry.\<close>

definition dir_entry :: "stat_buf \<Rightarrow> string \<Rightarrow> char list" where
  "dir_entry sb s =
     b4_chars (BB_WRITE4 (of_int (st_mtime sb))) @
     b4_chars (BB_WRITE4 (of_nat (min (st_size sb) FOURGIGS))) @
     [if S_ISDIR sb then RDTYPE_DIR else RDTYPE_FILE] @ s @ [NUL]"

text \<open>A full block is filled up with skip marks and appended.\<close>

definition flush_block :: "nat \<Rightarrow> list_state \<Rightarrow> list_state option" where
  "flush_block dirblocksize l = do {
     b \<leftarrow> put_at (buffer l) (bufpos l) (replicate (unat (rem l)) RDTYPE_SKIP);
     Some (l\<lparr> buffer := b, bufpos := 0, rem := of_nat dirblocksize,
              blocks := append_dir_listing (blocks l) b dirblocksize \<rparr>) }"

definition put_entry :: "nat \<Rightarrow> stat_buf \<Rightarrow> string \<Rightarrow> list_state \<Rightarrow> list_state option" where
  "put_entry dirblocksize sb s l0 = do {
     let nlen = length s + 1;
     l \<leftarrow> (if rem l0 < of_nat (RDHSIZE + nlen) then flush_block dirblocksize l0 else Some l0);
     b \<leftarrow> put_at (buffer l) (bufpos l) (dir_entry sb s);
     let skip = (nlen + RDHSIZE) mod 4;
     let pad = (if skip \<noteq> 0 then 4 - skip else 0);
     Some (l\<lparr> buffer := b, bufpos := bufpos l + RDHSIZE + nlen + pad,
              rem := rem l - of_nat (nlen + RDHSIZE) - of_nat pad \<rparr>) }"

text \<open>The loop over the names \<open>readdir\<close> returns.\<close>

fun list_entries :: "world \<Rightarrow> string \<Rightarrow> nat \<Rightarrow> string list \<Rightarrow> list_state \<Rightarrow> list_state option" where
  "list_entries w directory dirblocksize [] l = Some l"
| "list_entries w directory dirblocksize (s # names) l =
     (if hidden s then list_entries w directory dirblocksize names l
      else if length directory + 1 + length s + 1 > NBSIZE then None
      else (case stat w (directory @ ''/'' @ s) of
              None \<Rightarrow> list_entries w directory dirblocksize names l
            | Some sb \<Rightarrow>
                (if \<not> S_ISDIR sb \<and> \<not> S_ISREG sb then list_entries w directory dirblocksize names l
                 else (case put_entry dirblocksize sb s l of
                         None \<Rightarrow> None
                       | Some l' \<Rightarrow> list_entries w directory dirblocksize names l'))))"

definition end_entry :: "nat \<Rightarrow> list_state \<Rightarrow> char list option" where
  "end_entry dirblocksize l0 = do {
     l \<leftarrow> (if rem l0 < of_nat RDHSIZE then flush_block dirblocksize l0 else Some l0);
     b \<leftarrow> put_at (buffer l) (bufpos l + 8) [RDTYPE_END];
     Some (append_dir_listing (blocks l) b (bufpos l + RDHSIZE)) }"

definition block_size :: "fsp_conf \<Rightarrow> nat" where
  "block_size conf = (if unat (packetsize conf) > UBUF_SPACE then UBUF_SPACE else unat (packetsize conf))"

definition build_dir_listing :: "fsp_conf \<Rightarrow> world \<Rightarrow> time \<Rightarrow> string \<Rightarrow> DIRLISTING option" where
  "build_dir_listing conf w now directory =
     (case list_dir w directory of
        None \<Rightarrow> Some zero_DIRLISTING
      | Some names \<Rightarrow> do {
          let dirblocksize = block_size conf;
          l \<leftarrow> list_entries w directory dirblocksize names
                \<lparr> buffer = replicate UBUF_SPACE NUL, bufpos = 0, rem = of_nat dirblocksize, blocks = [] \<rparr>;
          c \<leftarrow> end_entry dirblocksize l;
          Some \<lparr> listing = Some c, li_mtime = now \<rparr> })"

subsection \<open>Listings on disk and in the cache\<close>

definition listing_file :: "DIRINFO \<Rightarrow> string" where
  "listing_file di = realname di @ ''/'' @ FSP_DIRLISTING"

text \<open>Loading the listing kept in the directory, if it is not older than the directory.\<close>

definition load_listing :: "DIRINFO \<Rightarrow> world \<Rightarrow> (DIRLISTING option \<times> world) option" where
  "load_listing di w =
     (case stat w (listing_file di) of
        None \<Rightarrow> Some (None, w)
      | Some sf \<Rightarrow>
          (if st_mtime sf < di_mtime di then Some (None, w)
           else (case fopen w (listing_file di) Read of
                   None \<Rightarrow> Some (None, w)
                 | Some (f, w1) \<Rightarrow> do {
                     (d, w2) \<leftarrow> fread w1 f (st_size sf);
                     w3 \<leftarrow> fclose w2 f;
                     Some (if length d = st_size sf
                           then Some \<lparr> listing = Some d, li_mtime = st_mtime sf \<rparr> else None, w3) })))"

text \<open>Storing it. The count \<open>fwrite\<close> returns is only tested for being zero.\<close>

definition store_listing :: "string \<Rightarrow> char list \<Rightarrow> world \<Rightarrow> (nat \<times> world) option" where
  "store_listing list_p data w = do {
     (ok, w1) \<leftarrow> (case fopen w list_p Write of
        None \<Rightarrow> Some (0, w)
      | Some (f, w1) \<Rightarrow> do {
          (k, w2) \<leftarrow> fwrite w1 f data;
          w3 \<leftarrow> fclose w2 f;
          Some (if k = length data then 1 else k, w3) });
     Some (ok, if ok = 0 then attempt (\<lambda>w. unlink w list_p) w1 else w1) }"

definition server_get_dir :: "fsp_conf \<Rightarrow> DIRINFO \<Rightarrow> fsrv \<Rightarrow> ((string + nat) \<times> fsrv) option" where
  "server_get_dir conf di \<sigma>0 =
     (let (found, \<sigma>1) = dirlist_find (realname di) \<sigma>0;
          expired = (case found of None \<Rightarrow> False | Some p \<Rightarrow> li_mtime (dirlist_at \<sigma>1 p) < di_mtime di);
          \<sigma> = (if expired then dirlist_delete found \<sigma>1 else \<sigma>1)
      in (if found \<noteq> None \<and> \<not> expired then Some (Inr (the found), \<sigma>)
          else if use_prebuild_dirlists conf \<and> length (listing_file di) \<ge> NBSIZE then None
          else do {
            (loaded, w) \<leftarrow> (if use_prebuild_dirlists conf then load_listing di (os \<sigma>) else Some (None, os \<sigma>));
            dlnew \<leftarrow> (case loaded of
                        Some dl \<Rightarrow> Some dl
                      | None \<Rightarrow> build_dir_listing conf w (cur_time \<sigma>) (realname di));
            (case listing dlnew of
               None \<Rightarrow> Some (Inl ''Server can't list directory'', \<sigma>\<lparr> os := w \<rparr>)
             | Some data \<Rightarrow>
                 (let (p, \<sigma>2) = dirlist_put (realname di) dlnew (\<sigma>\<lparr> os := w \<rparr>)
                  in (if use_prebuild_dirlists conf \<and> loaded = None then do {
                        (ok, w2) \<leftarrow> store_listing (listing_file di) data (os \<sigma>2);
                        let \<sigma>3 = \<sigma>2\<lparr> os := w2 \<rparr>;
                        Some (Inr p, if ok = 0 then \<sigma>3 else \<sigma>3\<lparr> dirlistcache :=
                          set_entry (dirlistcache \<sigma>3) p (\<lambda>d. d\<lparr> li_mtime := cur_time \<sigma>3 \<rparr>) \<rparr>) }
                      else Some (Inr p, \<sigma>2)))) }))"

end
