(* ===== verification/FileOps.thy ===== *)
theory FileOps
  imports DirCheck DirList
begin

text \<open>
  The remaining operations of \<^verbatim>\<open>server/file.c\<close>: deleting, directories, opening, protection,
  uploading, installing, the two halves of a grab, status, renaming and the home directory.

  An operation gives an error text (\<open>Inl\<close>) or its result, with the changed server; \<open>None\<close> is
  undefined behaviour, such as using a closed stream. Directory records are slots of
  \<open>dirstatcache\<close> that the operations read and change in place.
\<close>

type_synonym 'a outcome = "((string + 'a) \<times> fsrv) option"

definition fail :: "string \<Rightarrow> fsrv \<Rightarrow> 'a outcome" where
  "fail e \<sigma> = Some (Inl e, \<sigma>)"

definition done_with :: "fsrv \<Rightarrow> unit outcome" where
  "done_with \<sigma> = Some (Inr (), \<sigma>)"

text \<open>The record of a directory is marked as changed now.\<close>

definition touch_dirinfo :: "nat \<Rightarrow> fsrv \<Rightarrow> fsrv" where
  "touch_dirinfo di \<sigma> = dirstat_set di (\<lambda>d. d\<lparr> di_mtime := cur_time \<sigma>, lastcheck := cur_time \<sigma> \<rparr>) \<sigma>"

subsection \<open>Copying\<close>

text \<open>The loop of \<open>copy_file\<close>, which reads blocks of 1024 octets; \<open>None\<close> is also a loop that does not
  end.\<close>

partial_function (option) copy_loop :: "nat \<Rightarrow> nat \<Rightarrow> world \<Rightarrow> world option" where
  [code]: "copy_loop ft f w = do {
     (d, w1) \<leftarrow> fread w ft 1024;
     if d = [] then Some w1
     else do {
       (k, w2) \<leftarrow> fwrite w1 f d;
       if k \<noteq> length d then Some w2 else copy_loop ft f w2 } }"

definition copy_file :: "string \<Rightarrow> string \<Rightarrow> world \<Rightarrow> ((string + unit) \<times> world) option" where
  "copy_file n1 n2 w =
     (case fopen w n1 Read of
        None \<Rightarrow> Some (Inl ''Can't open temporary file'', w)
      | Some (ft, w1) \<Rightarrow>
          (case fopen w1 n2 Write of
             None \<Rightarrow> do { w2 \<leftarrow> fclose w1 ft; Some (Inl ''Can't open file for output'', w2) }
           | Some (f, w2) \<Rightarrow> do {
               w3 \<leftarrow> copy_loop ft f w2;
               e1 \<leftarrow> ferror w3 ft;
               e2 \<leftarrow> ferror w3 f;
               w4 \<leftarrow> fclose w3 ft;
               w5 \<leftarrow> fclose w4 f;
               if e1 \<or> e2 then Some (Inl ''Write error'', attempt (\<lambda>w. unlink w n2) w5)
               else Some (Inr (), w5) }))"

subsection \<open>Deleting and making\<close>

definition server_del_file :: "PPATH \<Rightarrow> nat \<Rightarrow> fsrv \<Rightarrow> unit outcome" where
  "server_del_file pp di \<sigma> =
     (case stat (os \<sigma>) (fullp pp) of
        None \<Rightarrow> fail ''unlink: file not accessible'' \<sigma>
      | Some sb \<Rightarrow>
          if \<not> S_ISREG sb then fail ''unlink: not an ordinary file'' \<sigma>
          else (case unlink (os \<sigma>) (fullp pp) of
                  None \<Rightarrow> fail ''unlink: cannot unlink'' \<sigma>
                | Some w \<Rightarrow> done_with (touch_dirinfo di (\<sigma>\<lparr> os := w \<rparr>))))"

text \<open>Saving rights in a directory: \<open>chdir\<close>, \<open>save_access_rights\<close> and back home.\<close>

definition save_rights_in :: "fsp_conf \<Rightarrow> string \<Rightarrow> DIRINFO \<Rightarrow> world \<Rightarrow> world" where
  "save_rights_in conf dir d w = go_home conf (save_access_rights conf d (chdir_to w dir))"

definition server_del_dir :: "fsp_conf \<Rightarrow> PPATH \<Rightarrow> nat \<Rightarrow> fsrv \<Rightarrow> unit outcome" where
  "server_del_dir conf pp di \<sigma> =
     (case stat (os \<sigma>) (fullp pp) of
        None \<Rightarrow> fail ''rmdir: directory not accessible'' \<sigma>
      | Some sb \<Rightarrow>
          if \<not> S_ISDIR sb then fail ''rmdir: not an ordinary directory'' \<sigma>
          else
            (let null = zero_DIRINFO\<lparr> protection := DIR_LIST OR DIR_GET \<rparr>;
                 w1 = save_rights_in conf (fullp pp) null (os \<sigma>)
             in (case rmdir w1 (fullp pp) of
                   None \<Rightarrow> fail ''rmdir: cannot unlink''
                     (\<sigma>\<lparr> os := save_rights_in conf (fullp pp) (dirstat_at \<sigma> di) w1 \<rparr>)
                 | Some w2 \<Rightarrow> done_with (dirstat_set di (\<lambda>d. d\<lparr> lastcheck := 0 \<rparr>) (\<sigma>\<lparr> os := w2 \<rparr>)))))"

definition quad_text :: "u32 \<Rightarrow> string" where
  "quad_text n = concat (map (\<lambda>i. (if i = 0 then [] else ''.'') @ dec (unat (octets n ! i))) [0, 1, 2, 3])"

definition server_make_dir :: "fsp_conf \<Rightarrow> resolver \<Rightarrow> PPATH \<Rightarrow> u32 \<Rightarrow> nat \<Rightarrow> fsrv \<Rightarrow> nat outcome" where
  "server_make_dir conf dns pp inet di \<sigma> =
     (case mkdir (os \<sigma>) (fullp pp) 511 of
        None \<Rightarrow> fail ''Can't create directory'' \<sigma>
      | Some w1 \<Rightarrow>
          (let parent = dirstat_at \<sigma> di;
               temp_p = quad_text inet @ '' O Creator'' @ [NL]
           in (case add_ipline dns temp_p [] of
                 None \<Rightarrow> None
               | Some table \<Rightarrow>
                   (let newdir = zero_DIRINFO\<lparr> protection := protection parent,
                          owner_password := owner_password parent,
                          public_password := public_password parent,
                          lastcheck := cur_time \<sigma>, di_mtime := cur_time \<sigma>, owner := table \<rparr>;
                        w2 = save_access_rights conf newdir (chdir_to w1 (fullp pp));
                        real = (case getcwd w2 NBSIZE of Some s \<Rightarrow> s | None \<Rightarrow> temp_p);
                        (p, \<sigma>') = dirstat_put (fullp pp) (newdir\<lparr> realname := real \<rparr>)
                                    (\<sigma>\<lparr> os := go_home conf w2 \<rparr>)
                    in Some (Inr p, \<sigma>')))))"

subsection \<open>Reading files and protection\<close>

definition server_get_file ::
  "fsp_conf \<Rightarrow> PPATH \<Rightarrow> u32 \<Rightarrow> u16 \<Rightarrow> nat \<Rightarrow> fsrv \<Rightarrow> nat option outcome" where
  "server_get_file conf pp inet port di \<sigma>0 =
     (let realfn = realname (dirstat_at \<sigma>0 di) @ ''/'' @ f_ptr pp in
      if length realfn \<ge> NBSIZE then None
      else (case search_fpcache conf inet port realfn \<sigma>0 of
        None \<Rightarrow> None
      | Some (Some c, \<sigma>) \<Rightarrow> Some (Inr (fp (fp_at \<sigma> c)), \<sigma>)
      | Some (None, \<sigma>) \<Rightarrow>
          (case stat (os \<sigma>) realfn of
             None \<Rightarrow> fail ''No such file'' \<sigma>
           | Some sb \<Rightarrow>
               if \<not> S_ISREG sb then
                 fail (if S_ISDIR sb then ''Is a directory'' else ''Not a regular file'') \<sigma>
               else (case fopen (os \<sigma>) (fullp pp) Read of
                       None \<Rightarrow> fail ''Can't open file'' \<sigma>
                     | Some (f, w1) \<Rightarrow> do {
                         \<sigma>' \<leftarrow> fp_put realfn \<lparr> fp = Some f, fp_inet_num = inet, fp_port_num = port \<rparr>
                                (\<sigma>\<lparr> os := w1 \<rparr>);
                         Some (Inr (Some f), \<sigma>') }))))"

text \<open>What \<open>server_get_pro\<close> writes: the readme with its zero, then the protection octet, at the
  offset it returns.\<close>

definition server_get_pro :: "DIRINFO \<Rightarrow> string \<Rightarrow> char list \<times> nat" where
  "server_get_pro di acc =
     (let text = (case readme di of None \<Rightarrow> [] | Some r \<Rightarrow> r @ [NUL]);
          flags = protection di XOR DIR_GET;
          flags' = (if first_char acc = CHR ''O'' then flags OR DIR_OWNER else flags)
      in (text @ [byte_char (ucast flags')], length text))"

definition protection_bit :: "char \<Rightarrow> u32 option" where
  "protection_bit c =
     (if c = CHR ''c'' then Some DIR_ADD
      else if c = CHR ''d'' then Some DIR_DEL
      else if c = CHR ''g'' then Some DIR_GET
      else if c = CHR ''m'' then Some DIR_MKDIR
      else if c = CHR ''l'' then Some DIR_LIST
      else if c = CHR ''r'' then Some DIR_RENAME
      else None)"

definition server_set_pro :: "fsp_conf \<Rightarrow> nat \<Rightarrow> char \<Rightarrow> char \<Rightarrow> fsrv \<Rightarrow> unit outcome" where
  "server_set_pro conf di key0 key1 \<sigma> =
     (case protection_bit key1 of
        None \<Rightarrow> fail ''Invalid syntax. <+|-> <c|d|g|m|l|r>'' \<sigma>
      | Some act \<Rightarrow>
          if key0 \<noteq> CHR ''+'' \<and> key0 \<noteq> CHR ''-'' then fail ''Invalid syntax. <+|-> <c|d|g|m|l|r>'' \<sigma>
          else
            (let \<sigma>1 = dirstat_set di (\<lambda>d. d\<lparr> protection :=
                       (if key0 = CHR ''+'' then protection d OR act else protection d AND NOT act) \<rparr>) \<sigma>;
                 \<sigma>2 = touch_dirinfo di \<sigma>1;
                 d = dirstat_at \<sigma>2 di
             in done_with (\<sigma>2\<lparr> os := save_rights_in conf (realname d) d (os \<sigma>2) \<rparr>)))"

subsection \<open>Uploading\<close>

text \<open>\<open>%08lX\<close> and \<open>%04X\<close>.\<close>

definition hex_digit :: "nat \<Rightarrow> char" where
  "hex_digit n = (if n < 10 then char_of (48 + n) else char_of (55 + n))"

fun hex :: "nat \<Rightarrow> nat \<Rightarrow> string" where
  "hex 0 n = []"
| "hex (Suc w) n = hex w (n div 16) @ [hex_digit (n mod 16)]"

text \<open>The names of temporary files; \<open>tmp_dir\<close> must be set.\<close>

definition temp_name :: "fsp_conf \<Rightarrow> char \<Rightarrow> u32 \<Rightarrow> u16 \<Rightarrow> string option" where
  "temp_name conf letter inet port =
     (case tmp_dir conf of
        None \<Rightarrow> None
      | Some t \<Rightarrow>
          (let s = t @ ''/.'' @ [letter] @ hex 8 (unat inet) @ hex 4 (unat port)
           in if length s < NBSIZE then Some s else None))"

definition upload_name :: "fsp_conf \<Rightarrow> u32 \<Rightarrow> u16 \<Rightarrow> string option" where
  "upload_name conf inet port = temp_name conf (CHR ''T'') inet port"

definition grab_name :: "fsp_conf \<Rightarrow> u32 \<Rightarrow> u16 \<Rightarrow> string option" where
  "grab_name conf inet port = temp_name conf (CHR ''G'') inet port"

definition unlink_try :: "string \<Rightarrow> world \<Rightarrow> world" where
  "unlink_try s = attempt (\<lambda>w. unlink w s)"

text \<open>\<open>remove\<close> of the C library.\<close>

definition remove_try :: "string \<Rightarrow> world \<Rightarrow> world" where
  "remove_try s w = (case unlink w s of Some w' \<Rightarrow> w' | None \<Rightarrow> attempt (\<lambda>w. rmdir w s) w)"

text \<open>Opening the temporary file of an upload: an error, a stream that now belongs to the cache, or a
  new start of the upload (\<open>Inr None\<close>).\<close>

definition open_upload ::
  "string \<Rightarrow> nat \<Rightarrow> nat \<Rightarrow> u32 \<Rightarrow> u16 \<Rightarrow> fsrv \<Rightarrow> nat option outcome" where
  "open_upload tname pos len inet port \<sigma> =
     (let w0 = os \<sigma>;
          opened = (if pos \<noteq> 0 then fopen w0 tname Update else fopen (unlink_try tname w0) tname Write);
          w0' = (if pos \<noteq> 0 then w0 else unlink_try tname w0)
      in (case opened of
            None \<Rightarrow> fail ''Cannot open temporary file'' (\<sigma>\<lparr> os := w0' \<rparr>)
          | Some (f, w1) \<Rightarrow>
              (case lstat w1 tname of
                 None \<Rightarrow> do { w2 \<leftarrow> fclose w1 f;
                            fail ''Temporary file is NOT a regular file'' (\<sigma>\<lparr> os := remove_try tname w2 \<rparr>) }
               | Some sf \<Rightarrow>
                   if \<not> S_ISREG sf then do { w2 \<leftarrow> fclose w1 f;
                     fail ''Temporary file is NOT a regular file'' (\<sigma>\<lparr> os := remove_try tname w2 \<rparr>) }
                   else if pos > st_size sf then do { w2 \<leftarrow> fclose w1 f;
                     fail ''You are creating hole in file. Restart upload.'' (\<sigma>\<lparr> os := unlink_try tname w2 \<rparr>) }
                   else if pos + len < st_size sf then do { w2 \<leftarrow> fclose w1 f;
                     let \<sigma>' = \<sigma>\<lparr> os := unlink_try tname w2 \<rparr>;
                     if pos = 0 then Some (Inr None, \<sigma>')
                     else fail ''Non continuous upload detected. Restart upload please.'' \<sigma>' }
                   else do {
                     w2 \<leftarrow> fseek w1 f pos;
                     let w3 = attempt (\<lambda>w. chmod w tname 384) w2;
                     \<sigma>' \<leftarrow> fp_put tname \<lparr> fp = Some f, fp_inet_num = inet, fp_port_num = port \<rparr> (\<sigma>\<lparr> os := w3 \<rparr>);
                     Some (Inr (Some f), \<sigma>') })))"

text \<open>Writing to the opened stream \<open>f\<close>; \<open>c\<close> is the cache slot it was found in, if it was.\<close>

definition write_upload ::
  "string \<Rightarrow> char list \<Rightarrow> nat \<Rightarrow> nat \<Rightarrow> nat option \<Rightarrow> fsrv \<Rightarrow> unit option outcome" where
  "write_upload tname data pos f c \<sigma> = do {
     at \<leftarrow> ftell (os \<sigma>) f;
     if pos > at then do {
       \<sigma>1 \<leftarrow> fp_delete c \<sigma>;
       fail ''You are creating hole in file. Restart upload.'' (\<sigma>1\<lparr> os := unlink_try tname (os \<sigma>1) \<rparr>) }
     else if pos + length data < at then do {
       \<sigma>1 \<leftarrow> fp_delete c \<sigma>;
       let \<sigma>2 = \<sigma>1\<lparr> os := unlink_try tname (os \<sigma>1) \<rparr>;
       if pos = 0 then Some (Inr None, \<sigma>2)
       else fail ''Non continuous upload detected. Restart upload please.'' \<sigma>2 }
     else do {
       w1 \<leftarrow> (if pos \<noteq> at then fseek (os \<sigma>) f pos else Some (os \<sigma>));
       (k, w2) \<leftarrow> fwrite w1 f data;
       let \<sigma>1 = \<sigma>\<lparr> os := w2 \<rparr>;
       if k \<noteq> length data then do { \<sigma>2 \<leftarrow> fp_delete c \<sigma>1; fail ''Writing to file failed'' \<sigma>2 }
       else Some (Inr (Some ()), \<sigma>1) } }"

partial_function (option) server_up_load ::
  "fsp_conf \<Rightarrow> char list \<Rightarrow> nat \<Rightarrow> u32 \<Rightarrow> u16 \<Rightarrow> fsrv \<Rightarrow> unit outcome" where
  [code]: "server_up_load conf data pos inet port \<sigma>0 =
     upload_name conf inet port \<bind> (\<lambda>tname.
       (let (c, \<sigma>) = fp_find tname \<sigma>0 in
        (case c of
           Some i \<Rightarrow> Some (Inr (fp (fp_at \<sigma> i)), \<sigma>)
         | None \<Rightarrow> open_upload tname pos (length data) inet port \<sigma>) \<bind> (\<lambda>(r, \<sigma>1).
        (case r of
           Inl e \<Rightarrow> fail e \<sigma>1
         | Inr None \<Rightarrow> (if c = None then server_up_load conf data pos inet port \<sigma>1 else None)
         | Inr (Some f) \<Rightarrow> write_upload tname data pos f c \<sigma>1 \<bind> (\<lambda>(r2, \<sigma>2).
             (case r2 of
                Inl e \<Rightarrow> fail e \<sigma>2
              | Inr None \<Rightarrow> server_up_load conf data pos inet port \<sigma>2
              | Inr (Some _) \<Rightarrow> done_with \<sigma>2))))))"

definition server_install ::
  "fsp_conf \<Rightarrow> PPATH \<Rightarrow> u32 \<Rightarrow> u16 \<Rightarrow> string \<Rightarrow> nat \<Rightarrow> char list \<Rightarrow> fsrv \<Rightarrow> unit outcome" where
  "server_install conf pp inet port acc di s2 \<sigma>0 = do {
     tname \<leftarrow> upload_name conf inet port;
     let (c, \<sigma>1) = fp_find tname \<sigma>0;
     \<sigma> \<leftarrow> fp_delete c \<sigma>1;
     if fullp pp = ''.'' then done_with (\<sigma>\<lparr> os := unlink_try tname (os \<sigma>) \<rparr>)
     else if fexist (os \<sigma>) (fullp pp) \<and> \<not> flag (protection (dirstat_at \<sigma> di)) DIR_DEL \<and> first_char acc \<noteq> CHR ''O''
     then fail ''no permission for replacing that file. Not an owner.'' (\<sigma>\<lparr> os := unlink_try tname (os \<sigma>) \<rparr>)
     else do {
       let \<sigma>2 = touch_dirinfo di \<sigma>;
       let w1 = umask (unlink_try (fullp pp) (os \<sigma>2)) (upload_umask conf);
       (r, w2) \<leftarrow> copy_file tname (fullp pp) w1;
       let w3 = umask (unlink_try tname w2) (system_umask conf);
       let w4 = (if 4 \<le> length s2
                 then attempt (\<lambda>w. utime w (fullp pp) (int (unat (BB_READ4
                        (char_byte (s2 ! 0), char_byte (s2 ! 1), char_byte (s2 ! 2), char_byte (s2 ! 3)))))) w3
                 else w3);
       Some (r, \<sigma>2\<lparr> os := w4 \<rparr>) } }"

subsection \<open>Grabbing\<close>

definition server_secure_file :: "fsp_conf \<Rightarrow> PPATH \<Rightarrow> u32 \<Rightarrow> u16 \<Rightarrow> nat \<Rightarrow> fsrv \<Rightarrow> unit outcome" where
  "server_secure_file conf pp inet port di \<sigma> =
     (case stat (os \<sigma>) (fullp pp) of
        None \<Rightarrow> fail ''grab: file not accessible'' \<sigma>
      | Some sb \<Rightarrow>
          if \<not> S_ISREG sb then fail ''grab: not an ordinary file'' \<sigma>
          else do {
            temp_p \<leftarrow> grab_name conf inet port;
            (r, w1) \<leftarrow> copy_file (fullp pp) temp_p (unlink_try temp_p (os \<sigma>));
            (case r of
               Inl e \<Rightarrow> fail e (\<sigma>\<lparr> os := w1 \<rparr>)
             | Inr _ \<Rightarrow>
                 (case unlink w1 (fullp pp) of
                    None \<Rightarrow> fail ''grab: cannot unlink original file'' (\<sigma>\<lparr> os := unlink_try temp_p w1 \<rparr>)
                  | Some w2 \<Rightarrow> done_with (touch_dirinfo di (\<sigma>\<lparr> os := w2 \<rparr>)))) })"

definition server_grab_file :: "fsp_conf \<Rightarrow> u32 \<Rightarrow> u16 \<Rightarrow> fsrv \<Rightarrow> nat option outcome" where
  "server_grab_file conf inet port \<sigma>0 = do {
     temp_p \<leftarrow> grab_name conf inet port;
     let (c, \<sigma>) = fp_find temp_p \<sigma>0;
     (case c of
        Some i \<Rightarrow> Some (Inr (fp (fp_at \<sigma> i)), \<sigma>)
      | None \<Rightarrow>
          (case stat (os \<sigma>) temp_p of
             None \<Rightarrow> fail ''grab: can't find file'' \<sigma>
           | Some sb \<Rightarrow>
               if \<not> S_ISREG sb then fail ''grab: Not a file'' \<sigma>
               else (case fopen (os \<sigma>) temp_p Read of
                       None \<Rightarrow> fail ''grab: can't open file'' \<sigma>
                     | Some (f, w1) \<Rightarrow> do {
                         \<sigma>' \<leftarrow> fp_put temp_p \<lparr> fp = Some f, fp_inet_num = inet, fp_port_num = port \<rparr>
                                (\<sigma>\<lparr> os := w1 \<rparr>);
                         Some (Inr (Some f), \<sigma>') }))) }"

definition server_grab_done :: "fsp_conf \<Rightarrow> u32 \<Rightarrow> u16 \<Rightarrow> fsrv \<Rightarrow> unit outcome" where
  "server_grab_done conf inet port \<sigma>0 = do {
     temp_p \<leftarrow> grab_name conf inet port;
     if stat (os \<sigma>0) temp_p = None then fail ''grabdone: can't find temporary file'' \<sigma>0
     else do {
       let (c, \<sigma>1) = fp_find temp_p \<sigma>0;
       \<sigma> \<leftarrow> fp_delete c \<sigma>1;
       (case unlink (os \<sigma>) temp_p of
          None \<Rightarrow> fail ''grabdone: can't delete temporary file'' \<sigma>
        | Some w \<Rightarrow> done_with (\<sigma>\<lparr> os := w \<rparr>)) } }"

subsection \<open>Status, renaming, home directory\<close>

text \<open>\<open>server_stat\<close> works on the message buffer. The status buffer it sends is not initialised when
  there is nothing to report; \<open>garbage\<close> is what its size field holds then.\<close>

definition server_stat ::
  "fsp_conf \<Rightarrow> resolver \<Rightarrow> nat \<Rightarrow> char list \<Rightarrow> nat \<Rightarrow> fsrv \<Rightarrow> (char list \<times> fsrv) option" where
  "server_stat conf dns garbage b0 len0 \<sigma> = do {
     let len = (if len0 < 2 then 1 else len0);
     let b1 = (if len0 < 2 then b0[0 := NUL] else b0);
     (b2, sb, found, \<sigma>') \<leftarrow>
       (case parse_path b1 len of
          Inl e \<Rightarrow> Some (b1, None, False, \<sigma>)
        | Inr (pp, b2) \<Rightarrow>
            (case stat (os \<sigma>) (fullp pp) of
               None \<Rightarrow> Some (b2, None, False, \<sigma>)
             | Some sb \<Rightarrow>
                 if S_ISDIR sb \<or> S_ISREG sb then do {
                   (r, b3, \<sigma>') \<leftarrow> validate_path conf dns b2 len (S_ISDIR sb) \<sigma>;
                   Some (b3, Some sb, (case r of Inl _ \<Rightarrow> False | Inr _ \<Rightarrow> True), \<sigma>') }
                 else Some (b2, Some sb, True, \<sigma>)));
     let tm = (case sb of None \<Rightarrow> 0 | Some sb \<Rightarrow> of_int (st_mtime sb));
     let size = (case sb of None \<Rightarrow> of_nat garbage | Some sb \<Rightarrow> of_nat (st_size sb));
     let rc = (if \<not> found then NUL
               else (case sb of None \<Rightarrow> NUL
                     | Some sb \<Rightarrow> if S_ISDIR sb then RDTYPE_DIR
                                 else if S_ISREG sb then RDTYPE_FILE else NUL));
     Some (memcpy b2 0 (b4_chars (BB_WRITE4 tm) @ b4_chars (BB_WRITE4 size) @ [rc]), \<sigma>') }"

text \<open>The two records are compared by address: \<open>sdir\<close> and \<open>tdir\<close> are cache slots.\<close>

definition server_rename :: "PPATH \<Rightarrow> PPATH \<Rightarrow> nat \<Rightarrow> nat \<Rightarrow> fsrv \<Rightarrow> unit outcome" where
  "server_rename src dest sdir tdir \<sigma> =
     (case stat (os \<sigma>) (fullp src) of
        None \<Rightarrow> fail ''can't find source file or directory'' \<sigma>
      | Some sb \<Rightarrow>
          if \<not> S_ISDIR sb \<and> \<not> S_ISREG sb then fail ''Refusing to operate on special files'' \<sigma>
          else if (case stat (os \<sigma>) (fullp dest) of
                     None \<Rightarrow> False | Some tb \<Rightarrow> \<not> S_ISDIR tb \<and> \<not> S_ISREG tb)
          then fail ''Refusing to operate on special files'' \<sigma>
          else if sdir = tdir then
            (case rename (os \<sigma>) (fullp src) (fullp dest) of
               None \<Rightarrow> fail ''Rename failed'' \<sigma>
             | Some w \<Rightarrow> done_with (touch_dirinfo sdir (\<sigma>\<lparr> os := w \<rparr>)))
          else fail ''Cross-directory renames are not implemented yet.'' \<sigma>)"

text \<open>\<open>init_home_dir\<close>: exit codes are \<open>Inl\<close>. 448 is octal 700.\<close>

definition init_home_dir :: "fsp_conf \<Rightarrow> world \<Rightarrow> nat + (fsp_conf \<times> world)" where
  "init_home_dir conf w =
     (case home_dir conf of
        None \<Rightarrow> Inl 6
      | Some h \<Rightarrow>
          (case chdir w h of
             None \<Rightarrow> Inl 6
           | Some w1 \<Rightarrow>
               (case getcwd w1 UBUF_SPACE of
                  None \<Rightarrow> Inl 6
                | Some real \<Rightarrow>
                    (let conf1 = conf\<lparr> home_dir := Some real \<rparr>
                     in (case tmp_dir conf of
                           None \<Rightarrow> Inr (conf1, w1)
                         | Some t \<Rightarrow>
                             (let w2 = attempt (\<lambda>w. chmod w t 448) (attempt (\<lambda>w. mkdir w t 448) w1)
                              in (case chdir w2 t of
                                    None \<Rightarrow> Inr (conf1\<lparr> tmp_dir := None, read_only := True \<rparr>, go_home conf1 w2)
                                  | Some w3 \<Rightarrow> Inr (conf1, go_home conf1 w3))))))))"

end
