(* ===== verification/Server.thy ===== *)
theory Server
  imports FileOps Session Throttle
begin

text \<open>
  The dispatcher \<open>server_process_packet\<close> of \<^verbatim>\<open>server/server.c\<close>, with one definition per
  command, and \<open>send_error\<close>, \<open>serve_file\<close> and \<open>server_show_version\<close>.

  A handler gets the message buffer, in which the request lies, and leaves the answer there: the
  lengths of the two data regions to send, or nothing. \<open>None\<close> is undefined behaviour. Logging
  (\<open>ACTIONLOG\<close> and its relatives, \<open>xferlog\<close>) is left out. The fields of \<open>request\<close> are the local
  variables of the dispatcher of the same names.
\<close>

datatype answer = Silence | Answer nat nat

type_synonym result = "(answer \<times> UBUF \<times> fsrv) option"

record request =
  rq_old :: bool
  rq_pos :: nat
  rq_l1 :: nat
  rq_l2 :: nat
  rq_inet :: u32
  rq_port :: u16

definition reply :: "nat \<Rightarrow> nat \<Rightarrow> UBUF \<Rightarrow> fsrv \<Rightarrow> result" where
  "reply len1 len2 ub \<sigma> = Some (Answer len1 len2, ub, \<sigma>)"

definition put_buf :: "UBUF \<Rightarrow> nat \<Rightarrow> char list \<Rightarrow> UBUF" where
  "put_buf ub off xs = ub\<lparr> buf := memcpy (buf ub) off xs \<rparr>"

definition send_error :: "UBUF \<Rightarrow> string \<Rightarrow> (answer \<times> UBUF) option" where
  "send_error ub msg =
     (let sz = length msg + 1 in
      if sz > UBUF_MAXSPACE then None
      else Some (Answer sz 0, (put_buf ub 0 (msg @ [NUL]))\<lparr> cmd := CC_ERR, bb_pos := BB_WRITE4 0 \<rparr>))"

definition refuse :: "string \<Rightarrow> UBUF \<Rightarrow> fsrv \<Rightarrow> result" where
  "refuse msg ub \<sigma> = map_option (\<lambda>(a, ub'). (a, ub', \<sigma>)) (send_error ub msg)"

abbreviation (input) read_only_msg :: string where
  "read_only_msg \<equiv> ''Server is running in read-only mode''"

text \<open>The macro \<open>CHECK_ACCESS_RIGHTS\<close> and what follows it, which gets the answer of
  \<open>require_access_rights\<close>.\<close>

definition check_access ::
  "fsp_conf \<Rightarrow> request \<Rightarrow> u32 \<Rightarrow> PPATH \<Rightarrow> nat \<Rightarrow> UBUF \<Rightarrow> fsrv \<Rightarrow> (string \<Rightarrow> result) \<Rightarrow> result" where
  "check_access conf rq rights pp di ub \<sigma> rest =
     (let pe = require_access_rights conf (dirstat_at \<sigma> di) rights (rq_inet rq) (passwd pp) in
      if first_char pe = CHR ''I'' then Some (Silence, ub, \<sigma>)
      else if first_char pe = CHR ''D'' then refuse (tl pe) ub \<sigma>
      else rest pe)"

text \<open>\<open>validate_path\<close> on the text at the start of the buffer, and what follows if it is accepted.\<close>

definition with_path ::
  "fsp_conf \<Rightarrow> resolver \<Rightarrow> request \<Rightarrow> bool \<Rightarrow> UBUF \<Rightarrow> fsrv \<Rightarrow> (PPATH \<Rightarrow> nat \<Rightarrow> UBUF \<Rightarrow> fsrv \<Rightarrow> result) \<Rightarrow> result" where
  "with_path conf dns rq want_directory ub \<sigma> rest =
     validate_path conf dns (buf ub) (rq_l1 rq) want_directory \<sigma> \<bind> (\<lambda>(r, b, \<sigma>').
       let ub' = ub\<lparr> buf := b \<rparr> in
       (case r of Inl e \<Rightarrow> refuse e ub' \<sigma>' | Inr (pp, di) \<Rightarrow> rest pp di ub' \<sigma>'))"

text \<open>An operation of file.c and what follows its success.\<close>

definition do_op :: "'a outcome \<Rightarrow> UBUF \<Rightarrow> ('a \<Rightarrow> fsrv \<Rightarrow> result) \<Rightarrow> result" where
  "do_op op ub rest = op \<bind> (\<lambda>(r, \<sigma>). (case r of Inl e \<Rightarrow> refuse e ub \<sigma> | Inr x \<Rightarrow> rest x \<sigma>))"

subsection \<open>Answers with content\<close>

definition serve_length :: "fsp_conf \<Rightarrow> nat \<Rightarrow> char list \<Rightarrow> nat" where
  "serve_length conf has_len lp =
     (if has_len = 2 then
        (let len = of_char (lp ! 0) * 256 + of_char (lp ! 1) in
         if len > unat (packetsize conf) then unat (packetsize conf)
         else if len = 0 then UBUF_SPACE else len)
      else if unat (packetsize conf) > UBUF_SPACE then UBUF_SPACE else unat (packetsize conf))"

definition serve_file :: "fsp_conf \<Rightarrow> UBUF \<Rightarrow> nat option \<Rightarrow> nat \<Rightarrow> char list \<Rightarrow> fsrv \<Rightarrow> result" where
  "serve_file conf ub f has_len lp \<sigma> = do {
     s \<leftarrow> f;
     let len = serve_length conf has_len lp;
     w1 \<leftarrow> fseek (os \<sigma>) s (unat (BB_READ4 (bb_pos ub)));
     (d, w2) \<leftarrow> fread w1 s len;
     if len > UBUF_MAXSPACE then None
     else reply (length d) 0 (put_buf ub 0 d) (\<sigma>\<lparr> os := w2 \<rparr>) }"

definition version_flags :: "fsp_conf \<Rightarrow> byte" where
  "version_flags conf =
     (if logging conf \<noteq> 0 then 0x01 else 0) OR (if read_only conf then 0x02 else 0) OR
     (if no_unnamed conf then 0x04 else 0) OR (if priv_mode conf then 0x08 else 0) OR
     (if maxthcallowed conf \<noteq> 0 then 0x10 else 0) OR 0x20"

text \<open>The text first goes through a buffer of \<open>UBUF_SPACE\<close> octets.\<close>

definition server_show_version :: "fsp_conf \<Rightarrow> string \<Rightarrow> UBUF \<Rightarrow> fsrv \<Rightarrow> result" where
  "server_show_version conf version ub \<sigma> =
     (let text = ''fspd '' @ version;
          xtra = byte_char (version_flags conf) #
            (if maxthcallowed conf \<noteq> 0 then b4_chars (BB_WRITE4 (of_int (maxthcallowed conf))) else []) @
            b2_chars (BB_WRITE2 (packetsize conf));
          ub1 = (put_buf ub 0 (text @ [NUL] @ xtra))\<lparr> bb_pos := BB_WRITE4 (of_nat (length xtra)) \<rparr>
      in if length text + 1 > UBUF_SPACE then None
         else reply (length text + 1) (length xtra) ub1 \<sigma>)"

text \<open>The protection answer of three commands.\<close>

definition send_protection :: "DIRINFO \<Rightarrow> string \<Rightarrow> UBUF \<Rightarrow> fsrv \<Rightarrow> result" where
  "send_protection d acc ub \<sigma> =
     (let (bytes, len) = server_get_pro d acc in
      if length bytes > UBUF_MAXSPACE then None
      else reply len PRO_BYTES ((put_buf ub 0 bytes)\<lparr> bb_pos := BB_WRITE4 (of_nat PRO_BYTES) \<rparr>) \<sigma>)"

subsection \<open>The commands\<close>

definition cmd_get_dir :: "fsp_conf \<Rightarrow> resolver \<Rightarrow> request \<Rightarrow> UBUF \<Rightarrow> fsrv \<Rightarrow> result" where
  "cmd_get_dir conf dns rq ub0 \<sigma>0 =
     with_path conf dns rq True ub0 \<sigma>0 (\<lambda>pp di ub \<sigma>.
     check_access conf rq DIR_LIST pp di ub \<sigma> (\<lambda>pe.
     do_op (server_get_dir conf (dirstat_at \<sigma> di) \<sigma>) ub (\<lambda>dl \<sigma>.
       listing (dirlist_at \<sigma> dl) \<bind> (\<lambda>data.
         if rq_pos rq \<ge> length data then reply 0 0 ub \<sigma>
         else
           (let len2 = block_size conf;
                len1 = min (length data - rq_pos rq) len2;
                ub1 = put_buf ub 0 (take len1 (drop (rq_pos rq) data))
            in if rq_pos rq mod len2 \<noteq> 0 then refuse ''Invalid directory seek offset'' ub1 \<sigma>
               else reply len1 0 ub1 \<sigma>)))))"

definition cmd_get_file :: "fsp_conf \<Rightarrow> resolver \<Rightarrow> request \<Rightarrow> UBUF \<Rightarrow> fsrv \<Rightarrow> result" where
  "cmd_get_file conf dns rq ub0 \<sigma>0 =
     with_path conf dns rq False ub0 \<sigma>0 (\<lambda>pp di ub \<sigma>.
     check_access conf rq DIR_GET pp di ub \<sigma> (\<lambda>pe.
     do_op (server_get_file conf pp (rq_inet rq) (rq_port rq) di \<sigma>) ub (\<lambda>f \<sigma>.
     serve_file conf ub f (rq_l2 rq) (drop (rq_l1 rq) (buf ub)) \<sigma>)))"

definition cmd_del_file :: "fsp_conf \<Rightarrow> resolver \<Rightarrow> request \<Rightarrow> UBUF \<Rightarrow> fsrv \<Rightarrow> result" where
  "cmd_del_file conf dns rq ub0 \<sigma>0 =
     (if read_only conf then refuse read_only_msg ub0 \<sigma>0
      else if rq_old rq then reply 0 0 ub0 \<sigma>0
      else with_path conf dns rq False ub0 \<sigma>0 (\<lambda>pp di ub \<sigma>.
           check_access conf rq DIR_DEL pp di ub \<sigma> (\<lambda>pe.
           do_op (server_del_file pp di \<sigma>) ub (\<lambda>_ \<sigma>. reply 0 0 ub \<sigma>))))"

definition cmd_del_dir :: "fsp_conf \<Rightarrow> resolver \<Rightarrow> request \<Rightarrow> UBUF \<Rightarrow> fsrv \<Rightarrow> result" where
  "cmd_del_dir conf dns rq ub0 \<sigma>0 =
     (if read_only conf then refuse read_only_msg ub0 \<sigma>0
      else if rq_old rq then reply 0 0 ub0 \<sigma>0
      else with_path conf dns rq True ub0 \<sigma>0 (\<lambda>pp di ub \<sigma>.
           check_access conf rq DIR_DEL pp di ub \<sigma> (\<lambda>pe.
           do_op (server_del_dir conf pp di \<sigma>) ub (\<lambda>_ \<sigma>. reply 0 0 ub \<sigma>))))"

definition cmd_up_load :: "fsp_conf \<Rightarrow> request \<Rightarrow> UBUF \<Rightarrow> fsrv \<Rightarrow> result" where
  "cmd_up_load conf rq ub \<sigma> =
     (if read_only conf then refuse read_only_msg ub \<sigma>
      else if rq_old rq then reply 0 0 ub \<sigma>
      else do_op (server_up_load conf (take (rq_l1 rq) (buf ub)) (rq_pos rq) (rq_inet rq) (rq_port rq) \<sigma>) ub
             (\<lambda>_ \<sigma>. reply 0 0 ub \<sigma>))"

text \<open>An empty name is not checked for the right to add; \<open>server_install\<close> then gets the null
  pointer for the access record, which it does not use.\<close>

definition cmd_install :: "fsp_conf \<Rightarrow> resolver \<Rightarrow> request \<Rightarrow> UBUF \<Rightarrow> fsrv \<Rightarrow> result" where
  "cmd_install conf dns rq ub0 \<sigma>0 =
     (if read_only conf then refuse read_only_msg ub0 \<sigma>0
      else if rq_old rq then reply 0 0 ub0 \<sigma>0
      else with_path conf dns rq False ub0 \<sigma>0 (\<lambda>pp di ub \<sigma>.
           let install = (\<lambda>pe. do_op (server_install conf pp (rq_inet rq) (rq_port rq) pe di
                 (take (rq_l2 rq) (drop (rq_l1 rq) (buf ub))) \<sigma>) ub (\<lambda>_ \<sigma>. reply 0 0 ub \<sigma>))
           in (if rq_l1 rq > 1 then check_access conf rq DIR_ADD pp di ub \<sigma> install else install [])))"

definition cmd_make_dir :: "fsp_conf \<Rightarrow> resolver \<Rightarrow> request \<Rightarrow> UBUF \<Rightarrow> fsrv \<Rightarrow> result" where
  "cmd_make_dir conf dns rq ub0 \<sigma>0 =
     (if read_only conf then refuse read_only_msg ub0 \<sigma>0
      else with_path conf dns rq False ub0 \<sigma>0 (\<lambda>pp di ub \<sigma>.
           let finish = (\<lambda>di \<sigma>. check_access conf rq 0 pp di ub \<sigma> (\<lambda>pe.
                 send_protection (dirstat_at \<sigma> di) pe ub \<sigma>))
           in (if rq_old rq then finish di \<sigma>
               else check_access conf rq DIR_MKDIR pp di ub \<sigma> (\<lambda>pe.
                    do_op (server_make_dir conf dns pp (rq_inet rq) di \<sigma>) ub finish))))"

definition cmd_get_pro :: "fsp_conf \<Rightarrow> resolver \<Rightarrow> request \<Rightarrow> UBUF \<Rightarrow> fsrv \<Rightarrow> result" where
  "cmd_get_pro conf dns rq ub0 \<sigma>0 =
     with_path conf dns rq True ub0 \<sigma>0 (\<lambda>pp di ub \<sigma>.
     check_access conf rq 0 pp di ub \<sigma> (\<lambda>pe. send_protection (dirstat_at \<sigma> di) pe ub \<sigma>))"

text \<open>The two key octets are read behind the path whether or not the client sent any.\<close>

definition cmd_set_pro :: "fsp_conf \<Rightarrow> resolver \<Rightarrow> request \<Rightarrow> UBUF \<Rightarrow> fsrv \<Rightarrow> result" where
  "cmd_set_pro conf dns rq ub0 \<sigma>0 =
     (if read_only conf then refuse read_only_msg ub0 \<sigma>0
      else with_path conf dns rq True ub0 \<sigma>0 (\<lambda>pp di ub \<sigma>.
           if rq_old rq then send_protection (dirstat_at \<sigma> di) ''O'' ub \<sigma>
           else check_access conf rq DIR_OWNER pp di ub \<sigma> (\<lambda>pe.
                if rq_l1 rq + 2 > length (buf ub) then None
                else do_op (server_set_pro conf di (buf ub ! rq_l1 rq) (buf ub ! (rq_l1 rq + 1)) \<sigma>) ub
                       (\<lambda>_ \<sigma>. send_protection (dirstat_at \<sigma> di) ''O'' ub \<sigma>))))"

definition cmd_grab_file :: "fsp_conf \<Rightarrow> resolver \<Rightarrow> request \<Rightarrow> UBUF \<Rightarrow> fsrv \<Rightarrow> result" where
  "cmd_grab_file conf dns rq ub0 \<sigma>0 =
     (if read_only conf \<or> \<not> grab_enabled conf then refuse read_only_msg ub0 \<sigma>0
      else with_path conf dns rq False ub0 \<sigma>0 (\<lambda>pp di ub \<sigma>.
           check_access conf rq DIR_DEL pp di ub \<sigma> (\<lambda>pe.
           let grab = (\<lambda>\<sigma>. do_op (server_grab_file conf (rq_inet rq) (rq_port rq) \<sigma>) ub (\<lambda>f \<sigma>. do {
                 (a, ub', \<sigma>') \<leftarrow> serve_file conf ub f (rq_l2 rq) (drop (rq_l1 rq) (buf ub)) \<sigma>;
                 s \<leftarrow> f;
                 w \<leftarrow> fclose (os \<sigma>') s;
                 Some (a, ub', \<sigma>'\<lparr> os := w \<rparr>) }))
           in (if \<not> rq_old rq \<and> rq_pos rq = 0
               then do_op (server_secure_file conf pp (rq_inet rq) (rq_port rq) di \<sigma>) ub (\<lambda>_. grab)
               else grab \<sigma>))))"

definition cmd_grab_done :: "fsp_conf \<Rightarrow> resolver \<Rightarrow> request \<Rightarrow> UBUF \<Rightarrow> fsrv \<Rightarrow> result" where
  "cmd_grab_done conf dns rq ub0 \<sigma>0 =
     (if read_only conf \<or> \<not> grab_enabled conf then refuse read_only_msg ub0 \<sigma>0
      else if rq_old rq then reply 0 0 ub0 \<sigma>0
      else with_path conf dns rq False ub0 \<sigma>0 (\<lambda>pp di ub \<sigma>.
           check_access conf rq DIR_DEL pp di ub \<sigma> (\<lambda>pe.
           do_op (server_grab_done conf (rq_inet rq) (rq_port rq) \<sigma>) ub (\<lambda>_ \<sigma>. reply 0 0 ub \<sigma>))))"

definition cmd_stat :: "fsp_conf \<Rightarrow> resolver \<Rightarrow> nat \<Rightarrow> UBUF \<Rightarrow> fsrv \<Rightarrow> result" where
  "cmd_stat conf dns garbage ub \<sigma> = do {
     (b, \<sigma>') \<leftarrow> server_stat conf dns garbage (buf ub) (unat (BB_READ2 (bb_len ub))) \<sigma>;
     reply 9 0 (ub\<lparr> buf := b \<rparr>) \<sigma>' }"

text \<open>The target of a renaming lies behind the source. With no octets there, the test of its last octet
  reads four gigabytes beyond it.\<close>

definition rename_target ::
  "fsp_conf \<Rightarrow> resolver \<Rightarrow> request \<Rightarrow> UBUF \<Rightarrow> fsrv \<Rightarrow> ((string + (PPATH \<times> nat \<times> bool)) \<times> UBUF \<times> fsrv) option" where
  "rename_target conf dns rq ub \<sigma> =
     (let s2 = drop (rq_l1 rq) (buf ub) in
      if rq_l2 rq = 0 \<or> rq_l2 rq > length s2 then None
      else if s2 ! (rq_l2 rq - 1) \<noteq> NUL then Some (Inl ''Target path is not zero terminated'', ub, \<sigma>)
      else
        (let target = stat (os \<sigma>) (cstr s2);
             isdir = (case target of None \<Rightarrow> False | Some sb \<Rightarrow> S_ISDIR sb);
             isfile = (case target of None \<Rightarrow> False | Some sb \<Rightarrow> \<not> S_ISDIR sb \<and> S_ISREG sb)
         in if target \<noteq> None \<and> \<not> isdir \<and> \<not> isfile
            then Some (Inl ''Refusing to operate on special files'', ub, \<sigma>)
            else do {
              (r, b, \<sigma>') \<leftarrow> validate_path conf dns s2 (rq_l2 rq) isdir \<sigma>;
              Some (map_sum id (\<lambda>(pp, di). (pp, di, isfile)) r,
                    ub\<lparr> buf := take (rq_l1 rq) (buf ub) @ b \<rparr>, \<sigma>') }))"

definition cmd_rename :: "fsp_conf \<Rightarrow> resolver \<Rightarrow> request \<Rightarrow> UBUF \<Rightarrow> fsrv \<Rightarrow> result" where
  "cmd_rename conf dns rq ub0 \<sigma>0 =
     (let finish = (\<lambda>ub \<sigma>. reply 0 0 (ub\<lparr> bb_pos := (0, 0, 0, 0) \<rparr>) \<sigma>) in
      if read_only conf then refuse read_only_msg ub0 \<sigma>0
      else if rq_old rq then finish ub0 \<sigma>0
      else with_path conf dns rq False ub0 \<sigma>0 (\<lambda>srcpath srcdir ub1 \<sigma>1.
           check_access conf rq DIR_RENAME srcpath srcdir ub1 \<sigma>1 (\<lambda>_.
           rename_target conf dns rq ub1 \<sigma>1 \<bind> (\<lambda>(r, ub, \<sigma>).
             (case r of
                Inl e \<Rightarrow> refuse e ub \<sigma>
              | Inr (pp, di, isfile) \<Rightarrow>
                  (if isfile \<and> \<not> granted (require_access_rights conf (dirstat_at \<sigma> di) DIR_DEL (rq_inet rq) (passwd pp))
                   then refuse ''No permission for overwriting files'' ub \<sigma>
                   else do_op (server_rename srcpath pp srcdir di \<sigma>) ub (\<lambda>_. finish ub)))))))"

definition unsupported_msg :: string where
  "unsupported_msg = ''Unsupported command - this server only supports version 2.8.1 or below of the FSP protocol''"

subsection \<open>The dispatcher\<close>

definition server_process_packet ::
  "fsp_conf \<Rightarrow> resolver \<Rightarrow> string \<Rightarrow> nat \<Rightarrow> u16 \<Rightarrow> nat \<Rightarrow> UBUF \<Rightarrow> bool \<Rightarrow> HTAB \<Rightarrow> u16 \<Rightarrow> fsrv
    \<Rightarrow> (answer \<times> UBUF \<times> fsrv \<times> HTAB) option" where
  "server_process_packet conf dns version garbage newkey bytes ub0 old hp0 sin_port \<sigma> =
     (let len1 = unat (BB_READ2 (bb_len ub0));
          hp = next_keys old newkey hp0;
          rq = \<lparr> rq_old = old, rq_pos = unat (BB_READ4 (bb_pos ub0)), rq_l1 = len1,
                 rq_l2 = bytes - len1 - UBUF_HSIZE, rq_inet = inet_num hp, rq_port = sin_port \<rparr>;
          ub = ub0\<lparr> bb_key := BB_WRITE2 (next_key hp) \<rparr>;
          c = cmd ub;
          r = (if c = CC_VERSION then
                 (if \<not> ver_enabled conf then Some (Silence, ub, \<sigma>) else server_show_version conf version ub \<sigma>)
               else if c = CC_BYE then reply 0 0 ub \<sigma>
               else if c = CC_GET_DIR then cmd_get_dir conf dns rq ub \<sigma>
               else if c = CC_GET_FILE then cmd_get_file conf dns rq ub \<sigma>
               else if c = CC_DEL_FILE then cmd_del_file conf dns rq ub \<sigma>
               else if c = CC_DEL_DIR then cmd_del_dir conf dns rq ub \<sigma>
               else if c = CC_UP_LOAD then cmd_up_load conf rq ub \<sigma>
               else if c = CC_INSTALL then cmd_install conf dns rq ub \<sigma>
               else if c = CC_MAKE_DIR then cmd_make_dir conf dns rq ub \<sigma>
               else if c = CC_GET_PRO then cmd_get_pro conf dns rq ub \<sigma>
               else if c = CC_SET_PRO then cmd_set_pro conf dns rq ub \<sigma>
               else if c = CC_GRAB_FILE then cmd_grab_file conf dns rq ub \<sigma>
               else if c = CC_GRAB_DONE then cmd_grab_done conf dns rq ub \<sigma>
               else if c = CC_STAT then cmd_stat conf dns garbage ub \<sigma>
               else if c = CC_RENAME then cmd_rename conf dns rq ub \<sigma>
               else if c > CC_LIMIT then refuse unsupported_msg ub \<sigma>
               else refuse ''Unknown FSP command'' ub \<sigma>)
      in map_option (\<lambda>(a, ub', \<sigma>'). (a, ub', \<sigma>', if c = CC_BYE then hp\<lparr> active := False \<rparr> else hp)) r)"

end
