(* ===== verification/DemoSite.thy ===== *)
theory DemoSite
  imports Server
begin

text \<open>
  A small site for examples: the directory \<open>/f\<close>, from which files may be deleted, with one file;
  a server with small caches and home directory \<open>/f\<close>; a client, and a message that names the file.
\<close>

definition demo_site :: world where
  "demo_site = \<lparr> entries = [([], 0), ([''f''], 1), ([''f'', ''.FSP_OK_DEL''], 2), ([''f'', ''a.txt''], 3), ([''t''], 1)],
     inodes = (\<lambda>n. if n < 2 then \<lparr> kind = Directory, mtime = 5, mode = 493 \<rparr>
                   else if n = 2 then \<lparr> kind = Regular [], mtime = 5, mode = 420 \<rparr>
                   else \<lparr> kind = Regular ''hello'', mtime = 6, mode = 420 \<rparr>),
     next_ino = 4, streams = [], next_stream = 1, cwd = [''f''], cur_umask = 63, clock = 100, room = 1000 \<rparr>"

definition site_conf :: fsp_conf where
  "site_conf = default_conf\<lparr> home_dir := Some ''/f'', readme_file := Some ''.README'', tmp_dir := Some ''/t'',
     dir_cache_limit := 2, fp_cache_limit := 2, stat_cache_limit := 2 \<rparr>"

definition site_server :: fsrv where
  "site_server = (case init_caches site_conf demo_site of Some \<sigma> \<Rightarrow> \<sigma>\<lparr> cur_time := 100 \<rparr>
     | None \<Rightarrow> \<lparr> os = demo_site, dirlistcache = undefined, dirstatcache = undefined, fpcache = undefined, cur_time = 0 \<rparr>)"

definition site_client :: HTAB where
  "site_client = hzero\<lparr> inet_num := 5 \<rparr>"

definition site_msg :: "byte \<Rightarrow> UBUF" where
  "site_msg c = \<lparr> cmd = c, ub_sum = 0, bb_key = (0, 0), bb_seq = (0, 0), bb_len = (0, 6), bb_pos = (0, 0, 0, 0),
     buf = ''a.txt'' @ replicate 35 NUL \<rparr>"

definition run_site :: "byte \<Rightarrow> (answer \<times> UBUF \<times> fsrv \<times> HTAB) option" where
  "run_site c = server_process_packet site_conf (\<lambda>_. None) ''2.8'' 0 7 18 (site_msg c) False site_client 9 site_server"

end
