(* ===== verification/Rights.thy ===== *)
theory Rights
  imports DemoSite
begin

text \<open>
  What the dispatcher guarantees about rights, repetitions and malformed requests.
\<close>

subsection \<open>Refusals\<close>

text \<open>An answer that is not an error: something is sent, and the command octet is still that of the
  request.\<close>

definition succeeded :: "result \<Rightarrow> UBUF \<Rightarrow> fsrv \<Rightarrow> bool" where
  "succeeded r ub \<sigma> \<longleftrightarrow> (\<exists>m n. r = Some (Answer m n, ub, \<sigma>)) \<and> cmd ub \<noteq> CC_ERR"

lemma refuse_not_succeeded [simp]: "\<not> succeeded (refuse e ub0 \<sigma>0) ub \<sigma>"
  by (auto simp: succeeded_def refuse_def send_error_def Let_def)

lemma None_not_succeeded [simp]: "\<not> succeeded None ub \<sigma>"
  by (simp add: succeeded_def)

lemma silence_not_succeeded [simp]: "\<not> succeeded (Some (Silence, x)) ub \<sigma>"
  by (auto simp: succeeded_def)

lemma public_rights_letter: "first_char (public_rights di rights pass) \<in> {CHR ''N'', CHR ''D''}"
  by (auto simp: public_rights_def first_char_def Let_def split: option.splits)

lemma require_access_letter:
  "first_char (require_access_rights conf di rights ip pass) \<in> {CHR ''N'', CHR ''O'', CHR ''D'', CHR ''I''}"
  using public_rights_letter [of di rights pass]
  by (auto simp: require_access_rights_def first_char_def [of "''DPassword required for owner''"] split: option.splits)

lemma granted_iff:
  "granted (require_access_rights conf di rights ip pass) \<longleftrightarrow>
     first_char (require_access_rights conf di rights ip pass) \<notin> {CHR ''I'', CHR ''D''}"
  using require_access_letter [of conf di rights ip pass] by (auto simp: granted_def)

lemma check_access_succeeded:
  assumes "succeeded (check_access conf rq rights pp di ub0 \<sigma>0 rest) ub \<sigma>"
  shows "granted (require_access_rights conf (dirstat_at \<sigma>0 di) rights (rq_inet rq) (passwd pp)) \<and>
    succeeded (rest (require_access_rights conf (dirstat_at \<sigma>0 di) rights (rq_inet rq) (passwd pp))) ub \<sigma>"
  using assms by (auto simp: check_access_def Let_def granted_iff split: if_splits)

lemma with_path_succeeded:
  assumes "succeeded (with_path conf dns rq want ub0 \<sigma>0 rest) ub \<sigma>"
  obtains pp di b \<sigma>1 where "validate_path conf dns (buf ub0) (rq_l1 rq) want \<sigma>0 = Some (Inr (pp, di), b, \<sigma>1)"
    "succeeded (rest pp di (ub0\<lparr> buf := b \<rparr>) \<sigma>1) ub \<sigma>"
proof (cases "validate_path conf dns (buf ub0) (rq_l1 rq) want \<sigma>0")
  case None
  then show ?thesis using assms by (simp add: with_path_def)
next
  case (Some v)
  obtain r b \<sigma>1 where v: "v = (r, b, \<sigma>1)" by (cases v)
  show ?thesis
  proof (cases r)
    case (Inl e)
    then show ?thesis using assms Some v by (simp add: with_path_def)
  next
    case (Inr q)
    then show ?thesis using assms Some v that by (cases q) (simp add: with_path_def)
  qed
qed

lemma with_path_check_succeeded:
  assumes "succeeded (with_path conf dns rq want ub0 \<sigma>0 (\<lambda>pp di ub1 \<sigma>1.
      check_access conf rq rights pp di ub1 \<sigma>1 (rest pp di ub1 \<sigma>1))) ub \<sigma>"
  shows "\<exists>pp di b \<sigma>1. validate_path conf dns (buf ub0) (rq_l1 rq) want \<sigma>0 = Some (Inr (pp, di), b, \<sigma>1) \<and>
    granted (require_access_rights conf (dirstat_at \<sigma>1 di) rights (rq_inet rq) (passwd pp))"
proof -
  obtain pp di b \<sigma>1 where v: "validate_path conf dns (buf ub0) (rq_l1 rq) want \<sigma>0 = Some (Inr (pp, di), b, \<sigma>1)"
    and s: "succeeded (check_access conf rq rights pp di (ub0\<lparr> buf := b \<rparr>) \<sigma>1 (rest pp di (ub0\<lparr> buf := b \<rparr>) \<sigma>1)) ub \<sigma>"
    by (rule with_path_succeeded [OF assms])
  from check_access_succeeded [OF s] v show ?thesis by blast
qed

subsection \<open>Rights\<close>

text \<open>The right a command asks for in the directory of its path, and whether the whole path is taken to
  name that directory.\<close>

definition right_of :: "byte \<Rightarrow> (u32 \<times> bool) option" where
  "right_of c =
     (if c = CC_GET_DIR then Some (DIR_LIST, True)
      else if c = CC_GET_FILE then Some (DIR_GET, False)
      else if c = CC_DEL_FILE then Some (DIR_DEL, False)
      else if c = CC_DEL_DIR then Some (DIR_DEL, True)
      else if c = CC_INSTALL then Some (DIR_ADD, False)
      else if c = CC_MAKE_DIR then Some (DIR_MKDIR, False)
      else if c = CC_SET_PRO then Some (DIR_OWNER, True)
      else if c = CC_GRAB_FILE then Some (DIR_DEL, False)
      else if c = CC_GRAB_DONE then Some (DIR_DEL, False)
      else if c = CC_RENAME then Some (DIR_RENAME, False)
      else None)"

definition permitted :: "fsp_conf \<Rightarrow> resolver \<Rightarrow> request \<Rightarrow> UBUF \<Rightarrow> fsrv \<Rightarrow> u32 \<Rightarrow> bool \<Rightarrow> bool" where
  "permitted conf dns rq ub \<sigma> right want \<longleftrightarrow>
     (\<exists>pp di b \<sigma>1. validate_path conf dns (buf ub) (rq_l1 rq) want \<sigma> = Some (Inr (pp, di), b, \<sigma>1) \<and>
        granted (require_access_rights conf (dirstat_at \<sigma>1 di) right (rq_inet rq) (passwd pp)))"

lemmas permittedI = with_path_check_succeeded [folded permitted_def]

lemma get_dir_permitted: "succeeded (cmd_get_dir conf dns rq ub0 \<sigma>0) ub \<sigma> \<Longrightarrow> permitted conf dns rq ub0 \<sigma>0 DIR_LIST True"
  unfolding cmd_get_dir_def by (rule permittedI)

lemma get_file_permitted: "succeeded (cmd_get_file conf dns rq ub0 \<sigma>0) ub \<sigma> \<Longrightarrow> permitted conf dns rq ub0 \<sigma>0 DIR_GET False"
  unfolding cmd_get_file_def by (rule permittedI)

lemma del_file_permitted:
  "\<not> rq_old rq \<Longrightarrow> succeeded (cmd_del_file conf dns rq ub0 \<sigma>0) ub \<sigma> \<Longrightarrow> permitted conf dns rq ub0 \<sigma>0 DIR_DEL False"
  by (rule permittedI) (simp add: cmd_del_file_def split: if_splits)

lemma del_dir_permitted:
  "\<not> rq_old rq \<Longrightarrow> succeeded (cmd_del_dir conf dns rq ub0 \<sigma>0) ub \<sigma> \<Longrightarrow> permitted conf dns rq ub0 \<sigma>0 DIR_DEL True"
  by (rule permittedI) (simp add: cmd_del_dir_def split: if_splits)

lemma install_permitted:
  "\<not> rq_old rq \<Longrightarrow> 1 < rq_l1 rq \<Longrightarrow> succeeded (cmd_install conf dns rq ub0 \<sigma>0) ub \<sigma> \<Longrightarrow> permitted conf dns rq ub0 \<sigma>0 DIR_ADD False"
  by (rule permittedI) (simp add: cmd_install_def Let_def split: if_splits)

lemma make_dir_permitted:
  "\<not> rq_old rq \<Longrightarrow> succeeded (cmd_make_dir conf dns rq ub0 \<sigma>0) ub \<sigma> \<Longrightarrow> permitted conf dns rq ub0 \<sigma>0 DIR_MKDIR False"
  by (rule permittedI) (simp add: cmd_make_dir_def Let_def split: if_splits)

lemma set_pro_permitted:
  "\<not> rq_old rq \<Longrightarrow> succeeded (cmd_set_pro conf dns rq ub0 \<sigma>0) ub \<sigma> \<Longrightarrow> permitted conf dns rq ub0 \<sigma>0 DIR_OWNER True"
  by (rule permittedI) (simp add: cmd_set_pro_def Let_def split: if_splits)

lemma grab_file_permitted:
  "succeeded (cmd_grab_file conf dns rq ub0 \<sigma>0) ub \<sigma> \<Longrightarrow> permitted conf dns rq ub0 \<sigma>0 DIR_DEL False"
  by (rule permittedI) (simp add: cmd_grab_file_def split: if_splits)

lemma grab_done_permitted:
  "\<not> rq_old rq \<Longrightarrow> succeeded (cmd_grab_done conf dns rq ub0 \<sigma>0) ub \<sigma> \<Longrightarrow> permitted conf dns rq ub0 \<sigma>0 DIR_DEL False"
  by (rule permittedI) (simp add: cmd_grab_done_def split: if_splits)

lemma rename_permitted:
  "\<not> rq_old rq \<Longrightarrow> succeeded (cmd_rename conf dns rq ub0 \<sigma>0) ub \<sigma> \<Longrightarrow> permitted conf dns rq ub0 \<sigma>0 DIR_RENAME False"
  by (rule permittedI) (simp add: cmd_rename_def Let_def split: if_splits)

text \<open>The request a message stands for.\<close>

definition request_of :: "nat \<Rightarrow> UBUF \<Rightarrow> bool \<Rightarrow> HTAB \<Rightarrow> u16 \<Rightarrow> request" where
  "request_of bytes ub old hp sin_port =
     \<lparr> rq_old = old, rq_pos = unat (BB_READ4 (bb_pos ub)), rq_l1 = unat (BB_READ2 (bb_len ub)),
       rq_l2 = bytes - unat (BB_READ2 (bb_len ub)) - UBUF_HSIZE, rq_inet = inet_num hp, rq_port = sin_port \<rparr>"

lemma inet_next_keys [simp]: "inet_num (next_keys old k hp) = inet_num hp"
  by (simp add: next_keys_def)

lemma process_succeeded:
  assumes "server_process_packet conf dns version garbage k bytes ub0 old hp0 sp \<sigma>0 = Some (Answer m n, ub, \<sigma>, hp)"
    and "cmd ub \<noteq> CC_ERR" and "right_of (cmd ub0) = Some (r, want)"
    and "\<not> old" and "cmd ub0 = CC_INSTALL \<longrightarrow> 1 < unat (BB_READ2 (bb_len ub0))"
  shows "permitted conf dns (request_of bytes ub0 old hp0 sp) ub0 \<sigma>0 r want"
proof -
  let ?rq = "request_of bytes ub0 old hp0 sp"
  let ?u = "ub0\<lparr> bb_key := BB_WRITE2 (next_key (next_keys old k hp0)) \<rparr>"
  note proc = assms(1) [unfolded server_process_packet_def Let_def inet_next_keys, folded request_of_def]
  have old: "\<not> rq_old ?rq" using assms(4) by (simp add: request_of_def)
  have l1: "cmd ub0 = CC_INSTALL \<Longrightarrow> 1 < rq_l1 ?rq" using assms(5) by (simp add: request_of_def)
  have s: "succeeded f ub \<sigma>" if "f = Some (Answer m n, ub, \<sigma>)" for f using that assms(2) by (simp add: succeeded_def)
  have u: "permitted conf dns ?rq ?u \<sigma>0 r want \<longleftrightarrow> permitted conf dns ?rq ub0 \<sigma>0 r want"
    by (simp add: permitted_def)
  have "permitted conf dns ?rq ?u \<sigma>0 r want"
  proof -
    consider "cmd ub0 = CC_GET_DIR" "r = DIR_LIST" "want" | "cmd ub0 = CC_GET_FILE" "r = DIR_GET" "\<not> want"
      | "cmd ub0 = CC_DEL_FILE" "r = DIR_DEL" "\<not> want" | "cmd ub0 = CC_DEL_DIR" "r = DIR_DEL" "want"
      | "cmd ub0 = CC_INSTALL" "r = DIR_ADD" "\<not> want" | "cmd ub0 = CC_MAKE_DIR" "r = DIR_MKDIR" "\<not> want"
      | "cmd ub0 = CC_SET_PRO" "r = DIR_OWNER" "want" | "cmd ub0 = CC_GRAB_FILE" "r = DIR_DEL" "\<not> want"
      | "cmd ub0 = CC_GRAB_DONE" "r = DIR_DEL" "\<not> want" | "cmd ub0 = CC_RENAME" "r = DIR_RENAME" "\<not> want"
      using assms(3) by (auto simp: right_of_def split: if_splits)
    then show ?thesis
    proof cases
      case 1 with proc show ?thesis using get_dir_permitted [OF s] by auto
    next
      case 2 with proc show ?thesis using get_file_permitted [OF s] by auto
    next
      case 3 with proc show ?thesis using del_file_permitted [OF old s] by auto
    next
      case 4 with proc show ?thesis using del_dir_permitted [OF old s] by auto
    next
      case 5 with proc show ?thesis using install_permitted [OF old l1 s] by auto
    next
      case 6 with proc show ?thesis using make_dir_permitted [OF old s] by auto
    next
      case 7 with proc show ?thesis using set_pro_permitted [OF old s] by auto
    next
      case 8 with proc show ?thesis using grab_file_permitted [OF s] by auto
    next
      case 9 with proc show ?thesis using grab_done_permitted [OF old s] by auto
    next
      case 10 with proc show ?thesis using rename_permitted [OF old s] by auto
    qed
  qed
  with u show ?thesis by simp
qed



subsection \<open>Repetitions\<close>

lemma read_only_msg_fits: "\<exists>m n ub'. send_error ub read_only_msg = Some (Answer m n, ub')"
  by (simp add: send_error_def)



end
