(* ===== verification/Conf.thy ===== *)
theory Conf
  imports ServerConf IpRange Posix
begin

text \<open>
  The configuration file: \<open>read_configuration\<close>, \<open>load_configuration\<close> and \<open>destroy_configuration\<close> of
  \<^verbatim>\<open>server/conf.c\<close>, and \<open>check_required_vars\<close> of \<^verbatim>\<open>server/main.c\<close>.

  The global variables are \<^typ>\<open>fsp_conf\<close>, the host rules \<open>iptab\<close> and \<open>conf_read\<close>. Leaving the
  program is \<open>Inl\<close> with the exit code; \<open>None\<close> is undefined behaviour. Diagnostics are left out.
\<close>

record settings =
  conf :: fsp_conf
  iptab :: "IPrange list"
  conf_read :: bool

definition tolower :: "char \<Rightarrow> char" where
  "tolower c = (if 65 \<le> (of_char c :: nat) \<and> (of_char c :: nat) \<le> 90 then char_of ((of_char c :: nat) + 32) else c)"

definition same_word :: "string \<Rightarrow> string \<Rightarrow> bool" where
  "same_word a b \<longleftrightarrow> map tolower a = map tolower b"

text \<open>\<open>strtol\<close>: white space, a sign, digits below the base; it stops at the limits of \<open>long\<close>.\<close>

fun digits_value :: "nat \<Rightarrow> int \<Rightarrow> string \<Rightarrow> int" where
  "digits_value base acc [] = acc"
| "digits_value base acc (c # cs) =
     (if isdigit c \<and> of_char c - 48 < base
      then digits_value base (int base * acc + (of_char c - 48)) cs else acc)"

definition strtol :: "nat \<Rightarrow> string \<Rightarrow> int" where
  "strtol base s0 =
     (let s = dropWhile isspace s0;
          neg = (s \<noteq> [] \<and> hd s = CHR ''-'');
          v = digits_value base 0 (if s \<noteq> [] \<and> (hd s = CHR ''-'' \<or> hd s = CHR ''+'') then tl s else s)
      in max (- (2 ^ 63)) (min (2 ^ 63 - 1) (if neg then - v else v)))"

definition atoi :: "string \<Rightarrow> int" where
  "atoi s = sint (of_int (strtol 10 s) :: u32)"

definition unsigned_int :: "int \<Rightarrow> nat" where
  "unsigned_int n = unat (of_int n :: u32)"

definition get_boolean :: "string \<Rightarrow> bool option" where
  "get_boolean q =
     (if q = ''0'' \<or> same_word q ''no'' \<or> same_word q ''off'' then Some False
      else if same_word q ''on'' \<or> same_word q ''yes'' \<or> q = ''1'' then Some True
      else None)"

abbreviation (input) L_ALL :: nat where "L_ALL \<equiv> 0xffff"

definition log_set :: "nat \<Rightarrow> bool \<Rightarrow> nat \<Rightarrow> nat" where
  "log_set flag neg lg = (if neg then lg - (lg AND flag) else lg OR flag)"

definition log_flags :: "(string \<times> nat list) list" where
  "log_flags = [(''transfers'', [0x0008, 0x0020]), (''version'', [0x0002]), (''errors'', [0x0001]),
     (''getdir'', [0x0004]), (''getfile'', [0x0008]), (''upload'', [0x0010]), (''install'', [0x0020]),
     (''delfile'', [0x0040]), (''deldir'', [0x0080]), (''setpro'', [0x0100]), (''getpro'', [0x0800]),
     (''makedir'', [0x0200]), (''grabfile'', [0x0400]), (''readonly'', [0x1000]), (''stat'', [0x2000]),
     (''rename'', [0x4000])]"

definition log_word :: "string \<Rightarrow> nat \<Rightarrow> nat" where
  "log_word q lg =
     (let neg = (q \<noteq> [] \<and> hd q = CHR ''!''); w = (if neg then tl q else q)
      in (case filter (\<lambda>e. same_word w (fst e)) log_flags of
            [] \<Rightarrow> lg | e # _ \<Rightarrow> fold (\<lambda>f. log_set f neg) (snd e) lg))"

function log_words :: "string \<Rightarrow> nat \<Rightarrow> nat" where
  "log_words q lg =
     (let w = takeWhile (\<lambda>c. \<not> isspace c) q;
          r = dropWhile isspace (dropWhile (\<lambda>c. \<not> isspace c) q)
      in if same_word w ''none'' then 0
         else (let lg' = (if same_word w ''all'' then L_ALL else log_word w lg)
               in if r = [] then lg' else log_words r lg'))"
  by pat_completeness auto
termination
proof (relation "measure (length \<circ> fst)")
  fix q w r :: string and lg lg' :: nat
  assume r: "r = dropWhile isspace (dropWhile (\<lambda>c. \<not> isspace c) q)" "r \<noteq> []"
  define t where "t = dropWhile (\<lambda>c. \<not> isspace c) q"
  have r': "r = dropWhile isspace t" using r(1) by (simp add: t_def)
  with r(2) obtain x xs where t: "t = x # xs" by (cases t) auto
  then have "isspace x" using hd_dropWhile [of "\<lambda>c. \<not> isspace c" q] by (simp add: t_def)
  then have "length r < length t" using length_dropWhile_le [of isspace xs] by (simp add: r' t)
  also have "length t \<le> length q" unfolding t_def by (rule length_dropWhile_le)
  finally show "((r, lg'), q, lg) \<in> measure (length \<circ> fst)" by simp
qed simp

declare log_words.simps [simp del]

subsection \<open>One line\<close>

datatype step = Next settings | Include string settings | Exit nat

definition set_conf :: "(fsp_conf \<Rightarrow> fsp_conf) \<Rightarrow> settings \<Rightarrow> step option" where
  "set_conf f st = Some (Next (st\<lparr> conf := f (conf st) \<rparr>))"

definition set_flag :: "(bool \<Rightarrow> fsp_conf \<Rightarrow> fsp_conf) \<Rightarrow> string \<Rightarrow> settings \<Rightarrow> step option" where
  "set_flag f q st = (case get_boolean q of None \<Rightarrow> Some (Exit 1) | Some b \<Rightarrow> set_conf (f b) st)"

definition text_setting :: "string \<Rightarrow> string \<Rightarrow> settings \<Rightarrow> step option" where
  "text_setting p q st =
     (if same_word p ''readme'' then set_conf (\<lambda>c. c\<lparr> readme_file := Some q \<rparr>) st
      else if same_word p ''ListenAddress'' then set_conf (\<lambda>c. c\<lparr> listen_on := Some q \<rparr>) st
      else if same_word p ''homedir'' then set_conf (\<lambda>c. c\<lparr> home_dir := Some q \<rparr>) st
      else if same_word p ''tmpdir'' then set_conf (\<lambda>c. c\<lparr> tmp_dir := Some q \<rparr>) st
      else if same_word p ''logfile'' then set_conf (\<lambda>c. c\<lparr> logname := Some q \<rparr>) st
      else if same_word p ''xferlog'' then set_conf (\<lambda>c. c\<lparr> tlogname := Some q \<rparr>) st
      else if same_word p ''pidlogname'' then set_conf (\<lambda>c. c\<lparr> pidlogname := Some q \<rparr>) st
      else if same_word p ''dumpfile'' then set_conf (\<lambda>c. c\<lparr> dumpname := Some q \<rparr>) st
      else None)"

definition number_setting :: "string \<Rightarrow> string \<Rightarrow> settings \<Rightarrow> step option" where
  "number_setting p q st =
     (let n = atoi q; m = (if same_word q ''off'' then 0 else n) in
      if same_word p ''port'' then set_conf (\<lambda>c. c\<lparr> udp_port := of_int n \<rparr>) st
      else if same_word p ''packetsize'' then set_conf (\<lambda>c. c\<lparr> packetsize := of_int n \<rparr>) st
      else if same_word p ''filecache'' then set_conf (\<lambda>c. c\<lparr> fp_cache_limit := (if n < 10 then 10 else n) \<rparr>) st
      else if same_word p ''dircache'' then set_conf (\<lambda>c. c\<lparr> dir_cache_limit := (if n < 16 then 100 else n) \<rparr>) st
      else if same_word p ''statcache'' then set_conf (\<lambda>c. c\<lparr> stat_cache_limit := (if n < 10 then 30 else n) \<rparr>) st
      else if same_word p ''retry'' then set_conf (\<lambda>c. c\<lparr> retry_timeout := (if n < 1 then 3 else n) \<rparr>) st
      else if same_word p ''timeout'' then set_conf (\<lambda>c. c\<lparr> session_timeout := (if n < 7 then 60 else n) \<rparr>) st
      else if same_word p ''statcache_timeout'' then
        set_conf (\<lambda>c. c\<lparr> session_timeout := n,
                         stat_cache_timeout := (if stat_cache_timeout c \<le> 0 then 20 else stat_cache_timeout c) \<rparr>) st
      else if same_word p ''thruput'' then set_conf (\<lambda>c. c\<lparr> maxthcallowed := m \<rparr>) st
      else if same_word p ''setuid'' then set_conf (\<lambda>c. c\<lparr> run_uid := int (unsigned_int m) \<rparr>) st
      else if same_word p ''setgid'' then set_conf (\<lambda>c. c\<lparr> run_gid := int (unsigned_int m) \<rparr>) st
      else if same_word p ''umask'' then set_conf (\<lambda>c. c\<lparr> upload_umask := unsigned_int (strtol 8 q) \<rparr>) st
      else if same_word p ''serverumask'' then set_conf (\<lambda>c. c\<lparr> system_umask := unsigned_int (strtol 8 q) \<rparr>) st
      else None)"

definition flag_setting :: "string \<Rightarrow> string \<Rightarrow> settings \<Rightarrow> step option" where
  "flag_setting p q st =
     (if same_word p ''daemonize'' then set_flag (\<lambda>b c. c\<lparr> daemonize := b \<rparr>) q st
      else if same_word p ''debug'' then set_flag (\<lambda>b c. c\<lparr> dbug := b \<rparr>) q st
      else if same_word p ''restricted'' then set_flag (\<lambda>b c. c\<lparr> priv_mode := b \<rparr>) q st
      else if same_word p ''homedir_restricted'' then set_flag (\<lambda>b c. c\<lparr> homedir_restricted := b \<rparr>) q st
      else if same_word p ''grabcommand'' then set_flag (\<lambda>b c. c\<lparr> grab_enabled := b \<rparr>) q st
      else if same_word p ''vercommand'' then set_flag (\<lambda>b c. c\<lparr> ver_enabled := b \<rparr>) q st
      else if same_word p ''permit_passwordless_owners'' then set_flag (\<lambda>b c. c\<lparr> permit_passwordless_owners := b \<rparr>) q st
      else if same_word p ''reverse_name'' then set_flag (\<lambda>b c. c\<lparr> no_unnamed := b \<rparr>) q st
      else if same_word p ''use_prebuild_dirlists'' then set_flag (\<lambda>b c. c\<lparr> use_prebuild_dirlists := b \<rparr>) q st
      else if same_word p ''use_access_files'' then set_flag (\<lambda>b c. c\<lparr> use_access_files := b \<rparr>) q st
      else if same_word p ''use_directory_mtime'' then set_flag (\<lambda>b c. c\<lparr> use_directory_mtime := b \<rparr>) q st
      else if same_word p ''read_only'' then set_flag (\<lambda>b c. c\<lparr> read_only := b \<rparr>) q st
      else None)"

text \<open>A name with its value; an unknown name is skipped.\<close>

definition apply_setting :: "resolver \<Rightarrow> string \<Rightarrow> string \<Rightarrow> settings \<Rightarrow> step option" where
  "apply_setting dns p q st =
     (if same_word p ''conf'' then
        Some (if conf_read st then Next st else Include q (st\<lparr> conf_read := True \<rparr>))
      else if same_word p ''host'' then
        map_option (\<lambda>t. Next (st\<lparr> iptab := t \<rparr>)) (add_ipline dns q (iptab st))
      else if same_word p ''log'' then set_conf (\<lambda>c. c\<lparr> logging := log_words q (logging c) \<rparr>) st
      else (case text_setting p q st of
              Some s \<Rightarrow> Some s
            | None \<Rightarrow> (case number_setting p q st of
                        Some s \<Rightarrow> Some s
                      | None \<Rightarrow> (case flag_setting p q st of Some s \<Rightarrow> Some s | None \<Rightarrow> Some (Next st)))))"

text \<open>A line as \<open>fgets\<close> left it. Its last character is taken for the newline. A line that starts with a
  zero octet makes the code write in front of the buffer.\<close>

definition config_line :: "resolver \<Rightarrow> char list \<Rightarrow> settings \<Rightarrow> step option" where
  "config_line dns chunk st =
     (let b = cstr chunk in
      if b = [] then None
      else if hd b = NL \<or> hd b = CHR ''#'' then Some (Next st)
      else
        (let p = dropWhile isspace (butlast b);
             word = takeWhile (\<lambda>c. \<not> isspace c) p;
             rest = dropWhile (\<lambda>c. \<not> isspace c) p
         in if p = [] \<or> rest = [] then Some (Exit 1) else apply_setting dns word (tl rest) st))"

subsection \<open>Files\<close>

text \<open>The pieces \<open>fgets\<close> cuts a file into, with a buffer of 1024 octets.\<close>

function fgets_chunks :: "char list \<Rightarrow> char list list" where
  "fgets_chunks c =
     (if c = [] then []
      else (let l = takeWhile (\<lambda>x. x \<noteq> NL) c; n = min 1023 (length l + 1)
            in take n c # fgets_chunks (drop n c)))"
  by pat_completeness auto
termination by (relation "measure length") auto

declare fgets_chunks.simps [simp del]

fun config_lines :: "resolver \<Rightarrow> char list list \<Rightarrow> settings \<Rightarrow> step option" where
  "config_lines dns [] st = Some (Next st)"
| "config_lines dns (l # ls) st =
     (case config_line dns l st of
        Some (Next st') \<Rightarrow> config_lines dns ls st'
      | r \<Rightarrow> r)"

definition read_config_file :: "resolver \<Rightarrow> string \<Rightarrow> settings \<Rightarrow> world \<Rightarrow> (step \<times> world) option" where
  "read_config_file dns name st w =
     (case read_file w name of
        None \<Rightarrow> Some (Next st, w)
      | Some (c, w') \<Rightarrow> map_option (\<lambda>s. (s, w')) (config_lines dns (fgets_chunks c) st))"

text \<open>The first \<open>conf\<close> line continues with the named file and drops the rest of this one; \<open>conf_read\<close>
  is set then, so there is no third file.\<close>

definition read_configuration :: "resolver \<Rightarrow> string \<Rightarrow> settings \<Rightarrow> world \<Rightarrow> (step \<times> world) option" where
  "read_configuration dns name st w =
     (case read_config_file dns name st w of
        Some (Include q st', w') \<Rightarrow> read_config_file dns q st' w'
      | r \<Rightarrow> r)"

definition load_configuration :: "resolver \<Rightarrow> string option \<Rightarrow> settings \<Rightarrow> world \<Rightarrow> (step \<times> world) option" where
  "load_configuration dns config_file st w =
     (case config_file of
        None \<Rightarrow> Some (Next st, w)
      | Some name \<Rightarrow> read_configuration dns name (st\<lparr> iptab := [] \<rparr>) w)"

text \<open>\<open>tlogname\<close> is freed but keeps its value, which then dangles.\<close>

definition destroy_configuration :: "settings \<Rightarrow> settings" where
  "destroy_configuration st =
     st\<lparr> conf := (conf st)\<lparr> readme_file := None, home_dir := None, logname := None, tmp_dir := None,
                            dumpname := None, pidlogname := None, listen_on := None \<rparr>, iptab := [] \<rparr>"

subsection \<open>Checks after reading\<close>

text \<open>\<open>inetd_mode\<close> is the global of main.c; \<open>rnd\<close> is the random port the code draws.\<close>

definition check_required_vars :: "bool \<Rightarrow> u16 \<Rightarrow> fsp_conf \<Rightarrow> nat + fsp_conf" where
  "check_required_vars inetd_mode rnd c0 =
     (if \<not> inetd_mode \<and> udp_port c0 = 0 then Inl 1
      else
        (let c1 = (if udp_port c0 = 65535 then c0\<lparr> udp_port := rnd \<rparr> else c0);
             c2 = c1\<lparr> packetsize := (if unat (packetsize c1) > UBUF_MAXSPACE then of_nat UBUF_MAXSPACE
                                     else if packetsize c1 = 0 then of_nat DEFAULT_SPACE
                                     else if packetsize c1 < 64 then 64 else packetsize c1) \<rparr>
         in if home_dir c2 = None then Inl 1
            else
              (let c3 = (if readme_file c2 = None then c2\<lparr> readme_file := Some ''.README'' \<rparr> else c2);
                   c4 = (if logging c3 \<noteq> 0 \<and> logname c3 = None then c3\<lparr> logging := 0 \<rparr> else c3);
                   c5 = (if daemonize c4 \<and> dbug c4 then c4\<lparr> daemonize := False \<rparr> else c4);
                   c6 = (if inetd_mode \<and> dbug c5 then c5\<lparr> dbug := False \<rparr> else c5);
                   c7 = (if tmp_dir c6 = None \<and> \<not> read_only c6 then c6\<lparr> read_only := True \<rparr> else c6)
               in Inr c7)))"

subsection \<open>Facts\<close>

definition keeps_timeout :: "settings \<Rightarrow> step option \<Rightarrow> bool" where
  "keeps_timeout st r \<longleftrightarrow> (case r of
     Some (Next st') \<Rightarrow> stat_cache_timeout (conf st') = stat_cache_timeout (conf st)
   | Some (Include _ st') \<Rightarrow> stat_cache_timeout (conf st') = stat_cache_timeout (conf st)
   | _ \<Rightarrow> True)"

lemma keeps_timeout_set_conf [simp]:
  "keeps_timeout st (set_conf f st) \<longleftrightarrow> stat_cache_timeout (f (conf st)) = stat_cache_timeout (conf st)"
  by (simp add: keeps_timeout_def set_conf_def)

lemma keeps_timeout_set_flag [simp]:
  "(\<And>b. stat_cache_timeout (f b (conf st)) = stat_cache_timeout (conf st)) \<Longrightarrow> keeps_timeout st (set_flag f q st)"
  by (auto simp: set_flag_def keeps_timeout_def set_conf_def split: option.splits)

lemma keeps_timeout_simps [simp]:
  "keeps_timeout st None" "keeps_timeout st (Some (Exit n))" "keeps_timeout st (Some (Next st))"
  by (simp_all add: keeps_timeout_def)

lemma keeps_timeout_cong:
  "stat_cache_timeout (conf a) = stat_cache_timeout (conf b) \<Longrightarrow> keeps_timeout a r \<longleftrightarrow> keeps_timeout b r"
  by (simp add: keeps_timeout_def cong: option.case_cong step.case_cong)

lemma keeps_timeout_apply:
  assumes "0 < stat_cache_timeout (conf st)"
  shows "keeps_timeout st (apply_setting dns p q st)"
proof -
  have 1: "keeps_timeout st (text_setting p q st)" by (simp add: text_setting_def)
  have 2: "keeps_timeout st (number_setting p q st)" using assms by (simp add: number_setting_def Let_def)
  have 3: "keeps_timeout st (flag_setting p q st)" by (simp add: flag_setting_def)
  have 4: "keeps_timeout st (map_option (\<lambda>t. Next (st\<lparr> iptab := t \<rparr>)) (add_ipline dns q (iptab st)))"
    by (cases "add_ipline dns q (iptab st)") (simp_all add: keeps_timeout_def)
  have 5: "keeps_timeout st (Some (Include q (st\<lparr> conf_read := True \<rparr>)))" by (simp add: keeps_timeout_def)
  show ?thesis
    using 1 2 3 4 5 by (auto simp: apply_setting_def split: option.splits)
qed

lemma keeps_timeout_line:
  "0 < stat_cache_timeout (conf st) \<Longrightarrow> keeps_timeout st (config_line dns l st)"
  by (simp add: config_line_def Let_def keeps_timeout_apply)

lemma keeps_timeout_lines:
  "0 < stat_cache_timeout (conf st) \<Longrightarrow> keeps_timeout st (config_lines dns ls st)"
proof (induction ls arbitrary: st)
  case (Cons l ls)
  note k = keeps_timeout_line [OF Cons.prems, of dns l]
  show ?case
  proof (cases "config_line dns l st")
    case (Some r)
    show ?thesis
    proof (cases r)
      case (Next st1)
      then have e: "stat_cache_timeout (conf st1) = stat_cache_timeout (conf st)"
        using k Some by (simp add: keeps_timeout_def)
      with Cons.IH [of st1] Cons.prems Some Next keeps_timeout_cong [OF e] show ?thesis by simp
    qed (use k Some in simp_all)
  qed (simp add: keeps_timeout_def)
qed simp

text \<open>The life time of cached directory records cannot be configured: whatever the configuration
  files say, a positive \<open>stat_cache_timeout\<close> is the same afterwards, because the line that should
  set it sets the session time out instead.\<close>

theorem stat_cache_timeout_is_fixed:
  assumes "0 < stat_cache_timeout (conf st)"
    and "load_configuration dns config_file st w = Some (Next st', w')"
  shows "stat_cache_timeout (conf st') = stat_cache_timeout (conf st)"
proof (cases config_file)
  case None
  with assms(2) show ?thesis by (simp add: load_configuration_def)
next
  case (Some name)
  let ?st = "st\<lparr> iptab := [] \<rparr>"
  have one: "keeps_timeout s (map_option fst (read_config_file dns n s v))" if "0 < stat_cache_timeout (conf s)" for n s v
    using keeps_timeout_lines [OF that] by (auto simp: read_config_file_def option.map_comp o_def option.map_ident split: option.splits)
  have 1: "keeps_timeout ?st (map_option fst (read_config_file dns name ?st w))"
    by (rule one) (simp add: assms(1))
  show ?thesis
  proof (cases "read_config_file dns name ?st w")
    case None
    with Some assms(2) show ?thesis by (simp add: load_configuration_def read_configuration_def)
  next
    case (Some r)
    note r = this
    obtain s v where sv: "r = (s, v)" by (cases r)
    show ?thesis
    proof (cases s)
      case (Include q st1)
      then have "stat_cache_timeout (conf st1) = stat_cache_timeout (conf st)"
        using 1 r sv by (simp add: keeps_timeout_def)
      then show ?thesis
        using one [of st1 q v] assms \<open>config_file = Some name\<close> r sv Include
        by (simp add: load_configuration_def read_configuration_def keeps_timeout_def)
    qed (use 1 r sv assms(2) \<open>config_file = Some name\<close> in
      \<open>auto simp: load_configuration_def read_configuration_def keeps_timeout_def\<close>)
  qed
qed

definition demo_settings :: settings where
  "demo_settings = \<lparr> conf = default_conf, iptab = [], conf_read = False \<rparr>"

definition conf_world :: world where
  "conf_world = \<lparr> entries = [([], 0), ([''c''], 1)],
     inodes = (\<lambda>n. if n = 0 then \<lparr> kind = Directory, mtime = 0, mode = 493 \<rparr>
       else \<lparr> kind = Regular (''homedir /f'' @ [NL] @ ''statcache_timeout 300'' @ [NL]), mtime = 0, mode = 420 \<rparr>),
     next_ino = 2, streams = [], next_stream = 1, cwd = [], cur_umask = 63, clock = 7, room = 1000 \<rparr>"

theorem stat_cache_timeout_is_fixed_witness:
  "\<exists>st' w'. load_configuration (\<lambda>_. None) (Some ''/c'') demo_settings conf_world = Some (Next st', w') \<and>
     home_dir (conf st') = Some ''/f'' \<and> session_timeout (conf st') = 300 \<and>
     stat_cache_timeout (conf st') = stat_cache_timeout (conf demo_settings)"
proof -
  have pos: "0 < stat_cache_timeout (conf demo_settings)" by (simp add: demo_settings_def default_conf_def)
  have "\<exists>st' w'. load_configuration (\<lambda>_. None) (Some ''/c'') demo_settings conf_world = Some (Next st', w') \<and>
     home_dir (conf st') = Some ''/f'' \<and> session_timeout (conf st') = 300"
  proof -
    have "map_option (\<lambda>(s, w). case s of Next st' \<Rightarrow> home_dir (conf st') = Some ''/f'' \<and> session_timeout (conf st') = 300 | _ \<Rightarrow> False)
        (load_configuration (\<lambda>_. None) (Some ''/c'') demo_settings conf_world) = Some True" by code_simp
    then obtain s w' where l: "load_configuration (\<lambda>_. None) (Some ''/c'') demo_settings conf_world = Some (s, w')"
      and s: "case s of Next st' \<Rightarrow> home_dir (conf st') = Some ''/f'' \<and> session_timeout (conf st') = 300 | _ \<Rightarrow> False"
      by auto
    then show ?thesis by (cases s) auto
  qed
  with stat_cache_timeout_is_fixed [OF pos] show ?thesis by blast
qed

text \<open>A server that passes the checks of \<open>check_required_vars\<close> is usable: the packet size is one
  that every buffer can hold and no smaller than 64, home directory and readme file are set, it
  writes only if there is a directory for temporary files, logs only to a named file, and does
  not run as a daemon while debugging; a second check changes nothing but a port drawn at random.\<close>

theorem checked_settings_are_usable:
  assumes "check_required_vars inetd rnd c = Inr c'"
  shows "64 \<le> unat (packetsize c') \<and> unat (packetsize c') \<le> UBUF_MAXSPACE \<and>
    home_dir c' \<noteq> None \<and> readme_file c' \<noteq> None \<and> (tmp_dir c' = None \<longrightarrow> read_only c') \<and>
    (logging c' \<noteq> 0 \<longrightarrow> logname c' \<noteq> None) \<and> \<not> (daemonize c' \<and> dbug c') \<and>
    (udp_port c' \<noteq> 65535 \<and> udp_port c' \<noteq> 0 \<longrightarrow> check_required_vars inetd rnd' c' = Inr c')"
proof -
  define c1 where "c1 = (if udp_port c = 65535 then c\<lparr> udp_port := rnd \<rparr> else c)"
  define c2 where "c2 = c1\<lparr> packetsize := (if unat (packetsize c1) > UBUF_MAXSPACE then of_nat UBUF_MAXSPACE
       else if packetsize c1 = 0 then of_nat DEFAULT_SPACE else if packetsize c1 < 64 then 64 else packetsize c1) \<rparr>"
  define c3 where "c3 = (if readme_file c2 = None then c2\<lparr> readme_file := Some ''.README'' \<rparr> else c2)"
  define c4 where "c4 = (if logging c3 \<noteq> 0 \<and> logname c3 = None then c3\<lparr> logging := 0 \<rparr> else c3)"
  define c5 where "c5 = (if daemonize c4 \<and> dbug c4 then c4\<lparr> daemonize := False \<rparr> else c4)"
  define c6 where "c6 = (if inetd \<and> dbug c5 then c5\<lparr> dbug := False \<rparr> else c5)"
  define c7 where "c7 = (if tmp_dir c6 = None \<and> \<not> read_only c6 then c6\<lparr> read_only := True \<rparr> else c6)"
  have c': "c' = c7" "home_dir c2 \<noteq> None"
    using assms [unfolded check_required_vars_def Let_def, folded c1_def, folded c2_def, folded c3_def,
        folded c4_def, folded c5_def, folded c6_def, folded c7_def] by (auto split: if_splits)
  have "64 \<le> unat (packetsize c2) \<and> unat (packetsize c2) \<le> UBUF_MAXSPACE"
    by (auto simp: c2_def word_less_nat_alt)
  moreover have 3: "readme_file c3 \<noteq> None" "home_dir c3 = home_dir c2" "packetsize c3 = packetsize c2"
    by (simp_all add: c3_def)
  moreover have 4: "readme_file c4 = readme_file c3" "home_dir c4 = home_dir c3" "packetsize c4 = packetsize c3"
    "logging c4 \<noteq> 0 \<longrightarrow> logname c4 \<noteq> None" by (simp_all add: c4_def)
  moreover have 5: "readme_file c5 = readme_file c4" "home_dir c5 = home_dir c4" "packetsize c5 = packetsize c4"
    "logging c5 = logging c4" "logname c5 = logname c4" "\<not> (daemonize c5 \<and> dbug c5)" by (simp_all add: c5_def)
  moreover have 6: "readme_file c6 = readme_file c5" "home_dir c6 = home_dir c5" "packetsize c6 = packetsize c5"
    "logging c6 = logging c5" "logname c6 = logname c5" "daemonize c6 = daemonize c5" "dbug c6 \<longrightarrow> dbug c5 \<and> \<not> inetd"
    by (auto simp: c6_def)
  moreover have 7: "readme_file c7 = readme_file c6" "home_dir c7 = home_dir c6" "packetsize c7 = packetsize c6"
    "logging c7 = logging c6" "logname c7 = logname c6" "daemonize c7 = daemonize c6" "dbug c7 = dbug c6"
    "tmp_dir c7 = None \<longrightarrow> read_only c7" by (auto simp: c7_def)
  ultimately have f: "64 \<le> unat (packetsize c') \<and> unat (packetsize c') \<le> UBUF_MAXSPACE" "home_dir c' \<noteq> None"
    "readme_file c' \<noteq> None" "tmp_dir c' = None \<longrightarrow> read_only c'" "logging c' \<noteq> 0 \<longrightarrow> logname c' \<noteq> None"
    "\<not> (daemonize c' \<and> dbug c')" "inetd \<longrightarrow> \<not> dbug c'"
    using c' by auto
  have cond: "(unat (packetsize c') > UBUF_MAXSPACE) = False" "(packetsize c' = 0) = False" "(packetsize c' < 64) = False"
    "(home_dir c' = None) = False" "(readme_file c' = None) = False" "(logging c' \<noteq> 0 \<and> logname c' = None) = False"
    "(daemonize c' \<and> dbug c') = False" "(inetd \<and> dbug c') = False" "(tmp_dir c' = None \<and> \<not> read_only c') = False"
    using f by (auto simp: word_less_nat_alt)
  have id: "c'\<lparr> packetsize := packetsize c' \<rparr> = c'" by (cases c') simp
  have "udp_port c' \<noteq> 65535 \<and> udp_port c' \<noteq> 0 \<longrightarrow> check_required_vars inetd rnd' c' = Inr c'"
  proof
    assume "udp_port c' \<noteq> 65535 \<and> udp_port c' \<noteq> 0"
    then have "(udp_port c' = 65535) = False" "(udp_port c' = 0) = False" by auto
    then show "check_required_vars inetd rnd' c' = Inr c'"
      unfolding check_required_vars_def Let_def by (simp only: cond id if_False simp_thms)
  qed
  with f show ?thesis by blast
qed

theorem checked_settings_are_usable_witness:
  "\<exists>c'. check_required_vars False 1100 (default_conf\<lparr> home_dir := Some ''/f'', packetsize := 5000 \<rparr>) = Inr c' \<and>
     packetsize c' = 4380 \<and> read_only c' \<and> home_dir c' \<noteq> None \<and> check_required_vars False 1200 c' = Inr c'"
proof -
  let ?c = "default_conf\<lparr> home_dir := Some ''/f'', packetsize := 5000 \<rparr>"
  have "case check_required_vars False 1100 ?c of Inr c' \<Rightarrow> packetsize c' = 4380 \<and> read_only c' \<and> udp_port c' = 21 | _ \<Rightarrow> False"
    by code_simp
  then obtain c' where c': "check_required_vars False 1100 ?c = Inr c'" "packetsize c' = 4380" "read_only c'" "udp_port c' = 21"
    by (auto split: sum.splits)
  with checked_settings_are_usable [OF c'(1), of 1200] show ?thesis by auto
qed

end
