(* ===== verification/ClientDir.thy ===== *)
theory ClientDir
  imports DirList
begin

text \<open>
  How the client reads a directory: \<open>get_dir_blk\<close> of \<^verbatim>\<open>client/util.c\<close>, which fetches the listing
  block by block with \<open>CC_GET_DIR\<close> and cuts it into entries.

  One conversation with the server is the function \<open>fetch\<close>, which gets a position and the state of
  everything outside and gives the data of the answer or an error text. A read or write outside the buffer of \<open>NBSIZE\<close> octets is undefined (\<open>None\<close>), and so is a
  loop that never ends.
\<close>

record RDIRENT =
  bb_time :: "char list"
  bb_size :: "char list"
  de_type :: char
  de_name :: string

text \<open>The entries of the block at the start of the buffer, from offset \<open>p\<close> on, \<open>left\<close> octets being left:
  whether the end mark was found, with the entries added to \<open>dp\<close>.\<close>

function block_entries :: "char list \<Rightarrow> nat \<Rightarrow> int \<Rightarrow> RDIRENT list \<Rightarrow> (bool \<times> RDIRENT list) option" where
  "block_entries b p left dp =
     (if left < int RDHSIZE then Some (False, dp)
      else if p + RDHSIZE > length b then None
      else if b ! (p + 8) = RDTYPE_SKIP then Some (False, dp)
      else if b ! (p + 8) = RDTYPE_END then Some (True, dp)
      else
        (let name = cstr (drop (p + RDHSIZE) b);
             q = p + RDHSIZE + length name + 1;
             pad = (4 - q mod 4) mod 4
         in if q > length b then None
            else block_entries b (q + pad) (left - int (RDHSIZE + 1 + length name + pad))
              (dp @ [\<lparr> bb_time = take 4 (drop p b), bb_size = take 4 (drop (p + 4) b),
                       de_type = b ! (p + 8), de_name = name \<rparr>])))"
  by pat_completeness auto
termination by (relation "measure (\<lambda>(b, p, left, dp). length b - p)") auto

declare block_entries.simps [simp del]

record dir_reader =
  rd_buf :: "char list"
  rd_acc :: nat
  rd_pos :: nat
  rd_eof :: bool
  rd_block :: nat

text \<open>Filling the buffer.\<close>

partial_function (option) fill_buffer ::
  "(nat \<Rightarrow> 's \<Rightarrow> ((string + char list) \<times> 's) option) \<Rightarrow> dir_reader \<Rightarrow> 's \<Rightarrow> ((string + dir_reader) \<times> 's) option" where
  [code]: "fill_buffer fetch r s =
     (if rd_acc r < UBUF_MAXSPACE \<and> \<not> rd_eof r then
        fetch (rd_pos r) s \<bind> (\<lambda>(a, s1).
        (case a of
           Inl e \<Rightarrow> Some (Inl e, s1)
         | Inr data \<Rightarrow>
             put_at (rd_buf r) (rd_acc r) data \<bind> (\<lambda>b.
               fill_buffer fetch (r\<lparr> rd_buf := b, rd_acc := rd_acc r + length data, rd_pos := rd_pos r + length data,
                 rd_block := (if rd_block r = 0 then length data else rd_block r),
                 rd_eof := (rd_block r \<noteq> 0 \<and> length data < rd_block r) \<rparr>) s1)))
      else Some (Inr r, s))"

partial_function (option) read_blocks ::
  "(nat \<Rightarrow> 's \<Rightarrow> ((string + char list) \<times> 's) option) \<Rightarrow> dir_reader \<Rightarrow> RDIRENT list \<Rightarrow> 's
    \<Rightarrow> ((string + RDIRENT list) \<times> 's) option" where
  [code]: "read_blocks fetch r0 dp s =
     fill_buffer fetch r0 s \<bind> (\<lambda>(f, s1).
       (case f of
          Inl e \<Rightarrow> Some (Inl e, s1)
        | Inr r \<Rightarrow>
            block_entries (rd_buf r) 0 (int (min (rd_acc r) (rd_block r))) dp \<bind> (\<lambda>(fin, dp').
              if fin \<or> rd_acc r < rd_block r then Some (Inr dp', s1)
              else read_blocks fetch
                (r\<lparr> rd_buf := memcpy (rd_buf r) 0 (take (rd_acc r - rd_block r) (drop (rd_block r) (rd_buf r))),
                    rd_acc := rd_acc r - rd_block r \<rparr>) dp' s1)))"

definition get_dir_blk ::
  "(nat \<Rightarrow> 's \<Rightarrow> ((string + char list) \<times> 's) option) \<Rightarrow> 's \<Rightarrow> ((string + RDIRENT list) \<times> 's) option" where
  "get_dir_blk fetch s =
     read_blocks fetch \<lparr> rd_buf = replicate NBSIZE NUL, rd_acc = 0, rd_pos = 0, rd_eof = False, rd_block = 0 \<rparr> [] s"

end
