(* ===== verification/Listing.thy ===== *)
theory Listing
  imports ClientDir
begin

text \<open>
  Directory listings from end to end: what the client reads is what the server saw.
\<close>

definition rdirent :: "stat_buf \<Rightarrow> string \<Rightarrow> RDIRENT" where
  "rdirent sb s = \<lparr> bb_time = b4_chars (BB_WRITE4 (of_int (st_mtime sb))),
     bb_size = b4_chars (BB_WRITE4 (of_nat (min (st_size sb) FOURGIGS))),
     de_type = (if S_ISDIR sb then RDTYPE_DIR else RDTYPE_FILE), de_name = s \<rparr>"

text \<open>What a directory shows: the files and directories without a leading dot, and the two dots.\<close>

definition shown :: "world \<Rightarrow> string \<Rightarrow> string \<Rightarrow> RDIRENT option" where
  "shown w d s = (if hidden s then None else
     (case stat w (d @ ''/'' @ s) of
        Some sb \<Rightarrow> if S_ISDIR sb \<or> S_ISREG sb then Some (rdirent sb s) else None
      | None \<Rightarrow> None))"

text \<open>The answers of \<open>CC_GET_DIR\<close> for a listing.\<close>

definition serve_listing :: "nat \<Rightarrow> char list \<Rightarrow> nat \<Rightarrow> 's \<Rightarrow> ((string + char list) \<times> 's) option" where
  "serve_listing B L p s = Some (Inr (take B (drop p L)), s)"

subsection \<open>Decoding\<close>

lemma dir_entry_parts:
  "dir_entry sb s = bb_time (rdirent sb s) @ bb_size (rdirent sb s) @ [de_type (rdirent sb s)] @ s @ [NUL]"
  by (simp add: dir_entry_def rdirent_def)

lemma length_dir_entry [simp]: "length (dir_entry sb s) = length s + 10"
  by (simp add: dir_entry_def)

definition pad4 :: "nat \<Rightarrow> nat" where
  "pad4 n = (if n mod 4 \<noteq> 0 then 4 - n mod 4 else 0)"

lemma pad4_props: "(n + pad4 n) mod 4 = 0" "pad4 n < 4"
  by (auto simp: pad4_def) presburger

lemma pad4_offset: "p mod 4 = 0 \<Longrightarrow> (4 - (p + n) mod 4) mod 4 = pad4 n"
  by (auto simp: pad4_def mod_add_eq [of p 4 n, symmetric])

lemma drop_nth_append: "drop p b = xs @ ys \<Longrightarrow> i < length xs \<Longrightarrow> b ! (p + i) = xs ! i"
  by (metis append_take_drop_id drop_eq_Nil le_cases length_append length_drop nth_append nth_drop
      add.commute trans_less_add2 less_nat_zero_code list.size(3) append_is_Nil_conv)

lemma block_entries_entry:
  assumes d: "drop p b = dir_entry sb s @ rest" and "NUL \<notin> set s" and p: "p mod 4 = 0" and "p \<le> length b"
    and R: "int (RDHSIZE) \<le> R"
  shows "block_entries b p R dp =
    block_entries b (p + (length s + 10) + pad4 (length s + 10)) (R - int (length s + 10 + pad4 (length s + 10)))
      (dp @ [rdirent sb s])"
proof -
  have len: "p + (length s + 10) \<le> length b"
    using arg_cong [OF d, of length] assms(4) by simp
  let ?e = "rdirent sb s"
  have l4: "length (bb_time ?e) = 4" "length (bb_size ?e) = 4" by (simp_all add: rdirent_def)
  have ty: "b ! (p + 8) = de_type ?e"
    using drop_nth_append [OF d, of 8] l4 by (simp add: dir_entry_parts nth_append)
  have d4: "drop (p + 4) b = bb_size ?e @ [de_type ?e] @ s @ [NUL] @ rest"
    using arg_cong [OF d, of "drop 4"] l4 by (simp add: dir_entry_parts add.commute)
  have d9: "drop (p + 9) b = s @ NUL # rest"
    using arg_cong [OF d, of "drop 9"] l4 by (simp add: dir_entry_parts add.commute)
  have nm: "cstr (drop (p + 9) b) = s" using assms(2) by (simp add: d9 cstr_append_NUL)
  have t4: "take 4 (drop p b) = bb_time ?e" "take 4 (drop (p + 4) b) = bb_size ?e"
    using d d4 l4 by (simp_all add: dir_entry_parts)
  have e: "\<lparr> bb_time = bb_time ?e, bb_size = bb_size ?e, de_type = de_type ?e, de_name = s \<rparr> = ?e"
    by (simp add: rdirent_def)
  have t: "de_type ?e \<noteq> RDTYPE_SKIP" "de_type ?e \<noteq> RDTYPE_END" by (simp_all add: rdirent_def)
  have q: "p + 9 + length s + 1 = p + (length s + 10)" by simp
  show ?thesis
    using R len ty nm t4 t
    by (subst block_entries.simps) (simp add: Let_def e q pad4_offset [OF p] del: of_nat_add add_Suc_right, simp add: algebra_simps pad4_offset [OF p])
qed

lemma take_le_cong: "take m a = take m b \<Longrightarrow> k \<le> m \<Longrightarrow> take k a = take k b"
  by (drule arg_cong [where f = "take k"]) (simp add: min.absorb1)

text \<open>The first \<open>n\<close> octets of a buffer hold exactly these entries.\<close>

definition encodes :: "char list \<Rightarrow> nat \<Rightarrow> RDIRENT list \<Rightarrow> bool" where
  "encodes b n es \<longleftrightarrow> (\<forall>b' R dp. n \<le> length b' \<and> take n b' = take n b \<and> int n \<le> R \<longrightarrow>
     block_entries b' 0 R dp = block_entries b' n (R - int n) (dp @ es))"

lemma encodes_Nil [simp]: "encodes b 0 []"
  by (simp add: encodes_def)

lemma encodes_entry:
  assumes "encodes b n es" and "n mod 4 = 0" and "NUL \<notin> set s"
    and "take n b1 = take n b" and "take (length s + 10) (drop n b1) = dir_entry sb s"
  shows "encodes b1 (n + (length s + 10) + pad4 (length s + 10)) (es @ [rdirent sb s])"
  unfolding encodes_def
proof (intro allI impI)
  fix b' :: "char list" and R :: int and dp
  let ?m = "n + (length s + 10) + pad4 (length s + 10)"
  assume a: "?m \<le> length b' \<and> take ?m b' = take ?m b1 \<and> int ?m \<le> R"
  have tk: "take k b' = take k b1" if "k \<le> ?m" for k
    by (rule take_le_cong [OF _ that]) (use a in simp)
  have "take n b' = take n b" using tk [of n] assms(4) by simp
  then have 1: "block_entries b' 0 R dp = block_entries b' n (R - int n) (dp @ es)"
    using assms(1) a unfolding encodes_def by simp
  have "take (length s + 10) (drop n b') = dir_entry sb s"
  proof -
    have "drop n (take (n + (length s + 10)) b') = drop n (take (n + (length s + 10)) b1)"
      using tk [of "n + (length s + 10)"] by simp
    then show ?thesis using assms(5) by (simp add: drop_take)
  qed
  then have d: "drop n b' = dir_entry sb s @ drop (length s + 10) (drop n b')"
    by (metis append_take_drop_id)
  show "block_entries b' 0 R dp = block_entries b' ?m (R - int ?m) (dp @ es @ [rdirent sb s])"
    unfolding 1 using block_entries_entry [OF d assms(3,2), of "R - int n" "dp @ es"] a
    by (simp add: algebra_simps)
qed

definition full_block :: "nat \<Rightarrow> char list \<Rightarrow> RDIRENT list \<Rightarrow> bool" where
  "full_block B b es \<longleftrightarrow> length b = B \<and>
     (\<forall>b' dp. take B b' = b \<longrightarrow> block_entries b' 0 (int B) dp = Some (False, dp @ es))"

definition last_block :: "char list \<Rightarrow> RDIRENT list \<Rightarrow> bool" where
  "last_block b es \<longleftrightarrow> RDHSIZE \<le> length b \<and>
     (\<forall>b' dp. take (length b) b' = b \<longrightarrow> block_entries b' 0 (int (length b)) dp = Some (True, dp @ es))"

lemma take_memcpy_before: "k \<le> off \<Longrightarrow> off \<le> length b \<Longrightarrow> take k (memcpy b off xs) = take k b"
  by (simp add: memcpy_def)

lemma drop_memcpy_at: "off \<le> length b \<Longrightarrow> drop off (memcpy b off xs) = xs @ drop (off + length xs) b"
  by (simp add: memcpy_def)

lemma nth_memcpy_at: "off \<le> length b \<Longrightarrow> i < length xs \<Longrightarrow> memcpy b off xs ! (off + i) = xs ! i"
  by (simp add: memcpy_def nth_append)

lemma take_eq_nth: "take n a = take n b \<Longrightarrow> i < n \<Longrightarrow> a ! i = b ! i"
  by (metis nth_take)

lemma full_blockI:
  assumes "encodes b n es" and "n \<le> B" and "B \<le> length b"
  shows "full_block B (take B (memcpy b n (replicate (B - n) RDTYPE_SKIP))) es"
proof -
  let ?b = "memcpy b n (replicate (B - n) RDTYPE_SKIP)"
  have len: "length ?b = length b" using assms by simp
  have "block_entries b' 0 (int B) dp = Some (False, dp @ es)" if t: "take B b' = take B ?b" for b' dp
  proof -
    have lb: "B \<le> length b'" using arg_cong [OF t, of length] len assms(3) by simp
    have "take n b' = take n b"
      using take_le_cong [OF t assms(2)] take_memcpy_before [of n n b] assms(2,3) by simp
    then have 1: "block_entries b' 0 (int B) dp = block_entries b' n (int B - int n) (dp @ es)"
      using assms(1,2) lb unfolding encodes_def by simp
    show ?thesis
    proof (cases "B - n < 9")
      case True
      then have "int B - int n < 9" using assms(2) by linarith
      with 1 show ?thesis by (subst (asm) (2) block_entries.simps) simp
    next
      case False
      then have "b' ! (n + 8) = RDTYPE_SKIP"
        using take_eq_nth [OF t, of "n + 8"] nth_memcpy_at [of n b 8 "replicate (B - n) RDTYPE_SKIP"] assms(2,3) by simp
      with 1 False lb assms(2) show ?thesis by (subst (asm) (2) block_entries.simps) simp
    qed
  qed
  then show ?thesis using len assms(3) by (simp add: full_block_def)
qed

lemma last_blockI:
  assumes "encodes b n es" and "n + 9 \<le> length b"
  shows "last_block (take (n + 9) (memcpy b (n + 8) [RDTYPE_END])) es"
proof -
  let ?b = "memcpy b (n + 8) [RDTYPE_END]"
  have len: "length ?b = length b" using assms by simp
  have "block_entries b' 0 (int (n + 9)) dp = Some (True, dp @ es)" if t: "take (n + 9) b' = take (n + 9) ?b" for b' dp
  proof -
    have lb: "n + 9 \<le> length b'" using arg_cong [OF t, of length] len assms(2) by simp
    have "take n b' = take n ?b" by (rule take_le_cong [OF t]) simp
    then have "take n b' = take n b" using take_memcpy_before [of n "n + 8" b] assms(2) by simp
    then have 1: "block_entries b' 0 (int (n + 9)) dp = block_entries b' n (int (n + 9) - int n) (dp @ es)"
      using assms(1) lb unfolding encodes_def by simp
    have "b' ! (n + 8) = RDTYPE_END"
      using take_eq_nth [OF t, of "n + 8"] nth_memcpy_at [of "n + 8" b 0 "[RDTYPE_END]"] assms(2) by simp
    with 1 lb show ?thesis by (subst (asm) (2) block_entries.simps) simp
  qed
  then show ?thesis using len assms(2) by (simp add: last_block_def)
qed

subsection \<open>Building\<close>

text \<open>What the builder has put out so far: full blocks and the start of the next one.\<close>

definition built :: "nat \<Rightarrow> list_state \<Rightarrow> RDIRENT list \<Rightarrow> bool" where
  "built B l es \<longleftrightarrow> length (buffer l) = UBUF_SPACE \<and> bufpos l \<le> B \<and> bufpos l mod 4 = 0 \<and>
     unat (rem l) = B - bufpos l \<and>
     (\<exists>bs ess cur. list_all2 (full_block B) bs ess \<and> blocks l = concat bs \<and>
        encodes (buffer l) (bufpos l) cur \<and> es = concat ess @ cur)"

definition good_block :: "nat \<Rightarrow> bool" where
  "good_block B \<longleftrightarrow> 64 \<le> B \<and> B \<le> UBUF_SPACE \<and> B mod 4 = 0"

lemma unat_small [simp]: "n \<le> 1024 \<Longrightarrow> unat (of_nat n :: u32) = n"
  by (simp add: unat_of_nat)

lemma flush_block_built:
  assumes "built B l es" and "good_block B"
  shows "\<exists>l'. flush_block B l = Some l' \<and> built B l' es \<and> bufpos l' = 0"
proof -
  obtain bs ess cur where l: "list_all2 (full_block B) bs ess" "blocks l = concat bs"
    "encodes (buffer l) (bufpos l) cur" "es = concat ess @ cur"
    using assms(1) by (auto simp: built_def)
  have len: "length (buffer l) = 1024" "bufpos l \<le> B" "B \<le> 1024" "unat (rem l) = B - bufpos l"
    using assms by (auto simp: built_def good_block_def)
  let ?b = "memcpy (buffer l) (bufpos l) (replicate (B - bufpos l) RDTYPE_SKIP)"
  have p: "put_at (buffer l) (bufpos l) (replicate (unat (rem l)) RDTYPE_SKIP) = Some ?b"
    using len by (simp add: put_at_def)
  have fb: "full_block B (take B ?b) cur" by (rule full_blockI [OF l(3)]) (use len in simp_all)
  let ?l = "l\<lparr> buffer := ?b, bufpos := 0, rem := of_nat B, blocks := blocks l @ take B ?b \<rparr>"
  have "flush_block B l = Some ?l" using p by (simp add: flush_block_def append_dir_listing_def)
  moreover have "built B ?l es"
    unfolding built_def
  proof (intro conjI)
    show "\<exists>bs ess cur. list_all2 (full_block B) bs ess \<and> blocks ?l = concat bs \<and>
        encodes (buffer ?l) (bufpos ?l) cur \<and> es = concat ess @ cur"
      using l fb by (intro exI [of _ "bs @ [take B ?b]"] exI [of _ "ess @ [cur]"] exI [of _ "[]"])
        (auto intro: list_all2_appendI)
  qed (use len in simp_all)
  ultimately show ?thesis by auto
qed

lemma put_entry_built:
  assumes "built B l es" and B: "good_block B" and "NUL \<notin> set s" and fit: "length s + 10 \<le> B"
  shows "\<exists>l'. put_entry B sb s l = Some l' \<and> built B l' (es @ [rdirent sb s])"
proof -
  let ?n = "length s + 10"
  have B': "B \<le> 1024" "B mod 4 = 0" using B by (auto simp: good_block_def)
  have len: "bufpos l \<le> B" "unat (rem l) = B - bufpos l" using assms(1) by (auto simp: built_def)
  have cond: "rem l < of_nat ?n \<longleftrightarrow> B - bufpos l < ?n"
    using len B' fit unat_small [of ?n] by (simp add: word_less_nat_alt del: of_nat_add)
  obtain l1 where l1: "(if rem l < of_nat ?n then flush_block B l else Some l) = Some l1" "built B l1 es"
    "bufpos l1 + ?n \<le> B"
  proof (cases "rem l < of_nat ?n")
    case True
    with flush_block_built [OF assms(1) B] that fit show ?thesis by auto
  next
    case False
    with that [of l] assms(1) cond len show ?thesis by simp
  qed
  obtain bs ess cur where l: "list_all2 (full_block B) bs ess" "blocks l1 = concat bs"
    "encodes (buffer l1) (bufpos l1) cur" "es = concat ess @ cur"
    using l1(2) by (auto simp: built_def)
  have len1: "length (buffer l1) = 1024" "bufpos l1 mod 4 = 0" "unat (rem l1) = B - bufpos l1"
    using l1(2) by (auto simp: built_def)
  let ?b = "memcpy (buffer l1) (bufpos l1) (dir_entry sb s)" and ?m = "bufpos l1 + ?n + pad4 ?n"
  have p: "put_at (buffer l1) (bufpos l1) (dir_entry sb s) = Some ?b"
    using len1 l1(3) B' by (simp add: put_at_def)
  have m: "?m mod 4 = 0" "?m \<le> B"
  proof -
    show m: "?m mod 4 = 0" using pad4_props(1) [of ?n] len1(2) by (metis add.assoc add_0 mod_add_left_eq)
    have "?m < B + 4" using l1(3) pad4_props(2) [of ?n] by simp
    with m B'(2) show "?m \<le> B" by presburger
  qed
  have e: "encodes ?b ?m (cur @ [rdirent sb s])"
    by (rule encodes_entry [OF l(3) len1(2) assms(3)])
      (use len1(1) l1(3) B' in \<open>simp_all add: take_memcpy_before drop_memcpy_at\<close>)
  let ?r = "rem l1 - of_nat ?n - of_nat (pad4 ?n)"
  let ?l = "l1\<lparr> buffer := ?b, bufpos := ?m, rem := ?r \<rparr>"
  have r: "unat ?r = B - ?m"
  proof -
    have 1: "unat (rem l1 - of_nat ?n) = B - bufpos l1 - ?n"
      using len1(3) l1(3) B' unat_small [of ?n] by (simp add: unat_sub word_le_nat_alt del: of_nat_add)
    then show ?thesis
      using m(2) B' unat_small [of "pad4 ?n"] pad4_props(2) [of ?n] by (simp add: unat_sub word_le_nat_alt del: of_nat_add)
  qed
  have "built B ?l (es @ [rdirent sb s])"
    unfolding built_def
  proof (intro conjI)
    show "\<exists>bs ess cur. list_all2 (full_block B) bs ess \<and> blocks ?l = concat bs \<and>
        encodes (buffer ?l) (bufpos ?l) cur \<and> es @ [rdirent sb s] = concat ess @ cur"
      using l e by (intro exI [of _ bs] exI [of _ ess] exI [of _ "cur @ [rdirent sb s]"]) simp
  qed (use len1 m r l1(3) B' in simp_all)
  moreover have "put_entry B sb s l = Some ?l"
  proof -
    have n: "RDHSIZE + (length s + 1) = ?n" "length s + 1 + RDHSIZE = ?n" by simp_all
    show ?thesis
      unfolding put_entry_def Let_def n pad4_def [of ?n, symmetric] using l1(1) p by (simp add: algebra_simps)
  qed
  ultimately show ?thesis by blast
qed

lemma list_entries_built:
  assumes "built B l es" and B: "good_block B"
    and "\<forall>s \<in> set names. \<not> hidden s \<longrightarrow> NUL \<notin> set s \<and> length s + 10 \<le> B \<and> length d + length s + 2 \<le> NBSIZE"
  shows "\<exists>l'. list_entries w d B names l = Some l' \<and> built B l' (es @ List.map_filter (shown w d) names)"
  using assms
proof (induction names arbitrary: l es)
  case Nil
  then show ?case by simp
next
  case (Cons s names)
  have ok: "\<not> hidden s \<longrightarrow> NUL \<notin> set s \<and> length s + 10 \<le> B \<and> length d + length s + 2 \<le> NBSIZE"
    and rest: "\<forall>s \<in> set names. \<not> hidden s \<longrightarrow> NUL \<notin> set s \<and> length s + 10 \<le> B \<and> length d + length s + 2 \<le> NBSIZE"
    using Cons.prems(3) by simp_all
  show ?case
  proof (cases "shown w d s")
    case None
    then have "list_entries w d B (s # names) l = list_entries w d B names l"
      using ok by (auto simp: shown_def split: option.splits if_splits)
    with None Cons.IH [OF Cons.prems(1,2) rest] show ?thesis by (simp add: map_filter_simps)
  next
    case (Some e)
    then obtain sb where sb: "\<not> hidden s" "stat w (d @ ''/'' @ s) = Some sb" "S_ISDIR sb \<or> S_ISREG sb" "e = rdirent sb s"
      by (auto simp: shown_def split: if_splits option.splits)
    obtain l1 where l1: "put_entry B sb s l = Some l1" "built B l1 (es @ [rdirent sb s])"
      using put_entry_built [OF Cons.prems(1) B] ok sb(1) by blast
    have "list_entries w d B (s # names) l = list_entries w d B names l1"
      using ok sb l1(1) by auto
    with Some sb(4) Cons.IH [OF l1(2) B rest] show ?thesis by (simp add: map_filter_simps)
  qed
qed

text \<open>A listing is a sequence of full blocks and a last one.\<close>

definition listing_of :: "nat \<Rightarrow> char list \<Rightarrow> RDIRENT list \<Rightarrow> bool" where
  "listing_of B L es \<longleftrightarrow> (\<exists>bs ess lst cur. list_all2 (full_block B) bs ess \<and> last_block lst cur \<and>
     length lst \<le> B \<and> L = concat bs @ lst \<and> es = concat ess @ cur)"

lemma end_entry_built:
  assumes "built B l es" and B: "good_block B"
  shows "\<exists>L. end_entry B l = Some L \<and> listing_of B L es"
proof -
  have B': "B \<le> 1024" "64 \<le> B" using B by (auto simp: good_block_def)
  have len: "bufpos l \<le> B" "unat (rem l) = B - bufpos l" using assms(1) by (auto simp: built_def)
  have cond: "rem l < of_nat RDHSIZE \<longleftrightarrow> B - bufpos l < RDHSIZE"
    using len by (simp add: word_less_nat_alt)
  obtain l1 where l1: "(if rem l < of_nat RDHSIZE then flush_block B l else Some l) = Some l1" "built B l1 es"
    "bufpos l1 + 9 \<le> B"
  proof (cases "rem l < of_nat RDHSIZE")
    case True
    with flush_block_built [OF assms(1) B] that B' show ?thesis by auto
  next
    case False
    with that [of l] assms(1) cond len show ?thesis by simp
  qed
  obtain bs ess cur where l: "list_all2 (full_block B) bs ess" "blocks l1 = concat bs"
    "encodes (buffer l1) (bufpos l1) cur" "es = concat ess @ cur"
    using l1(2) by (auto simp: built_def)
  have len1: "length (buffer l1) = 1024" using l1(2) by (auto simp: built_def)
  let ?b = "memcpy (buffer l1) (bufpos l1 + 8) [RDTYPE_END]"
  have "end_entry B l = Some (concat bs @ take (bufpos l1 + 9) ?b)"
    using l1 l(2) len1 B' by (simp add: end_entry_def put_at_def append_dir_listing_def)
  moreover have "last_block (take (bufpos l1 + 9) ?b) cur"
    by (rule last_blockI [OF l(3)]) (use len1 l1(3) B' in simp)
  ultimately show ?thesis using l l1(3) by (force simp: listing_of_def)
qed

lemma build_dir_listing_decodes:
  assumes "list_dir w d = Some names" and B: "good_block (block_size conf)"
    and "\<forall>s \<in> set names. \<not> hidden s \<longrightarrow> NUL \<notin> set s \<and> length s + 10 \<le> block_size conf \<and> length d + length s + 2 \<le> NBSIZE"
  shows "\<exists>L. build_dir_listing conf w now d = Some \<lparr> listing = Some L, li_mtime = now \<rparr> \<and>
    listing_of (block_size conf) L (List.map_filter (shown w d) names)"
proof -
  let ?B = "block_size conf"
  let ?l0 = "\<lparr> buffer = replicate UBUF_SPACE NUL, bufpos = 0, rem = of_nat ?B, blocks = [] \<rparr>"
  have "?B \<le> 1024" by (simp add: block_size_def)
  then have "built ?B ?l0 []" by (auto simp: built_def intro!: exI [of _ "[]"])
  from list_entries_built [OF this B assms(3)] obtain l where
    l: "list_entries w d ?B names ?l0 = Some l" "built ?B l (List.map_filter (shown w d) names)" by auto
  from end_entry_built [OF l(2) B] obtain L where "end_entry ?B l = Some L" "listing_of ?B L (List.map_filter (shown w d) names)" by blast
  with l(1) assms(1) show ?thesis by (simp add: build_dir_listing_def)
qed

subsection \<open>Reading\<close>

text \<open>The reader has the octets of \<open>L\<close> from \<open>o\<close> up to its position in the buffer.\<close>

definition reading :: "nat \<Rightarrow> char list \<Rightarrow> nat \<Rightarrow> dir_reader \<Rightarrow> bool" where
  "reading B L start r \<longleftrightarrow> length (rd_buf r) = NBSIZE \<and> rd_pos r = start + rd_acc r \<and> rd_pos r \<le> length L \<and>
     rd_acc r \<le> NBSIZE \<and> take (rd_acc r) (rd_buf r) = take (rd_acc r) (drop start L) \<and>
     (rd_block r = min B (length L) \<or> rd_block r = 0 \<and> rd_pos r = 0 \<and> \<not> rd_eof r) \<and>
     (rd_eof r \<longrightarrow> rd_pos r = length L)"

lemma fill_buffer_reading:
  assumes "reading B L start r" and "0 < B" "B \<le> UBUF_SPACE" and "L \<noteq> []"
  shows "\<exists>r'. fill_buffer (serve_listing B L) r s = Some (Inr r', s) \<and> reading B L start r' \<and>
    rd_block r' = min B (length L) \<and> (rd_eof r' \<or> UBUF_MAXSPACE \<le> rd_acc r')"
  using assms(1)
proof (induction "length L - rd_pos r + (if rd_eof r then 0 else 1)" arbitrary: r rule: less_induct)
  case less
  show ?case
  proof (cases "rd_acc r < UBUF_MAXSPACE \<and> \<not> rd_eof r")
    case False
    have "fill_buffer (serve_listing B L) r s = Some (Inr r, s)" using False by (subst fill_buffer.simps) auto
    moreover have "rd_block r = min B (length L)" using less.prems assms(2-4) False by (auto simp: reading_def)
    ultimately show ?thesis using False less.prems by auto
  next
    case True
    define data where "data = take B (drop (rd_pos r) L)"
    let ?b = "memcpy (rd_buf r) (rd_acc r) data"
    let ?r = "r\<lparr> rd_buf := ?b, rd_acc := rd_acc r + length data, rd_pos := rd_pos r + length data,
      rd_block := (if rd_block r = 0 then length data else rd_block r),
      rd_eof := (rd_block r \<noteq> 0 \<and> length data < rd_block r) \<rparr>"
    have len: "length data = min B (length L - rd_pos r)" by (simp add: data_def)
    have fits: "rd_acc r + length data \<le> NBSIZE"
    proof -
      have "length data \<le> 1024" using len assms(3) by (simp add: min_def)
      with True show ?thesis by simp
    qed
    note inv = less.prems [unfolded reading_def]
    have "put_at (rd_buf r) (rd_acc r) data = Some ?b" using fits inv by (simp add: put_at_def)
    then have step: "fill_buffer (serve_listing B L) r s = fill_buffer (serve_listing B L) ?r s"
      using True by (subst fill_buffer.simps) (simp add: serve_listing_def data_def)
    have buf: "take (rd_acc r + length data) ?b = take (rd_acc r + length data) (drop start L)"
    proof -
      have "take (rd_acc r + length data) ?b = take (rd_acc r) (rd_buf r) @ data"
        using fits inv by (simp add: take_memcpy)
      moreover have "take (length data) (drop (start + rd_acc r) L) = data"
        using inv by (simp add: data_def min_def)
      ultimately show ?thesis using inv by (simp add: take_add add.commute)
    qed
    have inL: "rd_pos r + length data \<le> length L" proof -
      have "rd_pos r \<le> length L" using inv by blast
      moreover have "length data \<le> length L - rd_pos r" unfolding len by simp
      ultimately show ?thesis by linarith
    qed
    have pos: "length L = 0 \<longleftrightarrow> False" using assms(4) by simp
    have "reading B L start ?r"
      unfolding reading_def
    proof (intro conjI)
      show "rd_block ?r = min B (length L) \<or> rd_block ?r = 0 \<and> rd_pos ?r = 0 \<and> \<not> rd_eof ?r"
        using inv len assms(2) by auto
      show "rd_eof ?r \<longrightarrow> rd_pos ?r = length L" using inv len assms(2) by auto
    qed (use inv buf fits inL in simp_all)
    moreover have "length L - rd_pos ?r + (if rd_eof ?r then 0 else 1) < length L - rd_pos r + (if rd_eof r then 0 else 1)"
      using True inv len assms(2) pos by (cases "rd_pos r = length L") auto
    ultimately show ?thesis using less.hyps step by simp
  qed
qed

lemma read_blocks_decodes:
  assumes "reading B L start r" and B: "0 < B" "B \<le> UBUF_SPACE"
    and "list_all2 (full_block B) bs ess" "last_block lst cur" "length lst \<le> B"
    and "drop start L = concat bs @ lst" and "B \<le> length L \<or> bs = [] \<and> start = 0"
  shows "read_blocks (serve_listing B L) r dp s = Some (Inr (dp @ concat ess @ cur), s)"
  using assms(1,4,7,8)
proof (induction bs arbitrary: start r ess dp)
  case Nil
  have L: "L \<noteq> []" "drop start L = lst" using Nil.prems(3) assms(5) by (auto simp: last_block_def)
  obtain r' where r': "fill_buffer (serve_listing B L) r s = Some (Inr r', s)" "reading B L start r'"
    "rd_block r' = min B (length L)" "rd_eof r' \<or> UBUF_MAXSPACE \<le> rd_acc r'"
    using fill_buffer_reading [OF Nil.prems(1) B L(1), of s] by blast
  note inv = r'(2) [unfolded reading_def]
  have acc: "rd_acc r' = length lst"
  proof -
    have ll: "length L - start = length lst" using arg_cong [OF L(2), of length] by simp
    have "start + rd_acc r' \<le> length L" using inv by simp
    moreover have "rd_eof r' \<longrightarrow> start + rd_acc r' = length L" using inv by auto
    ultimately show ?thesis using r'(4) ll assms(6) B(2) by linarith
  qed
  have blk: "min (rd_acc r') (rd_block r') = length lst"
    using acc r'(3) Nil.prems(4) assms(6) L(2) by auto
  have "take (length lst) (rd_buf r') = lst" using inv acc L(2) by simp
  then have "block_entries (rd_buf r') 0 (int (min (rd_acc r') (rd_block r'))) dp = Some (True, dp @ cur)"
    using assms(5) blk by (simp add: last_block_def)
  with r'(1) Nil.prems(2) show ?case by (subst read_blocks.simps) simp
next
  case (Cons b bs)
  obtain es ess' where ess: "ess = es # ess'" "full_block B b es" "list_all2 (full_block B) bs ess'"
    using Cons.prems(2) by (auto simp: list_all2_Cons1)
  have lb: "length b = B" using ess(2) by (simp add: full_block_def)
  have L: "L \<noteq> []" "B \<le> length L" using Cons.prems(3,4) assms(5) by (auto simp: last_block_def)
  obtain r' where r': "fill_buffer (serve_listing B L) r s = Some (Inr r', s)" "reading B L start r'"
    "rd_block r' = min B (length L)" "rd_eof r' \<or> UBUF_MAXSPACE \<le> rd_acc r'"
    using fill_buffer_reading [OF Cons.prems(1) B L(1), of s] by blast
  note inv = r'(2) [unfolded reading_def]
  have blk: "rd_block r' = B" using r'(3) L(2) by simp
  have ld: "length (drop start L) = B + length (concat bs @ lst)" using Cons.prems(3) lb by simp
  have acc: "B \<le> rd_acc r'" using r'(4) inv B(2) ld by auto
  have "take B (rd_buf r') = take B (drop start L)"
    by (rule take_le_cong [OF _ acc]) (use inv in simp)
  then have "take B (rd_buf r') = b" using Cons.prems(3) lb by simp
  then have be: "block_entries (rd_buf r') 0 (int (min (rd_acc r') (rd_block r'))) dp = Some (False, dp @ es)"
    using ess(2) acc blk by (simp add: full_block_def min_def)
  let ?m = "memcpy (rd_buf r') 0 (take (rd_acc r' - B) (drop B (rd_buf r')))"
  let ?r = "r'\<lparr> rd_buf := ?m, rd_acc := rd_acc r' - B \<rparr>"
  have m: "length ?m = NBSIZE" "take (rd_acc r' - B) ?m = take (rd_acc r' - B) (drop (start + B) L)"
  proof -
    have l: "length (take (rd_acc r' - B) (drop B (rd_buf r'))) = rd_acc r' - B"
    proof -
      have "rd_acc r' - B \<le> NBSIZE - B" using inv by (intro diff_le_mono) blast
      then have "rd_acc r' - B \<le> length (drop B (rd_buf r'))" using inv by simp
      then show ?thesis by (simp only: length_take min.absorb2)
    qed
    then show "length ?m = NBSIZE" using inv by (simp add: memcpy_def)
    have "take (rd_acc r' - B) ?m = take (rd_acc r' - B) (drop B (rd_buf r'))" using l by (simp add: memcpy_def)
    also have "\<dots> = drop B (take (rd_acc r') (rd_buf r'))" using acc by (simp add: drop_take)
    also have "\<dots> = take (rd_acc r' - B) (drop (start + B) L)" using inv by (simp add: drop_take add.commute)
    finally show "take (rd_acc r' - B) ?m = take (rd_acc r' - B) (drop (start + B) L)" .
  qed
  have "reading B L (start + B) ?r"
    using m inv acc blk L(2) by (auto simp: reading_def)
  moreover have "drop (start + B) L = concat bs @ lst"
  proof -
    have "drop B (drop start L) = concat bs @ lst" using Cons.prems(3) lb by simp
    then show ?thesis by (simp add: add.commute)
  qed
  ultimately have "read_blocks (serve_listing B L) ?r (dp @ es) s = Some (Inr ((dp @ es) @ concat ess' @ cur), s)"
    using Cons.IH [OF _ ess(3)] L(2) by blast
  then show ?case
    using r'(1) be acc blk ess(1) by (subst read_blocks.simps) simp
qed

lemma get_dir_blk_decodes:
  assumes "listing_of B L es" and "0 < B" "B \<le> UBUF_SPACE"
  shows "get_dir_blk (serve_listing B L) s = Some (Inr es, s)"
proof -
  obtain bs ess lst cur where l: "list_all2 (full_block B) bs ess" "last_block lst cur" "length lst \<le> B"
    "L = concat bs @ lst" "es = concat ess @ cur" using assms(1) by (auto simp: listing_of_def)
  let ?r = "\<lparr> rd_buf = replicate NBSIZE NUL, rd_acc = 0, rd_pos = 0, rd_eof = False, rd_block = 0 \<rparr>"
  have "reading B L 0 ?r" by (simp add: reading_def)
  moreover have "B \<le> length L \<or> bs = [] \<and> (0::nat) = 0"
    using l by (cases bs) (auto simp: list_all2_Cons1 full_block_def)
  ultimately have "read_blocks (serve_listing B L) ?r [] s = Some (Inr ([] @ concat ess @ cur), s)"
    using l assms(2,3) by (intro read_blocks_decodes) auto
  then show ?thesis using l(5) by (simp add: get_dir_blk_def)
qed


definition listing_world :: world where
  "listing_world = \<lparr> entries = [([], 0), ([''pub''], 1), ([''pub'', ''a.txt''], 2), ([''pub'', ''.x''], 2), ([''pub'', ''sub''], 1)],
     inodes = (\<lambda>n. if n = 2 then \<lparr> kind = Regular ''hello'', mtime = 77, mode = 420 \<rparr>
                   else \<lparr> kind = Directory, mtime = 5, mode = 493 \<rparr>),
     next_ino = 3, streams = [], next_stream = 1, cwd = [], cur_umask = 63, clock = 100, room = 1000 \<rparr>"


end
