(* ===== verification/ServerInv.thy ===== *)
theory ServerInv
  imports Server
begin

text \<open>
  The invariant of the server's caches, and what the operations leave alone: frame lemmas for the
  operating system calls and the cache calls.
\<close>

named_theorems disk_simps \<open>calls that leave names and inodes alone\<close>

definition disk :: "world \<Rightarrow> (path \<times> nat) list \<times> (nat \<Rightarrow> inode)" where
  "disk w = (entries w, inodes w)"

subsection \<open>Calls that only read\<close>

lemma disk_simps_update [disk_simps, simp]:
  "disk (w\<lparr> cwd := p \<rparr>) = disk w" "disk (w\<lparr> streams := x \<rparr>) = disk w"
  "disk (w\<lparr> streams := x, next_stream := n \<rparr>) = disk w" "disk (set_stream w f st) = disk w"
  by (simp_all add: disk_def set_stream_def)

lemma disk_chdir [disk_simps]: "chdir w s = Some w' \<Longrightarrow> disk w' = disk w"
  by (auto simp: chdir_def split: Option.bind_splits if_splits)

lemma disk_chdir_to [disk_simps, simp]: "disk (chdir_to w s) = disk w"
  by (auto simp: chdir_to_def disk_simps split: option.splits)

lemma disk_go_home [disk_simps, simp]: "disk (go_home conf w) = disk w"
  by (simp add: go_home_def)

lemma disk_fclose [disk_simps]: "fclose w f = Some w' \<Longrightarrow> disk w' = disk w"
  by (auto simp: fclose_def split: option.splits)

lemma disk_fseek [disk_simps]: "fseek w f n = Some w' \<Longrightarrow> disk w' = disk w"
  by (auto simp: fseek_def split: Option.bind_splits)

lemma disk_fread [disk_simps]: "fread w f n = Some (d, w') \<Longrightarrow> disk w' = disk w"
  by (auto simp: fread_def Let_def split: Option.bind_splits content.splits)

lemma disk_fopen_read [disk_simps]: "fopen w s Read = Some (f, w') \<Longrightarrow> disk w' = disk w"
  by (auto simp: fopen_def new_stream_def split: Option.bind_splits if_splits)

lemma disk_read_file [disk_simps]: "read_file w s = Some (c, w') \<Longrightarrow> disk w' = disk w"
  by (auto simp: read_file_def disk_simps split: Option.bind_splits)

lemma disk_load_sized [disk_simps]: "load_sized_password w s = (x, w') \<Longrightarrow> disk w' = disk w"
  by (auto simp: load_sized_password_def load_password_def disk_simps split: option.splits if_splits)

lemma disk_load_readme [disk_simps]: "load_readme conf w di = (d, w') \<Longrightarrow> disk w' = disk w"
  by (auto simp: load_readme_def Let_def disk_simps split: option.splits)

lemma disk_load_access_rights [disk_simps]:
  assumes "load_access_rights conf dns di w = Some (d, w')"
  shows "disk w' = disk w"
proof -
  let ?di1 = "di\<lparr> owner := [], protection := DIR_LIST OR DIR_GET, public_password := None,
                     owner_password := None, readme := None \<rparr>"
  obtain d2 w2 where r: "load_readme conf w ?di1 = (d2, w2)" by fastforce
  obtain pw w4 where p: "load_sized_password w2 FSP_PASSWORD = (pw, w4)" by fastforce
  have w4: "disk w2 = disk w" "disk w4 = disk w" using disk_load_readme [OF r] disk_load_sized [OF p] by simp_all
  show ?thesis
    using assms r p w4
    by (auto simp: load_access_rights_def Let_def disk_read_file disk_load_sized split: if_splits option.splits prod.splits)
qed

subsection \<open>The caches\<close>

definition file_cache_wf :: "('e \<Rightarrow> world option \<Rightarrow> world option) \<Rightarrow> 'e file_cache \<Rightarrow> bool" where
  "file_cache_wf ed c \<longleftrightarrow> cache_wf c \<and> k_zero c = None \<and> k_destroy_func c = Some memory_only \<and>
     e_destroy_func c = Some ed"

definition server_wf :: "fsrv \<Rightarrow> bool" where
  "server_wf \<sigma> \<longleftrightarrow> file_cache_wf memory_only (dirlistcache \<sigma>) \<and> file_cache_wf memory_only (dirstatcache \<sigma>) \<and>
     file_cache_wf fpcache_free_entry (fpcache \<sigma>)"

lemma string_compare_equality: "key_equality string_compare None"
  by (auto simp: key_equality_def string_compare_def split: option.splits)

lemma init_caches_wf: "init_caches conf w = Some \<sigma> \<Longrightarrow> server_wf \<sigma> \<and> os \<sigma> = w"
  using string_compare_equality
  by (auto simp: init_caches_def f_cache_new_def f_cache_set_memory_profilers_def server_wf_def
      file_cache_wf_def cache_wf_def split: option.splits if_splits)

lemma file_cache_find: "file_cache_wf ed c \<Longrightarrow> f_cache_find c k = (r, c') \<Longrightarrow> file_cache_wf ed c'"
  using f_cache_find_frame [of c k r c'] f_cache_find_abs(1) [of c k r c'] by (simp add: file_cache_wf_def)

lemma file_cache_put:
  assumes "file_cache_wf ed c" "f_cache_put c k e s = (p, c', s')"
  shows "file_cache_wf ed c' \<and> s' = ed (e_head c ! p) s"
  using assms f_cache_put_frame [of c k e s p c' s'] f_cache_put_wf [of c k e s p c' s']
  by (simp add: file_cache_wf_def call_destroy_def memory_only_def)

lemma file_cache_delete:
  assumes "file_cache_wf ed c" "f_cache_delete_entry c q s = (d, c', s')"
  shows "file_cache_wf ed c' \<and> (s' = s \<or> (\<exists>i. q = Some i \<and> s' = ed (e_head c ! i) s))"
proof -
  have wf: "cache_wf c" using assms(1) by (simp add: file_cache_wf_def)
  show ?thesis
  proof (cases "\<exists>i. q = Some i \<and> i < cachesize c")
    case True
    then obtain i where i: "q = Some i" "i < cachesize c" by blast
    with f_cache_delete_frame [OF wf, of i s d c' s'] f_cache_delete_wf(1) [OF wf assms(2)] assms
    show ?thesis by (simp add: file_cache_wf_def call_destroy_def memory_only_def)
  next
    case False
    with f_cache_delete_out [OF wf] assms show ?thesis by (cases q) (auto simp: not_less)
  qed
qed

lemma cache_wf_set: "cache_wf (set_entry c p f) = cache_wf c"
  by (simp add: cache_wf_def set_entry_def cong: option.case_cong)

lemma file_cache_set: "file_cache_wf ed c \<Longrightarrow> file_cache_wf ed (set_entry c p f)"
  by (simp add: file_cache_wf_def cache_wf_set) (simp add: set_entry_def)

lemma server_wf_os [simp]: "server_wf (\<sigma>\<lparr> os := w \<rparr>) = server_wf \<sigma>"
  by (simp add: server_wf_def)

lemma server_wf_time [simp]: "server_wf (\<sigma>\<lparr> cur_time := t \<rparr>) = server_wf \<sigma>"
  by (simp add: server_wf_def)

text \<open>The calls of file.c: what they return keeps the invariant, and only the stream cache touches the
  operating system, by closing a stream.\<close>

lemma dirlist_find_wf: "server_wf \<sigma> \<Longrightarrow> dirlist_find k \<sigma> = (p, \<sigma>') \<Longrightarrow> server_wf \<sigma>' \<and> os \<sigma>' = os \<sigma>"
  by (auto simp: dirlist_find_def server_wf_def file_cache_find split: prod.splits)

lemma dirlist_put_wf: "server_wf \<sigma> \<Longrightarrow> dirlist_put k e \<sigma> = (p, \<sigma>') \<Longrightarrow> server_wf \<sigma>' \<and> os \<sigma>' = os \<sigma>"
  by (auto simp: dirlist_put_def server_wf_def dest: file_cache_put split: prod.splits)

lemma dirlist_delete_wf: "server_wf \<sigma> \<Longrightarrow> server_wf (dirlist_delete p \<sigma>) \<and> os (dirlist_delete p \<sigma>) = os \<sigma>"
  by (auto simp: dirlist_delete_def server_wf_def dest: file_cache_delete split: prod.splits)

lemma dirstat_find_wf: "server_wf \<sigma> \<Longrightarrow> dirstat_find k \<sigma> = (p, \<sigma>') \<Longrightarrow> server_wf \<sigma>' \<and> os \<sigma>' = os \<sigma>"
  by (auto simp: dirstat_find_def server_wf_def file_cache_find split: prod.splits)

lemma dirstat_put_wf: "server_wf \<sigma> \<Longrightarrow> dirstat_put k e \<sigma> = (p, \<sigma>') \<Longrightarrow> server_wf \<sigma>' \<and> os \<sigma>' = os \<sigma>"
  by (auto simp: dirstat_put_def server_wf_def dest: file_cache_put split: prod.splits)

lemma dirstat_delete_wf: "server_wf \<sigma> \<Longrightarrow> server_wf (dirstat_delete p \<sigma>) \<and> os (dirstat_delete p \<sigma>) = os \<sigma>"
  by (auto simp: dirstat_delete_def server_wf_def dest: file_cache_delete split: prod.splits)

lemma dirstat_set_wf [simp]: "server_wf \<sigma> \<Longrightarrow> server_wf (dirstat_set p f \<sigma>)" "os (dirstat_set p f \<sigma>) = os \<sigma>"
  by (simp_all add: dirstat_set_def server_wf_def file_cache_set)

lemma fp_find_wf: "server_wf \<sigma> \<Longrightarrow> fp_find k \<sigma> = (p, \<sigma>') \<Longrightarrow> server_wf \<sigma>' \<and> os \<sigma>' = os \<sigma>"
  by (auto simp: fp_find_def server_wf_def file_cache_find split: prod.splits)

lemma fpcache_free_disk: "fpcache_free_entry e (Some w) = Some w' \<Longrightarrow> disk w' = disk w"
  by (auto simp: fpcache_free_entry_def disk_fclose split: option.splits)

lemma fp_put_wf:
  assumes "server_wf \<sigma>" "fp_put k e \<sigma> = Some \<sigma>'"
  shows "server_wf \<sigma>' \<and> disk (os \<sigma>') = disk (os \<sigma>)"
proof -
  obtain p c v where c: "f_cache_put (fpcache \<sigma>) (Some k) e (Some (os \<sigma>)) = (p, c, v)" by (metis prod_cases3)
  have "file_cache_wf fpcache_free_entry (fpcache \<sigma>)" using assms(1) by (simp add: server_wf_def)
  note f = file_cache_put [OF this c]
  obtain w where w: "v = Some w" "\<sigma>' = \<sigma>\<lparr> fpcache := c, os := w \<rparr>"
    using assms(2) c by (auto simp: fp_put_def)
  have "disk w = disk (os \<sigma>)" using f w(1) fpcache_free_disk by metis
  then show ?thesis using assms(1) f w(2) by (simp add: server_wf_def)
qed

lemma fp_delete_wf:
  assumes "server_wf \<sigma>" "fp_delete p \<sigma> = Some \<sigma>'"
  shows "server_wf \<sigma>' \<and> disk (os \<sigma>') = disk (os \<sigma>)"
proof -
  obtain d c v where c: "f_cache_delete_entry (fpcache \<sigma>) p (Some (os \<sigma>)) = (d, c, v)" by (metis prod_cases3)
  have "file_cache_wf fpcache_free_entry (fpcache \<sigma>)" using assms(1) by (simp add: server_wf_def)
  note f = file_cache_delete [OF this c]
  obtain w where w: "v = Some w" "\<sigma>' = \<sigma>\<lparr> fpcache := c, os := w \<rparr>"
    using assms(2) c by (auto simp: fp_delete_def)
  have "disk w = disk (os \<sigma>)" using f w(1) fpcache_free_disk by (metis option.inject)
  then show ?thesis using assms(1) f w(2) by (simp add: server_wf_def)
qed

end
