(* ===== verification/Invariant.thy ===== *)
theory Invariant
  imports ServerInv
begin

text \<open>
  Invariants of the dispatcher. The locale \<open>dispatch_invariant\<close> is the contract between the dispatcher
  and the file operations: if every operation a command may use keeps a property of the server,
  the dispatcher keeps it; operations that write need to do so only if the server is not
  read-only. The contract is met by the file operations of the model for the property that the
  caches are well formed and, on a read-only server that keeps no listings on disk, that no name
  and no file has changed.
\<close>

subsection \<open>Operations that only read\<close>

definition still :: "(path \<times> nat) list \<times> (nat \<Rightarrow> inode) \<Rightarrow> fsrv \<Rightarrow> bool" where
  "still d \<sigma> \<longleftrightarrow> server_wf \<sigma> \<and> disk (os \<sigma>) = d"

lemma still_os: "still d \<sigma> \<Longrightarrow> disk w = disk (os \<sigma>) \<Longrightarrow> still d (\<sigma>\<lparr> os := w \<rparr>)"
  by (simp add: still_def)

lemma build_dirinfo_still:
  assumes "still d \<sigma>" "build_dirinfo conf dns work sd \<sigma> = Some (r, \<sigma>')"
  shows "still d \<sigma>'"
proof (cases "chdir (os \<sigma>) work")
  case None
  with assms show ?thesis by (simp add: build_dirinfo_def)
next
  case (Some w1)
  note w1 = Some disk_chdir [OF Some]
  show ?thesis
  proof (cases "getcwd w1 NBSIZE")
    case None
    with assms w1 show ?thesis by (auto simp: build_dirinfo_def intro!: still_os)
  next
    case (Some real)
    let ?nd = "zero_DIRINFO\<lparr> realname := real,
        di_mtime := (if use_directory_mtime conf then st_mtime sd else cur_time \<sigma>), lastcheck := cur_time \<sigma> \<rparr>"
    show ?thesis
    proof (cases "load_access_rights conf dns ?nd w1")
      case None
      with assms w1 Some show ?thesis by (auto simp: build_dirinfo_def Let_def split: if_splits intro!: still_os)
    next
      case (Some p)
      obtain nd w2 where p: "p = (nd, w2)" by (cases p)
      have w2: "disk w2 = disk (os \<sigma>)" using disk_load_access_rights [OF Some [unfolded p]] w1 by simp
      obtain q \<sigma>2 where q: "dirstat_put work nd (\<sigma>\<lparr> os := go_home conf w2 \<rparr>) = (q, \<sigma>2)" by fastforce
      have "still d (\<sigma>\<lparr> os := go_home conf w2 \<rparr>)" using assms(1) w2 by (auto intro!: still_os)
      then have "still d \<sigma>2" using dirstat_put_wf [OF _ q] by (auto simp: still_def)
      then show ?thesis
        using assms w1 \<open>getcwd w1 NBSIZE = Some real\<close> Some p q
        by (auto simp: build_dirinfo_def Let_def split: if_splits intro!: still_os)
    qed
  qed
qed

lemma check_directory_still:
  assumes "still d \<sigma>" "check_directory conf dns work \<sigma> = Some (r, \<sigma>')"
  shows "still d \<sigma>'"
proof -
  obtain p \<sigma>1 where p: "dirstat_find work \<sigma> = (p, \<sigma>1)" by fastforce
  have 1: "still d \<sigma>1" using dirstat_find_wf [OF _ p] assms(1) by (auto simp: still_def)
  then have 2: "still d (dirstat_delete q \<sigma>1)" "still d (dirstat_set i f \<sigma>1)" for q i f
    using dirstat_delete_wf [of \<sigma>1 q] by (auto simp: still_def)
  show ?thesis
    using assms(2) p 1 2 by (auto simp: check_directory_def Let_def split: if_splits option.splits dest: build_dirinfo_still)
qed

lemma validate_path_still:
  "still d \<sigma> \<Longrightarrow> validate_path conf dns b len want \<sigma> = Some (r, b', \<sigma>') \<Longrightarrow> still d \<sigma>'"
  by (auto simp: validate_path_def Let_def dest: check_directory_still split: sum.splits option.splits prod.splits)

lemma search_fpcache_still:
  "still d \<sigma> \<Longrightarrow> search_fpcache conf inet port fname \<sigma> = Some (p, \<sigma>') \<Longrightarrow> still d \<sigma>'"
  by (auto simp: search_fpcache_def still_def server_wf_def file_cache_wf_def cache_wf_def
      split: option.splits cong: option.case_cong)

lemma server_get_file_still:
  assumes "still d \<sigma>" "server_get_file conf pp inet port di \<sigma> = Some (r, \<sigma>')"
  shows "still d \<sigma>'"
proof -
  let ?fn = "realname (dirstat_at \<sigma> di) @ ''/'' @ f_ptr pp"
  obtain c \<sigma>1 where c: "search_fpcache conf inet port ?fn \<sigma> = Some (c, \<sigma>1)"
    using assms(2) by (auto simp: server_get_file_def Let_def split: option.splits if_splits)
  have 1: "still d \<sigma>1" by (rule search_fpcache_still [OF assms(1) c])
  have put: "still d \<sigma>2" if "fopen (os \<sigma>1) s Read = Some (f, w1)" "fp_put k e (\<sigma>1\<lparr> os := w1 \<rparr>) = Some \<sigma>2" for s f w1 k e \<sigma>2
    using fp_put_wf [OF _ that(2)] disk_fopen_read [OF that(1)] 1 by (auto simp: still_def)
  show ?thesis
    using assms(2) c 1
    by (auto simp: server_get_file_def Let_def fail_def split: option.splits if_splits Option.bind_splits dest: put)
qed

lemma load_listing_disk:
  "load_listing di w = Some (x, w') \<Longrightarrow> disk w' = disk w"
  by (auto simp: load_listing_def disk_simps split: option.splits if_splits Option.bind_splits)

lemma server_get_dir_still:
  assumes "still d \<sigma>" "\<not> use_prebuild_dirlists conf" "server_get_dir conf di \<sigma> = Some (r, \<sigma>')"
  shows "still d \<sigma>'"
proof -
  obtain p \<sigma>1 where p: "dirlist_find (realname di) \<sigma> = (p, \<sigma>1)" by fastforce
  have 1: "still d \<sigma>1" using dirlist_find_wf [OF _ p] assms(1) by (auto simp: still_def)
  then have 2: "still d (dirlist_delete q \<sigma>1)" for q
    using dirlist_delete_wf [of \<sigma>1 q] by (auto simp: still_def)
  have put: "still d \<sigma>3" if "dirlist_put k e \<sigma>2 = (q, \<sigma>3)" "still d \<sigma>2" for k e \<sigma>2 q \<sigma>3
    using dirlist_put_wf [OF _ that(1)] that(2) by (auto simp: still_def)
  show ?thesis
    using assms(2,3) p 1 2
    by (auto simp: server_get_dir_def Let_def split: option.splits if_splits Option.bind_splits prod.splits dest: put)
qed

subsection \<open>Operations that write\<close>

text \<open>They change the caches by the calls of file.c only, so the caches stay well formed.\<close>

lemma touch_dirinfo_wf [simp]: "server_wf \<sigma> \<Longrightarrow> server_wf (touch_dirinfo di \<sigma>)"
  by (simp add: touch_dirinfo_def)

lemma server_wf_li_mtime [simp]:
  "server_wf \<sigma> \<Longrightarrow> server_wf (\<sigma>\<lparr> os := w, dirlistcache := set_entry (dirlistcache \<sigma>) p f \<rparr>)"
  by (simp add: server_wf_def file_cache_set)

lemma server_get_dir_wf:
  assumes "server_wf \<sigma>" "server_get_dir conf di \<sigma> = Some (r, \<sigma>')"
  shows "server_wf \<sigma>'"
proof -
  obtain p \<sigma>1 where p: "dirlist_find (realname di) \<sigma> = (p, \<sigma>1)" by fastforce
  have 1: "server_wf \<sigma>1" using dirlist_find_wf [OF assms(1) p] by simp
  then have 2: "server_wf (dirlist_delete q \<sigma>1)" for q using dirlist_delete_wf by simp
  have put: "server_wf \<sigma>3" if "dirlist_put k e \<sigma>2 = (q, \<sigma>3)" "server_wf \<sigma>2" for k e \<sigma>2 q \<sigma>3
    using dirlist_put_wf [OF that(2,1)] by simp
  show ?thesis
    using assms(2) p 1 2
    by (auto simp: server_get_dir_def Let_def split: option.splits if_splits Option.bind_splits prod.splits dest: put)
qed

lemma server_del_file_wf: "server_wf \<sigma> \<Longrightarrow> server_del_file pp di \<sigma> = Some (r, \<sigma>') \<Longrightarrow> server_wf \<sigma>'"
  by (auto simp: server_del_file_def fail_def done_with_def split: option.splits if_splits)

lemma server_del_dir_wf: "server_wf \<sigma> \<Longrightarrow> server_del_dir conf pp di \<sigma> = Some (r, \<sigma>') \<Longrightarrow> server_wf \<sigma>'"
  by (auto simp: server_del_dir_def fail_def done_with_def Let_def split: option.splits if_splits)

lemma server_make_dir_wf: "server_wf \<sigma> \<Longrightarrow> server_make_dir conf dns pp inet di \<sigma> = Some (r, \<sigma>') \<Longrightarrow> server_wf \<sigma>'"
  by (auto simp: server_make_dir_def fail_def Let_def dest!: dirstat_put_wf [rotated]
      split: option.splits if_splits prod.splits)

lemma server_set_pro_wf: "server_wf \<sigma> \<Longrightarrow> server_set_pro conf di k0 k1 \<sigma> = Some (r, \<sigma>') \<Longrightarrow> server_wf \<sigma>'"
  by (auto simp: server_set_pro_def fail_def done_with_def Let_def split: option.splits if_splits)

lemma server_rename_wf: "server_wf \<sigma> \<Longrightarrow> server_rename src dest sdir tdir \<sigma> = Some (r, \<sigma>') \<Longrightarrow> server_wf \<sigma>'"
  by (auto simp: server_rename_def fail_def done_with_def split: option.splits if_splits)

lemma server_secure_file_wf:
  "server_wf \<sigma> \<Longrightarrow> server_secure_file conf pp inet port di \<sigma> = Some (r, \<sigma>') \<Longrightarrow> server_wf \<sigma>'"
  by (auto simp: server_secure_file_def fail_def done_with_def
      split: option.splits if_splits Option.bind_splits sum.splits prod.splits)

lemmas fp_put_keeps = fp_put_wf [THEN conjunct1]
lemmas fp_delete_keeps = fp_delete_wf [THEN conjunct1]

lemma server_grab_file_wf:
  assumes "server_wf \<sigma>" "server_grab_file conf inet port \<sigma> = Some (r, \<sigma>')"
  shows "server_wf \<sigma>'"
proof -
  have put: "fp_put k e (\<sigma>1\<lparr> os := w \<rparr>) = Some \<sigma>2 \<Longrightarrow> server_wf \<sigma>1 \<Longrightarrow> server_wf \<sigma>2" for k e \<sigma>1 w \<sigma>2
    by (rule fp_put_keeps) simp_all
  show ?thesis
    using assms by (auto simp: server_grab_file_def fail_def Let_def dest: fp_find_wf put
        split: option.splits if_splits Option.bind_splits prod.splits)
qed

lemma server_grab_done_wf:
  assumes "server_wf \<sigma>" "server_grab_done conf inet port \<sigma> = Some (r, \<sigma>')"
  shows "server_wf \<sigma>'"
  using assms by (auto simp: server_grab_done_def fail_def done_with_def Let_def dest: fp_find_wf fp_delete_keeps [rotated]
      split: option.splits if_splits Option.bind_splits prod.splits)

lemma server_install_wf:
  assumes "server_wf \<sigma>" "server_install conf pp inet port acc di s2 \<sigma> = Some (r, \<sigma>')"
  shows "server_wf \<sigma>'"
  using assms by (auto simp: server_install_def fail_def done_with_def Let_def dest: fp_find_wf fp_delete_keeps [rotated]
      split: option.splits if_splits Option.bind_splits prod.splits)

lemma open_upload_wf:
  assumes "server_wf \<sigma>" "open_upload tname pos len inet port \<sigma> = Some (r, \<sigma>')"
  shows "server_wf \<sigma>'"
proof -
  have put: "fp_put k e (\<sigma>\<lparr> os := w \<rparr>) = Some \<sigma>2 \<Longrightarrow> server_wf \<sigma>2" for k e w \<sigma>2
    by (rule fp_put_keeps) (simp_all add: assms(1))
  show ?thesis
    using assms by (auto simp: open_upload_def fail_def Let_def dest: put
        split: option.splits if_splits Option.bind_splits prod.splits)
qed

lemma write_upload_wf:
  assumes "server_wf \<sigma>" "write_upload tname data pos f c \<sigma> = Some (r, \<sigma>')"
  shows "server_wf \<sigma>'"
proof -
  have del: "fp_delete q (\<sigma>\<lparr> os := w \<rparr>) = Some \<sigma>2 \<Longrightarrow> server_wf \<sigma>2" "fp_delete q \<sigma> = Some \<sigma>2 \<Longrightarrow> server_wf \<sigma>2" for q w \<sigma>2
    by (rule fp_delete_keeps; simp add: assms(1))+
  show ?thesis
    using assms by (auto simp: write_upload_def fail_def Let_def dest: del
        split: option.splits if_splits Option.bind_splits prod.splits)
qed

lemma server_up_load_wf:
  assumes "server_up_load conf data pos inet port \<sigma> = Some q"
  shows "server_wf \<sigma> \<longrightarrow> server_wf (snd q)"
proof (rule server_up_load.raw_induct [where P = "\<lambda>_ _ _ _ _ \<sigma> (q :: (string + unit) \<times> fsrv). server_wf \<sigma> \<longrightarrow> server_wf (snd q)", OF _ assms])
  fix up_load conf data pos inet port \<sigma> q
  assume IH: "\<And>a data pos inet port c y. up_load a data pos inet port (c :: fsrv) = Some (y :: (string + unit) \<times> fsrv) \<Longrightarrow> server_wf c \<longrightarrow> server_wf (snd y)"
    and run: "upload_name conf inet port \<bind> (\<lambda>tname.
       (let (c, \<sigma>) = fp_find tname \<sigma> in
        (case c of
           Some i \<Rightarrow> Some (Inr (fp (fp_at \<sigma> i)), \<sigma>)
         | None \<Rightarrow> open_upload tname pos (length data) inet port \<sigma>) \<bind> (\<lambda>(r, \<sigma>1).
        (case r of
           Inl e \<Rightarrow> fail e \<sigma>1
         | Inr None \<Rightarrow> (if c = None then up_load conf data pos inet port \<sigma>1 else None)
         | Inr (Some f) \<Rightarrow> write_upload tname data pos f c \<sigma>1 \<bind> (\<lambda>(r2, \<sigma>2).
             (case r2 of
                Inl e \<Rightarrow> fail e \<sigma>2
              | Inr None \<Rightarrow> up_load conf data pos inet port \<sigma>2
              | Inr (Some _) \<Rightarrow> done_with \<sigma>2)))))) = Some q"
  show "server_wf \<sigma> \<longrightarrow> server_wf (snd q)"
  proof
    assume "server_wf \<sigma>"
    then have find: "fp_find s \<sigma> = (c, \<sigma>1) \<Longrightarrow> server_wf \<sigma>1" for s c \<sigma>1
      using fp_find_wf by blast
    from run show "server_wf (snd q)"
      by (auto simp: fail_def done_with_def dest!: find open_upload_wf [rotated] write_upload_wf [rotated] IH [THEN mp]
          split: option.splits if_splits Option.bind_splits prod.splits sum.splits)
  qed
qed

subsection \<open>The message buffer\<close>

text \<open>While a command is carried out, the buffer keeps its size and the request its sequence number, key
  field and command; the answer fits in the buffer and says which request it belongs to.\<close>

definition same_request :: "UBUF \<Rightarrow> UBUF \<Rightarrow> bool" where
  "same_request u ub \<longleftrightarrow> wf_ubuf ub \<and> bb_seq ub = bb_seq u \<and> bb_key ub = bb_key u \<and> cmd ub = cmd u"

fun answer_size :: "answer \<Rightarrow> nat" where
  "answer_size Silence = 0"
| "answer_size (Answer m n) = m + n"

definition answers :: "UBUF \<Rightarrow> answer \<Rightarrow> UBUF \<Rightarrow> bool" where
  "answers u a ub \<longleftrightarrow> wf_ubuf ub \<and> bb_seq ub = bb_seq u \<and> bb_key ub = bb_key u \<and>
     (cmd ub = cmd u \<or> cmd ub = CC_ERR) \<and> answer_size a \<le> UBUF_MAXSPACE"

lemma same_request_buf:
  "same_request u ub \<Longrightarrow> length b = length (buf ub) \<Longrightarrow> same_request u (ub\<lparr> buf := b \<rparr>)"
  by (simp add: same_request_def wf_ubuf_def)

lemma same_request_put_buf:
  "same_request u ub \<Longrightarrow> off + length xs \<le> UBUF_MAXSPACE \<Longrightarrow> same_request u (put_buf ub off xs)"
  by (simp add: same_request_def wf_ubuf_def put_buf_def)

lemma same_request_pos [simp]: "same_request u (ub\<lparr> bb_pos := x \<rparr>) = same_request u ub"
  by (simp add: same_request_def wf_ubuf_def)

lemma length_zero_at [simp]: "length (zero_at b is) = length b"
  by (induction "is" arbitrary: b) simp_all

lemma parse_path_length: "parse_path b len = Inr (pp, b') \<Longrightarrow> length b' = length b"
  by (auto simp: parse_path_def Let_def split: if_splits sum.splits)

lemma validate_path_length:
  "validate_path conf dns b len want \<sigma> = Some (r, b', \<sigma>') \<Longrightarrow> length b' = length b"
  by (auto simp: validate_path_def Let_def dest: parse_path_length split: sum.splits option.splits prod.splits)

lemma block_size_le: "block_size conf \<le> UBUF_SPACE"
  by (simp add: block_size_def)

subsection \<open>The contract between the dispatcher and the file operations\<close>

locale dispatch_invariant =
  fixes conf :: fsp_conf and dns :: resolver and J :: "fsrv \<Rightarrow> bool"
  assumes path: "J \<sigma> \<Longrightarrow> validate_path conf dns b len want \<sigma> = Some (r, b', \<sigma>') \<Longrightarrow> J \<sigma>'"
    and get_dir: "J \<sigma> \<Longrightarrow> server_get_dir conf (dirstat_at \<sigma> di) \<sigma> = Some (dl, \<sigma>') \<Longrightarrow> J \<sigma>'"
    and get_file: "J \<sigma> \<Longrightarrow> server_get_file conf pp inet port di \<sigma> = Some (f, \<sigma>') \<Longrightarrow> J \<sigma>'"
    and reading: "J \<sigma> \<Longrightarrow> disk w = disk (os \<sigma>) \<Longrightarrow> J (\<sigma>\<lparr> os := w \<rparr>)"
    and del_file: "\<not> read_only conf \<Longrightarrow> J \<sigma> \<Longrightarrow> server_del_file pp di \<sigma> = Some (u, \<sigma>') \<Longrightarrow> J \<sigma>'"
    and del_dir: "\<not> read_only conf \<Longrightarrow> J \<sigma> \<Longrightarrow> server_del_dir conf pp di \<sigma> = Some (u, \<sigma>') \<Longrightarrow> J \<sigma>'"
    and up_load: "\<not> read_only conf \<Longrightarrow> J \<sigma> \<Longrightarrow> server_up_load conf xs pos inet port \<sigma> = Some (u, \<sigma>') \<Longrightarrow> J \<sigma>'"
    and install: "\<not> read_only conf \<Longrightarrow> J \<sigma> \<Longrightarrow>
      server_install conf pp inet port acc di xs \<sigma> = Some (u, \<sigma>') \<Longrightarrow> J \<sigma>'"
    and make_dir: "\<not> read_only conf \<Longrightarrow> J \<sigma> \<Longrightarrow> server_make_dir conf dns pp inet di \<sigma> = Some (n, \<sigma>') \<Longrightarrow> J \<sigma>'"
    and set_pro: "\<not> read_only conf \<Longrightarrow> J \<sigma> \<Longrightarrow> server_set_pro conf di k0 k1 \<sigma> = Some (u, \<sigma>') \<Longrightarrow> J \<sigma>'"
    and secure_file: "\<not> read_only conf \<Longrightarrow> J \<sigma> \<Longrightarrow> server_secure_file conf pp inet port di \<sigma> = Some (u, \<sigma>') \<Longrightarrow> J \<sigma>'"
    and grab_file: "\<not> read_only conf \<Longrightarrow> J \<sigma> \<Longrightarrow> server_grab_file conf inet port \<sigma> = Some (f, \<sigma>') \<Longrightarrow> J \<sigma>'"
    and grab_done: "\<not> read_only conf \<Longrightarrow> J \<sigma> \<Longrightarrow> server_grab_done conf inet port \<sigma> = Some (u, \<sigma>') \<Longrightarrow> J \<sigma>'"
    and rename: "\<not> read_only conf \<Longrightarrow> J \<sigma> \<Longrightarrow> server_rename pp pp' di di' \<sigma> = Some (u, \<sigma>') \<Longrightarrow> J \<sigma>'"
begin

definition ensures :: "UBUF \<Rightarrow> result \<Rightarrow> bool" where
  "ensures u r \<longleftrightarrow> (\<forall>a ub \<sigma>. r = Some (a, ub, \<sigma>) \<longrightarrow> J \<sigma> \<and> answers u a ub)"

lemma ensures_None [simp]: "ensures u None"
  by (simp add: ensures_def)

lemma ensures_silence: "J \<sigma> \<Longrightarrow> same_request u ub \<Longrightarrow> ensures u (Some (Silence, ub, \<sigma>))"
  by (simp add: ensures_def answers_def same_request_def)

lemma ensures_reply: "J \<sigma> \<Longrightarrow> same_request u ub \<Longrightarrow> m + n \<le> UBUF_MAXSPACE \<Longrightarrow> ensures u (reply m n ub \<sigma>)"
  by (simp add: ensures_def answers_def same_request_def reply_def)

lemma ensures_refuse: "J \<sigma> \<Longrightarrow> same_request u ub \<Longrightarrow> ensures u (refuse msg ub \<sigma>)"
  by (auto simp: ensures_def answers_def same_request_def refuse_def send_error_def Let_def wf_ubuf_def put_buf_def)

lemma ensures_check_access:
  assumes "J \<sigma>" "same_request u ub" "\<And>pe. ensures u (rest pe)"
  shows "ensures u (check_access conf rq rights pp di ub \<sigma> rest)"
  using assms by (simp add: check_access_def Let_def ensures_silence ensures_refuse)

lemma ensures_with_path:
  assumes "J \<sigma>" "same_request u ub"
    and rest: "\<And>pp di ub' \<sigma>'. J \<sigma>' \<Longrightarrow> same_request u ub' \<Longrightarrow> ensures u (rest pp di ub' \<sigma>')"
  shows "ensures u (with_path conf dns rq want ub \<sigma> rest)"
proof (cases "validate_path conf dns (buf ub) (rq_l1 rq) want \<sigma>")
  case None
  then show ?thesis by (simp add: with_path_def)
next
  case (Some v)
  obtain r b \<sigma>1 where v: "v = (r, b, \<sigma>1)" by (cases v)
  note run = Some [unfolded v]
  have "J \<sigma>1" "same_request u (ub\<lparr> buf := b \<rparr>)"
    using path [OF assms(1) run] same_request_buf [OF assms(2) validate_path_length [OF run]] by simp_all
  then show ?thesis
    using run rest by (simp add: with_path_def Let_def ensures_refuse split: sum.splits prod.splits)
qed

lemma ensures_do_op:
  assumes "same_request u ub" and "\<And>r \<sigma>. op = Some (r, \<sigma>) \<Longrightarrow> J \<sigma>"
    and rest: "\<And>x \<sigma>. J \<sigma> \<Longrightarrow> ensures u (rest x \<sigma>)"
  shows "ensures u (do_op op ub rest)"
proof (cases op)
  case None
  then show ?thesis by (simp add: do_op_def)
next
  case (Some v)
  obtain r \<sigma> where v: "v = (r, \<sigma>)" by (cases v)
  have "J \<sigma>" by (rule assms(2) [OF Some [unfolded v]])
  then show ?thesis using Some v assms(1) rest by (simp add: do_op_def ensures_refuse split: sum.splits)
qed

lemmas ensures_intros = ensures_reply ensures_refuse ensures_check_access ensures_with_path ensures_do_op

lemma ensures_serve_file:
  assumes "J \<sigma>" "same_request u ub"
  shows "ensures u (serve_file conf ub f has_len lp \<sigma>)"
proof -
  have read: "length d \<le> k \<and> disk w' = disk w" if "fread w s k = Some (d, w')" for w s k d w'
    using that disk_fread [OF that] by (auto simp: fread_def Let_def split: Option.bind_splits content.splits)
  have seek: "disk w' = disk w" if "fseek w s k = Some w'" for w s k w'
    using that by (rule disk_fseek)
  show ?thesis
    using assms reading [OF assms(1)]
    by (auto simp: serve_file_def Let_def dest!: read seek
        split: Option.bind_splits intro!: ensures_reply same_request_put_buf)
qed

lemma ensures_version:
  "J \<sigma> \<Longrightarrow> same_request u ub \<Longrightarrow> ensures u (server_show_version conf version ub \<sigma>)"
  by (auto simp: server_show_version_def Let_def intro!: ensures_reply same_request_put_buf)

lemma ensures_protection:
  "J \<sigma> \<Longrightarrow> same_request u ub \<Longrightarrow> ensures u (send_protection d acc ub \<sigma>)"
  by (auto simp: send_protection_def server_get_pro_def Let_def split: option.splits
      intro!: ensures_reply same_request_put_buf)

lemma ensures_get_dir: "J \<sigma> \<Longrightarrow> same_request u ub \<Longrightarrow> ensures u (cmd_get_dir conf dns rq ub \<sigma>)"
  unfolding cmd_get_dir_def
  by (intro ensures_with_path ensures_check_access ensures_do_op; (assumption | erule (1) get_dir)?)
    (auto simp: Let_def split: Option.bind_splits intro!: ensures_reply ensures_refuse same_request_put_buf;
      use block_size_le [of conf] in simp)+

lemma ensures_get_file: "J \<sigma> \<Longrightarrow> same_request u ub \<Longrightarrow> ensures u (cmd_get_file conf dns rq ub \<sigma>)"
  unfolding cmd_get_file_def
  by (intro ensures_with_path ensures_check_access ensures_do_op ensures_serve_file; (assumption | erule (1) get_file))

lemma ensures_del_file: "J \<sigma> \<Longrightarrow> same_request u ub \<Longrightarrow> ensures u (cmd_del_file conf dns rq ub \<sigma>)"
  unfolding cmd_del_file_def
  by (auto intro!: ensures_intros dest: del_file)

lemma ensures_del_dir: "J \<sigma> \<Longrightarrow> same_request u ub \<Longrightarrow> ensures u (cmd_del_dir conf dns rq ub \<sigma>)"
  unfolding cmd_del_dir_def
  by (auto intro!: ensures_intros dest: del_dir)

lemma ensures_up_load: "J \<sigma> \<Longrightarrow> same_request u ub \<Longrightarrow> ensures u (cmd_up_load conf rq ub \<sigma>)"
  unfolding cmd_up_load_def
  by (auto intro!: ensures_intros dest: up_load)

lemma ensures_install: "J \<sigma> \<Longrightarrow> same_request u ub \<Longrightarrow> ensures u (cmd_install conf dns rq ub \<sigma>)"
  unfolding cmd_install_def Let_def
  by (auto intro!: ensures_intros dest: install)

lemma ensures_make_dir: "J \<sigma> \<Longrightarrow> same_request u ub \<Longrightarrow> ensures u (cmd_make_dir conf dns rq ub \<sigma>)"
  unfolding cmd_make_dir_def Let_def
  by (auto intro!: ensures_intros ensures_protection dest: make_dir)

lemma ensures_get_pro: "J \<sigma> \<Longrightarrow> same_request u ub \<Longrightarrow> ensures u (cmd_get_pro conf dns rq ub \<sigma>)"
  unfolding cmd_get_pro_def
  by (auto intro!: ensures_intros ensures_protection)

lemma ensures_set_pro: "J \<sigma> \<Longrightarrow> same_request u ub \<Longrightarrow> ensures u (cmd_set_pro conf dns rq ub \<sigma>)"
  unfolding cmd_set_pro_def
  by (auto intro!: ensures_intros ensures_protection dest: set_pro)

lemma ensures_grab:
  assumes "\<not> read_only conf" "J \<sigma>" "same_request u ub"
  shows "ensures u (do_op (server_grab_file conf inet port \<sigma>) ub (\<lambda>f \<sigma>. do {
                 (a, ub', \<sigma>') \<leftarrow> serve_file conf ub f has_len lp \<sigma>;
                 s \<leftarrow> f;
                 w \<leftarrow> fclose (os \<sigma>') s;
                 Some (a, ub', \<sigma>'\<lparr> os := w \<rparr>) }))"
proof (rule ensures_do_op [OF assms(3)])
  show "J \<sigma>'" if "server_grab_file conf inet port \<sigma> = Some (r, \<sigma>')" for r \<sigma>'
    by (rule grab_file [OF assms(1,2) that])
next
  fix f \<sigma>1
  assume "J \<sigma>1"
  from ensures_serve_file [OF this assms(3), of f has_len lp]
  show "ensures u (do { (a, ub', \<sigma>') \<leftarrow> serve_file conf ub f has_len lp \<sigma>1; s \<leftarrow> f;
      w \<leftarrow> fclose (os \<sigma>') s; Some (a, ub', \<sigma>'\<lparr> os := w \<rparr>) })"
    by (auto simp: ensures_def disk_fclose split: Option.bind_splits intro: reading)
qed

lemma ensures_grab_file: "J \<sigma> \<Longrightarrow> same_request u ub \<Longrightarrow> ensures u (cmd_grab_file conf dns rq ub \<sigma>)"
  unfolding cmd_grab_file_def Let_def
  by (cases "read_only conf \<or> \<not> grab_enabled conf")
    (auto intro!: ensures_refuse ensures_check_access ensures_with_path ensures_grab ensures_do_op [where op = "server_secure_file _ _ _ _ _ _"]
      dest: secure_file)

lemma ensures_grab_done: "J \<sigma> \<Longrightarrow> same_request u ub \<Longrightarrow> ensures u (cmd_grab_done conf dns rq ub \<sigma>)"
  unfolding cmd_grab_done_def
  by (auto intro!: ensures_intros dest: grab_done)

lemma path_and_length:
  "validate_path conf dns b len want \<sigma> = Some (r, b', \<sigma>') \<Longrightarrow> J \<sigma> \<Longrightarrow> J \<sigma>' \<and> length b' = length b"
  by (simp add: path validate_path_length)

lemma ensures_stat:
  assumes "J \<sigma>" "same_request u ub"
  shows "ensures u (cmd_stat conf dns garbage ub \<sigma>)"
proof -
  have stat: "J \<sigma>' \<and> length b = length (buf ub)"
    if r: "server_stat conf dns garbage (buf ub) len \<sigma> = Some (b, \<sigma>')" for len b \<sigma>'
  proof -
    have "9 \<le> length (buf ub)" using assms(2) by (simp add: same_request_def wf_ubuf_def)
    then show ?thesis
      using r assms(1)
      by (auto simp: server_stat_def Let_def dest!: path_and_length parse_path_length
          split: if_splits Option.bind_splits sum.splits option.splits prod.splits)
  qed
  show ?thesis
    using assms by (auto simp: cmd_stat_def dest!: stat split: Option.bind_splits intro!: ensures_reply same_request_buf)
qed

lemma rename_target_keeps:
  assumes "J \<sigma>" "same_request u ub" "rename_target conf dns rq ub \<sigma> = Some (r, ub', \<sigma>')"
  shows "J \<sigma>' \<and> same_request u ub'"
proof -
  have len: "rq_l1 rq \<le> length (buf ub)" if "rq_l2 rq \<noteq> 0" "\<not> rq_l2 rq > length (buf ub) - rq_l1 rq"
    using that by simp
  show ?thesis
    using assms len
    by (auto simp: rename_target_def Let_def dest: path validate_path_length
        split: if_splits Option.bind_splits prod.splits intro!: same_request_buf)
qed

lemma ensures_rename:
  assumes "J \<sigma>" "same_request u ub"
  shows "ensures u (cmd_rename conf dns rq ub \<sigma>)"
proof -
  have finish: "ensures u (reply 0 0 (ub\<lparr> bb_pos := (0, 0, 0, 0) \<rparr>) \<sigma>)" if "J \<sigma>" "same_request u ub" for ub \<sigma>
    using that by (intro ensures_reply) simp_all
  have target: "ensures u (rename_target conf dns rq ub \<sigma> \<bind> rest)"
    if "J \<sigma>" "same_request u ub" "\<And>r ub \<sigma>. J \<sigma> \<Longrightarrow> same_request u ub \<Longrightarrow> ensures u (rest (r, ub, \<sigma>))" for ub \<sigma> rest
    using that by (cases "rename_target conf dns rq ub \<sigma>") (auto dest: rename_target_keeps)
  show ?thesis
    unfolding cmd_rename_def Let_def
    using assms
    by (auto intro!: finish ensures_refuse ensures_with_path ensures_check_access target split: sum.splits)
      (auto intro!: ensures_do_op finish dest: rename)
qed

text \<open>The dispatcher keeps what the operations keep, and its answer belongs to the request.\<close>

lemma dispatch:
  assumes "J \<sigma>" "wf_ubuf ub"
    and run: "server_process_packet conf dns version garbage newkey bytes ub old hp sin_port \<sigma> = Some (a, ub', \<sigma>', hp')"
  shows "J \<sigma>' \<and> answers (ub\<lparr> bb_key := BB_WRITE2 (next_key hp') \<rparr>) a ub'"
proof -
  let ?h = "next_keys old newkey hp"
  let ?u = "ub\<lparr> bb_key := BB_WRITE2 (next_key ?h) \<rparr>"
  have u: "same_request ?u ?u" using assms(2) by (simp add: same_request_def wf_ubuf_def)
  note each = ensures_reply ensures_refuse ensures_silence ensures_version ensures_get_dir ensures_get_file
    ensures_del_file ensures_del_dir ensures_up_load ensures_install ensures_make_dir ensures_get_pro
    ensures_set_pro ensures_grab_file ensures_grab_done ensures_stat ensures_rename
  have result: "J \<sigma>' \<and> answers (ub\<lparr> bb_key := BB_WRITE2 (next_key hp') \<rparr>) a ub'"
    if "map_option (\<lambda>(a, ub', \<sigma>'). (a, ub', \<sigma>', h)) r = Some (a, ub', \<sigma>', hp')" "ensures ?u r" "next_key h = next_key ?h" for r h
    using that by (auto simp: ensures_def)
  show ?thesis
    by (rule result [OF run [unfolded server_process_packet_def Let_def]])
      (simp_all add: each [OF assms(1) u])
qed

end

subsection \<open>The file operations meet the contract\<close>

definition server_stable :: "fsp_conf \<Rightarrow> (path \<times> nat) list \<times> (nat \<Rightarrow> inode) \<Rightarrow> fsrv \<Rightarrow> bool" where
  "server_stable conf d \<sigma> \<longleftrightarrow>
     server_wf \<sigma> \<and> (read_only conf \<and> \<not> use_prebuild_dirlists conf \<longrightarrow> disk (os \<sigma>) = d)"

lemma stable_still: "server_stable conf d \<sigma> \<Longrightarrow> still (disk (os \<sigma>)) \<sigma>"
  by (simp add: server_stable_def still_def)

lemma still_stable: "server_stable conf d \<sigma> \<Longrightarrow> still (disk (os \<sigma>)) \<sigma>' \<Longrightarrow> server_stable conf d \<sigma>'"
  by (auto simp: server_stable_def still_def)

lemma writing_stable: "\<not> read_only conf \<Longrightarrow> server_stable conf d \<sigma> = server_wf \<sigma>"
  by (simp add: server_stable_def)

lemma server_get_dir_stable:
  assumes "server_stable conf d \<sigma>" "server_get_dir conf di \<sigma> = Some (dl, \<sigma>')"
  shows "server_stable conf d \<sigma>'"
proof (cases "use_prebuild_dirlists conf")
  case True
  then show ?thesis using assms server_get_dir_wf by (auto simp: server_stable_def)
next
  case False
  then show ?thesis using server_get_dir_still [OF stable_still False] assms still_stable by blast
qed

interpretation file_ops: dispatch_invariant conf dns "server_stable conf d" for conf dns d
proof (unfold_locales, goal_cases)
  case (1 \<sigma> b len want r b' \<sigma>')
  then show ?case using validate_path_still [OF stable_still] still_stable by blast
next
  case (2 \<sigma> di dl \<sigma>')
  then show ?case by (rule server_get_dir_stable)
next
  case (3 \<sigma> pp inet port di f \<sigma>')
  then show ?case using server_get_file_still [OF stable_still] still_stable by blast
next
  case (4 \<sigma> w)
  then show ?case by (simp add: server_stable_def)
qed (auto simp: writing_stable intro: server_del_file_wf server_del_dir_wf server_install_wf server_make_dir_wf
    server_set_pro_wf server_secure_file_wf server_grab_file_wf server_grab_done_wf server_rename_wf
    dest: server_up_load_wf)

lemmas dispatcher_keeps_stable = file_ops.dispatch [THEN conjunct1]
lemmas dispatcher_answers = file_ops.dispatch [THEN conjunct2]

end
