(* ===== verification/Loop.thy ===== *)
theory Loop
  imports Invariant DemoSite
begin

text \<open>
  \<open>server_loop\<close> and \<open>server_reply\<close> of \<^verbatim>\<open>server/server.c\<close> as a whole: the variables that live
  from one datagram to the next (\<open>serving\<close>), one turn of the loop (\<open>server_step\<close>), and the runs of
  the server as an inductive relation. What a turn gets from outside is an \<open>incoming\<close>: the result of
  \<open>recvfrom\<close>, the port of the sender, the time, the random number for the next key and the contents
  of the uninitialised size field of a status reply. Signals and the dumping of tables are left out.
\<close>

record serving =
  server :: fsrv
  htable :: htab
  message :: UBUF
  peer :: u32
  peer_port :: u16
  thc_table :: thc_state

record incoming =
  ev_received :: received
  ev_port :: u16
  ev_time :: time
  ev_key :: u16
  ev_stack :: nat

text \<open>What a turn does: undefined behaviour, the endless wait for throughput, the end of the program, or
  the next turn, with the datagram sent if there is one.\<close>

datatype turn = Undefined | Hang | Exit nat | Next "byte list option" serving

definition server_reply :: "fsp_conf \<Rightarrow> nat \<Rightarrow> nat \<Rightarrow> serving \<Rightarrow> turn" where
  "server_reply conf len1 len2 s =
     (if len1 + len2 > UBUF_MAXSPACE then Undefined
      else
        (let p = reply_packet (message s) len1 len2;
             ub = (message s)\<lparr> bb_len := BB_WRITE2 (of_nat len1), ub_sum := p ! 1 \<rparr>
         in (case throttle (maxthcallowed conf) (cur_time (server s)) (len1 + len2 + UBUF_HSIZE) (thc_table s) of
               None \<Rightarrow> Hang
             | Some t \<Rightarrow> Next (Some p) (s\<lparr> message := ub, thc_table := t \<rparr>))))"

definition deliver :: "fsp_conf \<Rightarrow> answer \<Rightarrow> serving \<Rightarrow> turn" where
  "deliver conf a s = (case a of Silence \<Rightarrow> Next None s | Answer m n \<Rightarrow> server_reply conf m n s)"

text \<open>The clock is read once the sender is known to be served.\<close>

definition reads_clock ::
  "fsp_conf \<Rightarrow> reverse_resolver \<Rightarrow> IPrange list \<Rightarrow> UBUF \<Rightarrow> nat \<Rightarrow> u32 \<Rightarrow> htab \<Rightarrow> bool" where
  "reads_clock conf rdns iptab rb bytes addr tab0 \<longleftrightarrow>
     length_ok rb bytes \<and>
     (let ir = host_verdict conf iptab addr; letter = (if ir = [] then NUL else hd ir)
      in letter = CHR ''N'' \<or> letter = CHR ''D'' \<and> cmd rb = CC_BYE) \<and>
     (let (hp, tab) = find_host (no_unnamed conf) rdns tab0 addr in \<not> (hostname (tab ! hp) = None \<and> no_unnamed conf))"

definition server_step ::
  "fsp_conf \<Rightarrow> reverse_resolver \<Rightarrow> resolver \<Rightarrow> IPrange list \<Rightarrow> string \<Rightarrow> incoming \<Rightarrow> serving \<Rightarrow> turn" where
  "server_step conf rdns dns iptab version ev s =
     (let (v, rb, bytes, from, tab) =
            server_receive conf rdns iptab (ev_time ev) (ev_received ev) (message s) (peer s) (htable s);
          now = (if reads_clock conf rdns iptab rb bytes from (htable s) then ev_time ev else cur_time (server s));
          \<sigma> = (server s)\<lparr> os := (os (server s))\<lparr> clock := ev_time ev \<rparr>, cur_time := now \<rparr>;
          port = (case ev_received ev of Datagram _ _ \<Rightarrow> ev_port ev | Recv_failed \<Rightarrow> peer_port s);
          s1 = s\<lparr> server := \<sigma>, htable := tab, message := rb, peer := from, peer_port := port \<rparr>
      in (case v of
            Ignored \<Rightarrow> Next None s1
          | Illegal_host_type \<Rightarrow> Exit 99
          | Out_of_bounds \<Rightarrow> Undefined
          | Error_reply m \<Rightarrow>
              (case send_error rb m of
                 None \<Rightarrow> Undefined
               | Some (a, ub) \<Rightarrow> deliver conf a (s1\<lparr> message := ub \<rparr>))
          | Accepted old i \<Rightarrow>
              (case server_process_packet conf dns version (ev_stack ev) (ev_key ev) bytes rb old (tab ! i) port \<sigma> of
                 None \<Rightarrow> Undefined
               | Some (a, ub, \<sigma>', hp) \<Rightarrow>
                   deliver conf a (s1\<lparr> server := \<sigma>', htable := tab[i := hp], message := ub \<rparr>))))"

text \<open>Senders are not the two addresses the host table uses as sentinels, which no datagram on the
  Internet comes from. \<open>from\<close>, uninitialised before the first datagram, is assumed to hold such an
  address too.\<close>

fun ev_ok :: "incoming \<Rightarrow> bool" where
  "ev_ok ev = (case ev_received ev of Datagram _ addr \<Rightarrow> client_addr addr | Recv_failed \<Rightarrow> True)"

text \<open>The state in which \<open>server_loop\<close> is entered.\<close>

definition server_starts :: "fsp_conf \<Rightarrow> world \<Rightarrow> serving \<Rightarrow> bool" where
  "server_starts conf w s \<longleftrightarrow> init_caches conf w = Some (server s) \<and> htable s = init_htab \<and>
     wf_ubuf (message s) \<and> client_addr (peer s) \<and> (\<exists>now. thc_table s = thc_init now)"

inductive serves ::
  "fsp_conf \<Rightarrow> reverse_resolver \<Rightarrow> resolver \<Rightarrow> IPrange list \<Rightarrow> string \<Rightarrow> serving \<Rightarrow>
    (incoming \<times> byte list option) list \<Rightarrow> serving \<Rightarrow> bool"
  for conf :: fsp_conf and rdns :: reverse_resolver and dns :: resolver and iptab :: "IPrange list" and version :: string and s :: serving
where
  waiting: "serves conf rdns dns iptab version s [] s"
| turn: "serves conf rdns dns iptab version s es s' \<Longrightarrow> ev_ok ev \<Longrightarrow>
     server_step conf rdns dns iptab version ev s' = Next out s'' \<Longrightarrow>
     serves conf rdns dns iptab version s (es @ [(ev, out)]) s''"

inductive_cases serves_NilE: "serves conf rdns dns iptab version s [] s'"
inductive_cases serves_snocE: "serves conf rdns dns iptab version s (es @ [e]) s'"

subsection \<open>One turn\<close>

definition serving_ok :: "fsp_conf \<Rightarrow> (path \<times> nat) list \<times> (nat \<Rightarrow> inode) \<Rightarrow> serving \<Rightarrow> bool" where
  "serving_ok conf d s \<longleftrightarrow> server_stable conf d (server s) \<and> htab_inv (htable s) \<and> wf_ubuf (message s) \<and>
     client_addr (peer s) \<and> length (fst (thc_table s)) = THCCOUNT"

text \<open>A reply to a datagram: it passes the checks of the client, its length field does not exceed it, and it
  carries the sequence number of the request and its command or the command of an error.\<close>

definition reply_to :: "byte list \<Rightarrow> byte list \<Rightarrow> bool" where
  "reply_to d p \<longleftrightarrow> client_check p \<and> UBUF_HSIZE \<le> length p \<and> length p \<le> UBUF_HSIZE + UBUF_MAXSPACE \<and>
     UBUF_HSIZE + unat (BB_READ2 (p ! 6, p ! 7)) \<le> length p \<and>
     p ! 4 = d ! 4 \<and> p ! 5 = d ! 5 \<and> (p ! 0 = d ! 0 \<or> p ! 0 = CC_ERR)"

lemma length_thc_down: "length thc = THCCOUNT \<Longrightarrow> length (thc_down k thc) = THCCOUNT"
  by (induction k arbitrary: thc) auto

lemma length_throttle:
  assumes "length (fst s) = THCCOUNT" "throttle limit now n s = Some s'"
  shows "length (fst s') = THCCOUNT"
proof -
  have "length (fst (thc_shift now s)) = THCCOUNT"
    using assms(1) by (auto simp: thc_shift_def length_thc_down split: prod.splits)
  then show ?thesis
    using assms throttle_eq [of limit now n s] by (cases "limit = 0") (auto simp: throttle_def split: if_splits)
qed

lemma header_octets:
  assumes "take 12 p = take 12 (ubuf_octets u)" "12 \<le> length p"
  shows "p ! 0 = cmd u \<and> (p ! 4, p ! 5) = bb_seq u \<and> (p ! 6, p ! 7) = bb_len u"
proof -
  have nth: "p ! i = ubuf_octets u ! i" if "i < 12" for i
    using arg_cong [OF assms(1), of "\<lambda>x. x ! i"] that by simp
  obtain k1 k2 s1 s2 l1 l2 where f: "bb_key u = (k1, k2)" "bb_seq u = (s1, s2)" "bb_len u = (l1, l2)"
    by (metis prod.collapse)
  show ?thesis using nth [of 0] nth [of 4] nth [of 5] nth [of 6] nth [of 7] by (simp add: ubuf_octets_def f)
qed

lemma reply_packet_header:
  assumes "wf_ubuf ub" "m + n \<le> UBUF_MAXSPACE"
  defines "p \<equiv> reply_packet ub m n"
  shows "client_check p" "length p = m + n + UBUF_HSIZE"
    "p ! 0 = cmd ub \<and> (p ! 4, p ! 5) = bb_seq ub \<and> (p ! 6, p ! 7) = BB_WRITE2 (of_nat m)"
proof -
  define u where "u = ub\<lparr> bb_len := BB_WRITE2 (of_nat m) \<rparr>"
  define bs where "bs = take (m + n + UBUF_HSIZE) (ubuf_octets u)"
  have p: "p = server_seal bs" by (simp add: p_def reply_packet_def bs_def u_def)
  have len: "length bs = m + n + UBUF_HSIZE" using assms(1,2) by (simp add: bs_def u_def wf_ubuf_def)
  then show c: "client_check p" "length p = m + n + UBUF_HSIZE"
    using down.check_seal [of bs] down.length_seal [of bs] by (simp_all add: p)
  obtain w where w: "p = take (m + n + UBUF_HSIZE) (ubuf_octets (u\<lparr> ub_sum := w \<rparr>))"
    using sealed_prefix [of server_seal bs "m + n + UBUF_HSIZE" u] down.length_seal down.seal_frame assms(1,2)
    by (auto simp: bs_def p u_def wf_ubuf_def)
  have "take 12 p = take 12 (ubuf_octets (u\<lparr> ub_sum := w \<rparr>))" unfolding w by (simp add: min_def)
  from header_octets [OF this] c show "p ! 0 = cmd ub \<and> (p ! 4, p ! 5) = bb_seq ub \<and> (p ! 6, p ! 7) = BB_WRITE2 (of_nat m)"
    by (simp add: u_def)
qed

lemma deliver_keeps:
  assumes "deliver conf a s = Next out s'" "wf_ubuf (message s)" "length (fst (thc_table s)) = THCCOUNT"
  shows "server s' = server s \<and> htable s' = htable s \<and> peer s' = peer s \<and> wf_ubuf (message s') \<and>
    length (fst (thc_table s')) = THCCOUNT \<and>
    (\<forall>p. out = Some p \<longrightarrow> (\<exists>m n. a = Answer m n \<and> m + n \<le> UBUF_MAXSPACE \<and> p = reply_packet (message s) m n))"
  using assms by (auto simp: deliver_def server_reply_def Let_def wf_ubuf_def
      split: answer.splits if_splits option.splits dest!: length_throttle [rotated])

lemma answer_is_reply:
  assumes "wf_ubuf ub" "m + n \<le> UBUF_MAXSPACE" "bb_seq ub = (d ! 4, d ! 5)" "cmd ub = d ! 0 \<or> cmd ub = CC_ERR"
  shows "reply_to d (reply_packet ub m n)"
proof -
  have "m < 65536" using assms(2) by simp
  then have "unat (of_nat m :: u16) = m" by (simp add: unat_u16_of_nat)
  then show ?thesis
    using reply_packet_header [OF assms(1,2)] assms(2-4) by (auto simp: reply_to_def)
qed

lemma recv_into_wf: "wf_ubuf rb \<Longrightarrow> length bs \<le> UBUF_HSIZE + UBUF_MAXSPACE \<Longrightarrow> wf_ubuf (recv_into rb bs)"
  by (simp add: wf_ubuf_def recv_into_def Let_def)

lemma recv_into_header:
  "12 \<le> length bs \<Longrightarrow> bb_seq (recv_into rb bs) = (bs ! 4, bs ! 5) \<and> cmd (recv_into rb bs) = bs ! 0"
  by (auto simp: recv_into_def Let_def nth_append)

text \<open>What the filter leaves to the dispatcher.\<close>

lemma server_filter_keeps:
  assumes "htab_inv tab" "client_addr addr" "server_filter conf rdns iptab now rb bytes addr tab = (v, tab')"
  shows "htab_inv tab'" "v \<noteq> Ignored \<longrightarrow> length_ok rb bytes" "v = Accepted old i \<Longrightarrow> slot_of tab' i addr"
proof -
  have f: "v \<noteq> Ignored \<longrightarrow> length_ok rb bytes"
    and r: "tab' = tab \<and> (\<forall>old hp. v \<noteq> Accepted old hp) \<or> filter_session conf rdns now rb bytes addr tab = (v, tab')"
    using assms(3) by (auto simp: server_filter_def Let_def split: if_splits)
  show "v \<noteq> Ignored \<longrightarrow> length_ok rb bytes" by (rule f)
  show "htab_inv tab'"
    using r assms(1) filter_session_cases(1) [OF assms(1,2)] by auto
  show "slot_of tab' i addr" if v: "v = Accepted old i"
  proof -
    from r v have fs: "filter_session conf rdns now rb bytes addr tab = (v, tab')" by auto
    obtain hp t where h: "find_host (no_unnamed conf) rdns tab addr = (hp, t)" by fastforce
    note own = hosts.find_own [OF assms(1,2) h]
    let ?c = "session_check conf now (BB_READ2 (bb_key rb)) (t ! hp)"
    have run: "(case ?c of None \<Rightarrow> (Ignored, t)
        | Some (old, e) \<Rightarrow>
            (let tab' = t[hp := e\<lparr> last_acc := now, active := True \<rparr>] in
             if bytes > UBUF_HSIZE + UBUF_MAXSPACE then (Out_of_bounds, tab')
             else if \<not> server_check (take bytes (ubuf_octets rb)) then (Ignored, tab')
             else (Accepted old hp, tab'))) = (Accepted old i, tab')"
      using fs unfolding filter_session_def h v Let_def by (simp split: if_splits)
    obtain q where q: "?c = Some q" using run by (cases ?c) simp_all
    obtain ol e where q': "q = (ol, e)" by (cases q)
    have eq: "ol = old \<and> hp = i \<and> t[hp := e\<lparr> last_acc := now, active := True \<rparr>] = tab'"
      using run unfolding q q' by (simp add: Let_def split: if_splits; elim conjE; simp only: simp_thms)
    have e: "?c = Some (old, e)" using q eq by (simp only: q')
    note e2 = eq [THEN conjunct2, THEN conjunct2, symmetric] eq [THEN conjunct2, THEN conjunct1, symmetric]
    have "inet_num (e\<lparr> last_acc := now, active := True \<rparr>) = addr"
      using session_check_inet [OF e] own by simp
    from hosts.set_own [OF own [THEN conjunct1] own [THEN conjunct2, THEN conjunct1] this]
    show ?thesis unfolding e2 by simp
  qed
qed

lemma process_packet_inet:
  assumes "server_process_packet conf dns version garbage newkey bytes ub old hp sin_port \<sigma> = Some (a, ub', \<sigma>', hp')"
  shows "inet_num hp' = inet_num hp"
  using assms by (auto simp: server_process_packet_def Let_def next_keys_def split: if_splits)

lemma server_receive_keeps:
  assumes "server_receive conf rdns iptab now r rb from tab = (v, rb', bytes, from', tab')"
    and "htab_inv tab" "client_addr from" "wf_ubuf rb" "case r of Datagram d addr \<Rightarrow> client_addr addr | Recv_failed \<Rightarrow> True"
  shows "htab_inv tab' \<and> client_addr from' \<and> wf_ubuf rb' \<and>
    (\<forall>old i. v = Accepted old i \<longrightarrow> slot_of tab' i from') \<and>
    (\<forall>d addr. r = Datagram d addr \<longrightarrow> v \<noteq> Ignored \<longrightarrow>
       UBUF_HSIZE \<le> length d \<and> bb_seq rb' = (d ! 4, d ! 5) \<and> cmd rb' = d ! 0)"
proof (cases r)
  case (Datagram d addr)
  let ?bs = "take (UBUF_HSIZE + UBUF_MAXSPACE) d"
  obtain v1 t1 where f: "server_filter conf rdns iptab now (recv_into rb ?bs) (length ?bs) addr tab = (v1, t1)" by fastforce
  have e: "v1 = v" "t1 = tab'" "rb' = recv_into rb ?bs" "from' = addr"
    using assms(1) f by (simp_all add: Datagram server_receive_def Let_def)
  have addr: "client_addr addr" using assms(5) by (simp add: Datagram)
  note k = server_filter_keeps [OF assms(2) addr f, unfolded e(1,2)]
  have "wf_ubuf rb'" unfolding e by (rule recv_into_wf [OF assms(4)]) simp
  moreover have "UBUF_HSIZE \<le> length d \<and> bb_seq rb' = (d ! 4, d ! 5) \<and> cmd rb' = d ! 0" if "v \<noteq> Ignored"
  proof -
    have "12 \<le> length ?bs" using k(2) that by (auto simp: length_ok_def)
    then show ?thesis using recv_into_header [of ?bs rb] unfolding e by simp
  qed
  ultimately show ?thesis using k(1,3) addr by (auto simp: Datagram e(4))
next
  case Recv_failed
  obtain v1 t1 where f: "server_filter conf rdns iptab now rb 4294967295 from tab = (v1, t1)" by fastforce
  have e: "v1 = v" "t1 = tab'" "rb' = rb" "from' = from"
    using assms(1) f by (simp_all add: Recv_failed server_receive_def Let_def)
  note k = server_filter_keeps [OF assms(2,3) f, unfolded e(1,2)]
  show ?thesis using k(1,3) assms(3,4) by (auto simp: Recv_failed e(3,4))
qed

lemma server_stable_clock: "server_stable conf d \<sigma> \<Longrightarrow>
    server_stable conf d (\<sigma>\<lparr> os := (os \<sigma>)\<lparr> clock := t \<rparr>, cur_time := now \<rparr>)"
  by (simp add: server_stable_def server_wf_def disk_def)

lemma server_step_keeps:
  assumes ok: "serving_ok conf d s" "ev_ok ev" and run: "server_step conf rdns dns iptab version ev s = Next out s'"
  shows "serving_ok conf d s' \<and> (\<forall>data addr p. ev_received ev = Datagram data addr \<and> out = Some p \<longrightarrow> reply_to data p)"
proof -
  obtain v rb bytes src tab where r:
    "server_receive conf rdns iptab (ev_time ev) (ev_received ev) (message s) (peer s) (htable s) = (v, rb, bytes, src, tab)"
    by (metis prod_cases5)
  have s: "server_stable conf d (server s)" "htab_inv (htable s)" "wf_ubuf (message s)" "client_addr (peer s)"
      "length (fst (thc_table s)) = THCCOUNT"
    using ok(1) by (simp_all add: serving_ok_def)
  have k: "htab_inv tab" "client_addr src" "wf_ubuf rb" "\<And>old i. v = Accepted old i \<Longrightarrow> slot_of tab i src"
    and data: "\<And>data addr. ev_received ev = Datagram data addr \<Longrightarrow> v \<noteq> Ignored \<Longrightarrow>
       bb_seq rb = (data ! 4, data ! 5) \<and> cmd rb = data ! 0"
    using server_receive_keeps [OF r s(2,4,3)] ok(2) by auto
  define now where "now = (if reads_clock conf rdns iptab rb bytes src (htable s) then ev_time ev else cur_time (server s))"
  define \<sigma> where "\<sigma> = (server s)\<lparr> os := (os (server s))\<lparr> clock := ev_time ev \<rparr>, cur_time := now \<rparr>"
  define port where "port = (case ev_received ev of Datagram _ _ \<Rightarrow> ev_port ev | Recv_failed \<Rightarrow> peer_port s)"
  define s1 where "s1 = s\<lparr> server := \<sigma>, htable := tab, message := rb, peer := src, peer_port := port \<rparr>"
  have \<sigma>: "server_stable conf d \<sigma>" unfolding \<sigma>_def by (rule server_stable_clock [OF s(1)])
  have s1: "peer s1 = src" "thc_table s1 = thc_table s" by (simp_all add: s1_def)
  text \<open>What is sent comes src \<open>deliver\<close>, in a state that is as it should be.\<close>
  have sent: ?thesis
    if given: "deliver conf a s2 = Next out s'" "server_stable conf d (server s2)" "htab_inv (htable s2)" "wf_ubuf (message s2)"
      "peer s2 = src" "thc_table s2 = thc_table s" "bb_seq (message s2) = bb_seq rb"
      "cmd (message s2) = cmd rb \<or> cmd (message s2) = CC_ERR" "v \<noteq> Ignored" for a s2
  proof -
    have t: "length (fst (thc_table s2)) = THCCOUNT" using given(6) s(5) by simp
    note dk = deliver_keeps [OF given(1,4) t]
    have "reply_to data p" if o: "ev_received ev = Datagram data addr" "out = Some p" for data addr p
    proof -
      obtain m n where "m + n \<le> UBUF_MAXSPACE" "p = reply_packet (message s2) m n" using dk o(2) by blast
      then show ?thesis
        using answer_is_reply [OF given(4), of m n data] data [OF o(1) given(9)] given(7,8) by auto
    qed
    moreover have "serving_ok conf d s'" using dk given(2,3,5) k(2) by (simp add: serving_ok_def)
    ultimately show ?thesis by blast
  qed
  note step = run [unfolded server_step_def r Let_def prod.case, folded now_def, folded \<sigma>_def, folded port_def, folded s1_def]
  show ?thesis
  proof (cases v)
    case Ignored
    then have "s' = s1" "out = None" using step by simp_all
    then show ?thesis using s(5) k \<sigma> by (simp add: serving_ok_def s1_def)
  next
    case (Error_reply m)
    then obtain a ub where e: "send_error rb m = Some (a, ub)" "deliver conf a (s1\<lparr> message := ub \<rparr>) = Next out s'"
      using step by (auto split: option.splits)
    then have "wf_ubuf ub" "bb_seq ub = bb_seq rb" "cmd ub = CC_ERR"
      using k(3) by (auto simp: send_error_def Let_def wf_ubuf_def put_buf_def split: if_splits)
    then show ?thesis by (intro sent [OF e(2)]) (simp_all add: s1 s1_def \<sigma> k Error_reply)
  next
    case (Accepted old i)
    then obtain a ub \<sigma>' hp where e:
      "server_process_packet conf dns version (ev_stack ev) (ev_key ev) bytes rb old (tab ! i) port \<sigma> = Some (a, ub, \<sigma>', hp)"
      "deliver conf a (s1\<lparr> server := \<sigma>', htable := tab[i := hp], message := ub \<rparr>) = Next out s'"
      using step by (auto split: option.splits)
    note own = k(4) [OF Accepted]
    have "inet_num hp = src" using process_packet_inet [OF e(1)] own by (simp add: slot_of_def)
    from hosts.set_own [OF k(1) own this] have "htab_inv (tab[i := hp])" by simp
    moreover have "answers (rb\<lparr> bb_key := BB_WRITE2 (next_key hp) \<rparr>) a ub"
      by (rule dispatcher_answers [OF \<sigma> k(3) e(1)])
    moreover have "server_stable conf d \<sigma>'" by (rule dispatcher_keeps_stable [OF \<sigma> k(3) e(1)])
    ultimately show ?thesis by (intro sent [OF e(2)]) (simp_all add: s1 s1_def answers_def Accepted)
  qed (use step in simp_all)
qed

subsection \<open>Runs\<close>

lemma serves_keeps:
  assumes "serves conf rdns dns iptab version s es s'" "serving_ok conf d s"
  shows "serving_ok conf d s' \<and> (\<forall>ev data addr p. (ev, Some p) \<in> set es \<longrightarrow> ev_received ev = Datagram data addr \<longrightarrow> reply_to data p)"
  using assms
proof (induction rule: serves.induct)
  case waiting
  then show ?case by simp
next
  case (turn es s1 ev out s2)
  then show ?case using server_step_keeps [of conf d s1 ev rdns dns iptab version out s2] by auto
qed

lemma server_starts_ok: "server_starts conf w s \<Longrightarrow> serving_ok conf (disk w) s"
  using init_caches_wf [of conf w "server s"]
  by (auto simp: server_starts_def serving_ok_def server_stable_def init_htab_inv thc_init_def)

text \<open>A server for the site of theory \<open>DemoSite\<close>, and a request to delete its file. What is in the message
  buffer does not matter.\<close>

definition site_start :: "fsp_conf \<Rightarrow> char list \<Rightarrow> serving" where
  "site_start conf b = \<lparr> server = (case init_caches conf demo_site of Some \<sigma> \<Rightarrow> \<sigma> | None \<Rightarrow> site_server), htable = init_htab,
     message = blank_ubuf\<lparr> buf := b \<rparr>, peer = 1, peer_port = 0, thc_table = thc_init 0 \<rparr>"

definition site_request :: incoming where
  "site_request = \<lparr> ev_received = Datagram [69, 90, 0, 3, 4, 5, 0, 6, 0, 0, 0, 0, 97, 46, 116, 120, 116, 0] 5,
     ev_port = 9, ev_time = 100, ev_key = 7, ev_stack = 0 \<rparr>"

definition site_turn :: "fsp_conf \<Rightarrow> char list \<Rightarrow> turn" where
  "site_turn conf b = server_step conf no_rdns (\<lambda>_. None) [] ''2.8'' site_request (site_start conf b)"

fun replied :: "byte \<Rightarrow> turn \<Rightarrow> bool" where
  "replied c (Next (Some p) s) = (p ! 0 = c)"
| "replied c t = False"

lemma site_starts:
  assumes "init_caches conf demo_site \<noteq> None" "length b = UBUF_MAXSPACE"
  shows "server_starts conf demo_site (site_start conf b)"
  using assms by (auto simp: server_starts_def site_start_def wf_ubuf_def client_addr_def)

abbreviation (input) site_buffer :: "char list" where
  "site_buffer \<equiv> replicate 60 NUL @ replicate 4320 NUL"

lemma site_turn_deletes: "replied CC_DEL_FILE (site_turn site_conf (replicate 60 NUL @ b))"
  by code_simp

lemma site_run:
  assumes "site_turn conf b = Next out s"
  shows "serves conf no_rdns (\<lambda>_. None) [] ''2.8'' (site_start conf b) [(site_request, out)] s"
proof -
  have "ev_ok site_request" by (simp add: site_request_def client_addr_def)
  from serves.turn [OF serves.waiting this assms [unfolded site_turn_def]] show ?thesis by simp
qed

lemma site_deleting_run:
  "\<exists>p s. serves site_conf no_rdns (\<lambda>_. None) [] ''2.8'' (site_start site_conf site_buffer) [(site_request, Some p)] s \<and>
     p ! 0 = CC_DEL_FILE"
proof -
  obtain p s where "site_turn site_conf site_buffer = Next (Some p) s" "p ! 0 = CC_DEL_FILE"
    using site_turn_deletes [of "replicate 4320 NUL"]
    by (auto elim: replied.elims)
  then show ?thesis using site_run by blast
qed

lemma site_conf_starts: "server_starts site_conf demo_site (site_start site_conf site_buffer)"
proof (rule site_starts)
  show "init_caches site_conf demo_site \<noteq> None" by code_simp
qed simp

text \<open>C15: the data of a running server are well formed: after any sequence of datagrams and failed
  receives, the three caches satisfy the invariant of the FIFO cache and still have the destructors
  they were made with, the host table is sorted, with its sentinels and one entry per client,
  the message buffer has its full size and the throughput table its ten seconds.\<close>

theorem running_server_is_well_formed:
  assumes "server_starts conf w s0" and "serves conf rdns dns iptab version s0 es s"
  shows "server_wf (server s) \<and> htab_inv (htable s) \<and> wf_ubuf (message s) \<and> length (fst (thc_table s)) = THCCOUNT"
  using serves_keeps [OF assms(2) server_starts_ok [OF assms(1)]]
  by (simp add: serving_ok_def server_stable_def)

theorem running_server_is_well_formed_witness:
  "\<exists>p s. serves site_conf no_rdns (\<lambda>_. None) [] ''2.8'' (site_start site_conf site_buffer) [(site_request, Some p)] s \<and>
     server_wf (server s) \<and> htab_inv (htable s)"
  using site_deleting_run running_server_is_well_formed [OF site_conf_starts] by blast

definition read_only_site :: fsp_conf where
  "read_only_site = site_conf\<lparr> read_only := True, use_prebuild_dirlists := False \<rparr>"


lemma read_only_refuses:
  assumes "server_receive conf rdns iptab (ev_time ev) (ev_received ev) (message s) (peer s) (htable s)
      = (Accepted old i, rb, bytes, src, tab)"
    and "cmd rb = CC_DEL_FILE" "read_only conf" "maxthcallowed conf = 0"
  shows "\<exists>p s'. server_step conf rdns dns iptab version ev s = Next (Some p) s'"
  using assms by (simp add: server_step_def Let_def server_process_packet_def cmd_del_file_def refuse_def send_error_def
      deliver_def server_reply_def throttle_def)


text \<open>C3: every datagram the server sends in answer to a datagram is a reply the client can use: it is no
  longer than the message buffer, it passes the client's checksum, its length field does not reach
  beyond it, and it carries the sequence number of the request it answers and that request's
  command, or the command of an error.\<close>

theorem every_reply_is_usable:
  assumes "server_starts conf w s0" and "serves conf rdns dns iptab version s0 es s"
    and "(ev, Some p) \<in> set es" and "ev_received ev = Datagram data addr"
  shows "reply_to data p"
  using serves_keeps [OF assms(2) server_starts_ok [OF assms(1)]] assms(3,4) by blast

theorem every_reply_is_usable_witness:
  "\<exists>p s. serves site_conf no_rdns (\<lambda>_. None) [] ''2.8'' (site_start site_conf site_buffer) [(site_request, Some p)] s \<and>
     client_check p \<and> p ! 4 = 4 \<and> p ! 5 = 5"
proof -
  obtain p s where run: "serves site_conf no_rdns (\<lambda>_. None) [] ''2.8'' (site_start site_conf site_buffer) [(site_request, Some p)] s"
    using site_deleting_run by blast
  have "reply_to [69, 90, 0, 3, 4, 5, 0, 6, 0, 0, 0, 0, 97, 46, 116, 120, 116, 0] p"
    by (rule every_reply_is_usable [OF site_conf_starts run, of site_request _ _ 5]) (simp_all add: site_request_def)
  with run show ?thesis by (auto simp: reply_to_def)
qed

end
