(* ===== verification/ClientPath.thy ===== *)
theory ClientPath
  imports FspPrelude
begin

text \<open>
  The paths of the client, \<open>util_abs_path\<close> and \<open>util_junk_password\<close> of
  \<^verbatim>\<open>client/util.c\<close>.

  \<open>util_abs_path\<close> works in place on a buffer with a pointer \<open>t\<close>; here the buffer is the C string in it
  and \<open>t\<close> an offset. Copying down in the buffer (\<open>for(d = .., s = ..; (*d++ = *s++););\<close>) removes the
  characters between the two offsets. The result is \<open>None\<close> where the code would read in front of the
  buffer, otherwise the path and whether the code goes on to append the password. The equivalence proved
  here is with a specification on lists of names.
\<close>

abbreviation (input) SL :: char where "SL \<equiv> CHR ''/''"
abbreviation (input) DOT :: char where "DOT \<equiv> CHR ''.''"

text \<open>Reading at an offset; the string ends with a zero.\<close>

definition peek :: "string \<Rightarrow> nat \<Rightarrow> char" where
  "peek p i = (if i < length p then p ! i else NUL)"

definition copy_down :: "string \<Rightarrow> nat \<Rightarrow> nat \<Rightarrow> string" where
  "copy_down p d s = take d p @ drop s p"

text \<open>\<open>while(t[1] == '/')\<close> with its removal of one slash.\<close>

function squeeze :: "string \<Rightarrow> nat \<Rightarrow> string" where
  "squeeze p t = (if t + 1 < length p \<and> p ! (t + 1) = SL then squeeze (copy_down p t (t + 1)) t else p)"
  by pat_completeness auto
termination
  by (relation "measure (\<lambda>(p, t). length p)") (auto simp: copy_down_def)

declare squeeze.simps [simp del]

text \<open>\<open>while(t > path && t[0] != '/') t--\<close>.\<close>

fun back_to_slash :: "string \<Rightarrow> nat \<Rightarrow> nat" where
  "back_to_slash p 0 = 0"
| "back_to_slash p (Suc t) = (if peek p (Suc t) \<noteq> SL then back_to_slash p t else Suc t)"

lemma back_to_slash_le: "back_to_slash p t \<le> t"
  by (induction p t rule: back_to_slash.induct) auto

lemma length_squeeze: "length (squeeze p t) \<le> length p"
proof (induction p t rule: squeeze.induct)
  case (1 p t)
  then show ?case
    by (subst squeeze.simps) (auto simp: copy_down_def)
qed

text \<open>The loop over \<open>t\<close>.\<close>

function abs_scan :: "string \<Rightarrow> nat \<Rightarrow> (string \<times> bool) option" where
  "abs_scan p t =
     (if length p \<le> t then Some (p, True)
      else if p ! t = SL then
        (let p' = squeeze p t in
         if t \<noteq> 0 \<and> length p' \<le> t + 1 then Some (take t p', False)
         else abs_scan p' (t + 1))
      else if p ! t = DOT \<and> t = 0 then None
      else if p ! t = DOT \<and> peek p (t + 1) = DOT \<and> t = 1 \<and> peek p (t + 2) = NUL then Some (take t p, True)
      else if p ! t = DOT \<and> peek p (t + 1) = DOT \<and> t = 1 \<and> peek p (t + 2) = SL then abs_scan (copy_down p t (t + 3)) t
      else if p ! t = DOT \<and> peek p (t + 1) = DOT \<and> p ! (t - 1) = SL \<and> (peek p (t + 2) = SL \<or> peek p (t + 2) = NUL) then
        (let u = back_to_slash p (t - 2) in
         if u \<noteq> 0 \<or> peek p (t + 2) = SL then abs_scan (copy_down p u (t + 2)) u
         else Some (take (u + 1) p, True))
      else if p ! t = DOT \<and> t = 1 \<and> peek p (t + 1) = NUL then Some (take t p, True)
      else if p ! t = DOT \<and> t = 1 \<and> peek p (t + 1) = SL then abs_scan (copy_down p t (t + 2)) t
      else if p ! t = DOT \<and> p ! (t - 1) = SL \<and> (peek p (t + 1) = SL \<or> peek p (t + 1) = NUL) then
        abs_scan (copy_down p (t - 1) (t + 1)) (t - 1)
      else abs_scan p (t + 1))"
  by pat_completeness auto
termination
proof (relation "measures [\<lambda>(p, t). length p, \<lambda>(p, t). length p - t]", goal_cases)
  case 2
  then show ?case using length_squeeze by (fastforce simp: le_less)
next
  case (4 p t u)
  have "u \<le> t - 2" by (simp add: 4 back_to_slash_le)
  with 4 show ?case by (auto simp: copy_down_def)
qed (auto simp: copy_down_def)

declare abs_scan.simps [simp del]

text \<open>\<open>util_junk_password\<close> cuts a path at its first newline.\<close>

definition util_junk_password :: "string \<Rightarrow> string" where
  "util_junk_password p = takeWhile (\<lambda>c. c \<noteq> NL) p"

definition util_abs_path :: "string \<Rightarrow> string \<Rightarrow> string \<Rightarrow> string option" where
  "util_abs_path env_dir env_passwd s2 =
     (let path = (if s2 \<noteq> [] \<and> hd s2 = SL then SL # s2 else SL # env_dir @ SL # s2);
          path' = (if env_passwd \<noteq> [] then util_junk_password path else path)
      in map_option (\<lambda>(p, app). if app \<and> env_passwd \<noteq> [] then p @ NL # env_passwd else p) (abs_scan path' 0))"

subsection \<open>The specification: lists of names\<close>

fun names_from :: "string \<Rightarrow> string \<Rightarrow> string list" where
  "names_from acc [] = (if acc = [] then [] else [acc])"
| "names_from acc (c # cs) =
     (if c = SL then (if acc = [] then names_from [] cs else acc # names_from [] cs)
      else names_from (acc @ [c]) cs)"

definition names_of :: "string \<Rightarrow> string list" where
  "names_of p = names_from [] p"

fun resolve :: "string list \<Rightarrow> string list \<Rightarrow> string list" where
  "resolve st [] = st"
| "resolve st (c # cs) =
     (if c = ''.'' then resolve st cs
      else if c = ''..'' then resolve (butlast st) cs
      else resolve (st @ [c]) cs)"

definition slashed :: "string list \<Rightarrow> string" where
  "slashed ns = concat (map (Cons SL) ns)"

definition absolute :: "string list \<Rightarrow> string" where
  "absolute ns = (if ns = [] then [SL] else slashed ns)"

subsection \<open>The loop implements it\<close>

lemma slashed_simps [simp]: "slashed [] = []" "slashed (a @ b) = slashed a @ slashed b" "slashed (n # ns) = SL # n @ slashed ns"
  by (simp_all add: slashed_def)

lemma slashed_Nil [simp]: "slashed st = [] \<longleftrightarrow> st = []"
  by (cases st) simp_all

lemma peek_append: "peek (a @ b) (length a + i) = peek b i" "peek (a @ b) (length a) = peek b 0"
  by (simp_all add: peek_def nth_append)

lemma copy_down_append: "copy_down (a @ b) (length a) (length a + k) = a @ drop k b"
  by (simp add: copy_down_def)

lemma squeeze_slashes: "squeeze (a @ SL # r) (length a) = a @ SL # dropWhile (\<lambda>c. c = SL) r"
proof (induction r)
  case Nil
  then show ?case by (subst squeeze.simps) simp
next
  case (Cons c r)
  show ?case
  proof (cases "c = SL")
    case True
    have "squeeze (a @ SL # c # r) (length a) = squeeze (a @ SL # r) (length a)"
      by (subst squeeze.simps) (simp add: True nth_append copy_down_def)
    with Cons True show ?thesis by simp
  next
    case False
    then show ?thesis by (subst squeeze.simps) (simp add: nth_append)
  qed
qed

lemma names_from_word: "SL \<notin> set w \<Longrightarrow> names_from acc (w @ r) = names_from (acc @ w) r"
  by (induction w arbitrary: acc) auto

lemma names_of_dropWhile: "names_of (dropWhile (\<lambda>c. c = SL) r) = names_of r"
  by (induction r) (auto simp: names_of_def)

lemma names_of_word: "w \<noteq> [] \<Longrightarrow> SL \<notin> set w \<Longrightarrow> names_of (w @ SL # r) = w # names_of r" "w \<noteq> [] \<Longrightarrow> SL \<notin> set w \<Longrightarrow> names_of w = [w]"
  using names_from_word [of w "[]" "SL # r"] names_from_word [of w "[]" "[]"] by (simp_all add: names_of_def)

text \<open>What one turn of the loop does: inside a name, at \<open>.\<close> and at \<open>..\<close>.\<close>

definition at_end :: "string \<Rightarrow> nat \<Rightarrow> bool" where
  "at_end p i \<longleftrightarrow> peek p i = SL \<or> peek p i = NUL"

lemma scan_plain:
  assumes "t < length p" "p ! t \<noteq> SL" "p ! 0 = SL"
    and "p ! t = DOT \<Longrightarrow> p ! (t - 1) = SL \<Longrightarrow> \<not> at_end p (t + 1) \<and> \<not> (peek p (t + 1) = DOT \<and> at_end p (t + 2))"
  shows "abs_scan p t = abs_scan p (t + 1)"
proof (cases "p ! t = DOT")
  case False
  then show ?thesis using assms(1,2) by (subst abs_scan.simps) simp
next
  case True
  have t: "t \<noteq> 0" using assms(2,3) by (cases t) simp_all
  have one: "t = 1 \<Longrightarrow> p ! (t - 1) = SL" using assms(3) by simp
  show ?thesis
  proof (cases "p ! (t - 1) = SL")
    case True
    then show ?thesis using assms(1,2,4) \<open>p ! t = DOT\<close> t
      by (subst abs_scan.simps) (auto simp: at_end_def)
  next
    case False
    then show ?thesis using assms(1,2) \<open>p ! t = DOT\<close> t one
      by (subst abs_scan.simps) auto
  qed
qed

lemma scan_name_from:
  assumes "SL \<notin> set v" "H \<noteq> []" "hd H = SL" "u = [] \<Longrightarrow> v \<noteq> ''.'' \<and> v \<noteq> ''..''" "SL \<notin> set u"
    and "r = [] \<or> hd r = SL" "NUL \<notin> set v"
  shows "abs_scan (H @ u @ v @ r) (length (H @ u)) = abs_scan (H @ u @ v @ r) (length (H @ u @ v))"
  using assms(1,4,5,7)
proof (induction v arbitrary: u)
  case Nil
  then show ?case by simp
next
  case (Cons c v)
  let ?p = "H @ u @ (c # v) @ r" and ?t = "length (H @ u)"
  have peeks: "peek ?p (?t + i) = peek ((c # v) @ r) i" for i
    using peek_append(1) [of "H @ u" "(c # v) @ r" i] by simp
  have start: "u \<noteq> [] \<Longrightarrow> ?p ! (?t - 1) = last u"
    by (cases u rule: rev_cases) (auto simp: nth_append)
  have "abs_scan ?p ?t = abs_scan ?p (?t + 1)"
  proof (rule scan_plain)
    show "?t < length ?p" by simp
    show "?p ! ?t \<noteq> SL" using Cons.prems(1) by (auto simp: nth_append)
    show "?p ! 0 = SL" using assms(2,3) by (simp add: nth_append hd_conv_nth)
    assume d: "?p ! ?t = DOT" "?p ! (?t - 1) = SL"
    have u: "u = []" using start d(2) Cons.prems(3) by (metis last_in_set)
    have c: "c = DOT" using d(1) by (simp add: nth_append)
    have "v \<noteq> []" using Cons.prems(2) u c by auto
    then obtain e v' where v: "v = e # v'" by (cases v) auto
    have "\<not> at_end ?p (?t + 1)"
      unfolding at_end_def peeks using v Cons.prems(1,4) by (auto simp: peek_def)
    moreover have "\<not> at_end ?p (?t + 2)" if "peek ?p (?t + 1) = DOT"
    proof -
      have "peek ((c # v) @ r) 1 = DOT" using that peeks [of 1] by simp
      then have "e = DOT" by (simp add: peek_def v)
      then have "v' \<noteq> []" using Cons.prems(2) u c v by auto
      then show ?thesis unfolding at_end_def peeks using v Cons.prems(1,4) by (cases v') (auto simp: peek_def)
    qed
    ultimately show "\<not> at_end ?p (?t + 1) \<and> \<not> (peek ?p (?t + 1) = DOT \<and> at_end ?p (?t + 2))" by blast
  qed
  also have "\<dots> = abs_scan (H @ (u @ [c]) @ v @ r) (length (H @ u @ [c]))" by simp
  also have "\<dots> = abs_scan (H @ (u @ [c]) @ v @ r) (length (H @ (u @ [c]) @ v))"
    using Cons.IH [of "u @ [c]"] Cons.prems by simp
  finally show ?case by simp
qed

lemma scan_name:
  assumes "SL \<notin> set w" "NUL \<notin> set w" "w \<noteq> ''.''" "w \<noteq> ''..''" "H \<noteq> []" "hd H = SL" "r = [] \<or> hd r = SL"
  shows "abs_scan (H @ w @ r) (length H) = abs_scan (H @ w @ r) (length (H @ w))"
  using scan_name_from [of w H "[]" r] assms by simp

lemma peek_after:
  assumes "r = [] \<or> hd r = SL"
  shows "peek (H @ w @ r) (length H + length w) = (if r = [] then NUL else SL)"
  using assms peek_append(2) [of "H @ w" r] by (cases r) (auto simp: peek_def)

text \<open>The three ways on, in terms of what the tests of the loop see.\<close>

lemma scan_dot_tests:
  assumes "t < length p" "p ! t = DOT" "t \<noteq> 0" "p ! (t - 1) = SL" "at_end p (t + 1)"
  shows "abs_scan p t =
    (if t = 1 then (if peek p (t + 1) = NUL then Some (take t p, True) else abs_scan (copy_down p t (t + 2)) t)
     else abs_scan (copy_down p (t - 1) (t + 1)) (t - 1))"
proof -
  have "peek p (t + 1) = SL \<and> peek p (t + 1) \<noteq> DOT \<or> peek p (t + 1) = NUL \<and> peek p (t + 1) \<noteq> DOT"
    using assms(5) by (auto simp: at_end_def)
  then show ?thesis using assms(1-4) abs_scan.simps [of p t] by auto
qed

lemma scan_dotdot_tests:
  assumes "t < length p" "p ! t = DOT" "t \<noteq> 0" "p ! (t - 1) = SL" "peek p (t + 1) = DOT" "at_end p (t + 2)"
  shows "abs_scan p t =
    (if t = 1 then (if peek p (t + 2) = NUL then Some (take t p, True) else abs_scan (copy_down p t (t + 3)) t)
     else (let u = back_to_slash p (t - 2) in
       if u \<noteq> 0 \<or> peek p (t + 2) = SL then abs_scan (copy_down p u (t + 2)) u else Some (take (u + 1) p, True)))"
  using assms abs_scan.simps [of p t] by (auto simp: at_end_def)

lemma scan_dot:
  assumes "H \<noteq> []" "last H = SL" "r = [] \<or> hd r = SL"
  shows "abs_scan (H @ ''.'' @ r) (length H) =
    (if length H = 1 then (if r = [] then Some (H, True) else abs_scan (H @ tl r) (length H))
     else abs_scan (butlast H @ r) (length H - 1))"
proof -
  define p where "p = H @ ''.'' @ r"
  define t where "t = length H"
  have t: "t < length p" "p ! t = DOT" "t \<noteq> 0" "p ! (t - 1) = SL"
    using assms(1,2) by (simp_all add: p_def t_def nth_append last_conv_nth)
  have next1: "peek p (t + 1) = (if r = [] then NUL else SL)"
    using peek_after [OF assms(3), of H "''.''"] by (simp add: p_def t_def)
  have cd: "copy_down p t (t + 2) = H @ tl r" "copy_down p (t - 1) (t + 1) = butlast H @ r" "take t p = H"
    by (simp_all add: p_def t_def copy_down_def butlast_conv_take drop_Suc)
  have "at_end p (t + 1)" using next1 by (simp add: at_end_def)
  from scan_dot_tests [OF t this] show ?thesis
    unfolding cd next1 by (simp add: p_def t_def)
qed

lemma back_to_slash_name:
  assumes "SL \<notin> set n"
  shows "back_to_slash (G @ SL # n @ r) (length G + length n) = length G"
  using assms
proof (induction n arbitrary: r rule: rev_induct)
  case Nil
  then show ?case by (cases "length G") (simp_all add: peek_def nth_append)
next
  case (snoc c n)
  have "peek (G @ SL # (n @ [c]) @ r) (Suc (length G + length n)) = c"
    by (simp add: peek_def nth_append)
  moreover have "back_to_slash (G @ SL # n @ (c # r)) (length G + length n) = length G"
    using snoc by simp
  ultimately show ?case using snoc.prems by auto
qed

lemma scan_dotdot:
  assumes "SL \<notin> set n" "r = [] \<or> hd r = SL"
  shows "abs_scan (G @ SL # n @ SL # ''..'' @ r) (length G + length n + 2) =
    (if G = [] \<and> r = [] then Some ([(G @ SL # n) ! 0], True) else abs_scan (G @ r) (length G))"
proof -
  define p where "p = G @ SL # n @ SL # ''..'' @ r"
  define t where "t = length G + length n + 2"
  have p: "p = (G @ SL # n @ [SL]) @ ''..'' @ r" by (simp add: p_def)
  have len: "length (G @ SL # n @ [SL]) = t" by (simp add: t_def)
  have tests: "peek p (t + i) = peek (''..'' @ r) i" for i
    using peek_append(1) [of "G @ SL # n @ [SL]" "''..'' @ r" i] unfolding len p [symmetric] .
  have t: "t < length p" "p ! t = DOT" "t \<noteq> 0" "p ! (t - 1) = SL"
    by (simp_all add: p_def t_def nth_append)
  have dd: "peek p (t + 1) = DOT" "peek p (t + 2) = (if r = [] then NUL else SL)"
    unfolding tests using assms(2) by (cases r; simp add: peek_def)+
  then have "at_end p (t + 2)" by (simp add: at_end_def)
  note step = scan_dotdot_tests [OF t dd(1) this]
  have u: "back_to_slash p (t - 2) = length G"
    using back_to_slash_name [OF assms(1), of G "SL # ''..'' @ r"] by (simp add: p_def t_def)
  have cd: "copy_down p (length G) (t + 2) = G @ r"
  proof -
    have "drop (length n + 3) (n @ SL # ''..'' @ r) = r" by simp
    then have "drop (length n + 4) (SL # n @ SL # ''..'' @ r) = r" by (simp add: numeral_eq_Suc)
    then show ?thesis using copy_down_append [of G "SL # n @ SL # ''..'' @ r" "length n + 4"]
      by (simp only: p_def t_def add.assoc) simp
  qed
  have "t \<noteq> 1" by (simp add: t_def)
  then show ?thesis using step unfolding u cd dd Let_def
    by (simp add: p_def t_def)
qed

lemma scan_dotdot_root:
  assumes "r = [] \<or> hd r = SL"
  shows "abs_scan (SL # ''..'' @ r) 1 = (if r = [] then Some ([SL], True) else abs_scan (SL # tl r) 1)"
proof -
  let ?p = "SL # ''..'' @ r"
  have "peek ?p (1 + 2) = (if r = [] then NUL else SL)" using assms by (cases r) (auto simp: peek_def)
  moreover have "peek ?p (1 + 1) = DOT" by (simp add: peek_def)
  moreover have "copy_down ?p 1 (1 + 3) = SL # tl r" by (simp add: copy_down_def drop_Suc)
  ultimately show ?thesis using scan_dotdot_tests [of 1 ?p] by (simp add: at_end_def)
qed

subsection \<open>Equivalence\<close>

definition ends :: "string \<Rightarrow> bool" where
  "ends r \<longleftrightarrow> r = [] \<or> last r = SL"

lemma ends_word [simp]: "ends (w @ SL # r) = ends r" "w \<noteq> [] \<Longrightarrow> SL \<notin> set w \<Longrightarrow> \<not> ends w" "ends (SL # r) = ends r"
  using last_in_set [of w] unfolding ends_def by force+

lemma ends_dropWhile: "ends (dropWhile (\<lambda>c. c = SL) r) = ends r"
  by (induction r) (auto simp: ends_def)

text \<open>No two slashes side by side.\<close>

fun single :: "string \<Rightarrow> bool" where
  "single (a # b # r) \<longleftrightarrow> \<not> (a = SL \<and> b = SL) \<and> single (b # r)"
| "single r \<longleftrightarrow> True"

lemma single_tl: "single (a # r) \<Longrightarrow> single r"
  by (cases r) simp_all

lemma single_word: "single (a # w @ SL # r) \<Longrightarrow> single (SL # r)"
  by (induction w arbitrary: a) (auto dest: single_tl)

lemma single_hd: "single (SL # r) \<Longrightarrow> dropWhile (\<lambda>c. c = SL) r = r"
  by (cases r) auto

text \<open>What the scan yields for the names \<open>cs\<close>: their absolute path, perhaps with one slash more, unless \<open>ex\<close> says
  otherwise, and the password is appended unless the path ended with a slash.\<close>

definition yields :: "(string \<times> bool) option \<Rightarrow> string list \<Rightarrow> bool \<Rightarrow> bool \<Rightarrow> bool" where
  "yields res cs ended ex \<longleftrightarrow> (\<exists>q app. res = Some (q, app) \<and> (q = absolute cs \<or> cs \<noteq> [] \<and> q = SL # absolute cs) \<and>
     (ex \<longrightarrow> q = absolute cs) \<and> (\<not> ended \<longrightarrow> app) \<and> (ended \<and> cs \<noteq> [] \<longrightarrow> \<not> app))"

definition plain_names :: "string list \<Rightarrow> bool" where
  "plain_names st \<longleftrightarrow> (\<forall>n \<in> set st. n \<noteq> [] \<and> SL \<notin> set n)"

abbreviation (input) at_name :: "string \<Rightarrow> string list \<Rightarrow> string \<Rightarrow> bool" where
  "at_name L st r \<equiv> yields (abs_scan ((L @ slashed st @ [SL]) @ r) (length (L @ slashed st @ [SL]))) (resolve st (names_of r)) (ends r)
     (L = [] \<and> single (SL # r))"

abbreviation (input) at_slash :: "string \<Rightarrow> string list \<Rightarrow> string \<Rightarrow> bool" where
  "at_slash L st r \<equiv> yields (abs_scan (L @ slashed st @ SL # r) (length (L @ slashed st))) (resolve st (names_of r)) (ends r)
     (L = [] \<and> single (SL # dropWhile (\<lambda>c. c = SL) r))"

lemma scan_end: "abs_scan p (length p) = Some (p, True)"
  by (subst abs_scan.simps) simp

lemma yields_root: "yields (Some ([SL], True)) [] e ex"
  by (auto simp: yields_def absolute_def intro: exI [of _ True])

lemma yields_weaken: "yields res cs e ex \<Longrightarrow> (ex' \<Longrightarrow> ex) \<Longrightarrow> yields res cs e ex'"
  by (auto simp: yields_def)

lemma yields_names: "L = [] \<or> L = [SL] \<Longrightarrow> st \<noteq> [] \<Longrightarrow> yields (Some (L @ slashed st, \<not> e)) st e (L = [] \<and> x)"
  by (auto simp: yields_def absolute_def)

lemma conjunct_false: "\<not> B \<Longrightarrow> \<not> (A \<and> B)"
  by blast

lemma at_slash_from_name:
  assumes L: "L = [] \<or> L = [SL]"
    and name: "\<And>r'. length r' \<le> length r \<Longrightarrow> r' \<noteq> [] \<Longrightarrow> hd r' \<noteq> SL \<Longrightarrow> set r' \<subseteq> set r \<Longrightarrow> at_name L st r'"
  shows "at_slash L st r"
proof -
  let ?G = "L @ slashed st" and ?r = "dropWhile (\<lambda>c. c = SL) r"
  have sq: "squeeze (?G @ SL # r) (length ?G) = ?G @ SL # ?r" by (rule squeeze_slashes)
  have scan: "abs_scan (?G @ SL # r) (length ?G) =
      (if ?G \<noteq> [] \<and> ?r = [] then Some (?G, False) else abs_scan (?G @ SL # ?r) (length ?G + 1))"
    using sq by (subst abs_scan.simps) (simp add: nth_append Let_def)
  show ?thesis
  proof (cases "?r = []")
    case True
    then have n: "names_of r = []" "ends r"
      using names_of_dropWhile [of r] ends_dropWhile [of r] unfolding True by (simp_all add: names_of_def ends_def)
    note scan0 = scan [unfolded True]
    show ?thesis
    proof (cases "?G = []")
      case True
      then have "st = []" by (cases st) simp_all
      with True scan0 n scan_end [of "[SL]"] show ?thesis by (simp add: yields_root)
    next
      case False
      then show ?thesis using scan0 n L yields_names [of L st "single (SL # ?r)" True] yields_root
        by (cases "st = []") (auto simp: yields_def absolute_def)
    qed
  next
    case False
    have "at_name L st ?r"
      by (rule name) (use False hd_dropWhile [of "\<lambda>c. c = SL" r] in \<open>auto simp: length_dropWhile_le dest: set_dropWhileD\<close>)
    moreover have "abs_scan (?G @ SL # r) (length ?G) = abs_scan (?G @ SL # ?r) (length ?G + 1)"
      using scan unfolding if_not_P [of "?G \<noteq> [] \<and> ?r = []", OF conjunct_false [OF False]] .
    ultimately show ?thesis by (simp add: names_of_dropWhile ends_dropWhile)
  qed
qed

lemma hd_slashed: "st \<noteq> [] \<Longrightarrow> hd (slashed st @ r) = SL"
  by (cases st) simp_all

lemma split_name:
  assumes "r \<noteq> []" "hd r \<noteq> SL"
  obtains w where "w \<noteq> []" "SL \<notin> set w" "r = w"
  | w r' where "w \<noteq> []" "SL \<notin> set w" "r = w @ SL # r'"
proof -
  let ?w = "takeWhile (\<lambda>c. c \<noteq> SL) r" and ?d = "dropWhile (\<lambda>c. c \<noteq> SL) r"
  have w: "?w \<noteq> []" "SL \<notin> set ?w" using assms by (cases r; auto dest: set_takeWhileD)+
  have r: "r = ?w @ ?d" by simp
  show thesis
  proof (cases ?d)
    case Nil
    with r that(1) [OF w] show thesis by simp
  next
    case (Cons c r')
    then have "c = SL" using hd_dropWhile [of "\<lambda>c. c \<noteq> SL" r] by auto
    with Cons r that(2) [OF w] show thesis by metis
  qed
qed

lemma yields_end: "L = [] \<or> L = [SL] \<Longrightarrow> L @ slashed st \<noteq> [] \<Longrightarrow> yields (Some (L @ slashed st, True)) st False (L = [] \<and> x)"
  using yields_names [of L st x False] by (cases "st = []") (auto simp: yields_def absolute_def)

lemma scan_names:
  assumes "L = [] \<or> L = [SL]" "plain_names st" "NUL \<notin> set r" "r = [] \<or> hd r = SL \<Longrightarrow> L = [] \<and> st = []"
  shows "at_name L st r"
  using assms
proof (induction "length r" arbitrary: L st r rule: less_induct)
  case less
  note L = less.prems(1) and plain = less.prems(2) and nul = less.prems(3) and root = less.prems(4)
  have slash: "at_slash L' st' r1" if "length r1 < length r" "NUL \<notin> set r1" "L' = [] \<or> L' = [SL]" "plain_names st'" for L' st' r1
  proof (rule at_slash_from_name [OF that(3)])
    fix r' assume r': "length r' \<le> length r1" "r' \<noteq> []" "hd r' \<noteq> SL" "set r' \<subseteq> set r1"
    show "at_name L' st' r'"
      by (rule less.hyps) (use r' that nul in auto)
  qed
  have name: "at_name [] [] r1" if "length r1 < length r" "NUL \<notin> set r1" for r1
    by (rule less.hyps) (use that nul in \<open>auto simp: plain_names_def\<close>)
  let ?H = "L @ slashed st @ [SL]"
  consider "r = []" | "r \<noteq> []" "hd r = SL" | "r \<noteq> []" "hd r \<noteq> SL" by blast
  then show ?case
  proof cases
    case 1
    with root scan_end [of "[SL]"] show ?thesis by (simp add: yields_root names_of_def)
  next
    case 2
    then obtain r1 where r: "r = SL # r1" by (cases r) auto
    with root have "L = []" "st = []" by simp_all
    with slash [of r1 "[SL]" "[]"] r nul show ?thesis by (simp add: names_of_def plain_names_def)
  next
    case 3
    from split_name [OF this] show ?thesis
    proof cases
      case (1 w)
      have rw: "r = w @ []" "\<not> ends r" using 1 ends_word(2) [of w] by simp_all
      have cs: "names_of r = [w]" using names_of_word(2) [of w] 1 by simp
      consider "w = ''.''" | "w = ''..''" | "w \<noteq> ''.''" "w \<noteq> ''..''" by blast
      then show ?thesis
      proof cases
        case 1
        have e: "L @ slashed st \<noteq> [] \<Longrightarrow> yields (Some (L @ slashed st, True)) st False (L = [] \<and> single (SL # r))" by (rule yields_end [OF L])
        have "abs_scan (?H @ r) (length ?H) = (if L @ slashed st = [] then Some ([SL], True) else Some (L @ slashed st, True))"
          using scan_dot [of ?H "[]"] scan_end [of "L @ slashed st"] 1 rw by (auto simp: butlast_append)
        then show ?thesis using e cs 1 rw(2) yields_root [where e = False] by (cases "st = []") (auto split: if_splits)
      next
        case 2
        show ?thesis
        proof (cases st rule: rev_cases)
          case Nil
          have "abs_scan (?H @ r) (length ?H) = Some ([SL], True)"
            using L scan_dotdot_root [of "[]"] scan_dotdot [of "[]" "[]" "[]"] 2 rw(1) Nil by auto
          then show ?thesis using cs 2 Nil yields_root by simp
        next
          case (snoc st' n)
          let ?G = "L @ slashed st'"
          have n: "SL \<notin> set n" using plain snoc by (simp add: plain_names_def)
          have "abs_scan (?H @ r) (length ?H) = (if ?G = [] then Some ([SL], True) else Some (?G, True))"
            using scan_dotdot [OF n, of "[]" ?G] scan_end [of ?G] 2 rw(1) snoc by (auto simp: add.assoc)
          then show ?thesis using yields_end [OF L, of st' "single (SL # r)"] yields_root [where e = False] cs 2 snoc rw(2)
            by (cases "st' = []") (auto split: if_splits)
        qed
      next
        case 3
        have "abs_scan (?H @ r) (length ?H) = Some (?H @ w, True)"
          using scan_name [of w ?H "[]"] scan_end [of "?H @ w"] 1 3 nul L hd_slashed [of st "[SL]"] rw
          by (cases "st = []") auto
        then show ?thesis using yields_end [OF L, of "st @ [w]" "single (SL # r)"] cs 3 rw(2) by simp
      qed
    next
      case (2 w r1)
      have r1: "length r1 < length r" "NUL \<notin> set r1" using 2 nul by simp_all
      have cs: "names_of r = w # names_of r1" "ends r = ends r1" using names_of_word(1) [of w] 2 by simp_all
      have sg: "single (SL # r) \<Longrightarrow> single (SL # r1)" "single (SL # r) \<Longrightarrow> single (SL # dropWhile (\<lambda>c. c = SL) r1)"
        using 2 single_word [of SL w r1] single_hd [of r1] by auto
      consider "w = ''.''" | "w = ''..''" | "w \<noteq> ''.''" "w \<noteq> ''..''" by blast
      then show ?thesis
      proof cases
        case 1
        have "abs_scan (?H @ r) (length ?H) =
            (if L @ slashed st = [] then abs_scan (SL # r1) 1 else abs_scan (L @ slashed st @ SL # r1) (length (L @ slashed st)))"
          using scan_dot [of ?H "SL # r1"] 1 2 by (auto simp: butlast_append)
        then show ?thesis using name [OF r1, THEN yields_weaken] slash [OF r1 L plain, THEN yields_weaken] sg cs 1
          by (cases "st = []") (auto split: if_splits)
      next
        case dd: 2
        show ?thesis
        proof (cases st rule: rev_cases)
          case Nil
          have "abs_scan (?H @ r) (length ?H) = (if L = [] then abs_scan (SL # r1) 1 else abs_scan (SL # r1) 0)"
            using L scan_dotdot_root [of "SL # r1"] scan_dotdot [of "[]" "SL # r1" "[]"] 2 dd Nil by auto
          then show ?thesis using cs dd Nil name [OF r1, THEN yields_weaken] slash [OF r1, of "[]" "[]", THEN yields_weaken] sg
            by (auto simp: plain_names_def split: if_splits)
        next
          case (snoc st' n)
          let ?G = "L @ slashed st'"
          have n: "SL \<notin> set n" "plain_names st'" using plain snoc by (simp_all add: plain_names_def)
          have "abs_scan (?H @ r) (length ?H) = abs_scan (?G @ SL # r1) (length ?G)"
            using scan_dotdot [OF n(1), of "SL # r1" ?G] 2 dd snoc by (auto simp: add.assoc)
          then show ?thesis using slash [OF r1 L n(2), THEN yields_weaken] sg cs dd snoc by simp
        qed
      next
        case 3
        have "abs_scan (?H @ r) (length ?H) = abs_scan (?H @ w @ SL # r1) (length (?H @ w))"
          using scan_name [of w ?H "SL # r1"] 2 3 nul L hd_slashed [of st "[SL]"]
          by (cases "st = []") auto
        moreover have "plain_names (st @ [w])" using plain 2 by (simp add: plain_names_def)
        ultimately show ?thesis using slash [OF r1 L, of "st @ [w]", THEN yields_weaken] sg cs 3 by simp
      qed
    qed
  qed
qed

text \<open>The path before the loop: with the working directory in front, and cut at a newline.\<close>

definition start_path :: "string \<Rightarrow> string \<Rightarrow> string \<Rightarrow> string" where
  "start_path env_dir env_passwd s2 =
     (let p = (if s2 \<noteq> [] \<and> hd s2 = SL then s2 else env_dir @ SL # s2)
      in if env_passwd \<noteq> [] then takeWhile (\<lambda>c. c \<noteq> NL) p else p)"

text \<open>C16: \<open>util_abs_path\<close> computes what the specification on lists of names says, for every working
  directory, password and path: empty names and \<open>.\<close> are dropped, \<open>..\<close> removes the name before it and stays
  at the root, and what is left is written with a slash in front of each name. It always ends and never
  reads in front of its buffer. Two deviations are part of the code: where the path has two slashes side by
  side the result may begin with two slashes; and a path that ends with a slash, unless it names the
  root, is returned without the password.\<close>

theorem abs_path_equals_reference:
  fixes env_dir env_passwd s2 :: string
  assumes "NUL \<notin> set env_dir" and "NUL \<notin> set s2"
  defines "p \<equiv> start_path env_dir env_passwd s2"
  defines "cs \<equiv> resolve [] (names_of p)"
  shows "\<exists>q with_password.
    util_abs_path env_dir env_passwd s2 = Some (if with_password then q @ NL # env_passwd else q) \<and>
    (q = absolute cs \<or> q = SL # absolute cs) \<and> (single (SL # dropWhile (\<lambda>c. c = SL) p) \<longrightarrow> q = absolute cs) \<and>
    (with_password \<longrightarrow> env_passwd \<noteq> []) \<and> (env_passwd \<noteq> [] \<and> \<not> ends p \<longrightarrow> with_password) \<and>
    (ends p \<and> cs \<noteq> [] \<longrightarrow> \<not> with_password)"
proof -
  have nul: "NUL \<notin> set p"
    using assms(1,2) by (auto simp: p_def start_path_def Let_def dest: set_takeWhileD)
  have "(if env_passwd \<noteq> [] then util_junk_password else (\<lambda>p. p))
      (if s2 \<noteq> [] \<and> hd s2 = SL then SL # s2 else SL # env_dir @ SL # s2) = SL # p"
    by (auto simp: p_def start_path_def util_junk_password_def Let_def)
  then have u: "util_abs_path env_dir env_passwd s2 =
      map_option (\<lambda>(p, app). if app \<and> env_passwd \<noteq> [] then p @ NL # env_passwd else p) (abs_scan (SL # p) 0)"
    by (simp add: util_abs_path_def Let_def if_distribR split: if_splits)
  have "at_slash [] [] p"
  proof (rule at_slash_from_name)
    fix r' assume "set r' \<subseteq> set p" "r' \<noteq> []" "hd r' \<noteq> SL"
    then show "at_name [] [] r'" using nul by (intro scan_names) (auto simp: plain_names_def)
  qed simp
  then obtain q app where r: "abs_scan (SL # p) 0 = Some (q, app)" "q = absolute cs \<or> q = SL # absolute cs"
      "single (SL # dropWhile (\<lambda>c. c = SL) p) \<longrightarrow> q = absolute cs" "\<not> ends p \<longrightarrow> app" "ends p \<and> cs \<noteq> [] \<longrightarrow> \<not> app"
    by (auto simp: yields_def cs_def)
  then show ?thesis using u by (intro exI [of _ q] exI [of _ "app \<and> env_passwd \<noteq> []"]) auto
qed

theorem abs_path_equals_reference_witness:
  "\<exists>q w. util_abs_path ''/pub'' ''pw'' ''../x//./y/z/..'' = Some (if w then q @ NL # ''pw'' else q) \<and> w \<and>
     (q = ''/x/y'' \<or> q = ''//x/y'')"
proof -
  have s: "start_path ''/pub'' ''pw'' ''../x//./y/z/..'' = ''/pub/../x//./y/z/..''" by (simp add: start_path_def)
  have c: "resolve [] (names_of ''/pub/../x//./y/z/..'') = [''x'', ''y'']" by (simp add: names_of_def)
  have a: "absolute [''x'', ''y''] = ''/x/y''" by (simp add: absolute_def)
  have e: "\<not> ends ''/pub/../x//./y/z/..''" by (simp add: ends_def)
  have "NUL \<notin> set ''/pub''" "NUL \<notin> set ''../x//./y/z/..''" by simp_all
  from abs_path_equals_reference [OF this, of "''pw''", unfolded s c a] obtain q w where
    r: "util_abs_path ''/pub'' ''pw'' ''../x//./y/z/..'' = Some (if w then q @ NL # ''pw'' else q)"
      "q = ''/x/y'' \<or> q = SL # ''/x/y''" "''pw'' \<noteq> [] \<and> \<not> ends ''/pub/../x//./y/z/..'' \<longrightarrow> w"
    by blast
  have w: w using r(3) e by simp
  show ?thesis by (intro exI [of _ q] exI [of _ w] conjI r(1,2) w)
qed

end
