(* ===== verification/Client.thy ===== *)
theory Client
  imports Loop "HOL-Library.Signed_Division"
begin

text \<open>
  The protocol engine of the client, \<open>client_interact\<close> of \<^verbatim>\<open>client/lib.c\<close>, with the key storage of
  \<^verbatim>\<open>client/lock.c\<close> (\<open>client_get_key\<close>, \<open>client_set_key\<close>; without locking, or as the one holder of the
  lock).

  The static variables of the file are the record \<open>client\<close>. What happens outside is a list of rounds, one
  per turn of the retransmission loop: how \<open>sendto\<close> ends and when, and what wakes \<open>select\<close> until it
  times out (the end of the list). \<open>unsigned long\<close> has 64 bits. A conversation ends with a reply, with
  the exit of the program, or beyond the end of a buffer (\<open>Overrun\<close>); if the list of rounds ends first
  the client is still waiting. The packets sent are returned too, each with the delay allowed for its
  answer. When the client has been interrupted it exits after the reply; the last conversation of
  \<open>client_done\<close> is left out there. \<open>CLIENT_TIMEOUT\<close> is defined, as in configure.project.
\<close>

type_synonym u64 = "64 word"
type_synonym stamp = "int \<times> int"

record client =
  myseq :: u16
  okey :: u16
  cl_rbuf :: UBUF
  target_delay :: u64
  target_maxdelay :: u64
  busy_delay :: u64
  idle_delay :: u64
  env_timeout :: u32
  client_intr_state :: nat
  stat_resends :: u64
  stat_iresends :: u64
  stat_dupes :: u64
  stat_bad :: u64
  stat_ok :: u64

datatype sending = Sent stamp | Resend | Send_failed
datatype wake = Signal | Recv_error | Arrived "byte list" stamp
type_synonym round = "sending \<times> wake list"
datatype interaction = Replied UBUF client | Still_waiting client | Exited nat | Overrun
datatype listening = Got UBUF client | Timed_out client | Left nat | Overran

abbreviation (input) MIN_DELAY :: u64 where "MIN_DELAY \<equiv> 1000"
abbreviation (input) DEFAULT_DELAY :: u64 where "DEFAULT_DELAY \<equiv> 1340"
abbreviation (input) EX_UNAVAILABLE :: nat where "EX_UNAVAILABLE \<equiv> 69"
abbreviation (input) EX_IOERR :: nat where "EX_IOERR \<equiv> 74"
abbreviation (input) EX_TEMPFAIL :: nat where "EX_TEMPFAIL \<equiv> 75"

text \<open>The sequence number: a new one for each conversation, its last three bits count retransmissions.\<close>

definition next_seq :: "u16 \<Rightarrow> u32 \<Rightarrow> u16" where
  "next_seq old rnd = (let u = ucast (rnd AND 0xfff8) in if u = old then old XOR 0x1080 else u)"

definition seq_octets :: "u16 \<Rightarrow> nat \<Rightarrow> b2" where
  "seq_octets seq retry = (ucast (drop_bit 8 seq AND 0xff), ucast (seq AND 0xf8) OR of_nat (retry mod 8))"

text \<open>The tests on a datagram.\<close>

datatype judgement = Bad | Dupe | Good

definition positional :: "byte \<Rightarrow> bool" where
  "positional c \<longleftrightarrow> c \<in> {CC_GET_DIR, CC_GET_FILE, CC_UP_LOAD, CC_INFO, CC_GRAB_FILE}"

definition judge :: "byte \<Rightarrow> u64 \<Rightarrow> b2 \<Rightarrow> UBUF \<Rightarrow> nat \<Rightarrow> judgement" where
  "judge c pos seq rb bytes =
     (if \<not> length_ok rb bytes then Bad
      else if \<not> client_check (take bytes (ubuf_octets rb)) then Bad
      else if fst (bb_seq rb) \<noteq> fst seq \<or> (snd (bb_seq rb) XOR snd seq) AND 0xf8 \<noteq> 0 then Dupe
      else if c \<noteq> cmd rb \<and> cmd rb \<noteq> CC_ERR then Bad
      else if ucast (BB_READ4 (bb_pos rb)) \<noteq> pos \<and> positional c then Bad
      else Good)"

text \<open>The time since the transmission that was answered, in milliseconds, as the code computes it.\<close>

definition round_trip :: "stamp \<Rightarrow> stamp \<Rightarrow> u64" where
  "round_trip stop start = of_int (1000 * (fst stop - fst start)) + of_int ((snd stop - snd start) sdiv 1000)"

fun listen :: "byte \<Rightarrow> u64 \<Rightarrow> b2 \<Rightarrow> (nat \<Rightarrow> stamp) \<Rightarrow> wake list \<Rightarrow> client \<Rightarrow> listening" where
  "listen c pos seq start [] cl = Timed_out cl"
| "listen c pos seq start (Signal # ws) cl =
     (if client_intr_state cl = 1 then listen c pos seq start ws (cl\<lparr> client_intr_state := 2 \<rparr>) else Left EX_TEMPFAIL)"
| "listen c pos seq start (Recv_error # ws) cl = Overran"
| "listen c pos seq start (Arrived d now # ws) cl =
     (let bs = take (UBUF_HSIZE + UBUF_MAXSPACE) d;
          rb = recv_into (cl_rbuf cl) bs;
          cl1 = cl\<lparr> cl_rbuf := (if length_ok rb (length bs) then rb\<lparr> ub_sum := 0 \<rparr> else rb) \<rparr>
      in (case judge c pos seq rb (length bs) of
            Bad \<Rightarrow> listen c pos seq start ws (cl1\<lparr> stat_bad := stat_bad cl1 + 1 \<rparr>)
          | Dupe \<Rightarrow> listen c pos seq start ws (cl1\<lparr> stat_dupes := stat_dupes cl1 + 1 \<rparr>)
          | Good \<Rightarrow>
              (if client_intr_state cl = 2 then Left EX_TEMPFAIL
               else Got (cl_rbuf cl1) (cl1\<lparr> okey := BB_READ2 (bb_key rb),
                      busy_delay := round_trip now (start (unat (snd (bb_seq rb)) mod 8)),
                      stat_ok := stat_ok cl1 + 1 \<rparr>))))"

text \<open>The adaptive delays: the delay for this transmission and the new settings.\<close>

definition adapt :: "nat \<Rightarrow> client \<Rightarrow> u64 \<times> client" where
  "adapt retry cl =
     (if retry = 0 then
        (if target_delay cl \<ge> busy_delay cl then target_delay cl else busy_delay cl + DEFAULT_DELAY, cl)
      else if retry = 1 then
        (let d = busy_delay cl * 3 div 2
         in (d, cl\<lparr> busy_delay := d, idle_delay := d, stat_resends := stat_resends cl + 1 \<rparr>))
      else
        (let d = idle_delay cl * 4 div 3;
             d' = (if d > target_maxdelay cl then target_maxdelay cl else d)
         in (d', cl\<lparr> idle_delay := d', stat_iresends := stat_iresends cl + 1 \<rparr>)))"

definition clamp :: "client \<Rightarrow> u64 \<Rightarrow> u64" where
  "clamp cl w = (if w < MIN_DELAY then MIN_DELAY else if w > target_maxdelay cl then target_maxdelay cl else w)"

record request_args =
  ra_cmd :: byte
  ra_pos :: u64
  ra_data1 :: "char list"
  ra_data2 :: "char list"

definition packet_of :: "request_args \<Rightarrow> u16 \<Rightarrow> b2 \<Rightarrow> byte list" where
  "packet_of ra key seq = request_packet (ra_cmd ra) (ucast (ra_pos ra)) (ra_data1 ra) (ra_data2 ra) key seq"

fun transmit ::
  "request_args \<Rightarrow> u16 \<Rightarrow> nat \<Rightarrow> u64 \<Rightarrow> u64 \<Rightarrow> (nat \<Rightarrow> stamp) \<Rightarrow> round list \<Rightarrow> client
    \<Rightarrow> (byte list \<times> u64) list \<times> interaction" where
  "transmit ra key retry spent w start [] cl = ([], Still_waiting cl)"
| "transmit ra key retry spent w start ((s, ws) # rounds) cl =
     (let seq = seq_octets (myseq cl) retry;
          spent' = spent + w
      in (if 2 \<le> retry \<and> spent' div 1000 \<ge> ucast (env_timeout cl) then ([], Exited EX_UNAVAILABLE)
          else
            (let (w1, cl1) = adapt retry cl
             in (case s of
                   Resend \<Rightarrow> transmit ra key (retry + 1) spent' w1 start rounds cl1
                 | Send_failed \<Rightarrow> ([], Exited EX_IOERR)
                 | Sent now \<Rightarrow>
                     (let w2 = clamp cl1 w1;
                          start' = start(retry mod 8 := now);
                          (sent, r) =
                            (case listen (ra_cmd ra) (ra_pos ra) seq start' ws cl1 of
                               Got ub cl2 \<Rightarrow> ([], Replied ub cl2)
                             | Left n \<Rightarrow> ([], Exited n)
                             | Overran \<Rightarrow> ([], Overrun)
                             | Timed_out cl2 \<Rightarrow> transmit ra key (retry + 1) spent' w2 start' rounds cl2)
                      in ((packet_of ra key seq, w2) # sent, r))))))"

definition client_interact ::
  "u32 \<Rightarrow> (nat \<Rightarrow> stamp) \<Rightarrow> request_args \<Rightarrow> round list \<Rightarrow> client \<Rightarrow> (byte list \<times> u64) list \<times> interaction" where
  "client_interact rnd start ra rounds cl =
     (if length (ra_data1 ra) + length (ra_data2 ra) > UBUF_MAXSPACE then ([], Overrun)
      else transmit ra (okey cl) 0 0 0 start rounds
             (cl\<lparr> client_intr_state := 1, myseq := next_seq (myseq cl) rnd \<rparr>))"

subsection \<open>The tests\<close>

lemma low_bits: "((a :: byte) OR of_nat (k mod 8)) AND 0xf8 = a AND 0xf8"
proof -
  have "(of_nat (k mod 8) :: byte) AND 0xf8 = 0"
  proof -
    have "k mod 8 \<in> {0, 1, 2, 3, 4, 5, 6, 7}" by auto
    then show ?thesis by auto
  qed
  then show ?thesis by (simp add: bit.conj_disj_distrib2)
qed

lemma xor_zero: "x XOR y = 0 \<Longrightarrow> x = y" for x y :: byte
  by (metis bit.xor_left_self xor.comm_neutral)

lemma header_and_rest:
  "12 \<le> length m \<Longrightarrow> [m ! 0, m ! 1, m ! 2, m ! 3, m ! 4, m ! 5, m ! 6, m ! 7, m ! 8, m ! 9, m ! 10, m ! 11] @ drop 12 m = m"
  by (auto simp: numeral_eq_Suc Suc_le_length_iff)

lemma received_octets:
  assumes "12 \<le> length bs"
  shows "take (length bs) (ubuf_octets (recv_into old bs)) = bs"
proof -
  define m where "m = bs @ drop (length bs) (ubuf_octets old)"
  have m: "12 \<le> length m" using assms by (simp add: m_def)
  have "recv_into old bs = \<lparr> cmd = m ! 0, ub_sum = m ! 1, bb_key = (m ! 2, m ! 3), bb_seq = (m ! 4, m ! 5),
      bb_len = (m ! 6, m ! 7), bb_pos = (m ! 8, m ! 9, m ! 10, m ! 11), buf = map byte_char (drop 12 m) \<rparr>"
    by (simp add: recv_into_def m_def Let_def)
  then have "ubuf_octets (recv_into old bs) =
      [m ! 0, m ! 1, m ! 2, m ! 3, m ! 4, m ! 5, m ! 6, m ! 7, m ! 8, m ! 9, m ! 10, m ! 11] @ drop 12 m"
    by (simp add: ubuf_octets_def o_def)
  then have "ubuf_octets (recv_into old bs) = m" unfolding header_and_rest [OF m] .
  then show ?thesis by (simp add: m_def)
qed

text \<open>A datagram the client accepts as the answer to its request.\<close>

definition usable :: "request_args \<Rightarrow> u16 \<Rightarrow> byte list \<Rightarrow> bool" where
  "usable ra seq d \<longleftrightarrow> client_check d \<and> UBUF_HSIZE \<le> length d \<and> length d \<le> UBUF_HSIZE + UBUF_MAXSPACE \<and>
     UBUF_HSIZE + unat (BB_READ2 (d ! 6, d ! 7)) \<le> length d \<and>
     d ! 4 = fst (seq_octets seq 0) \<and> d ! 5 AND 0xf8 = snd (seq_octets seq 0) AND 0xf8 \<and>
     (d ! 0 = ra_cmd ra \<or> d ! 0 = CC_ERR) \<and>
     (positional (ra_cmd ra) \<longrightarrow> ucast (BB_READ4 (d ! 8, d ! 9, d ! 10, d ! 11)) = ra_pos ra)"

lemma recv_into_fields:
  assumes "12 \<le> length bs"
  shows "cmd (recv_into old bs) = bs ! 0" "bb_key (recv_into old bs) = (bs ! 2, bs ! 3)"
    "bb_seq (recv_into old bs) = (bs ! 4, bs ! 5)" "bb_len (recv_into old bs) = (bs ! 6, bs ! 7)"
    "bb_pos (recv_into old bs) = (bs ! 8, bs ! 9, bs ! 10, bs ! 11)"
  using assms by (auto simp: recv_into_def Let_def nth_append)

lemma judge_usable:
  fixes d :: "byte list"
  defines "bs \<equiv> take (UBUF_HSIZE + UBUF_MAXSPACE) d"
  shows "judge (ra_cmd ra) (ra_pos ra) (seq_octets seq k) (recv_into old bs) (length bs) = Good \<longleftrightarrow> usable ra seq bs"
proof (cases "12 \<le> length bs")
  case False
  then show ?thesis by (simp add: judge_def length_ok_def usable_def)
next
  case True
  have eq: "(x XOR y) AND 0xf8 = 0 \<longleftrightarrow> x AND 0xf8 = y AND 0xf8" for x y :: byte
    using xor_zero [of "x AND 0xf8" "y AND 0xf8"] by (auto simp: bit.conj_xor_distrib2)
  have low: "snd (seq_octets seq k) AND 0xf8 = snd (seq_octets seq 0) AND 0xf8"
    by (simp add: seq_octets_def low_bits low_bits [of _ 0, simplified])
  have len: "length bs \<le> UBUF_HSIZE + UBUF_MAXSPACE" by (simp add: bs_def)
  show ?thesis
    using True len
    by (auto simp: judge_def usable_def length_ok_def received_octets recv_into_fields eq low
        seq_octets_def [THEN arg_cong, of fst] not_less add.commute)
qed

subsection \<open>Listening\<close>

definition heard :: "request_args \<Rightarrow> u16 \<Rightarrow> wake list \<Rightarrow> bool" where
  "heard ra seq ws \<longleftrightarrow> (\<exists>d now. Arrived d now \<in> set ws \<and> usable ra seq (take (UBUF_HSIZE + UBUF_MAXSPACE) d))"

lemma heard_simps [simp]:
  "\<not> heard ra seq []"
  "heard ra seq (Arrived d now # ws) \<longleftrightarrow> usable ra seq (take (UBUF_HSIZE + UBUF_MAXSPACE) d) \<or> heard ra seq ws"
   apply (simp add: heard_def)
  by (simp only: heard_def list.set insert_iff wake.inject) blast

lemma judge_Good_length: "judge c pos seq rb n = Good \<Longrightarrow> length_ok rb n"
  by (simp add: judge_def split: if_splits)

text \<open>Where a reply comes from: the datagram, of which the buffer holds the first octets.\<close>

definition origin :: "request_args \<Rightarrow> u16 \<Rightarrow> wake list \<Rightarrow> UBUF \<Rightarrow> u16 \<Rightarrow> bool" where
  "origin ra seq ws ub k \<longleftrightarrow> (\<exists>d now old. Arrived d now \<in> set ws \<and>
    (let bs = take (UBUF_HSIZE + UBUF_MAXSPACE) d in
       usable ra seq bs \<and> ub = (recv_into old bs)\<lparr> ub_sum := 0 \<rparr> \<and> k = BB_READ2 (bs ! 2, bs ! 3)))"

lemma origin_Cons: "origin ra seq ws ub k \<Longrightarrow> origin ra seq (w # ws) ub k"
  by (auto simp: origin_def)

lemma listen_Got:
  assumes "listen (ra_cmd ra) (ra_pos ra) (seq_octets seq k) start ws cl = Got ub cl'"
  shows "origin ra seq ws ub (okey cl')"
  using assms
proof (induction ws arbitrary: cl)
  case Nil
  then show ?case by simp
next
  case (Cons w ws)
  show ?case
  proof (cases w)
    case Signal
    with Cons.prems have "listen (ra_cmd ra) (ra_pos ra) (seq_octets seq k) start ws (cl\<lparr> client_intr_state := 2 \<rparr>) = Got ub cl'"
      by (auto split: if_splits)
    from Cons.IH [OF this] show ?thesis by (rule origin_Cons)
  next
    case Recv_error
    with Cons.prems show ?thesis by simp
  next
    case (Arrived d now)
    let ?bs = "take (UBUF_HSIZE + UBUF_MAXSPACE) d" and ?rb = "recv_into (cl_rbuf cl) (take (UBUF_HSIZE + UBUF_MAXSPACE) d)"
    show ?thesis
    proof (cases "judge (ra_cmd ra) (ra_pos ra) (seq_octets seq k) ?rb (length ?bs)")
      case Good
      have u: "usable ra seq ?bs" using judge_usable [of ra seq k "cl_rbuf cl" d] Good by simp
      have ok: "length_ok ?rb (length ?bs)" using judge_Good_length [OF Good] .
      have "12 \<le> length ?bs" using u by (simp add: usable_def)
      from recv_into_fields(2) [OF this] have key: "bb_key ?rb = (?bs ! 2, ?bs ! 3)" .
      have "ub = ?rb\<lparr> ub_sum := 0 \<rparr> \<and> okey cl' = BB_READ2 (bb_key ?rb)"
        using Cons.prems Good ok unfolding Arrived by (auto simp: Let_def split: if_splits)
      with u key show ?thesis unfolding Arrived origin_def Let_def
        by (intro exI [of _ d] exI [of _ now] exI [of _ "cl_rbuf cl"]) simp
    next
      case Bad
      with Cons.prems obtain cl1 where "listen (ra_cmd ra) (ra_pos ra) (seq_octets seq k) start ws cl1 = Got ub cl'"
        unfolding Arrived by (auto simp: Let_def)
      from Cons.IH [OF this] show ?thesis by (rule origin_Cons)
    next
      case Dupe
      with Cons.prems obtain cl1 where "listen (ra_cmd ra) (ra_pos ra) (seq_octets seq k) start ws cl1 = Got ub cl'"
        unfolding Arrived by (auto simp: Let_def)
      from Cons.IH [OF this] show ?thesis by (rule origin_Cons)
    qed
  qed
qed

lemma listen_live:
  assumes "\<And>w. w \<in> set ws \<Longrightarrow> \<exists>d now. w = Arrived d now" "client_intr_state cl = 1"
  shows "if heard ra seq ws
    then \<exists>ub cl'. listen (ra_cmd ra) (ra_pos ra) (seq_octets seq k) start ws cl = Got ub cl'
    else \<exists>cl'. listen (ra_cmd ra) (ra_pos ra) (seq_octets seq k) start ws cl = Timed_out cl' \<and> client_intr_state cl' = 1 \<and>
      myseq cl' = myseq cl"
  using assms
proof (induction ws arbitrary: cl)
  case Nil
  then show ?case by simp
next
  case (Cons w ws)
  obtain d now where w: "w = Arrived d now" using Cons.prems(1) by force
  let ?bs = "take (UBUF_HSIZE + UBUF_MAXSPACE) d" and ?rb = "recv_into (cl_rbuf cl) (take (UBUF_HSIZE + UBUF_MAXSPACE) d)"
  note g = judge_usable [of ra seq k "cl_rbuf cl" d]
  have rest: "\<And>x. x \<in> set ws \<Longrightarrow> \<exists>d now. x = Arrived d now" using Cons.prems(1) by simp
  show ?case
  proof (cases "judge (ra_cmd ra) (ra_pos ra) (seq_octets seq k) ?rb (length ?bs)")
    case Good
    then show ?thesis using g Cons.prems(2) unfolding w by (auto simp: Let_def)
  next
    case Bad
    then have "\<not> usable ra seq ?bs" using g by simp
    moreover obtain cl1 where "listen (ra_cmd ra) (ra_pos ra) (seq_octets seq k) start (w # ws) cl =
        listen (ra_cmd ra) (ra_pos ra) (seq_octets seq k) start ws cl1" "client_intr_state cl1 = 1" "myseq cl1 = myseq cl"
      using Bad Cons.prems(2) unfolding w by (simp add: Let_def)
    ultimately show ?thesis using Cons.IH [OF rest, of cl1] unfolding w by (auto split: if_splits)
  next
    case Dupe
    then have "\<not> usable ra seq ?bs" using g by simp
    moreover obtain cl1 where "listen (ra_cmd ra) (ra_pos ra) (seq_octets seq k) start (w # ws) cl =
        listen (ra_cmd ra) (ra_pos ra) (seq_octets seq k) start ws cl1" "client_intr_state cl1 = 1" "myseq cl1 = myseq cl"
      using Dupe Cons.prems(2) unfolding w by (simp add: Let_def)
    ultimately show ?thesis using Cons.IH [OF rest, of cl1] unfolding w by (auto split: if_splits)
  qed
qed

lemma listen_keeps:
  "listen c pos seq start ws cl = Timed_out cl' \<Longrightarrow>
    myseq cl' = myseq cl \<and> target_maxdelay cl' = target_maxdelay cl \<and> env_timeout cl' = env_timeout cl"
  by (induction c pos seq start ws cl rule: listen.induct) (auto simp: Let_def split: if_splits judgement.splits)

lemma adapt_keeps:
  "adapt k cl = (w, cl') \<Longrightarrow> myseq cl' = myseq cl \<and> target_maxdelay cl' = target_maxdelay cl \<and>
    client_intr_state cl' = client_intr_state cl \<and> env_timeout cl' = env_timeout cl"
  by (auto simp: adapt_def Let_def split: if_splits)

subsection \<open>Transmitting\<close>

definition calm :: "round list \<Rightarrow> bool" where
  "calm rounds \<longleftrightarrow> (\<forall>(s, ws) \<in> set rounds. s \<noteq> Send_failed \<and> (\<forall>w \<in> set ws. \<exists>d now. w = Arrived d now))"

definition answered :: "request_args \<Rightarrow> u16 \<Rightarrow> round list \<Rightarrow> bool" where
  "answered ra seq rounds \<longleftrightarrow> (\<exists>s ws. (Sent s, ws) \<in> set rounds \<and> heard ra seq ws)"

lemma answered_simps [simp]:
  "\<not> answered ra seq []" "answered ra seq ((Sent s, ws) # rounds) \<longleftrightarrow> heard ra seq ws \<or> answered ra seq rounds"
  "answered ra seq ((Resend, ws) # rounds) \<longleftrightarrow> answered ra seq rounds"
  unfolding answered_def by (simp_all only: list.set insert_iff empty_iff prod.inject sending.inject) blast+

lemma calm_Cons: "calm ((s, ws) # rounds) \<longleftrightarrow> s \<noteq> Send_failed \<and> (\<forall>w \<in> set ws. \<exists>d now. w = Arrived d now) \<and> calm rounds"
  by (simp add: calm_def)

text \<open>One turn, by how it goes on.\<close>

lemma transmit_turn:
  assumes "adapt k cl = (w1, cl1)"
  shows "transmit ra key k spent w start ((s, ws) # rounds) cl =
    (if 2 \<le> k \<and> (spent + w) div 1000 \<ge> ucast (env_timeout cl) then ([], Exited EX_UNAVAILABLE)
     else (case s of
        Resend \<Rightarrow> transmit ra key (k + 1) (spent + w) w1 start rounds cl1
      | Send_failed \<Rightarrow> ([], Exited EX_IOERR)
      | Sent now \<Rightarrow> (let start' = start(k mod 8 := now);
            p = (packet_of ra key (seq_octets (myseq cl) k), clamp cl1 w1) in
          (case listen (ra_cmd ra) (ra_pos ra) (seq_octets (myseq cl) k) start' ws cl1 of
             Got ub cl2 \<Rightarrow> ([p], Replied ub cl2)
           | Left n \<Rightarrow> ([p], Exited n)
           | Overran \<Rightarrow> ([p], Overrun)
           | Timed_out cl2 \<Rightarrow>
               apfst (Cons p) (transmit ra key (k + 1) (spent + w) (clamp cl1 w1) start' rounds cl2)))))"
  using assms by (auto simp: Let_def split: sending.splits listening.splits prod.splits)

declare transmit.simps(2) [simp del]

lemma transmit_live:
  assumes "calm rounds" "client_intr_state cl = 1"
  shows "if answered ra (myseq cl) rounds
    then (\<exists>ub cl'. snd (transmit ra key k spent w start rounds cl) = Replied ub cl') \<or>
         (\<not> answered ra (myseq cl) (take (2 - k) rounds) \<and> snd (transmit ra key k spent w start rounds cl) = Exited EX_UNAVAILABLE)
    else (\<exists>cl'. snd (transmit ra key k spent w start rounds cl) = Still_waiting cl') \<or>
         snd (transmit ra key k spent w start rounds cl) = Exited EX_UNAVAILABLE"
  using assms
proof (induction rounds arbitrary: k spent w start cl)
  case Nil
  then show ?case by simp
next
  case (Cons r rounds)
  obtain s ws where r: "r = (s, ws)" by (cases r)
  obtain w1 cl1 where a: "adapt k cl = (w1, cl1)" by fastforce
  note ak = adapt_keeps [OF a]
  have c: "s \<noteq> Send_failed" "\<And>w. w \<in> set ws \<Longrightarrow> \<exists>d now. w = Arrived d now" "calm rounds"
    using Cons.prems(1) by (auto simp: r calm_Cons)
  have k: "take (2 - k) ((s, ws) # rounds) = (if 2 \<le> k then [] else (s, ws) # take (2 - (k + 1)) rounds)"
    using less_Suc_eq [of k 1] by (auto simp: not_le numeral_2_eq_2)
  note step = transmit_turn [OF a, of ra key spent w start s ws rounds]
  show ?case
  proof (cases "2 \<le> k \<and> (spent + w) div 1000 \<ge> ucast (env_timeout cl)")
    case True
    then show ?thesis unfolding r step k by simp
  next
    case go: False
    show ?thesis
    proof (cases s)
      case Resend
      from Cons.IH [OF c(3), of cl1 "k + 1" "spent + w" w1 start] ak Cons.prems(2)
      show ?thesis unfolding r Resend step [unfolded Resend] k [unfolded Resend] if_not_P [OF go] by (auto split: if_splits)
    next
      case Send_failed
      with c(1) show ?thesis by simp
    next
      case (Sent now)
      define st where "st = start(k mod 8 := now)"
      note l = listen_live [of ws cl1 ra "myseq cl" k st, OF c(2)]
      show ?thesis
      proof (cases "heard ra (myseq cl) ws")
        case True
        then show ?thesis using l ak Cons.prems(2) unfolding r Sent step [unfolded Sent sending.case Let_def, folded st_def] k [unfolded Sent] if_not_P [OF go] by auto
      next
        case False
        then obtain cl2 where cl2: "listen (ra_cmd ra) (ra_pos ra) (seq_octets (myseq cl) k) st ws cl1 = Timed_out cl2"
            "client_intr_state cl2 = 1" "myseq cl2 = myseq cl"
          using l ak Cons.prems(2) by auto
        from Cons.IH [OF c(3) cl2(2), of "k + 1" "spent + w" "clamp cl1 w1" st] cl2 False
        show ?thesis unfolding r Sent step [unfolded Sent sending.case Let_def, folded st_def] k [unfolded Sent] if_not_P [OF go] by (auto split: if_splits)
      qed
    qed
  qed
qed

lemma transmit_Replied:
  assumes "transmit ra key k spent w start rounds cl = (sent, Replied ub cl')"
  shows "\<exists>s ws. (Sent s, ws) \<in> set rounds \<and> origin ra (myseq cl) ws ub (okey cl')"
  using assms
proof (induction rounds arbitrary: k spent w start cl sent)
  case Nil
  then show ?case by simp
next
  case (Cons r rounds)
  obtain s ws where r: "r = (s, ws)" by (cases r)
  obtain w1 cl1 where a: "adapt k cl = (w1, cl1)" by fastforce
  note ak = adapt_keeps [OF a]
  note run = Cons.prems [unfolded r transmit_turn [OF a]]
  show ?case
  proof (cases s)
    case Resend
    with run have "transmit ra key (k + 1) (spent + w) w1 start rounds cl1 = (sent, Replied ub cl')" by (simp split: if_splits)
    from Cons.IH [OF this] ak show ?thesis by auto
  next
    case Send_failed
    with run show ?thesis by (simp split: if_splits)
  next
    case (Sent now)
    let ?l = "listen (ra_cmd ra) (ra_pos ra) (seq_octets (myseq cl) k) (start(k mod 8 := now)) ws cl1"
    consider (got) "?l = Got ub cl'"
      | (later) cl2 sent' where "?l = Timed_out cl2"
          "transmit ra key (k + 1) (spent + w) (clamp cl1 w1) (start(k mod 8 := now)) rounds cl2 = (sent', Replied ub cl')"
      using run unfolding Sent
      by (cases ?l; cases "transmit ra key (k + 1) (spent + w) (clamp cl1 w1) (start(k mod 8 := now)) rounds (case ?l of Timed_out c \<Rightarrow> c)")
        (auto simp: Let_def split: if_splits)
    then show ?thesis
    proof cases
      case got
      from listen_Got [OF this] show ?thesis unfolding r Sent by (intro exI [of _ now] exI [of _ ws]) simp
    next
      case later
      from Cons.IH [OF later(2)] listen_keeps [OF later(1)] ak show ?thesis by auto
    qed
  qed
qed

lemma transmit_sent:
  assumes "transmit ra key k spent w start rounds cl = (sent, r)"
  shows "\<forall>(p, d) \<in> set sent. (\<exists>i. p = packet_of ra key (seq_octets (myseq cl) i)) \<and>
    (MIN_DELAY \<le> target_maxdelay cl \<longrightarrow> MIN_DELAY \<le> d \<and> d \<le> target_maxdelay cl)"
  using assms
proof (induction rounds arbitrary: k spent w start cl sent)
  case Nil
  then show ?case by simp
next
  case (Cons q rounds)
  obtain s ws where q: "q = (s, ws)" by (cases q)
  obtain w1 cl1 where a: "adapt k cl = (w1, cl1)" by fastforce
  note ak = adapt_keeps [OF a]
  note run = Cons.prems [unfolded q transmit_turn [OF a]]
  show ?case
  proof (cases s)
    case Resend
    show ?thesis
    proof (cases "sent = []")
      case False
      with run have "transmit ra key (k + 1) (spent + w) w1 start rounds cl1 = (sent, r)"
        unfolding Resend by (auto split: if_splits)
      from Cons.IH [OF this] ak show ?thesis by simp
    qed simp
  next
    case Send_failed
    with run show ?thesis by (auto split: if_splits)
  next
    case (Sent now)
    let ?l = "listen (ra_cmd ra) (ra_pos ra) (seq_octets (myseq cl) k) (start(k mod 8 := now)) ws cl1"
    let ?p = "(packet_of ra key (seq_octets (myseq cl) k), clamp cl1 w1)"
    have cp: "MIN_DELAY \<le> target_maxdelay cl \<longrightarrow> MIN_DELAY \<le> clamp cl1 w1 \<and> clamp cl1 w1 \<le> target_maxdelay cl"
      using ak by (auto simp: clamp_def not_less)
    consider "sent = []" | "sent = [?p]" | (later) cl2 sent' where "?l = Timed_out cl2" "sent = ?p # sent'"
          "transmit ra key (k + 1) (spent + w) (clamp cl1 w1) (start(k mod 8 := now)) rounds cl2 = (sent', r)"
      using run unfolding Sent
      by (cases ?l; cases "transmit ra key (k + 1) (spent + w) (clamp cl1 w1) (start(k mod 8 := now)) rounds (case ?l of Timed_out c \<Rightarrow> c)")
        (auto simp: Let_def split: if_splits)
    then show ?thesis
    proof cases
      case later
      note lk = listen_keeps [OF later(1)]
      from Cons.IH [OF later(3)] lk ak have "\<forall>(p, d) \<in> set sent'. (\<exists>i. p = packet_of ra key (seq_octets (myseq cl) i)) \<and>
        (MIN_DELAY \<le> target_maxdelay cl \<longrightarrow> MIN_DELAY \<le> d \<and> d \<le> target_maxdelay cl)" by simp
      with cp show ?thesis unfolding later(2) by auto
    qed (use cp in auto)
  qed
qed

subsection \<open>Properties\<close>

lemma client_interact_seq:
  "length (ra_data1 ra) + length (ra_data2 ra) \<le> UBUF_MAXSPACE \<Longrightarrow> client_interact rnd start ra rounds cl =
     transmit ra (okey cl) 0 0 0 start rounds (cl\<lparr> client_intr_state := 1, myseq := next_seq (myseq cl) rnd \<rparr>)"
  by (simp add: client_interact_def)

lemma packet_header:
  assumes "seq = (a, b)"
  shows "packet_of ra key seq ! 0 = ra_cmd ra" "packet_of ra key seq ! 4 = a" "packet_of ra key seq ! 5 = b"
  using assms by (cases "BB_WRITE2 key"; simp add: packet_of_def request_packet_def up.seal_frame ubuf_octets_def)+

text \<open>What the server sends in answer to any of the packets of a conversation is an answer to the
  conversation, if it has the position of the request.\<close>

lemma reply_is_usable:
  assumes "reply_to (packet_of ra key (seq_octets seq i)) d"
    and "positional (ra_cmd ra) \<Longrightarrow> ucast (BB_READ4 (d ! 8, d ! 9, d ! 10, d ! 11)) = ra_pos ra"
  shows "usable ra seq d"
proof -
  obtain a b where s: "seq_octets seq i = (a, b)" by fastforce
  have "a = fst (seq_octets seq 0)" "b AND 0xf8 = snd (seq_octets seq 0) AND 0xf8"
    using s by (auto simp: seq_octets_def low_bits low_bits [of _ 0, simplified])
  then show ?thesis using assms packet_header [OF s, of ra key] unfolding s by (auto simp: reply_to_def usable_def)
qed

lemma accepted_reply:
  assumes "client_interact rnd start ra rounds cl = (sent, Replied ub cl')"
  shows "\<exists>s ws d now old. (Sent s, ws) \<in> set rounds \<and> Arrived d now \<in> set ws \<and>
    usable ra (next_seq (myseq cl) rnd) (take (UBUF_HSIZE + UBUF_MAXSPACE) d) \<and>
    ub = (recv_into old (take (UBUF_HSIZE + UBUF_MAXSPACE) d))\<lparr> ub_sum := 0 \<rparr> \<and>
    okey cl' = BB_READ2 (take (UBUF_HSIZE + UBUF_MAXSPACE) d ! 2, take (UBUF_HSIZE + UBUF_MAXSPACE) d ! 3)"
proof -
  have "transmit ra (okey cl) 0 0 0 start rounds (cl\<lparr> client_intr_state := 1, myseq := next_seq (myseq cl) rnd \<rparr>)
      = (sent, Replied ub cl')"
    using assms by (simp add: client_interact_def split: if_splits)
  from transmit_Replied [OF this] obtain s ws where r: "(Sent s, ws) \<in> set rounds"
      "origin ra (next_seq (myseq cl) rnd) ws ub (okey cl')" by auto
  from r(2) obtain d now old where "Arrived d now \<in> set ws"
      "usable ra (next_seq (myseq cl) rnd) (take (UBUF_HSIZE + UBUF_MAXSPACE) d)"
      "ub = (recv_into old (take (UBUF_HSIZE + UBUF_MAXSPACE) d))\<lparr> ub_sum := 0 \<rparr>"
      "okey cl' = BB_READ2 (take (UBUF_HSIZE + UBUF_MAXSPACE) d ! 2, take (UBUF_HSIZE + UBUF_MAXSPACE) d ! 3)"
    unfolding origin_def Let_def by blast
  with r(1) show ?thesis by blast
qed

lemma reply_packet_pos:
  assumes "wf_ubuf ub" "m + n \<le> UBUF_MAXSPACE"
  defines "p \<equiv> reply_packet ub m n"
  shows "(p ! 8, p ! 9, p ! 10, p ! 11) = bb_pos ub"
proof -
  obtain k1 k2 s1 s2 l1 l2 p1 p2 p3 p4 where f: "bb_key ub = (k1, k2)" "bb_seq ub = (s1, s2)"
      "BB_WRITE2 (of_nat m) = (l1, l2)" "bb_pos ub = (p1, p2, p3, p4)"
    by (metis prod.collapse)
  show ?thesis
    using assms(1) by (simp add: p_def reply_packet_def down.seal_frame ubuf_octets_def f wf_ubuf_def)
qed

text \<open>C7: the client returns a reply only if it is the answer to its request: among the datagrams that
  arrived there is one with a correct checksum and length, the sequence number of the conversation, the
  command of the request or that of an error, and, where the command has a position, the position of the
  request; the buffer returned holds it, and the key for the next request is the one it carries.\<close>

theorem accepted_reply_answers_request:
  assumes "client_interact rnd start ra rounds cl = (sent, Replied ub cl')"
  shows "\<exists>s ws d now old. (Sent s, ws) \<in> set rounds \<and> Arrived d now \<in> set ws \<and>
    (let bs = take (UBUF_HSIZE + UBUF_MAXSPACE) d in
       usable ra (next_seq (myseq cl) rnd) bs \<and> ub = (recv_into old bs)\<lparr> ub_sum := 0 \<rparr> \<and>
       okey cl' = BB_READ2 (bs ! 2, bs ! 3))"
  using accepted_reply [OF assms] by (simp only: Let_def)

text \<open>A conversation with the site of theory \<open>Loop\<close>: the answer of the server to the deletion arrives.\<close>

definition site_args :: request_args where
  "site_args = \<lparr> ra_cmd = CC_DEL_FILE, ra_pos = 0, ra_data1 = ''a.txt'' @ [NUL], ra_data2 = [] \<rparr>"

definition demo_client :: client where
  "demo_client = \<lparr> myseq = 0, okey = 3, cl_rbuf = blank_ubuf, target_delay = 1340, target_maxdelay = 60000,
     busy_delay = 1340, idle_delay = 1340, env_timeout = 360, client_intr_state = 0, stat_resends = 0,
     stat_iresends = 0, stat_dupes = 0, stat_bad = 0, stat_ok = 0 \<rparr>"

definition hears :: "byte list \<Rightarrow> round list" where
  "hears p = [(Sent (0, 0), [Arrived p (1, 0)])]"

lemma demo_seq: "next_seq (myseq demo_client) 0x400 = 0x400" "seq_octets 0x400 5 = (4, 5)" "seq_octets 0x400 0 = (4, 0)"
  by code_simp+

lemma site_answer:
  obtains p where "reply_to (packet_of site_args key (seq_octets (next_seq (myseq demo_client) 0x400) 5)) p"
proof -
  obtain p s where run: "serves site_conf no_rdns (\<lambda>_. None) [] ''2.8'' (site_start site_conf site_buffer) [(site_request, Some p)] s"
    using site_deleting_run by blast
  have "reply_to [69, 90, 0, 3, 4, 5, 0, 6, 0, 0, 0, 0, 97, 46, 116, 120, 116, 0] p"
    using serves_keeps [OF run server_starts_ok [OF site_conf_starts]] by (auto simp: site_request_def)
  then have "reply_to (packet_of site_args key (seq_octets (next_seq (myseq demo_client) 0x400) 5)) p"
    using packet_header [OF demo_seq(2), of site_args key] by (simp add: reply_to_def demo_seq site_args_def)
  then show thesis by (rule that)
qed

theorem accepted_reply_answers_request_witness:
  "\<exists>p sent ub cl' old. client_interact 0x400 (\<lambda>_. (0, 0)) site_args (hears p) demo_client = (sent, Replied ub cl') \<and>
     ub = (recv_into old (take (UBUF_HSIZE + UBUF_MAXSPACE) p))\<lparr> ub_sum := 0 \<rparr>"
proof -
  obtain p where p: "reply_to (packet_of site_args 3 (seq_octets (next_seq (myseq demo_client) 0x400) 5)) p"
    by (rule site_answer)
  have u: "usable site_args 0x400 p"
    using reply_is_usable [OF p] by (simp add: demo_seq site_args_def positional_def)
  then have t: "take (UBUF_HSIZE + UBUF_MAXSPACE) p = p" by (simp add: usable_def)
  have a: "answered site_args 0x400 (hears p)" "calm (hears p)"
    using u t by (simp_all add: hears_def calm_def)
  let ?cl = "demo_client\<lparr> client_intr_state := 1, myseq := 0x400 \<rparr>"
  have e: "client_interact 0x400 (\<lambda>_. (0, 0)) site_args (hears p) demo_client =
      transmit site_args (okey demo_client) 0 0 0 (\<lambda>_. (0, 0)) (hears p) ?cl"
    by (subst client_interact_seq) (simp_all only: demo_seq, simp add: site_args_def)
  have "take 2 (hears p) = hears p" by (simp add: hears_def)
  then obtain ub cl' where "snd (client_interact 0x400 (\<lambda>_. (0, 0)) site_args (hears p) demo_client) = Replied ub cl'"
    using transmit_live [OF a(2), of ?cl site_args "okey demo_client" 0 0 0 "\<lambda>_. (0, 0)"] a(1) unfolding e by auto
  then obtain sent where r: "client_interact 0x400 (\<lambda>_. (0, 0)) site_args (hears p) demo_client = (sent, Replied ub cl')"
    by (cases "client_interact 0x400 (\<lambda>_. (0, 0)) site_args (hears p) demo_client") simp
  from accepted_reply_answers_request [OF r] obtain old where
    "ub = (recv_into old (take (UBUF_HSIZE + UBUF_MAXSPACE) p))\<lparr> ub_sum := 0 \<rparr>"
    by (auto simp: hears_def Let_def)
  with r show ?thesis by blast
qed



text \<open>C25: an error the server reports at a position is never seen: an error reply has position 0, and
  the client drops every reply to a reading, listing, uploading or grabbing request whose position is not
  the one requested. As long as the server answers a request behind the start of a file or directory with
  errors only, the conversation does not end with a reply: the client repeats its request until it times
  out, however often the server answers.\<close>

theorem errors_at_a_position_are_dropped:
  assumes "positional (ra_cmd ra)" and "ra_pos ra \<noteq> 0"
    and "\<And>s ws d now. (Sent s, ws) \<in> set rounds \<Longrightarrow> Arrived d now \<in> set ws \<Longrightarrow>
      \<exists>ub ub' msg n. wf_ubuf ub \<and> send_error ub msg = Some (Answer n 0, ub') \<and> d = reply_packet ub' n 0"
  shows "snd (client_interact rnd start ra rounds cl) \<noteq> Replied ub cl'"
proof
  assume "snd (client_interact rnd start ra rounds cl) = Replied ub cl'"
  then obtain sent where "client_interact rnd start ra rounds cl = (sent, Replied ub cl')"
    by (cases "client_interact rnd start ra rounds cl") simp
  from accepted_reply [OF this] obtain s ws d now where r: "(Sent s, ws) \<in> set rounds" "Arrived d now \<in> set ws"
      "usable ra (next_seq (myseq cl) rnd) (take (UBUF_HSIZE + UBUF_MAXSPACE) d)" by blast
  from assms(3) [OF r(1,2)] obtain ub0 ub' msg n where e: "wf_ubuf ub0" "send_error ub0 msg = Some (Answer n 0, ub')"
      "d = reply_packet ub' n 0" by blast
  then have ub': "wf_ubuf ub'" "n + 0 \<le> UBUF_MAXSPACE" "bb_pos ub' = BB_WRITE4 0"
    by (auto simp: send_error_def Let_def wf_ubuf_def put_buf_def split: if_splits)
  note h = reply_packet_header(2) [OF ub'(1,2)] reply_packet_pos [OF ub'(1,2)]
  have "take (UBUF_HSIZE + UBUF_MAXSPACE) d = d" using h(1) ub'(2) e(3) by simp
  then have "ucast (BB_READ4 (bb_pos ub')) = ra_pos ra"
    using r(3) assms(1) h(2) e(3) by (simp add: usable_def)
  with ub'(3) assms(2) show False by simp
qed

theorem errors_at_a_position_are_dropped_witness:
  "\<exists>p. (\<exists>ub ub' n. wf_ubuf ub \<and> send_error ub ''No such file'' = Some (Answer n 0, ub') \<and> p = reply_packet ub' n 0) \<and>
     (\<forall>ub cl'. snd (client_interact 0x400 (\<lambda>_. (0, 0)) (site_args\<lparr> ra_cmd := CC_GET_FILE, ra_pos := 1024 \<rparr>) (hears p) demo_client)
        \<noteq> Replied ub cl')"
proof -
  let ?ra = "site_args\<lparr> ra_cmd := CC_GET_FILE, ra_pos := 1024 \<rparr>"
  define ub where "ub = blank_ubuf\<lparr> buf := replicate UBUF_MAXSPACE NUL \<rparr>"
  have wf: "wf_ubuf ub" by (simp add: ub_def wf_ubuf_def)
  obtain ub' where e: "send_error ub ''No such file'' = Some (Answer 13 0, ub')"
    by (simp add: send_error_def)
  define p where "p = reply_packet ub' 13 0"
  have "snd (client_interact 0x400 (\<lambda>_. (0, 0)) ?ra (hears p) demo_client) \<noteq> Replied ub1 cl'" for ub1 cl'
  proof (rule errors_at_a_position_are_dropped)
    show "positional (ra_cmd ?ra)" "ra_pos ?ra \<noteq> 0" by (simp_all add: positional_def)
    fix s ws d now
    assume "(Sent s, ws) \<in> set (hears p)" "Arrived d now \<in> set ws"
    then have "d = reply_packet ub' 13 0" by (simp add: hears_def p_def)
    with wf e show "\<exists>ub ub' msg n. wf_ubuf ub \<and> send_error ub msg = Some (Answer n 0, ub') \<and> d = reply_packet ub' n 0"
      by blast
  qed
  with wf e p_def show ?thesis by blast
qed

text \<open>C38: retransmissions are paced and carry the same request: every packet of a conversation has the
  command, position, data and key of the first, its sequence number differs in the last three bits only,
  and the client waits for its answer at least a second and at most \<open>target_maxdelay\<close>, whatever delays it
  has measured.\<close>

theorem retransmissions_are_paced:
  assumes "MIN_DELAY \<le> target_maxdelay cl"
    and "client_interact rnd start ra rounds cl = (sent, r)" and "(p, delay) \<in> set sent"
  shows "(\<exists>i. p = packet_of ra (okey cl) (seq_octets (next_seq (myseq cl) rnd) i)) \<and>
    MIN_DELAY \<le> delay \<and> delay \<le> target_maxdelay cl"
proof -
  have "transmit ra (okey cl) 0 0 0 start rounds (cl\<lparr> client_intr_state := 1, myseq := next_seq (myseq cl) rnd \<rparr>) = (sent, r)"
    using assms(2,3) by (auto simp: client_interact_def split: if_splits)
  from transmit_sent [OF this] assms(1,3) show ?thesis by auto
qed

theorem retransmissions_are_paced_witness:
  "case client_interact 0x400 (\<lambda>_. (0, 0)) site_args [(Sent (0, 0), []), (Sent (1, 0), [])] demo_client of
     (sent, r) \<Rightarrow> length sent = 2 \<and> (\<forall>(p, delay) \<in> set sent. 1000 \<le> delay \<and> delay \<le> 60000)"
proof -
  obtain sent r where run: "client_interact 0x400 (\<lambda>_. (0, 0)) site_args [(Sent (0, 0), []), (Sent (1, 0), [])] demo_client = (sent, r)"
    by fastforce
  have "length (fst (client_interact 0x400 (\<lambda>_. (0, 0)) site_args [(Sent (0, 0), []), (Sent (1, 0), [])] demo_client)) = 2"
    by (simp add: client_interact_def site_args_def demo_client_def transmit.simps adapt_def)
  moreover have "1000 \<le> delay \<and> delay \<le> 60000" if "(p, delay) \<in> set sent" for p delay
    using retransmissions_are_paced [OF _ run that] by (simp add: demo_client_def)
  ultimately show ?thesis using run by auto
qed

end
