(* ===== verification/ClientTree.thy ===== *)
theory ClientTree
  imports ClientDir ClientPath Client
begin

text \<open>
  The remote tree as the client programs see it, from \<^verbatim>\<open>client/util.c\<close>: \<open>util_split_path\<close>,
  \<open>util_opendir\<close>, \<open>util_closedir\<close>, \<open>util_readdir\<close>, \<open>util_stat\<close>, \<open>util_cd\<close>, \<open>util_cd2\<close> and
  \<open>util_process_file\<close>.

  The static variables of the file are the record \<open>session\<close>; the list \<open>ddroot\<close> of directories read
  before is never shortened. A conversation with the server is a function \<open>ask\<close> on the state of
  everything outside, \<open>None\<close> if it does not come back (\<open>client_interact\<close> exits or waits for ever).
  \<open>None\<close> is also undefined behaviour. Messages to the terminal are left out.
\<close>

record DDLIST =
  dd_path :: string
  dep_root :: "RDIRENT list"
  ref_cnt :: int

record session =
  env_dir :: string
  env_passwd :: string
  client_buf_len :: u16
  ddroot :: "DDLIST list"
  statworks :: bool

text \<open>An open directory: the path of its record, and the entries from the pointer \<open>dep\<close> on.\<close>

record RDIR =
  ddp :: string
  dep :: "RDIRENT list"

record remote_stat =
  rs_dir :: bool
  rs_nlink :: nat
  rs_size :: nat
  rs_mtime :: nat

type_synonym 's asking = "request_args \<Rightarrow> 's \<Rightarrow> (UBUF \<times> 's) option"

subsection \<open>Paths and requests\<close>

definition abs_path :: "session \<Rightarrow> string \<Rightarrow> string option" where
  "abs_path se p = util_abs_path (env_dir se) (env_passwd se) p"

text \<open>The loop of \<open>util_split_path\<close> finds the last slash from \<open>p3\<close> on; the result is the directory and the
  name, the caller having put a zero on the slash.\<close>

definition util_split_path :: "string \<Rightarrow> string \<times> string" where
  "util_split_path path =
     (let start = (if path \<noteq> [] \<and> hd path = SL then tl path else path);
          name = rev (takeWhile (\<lambda>c. c \<noteq> SL) (rev start));
          file = (if name = [] then ''.'' else name)
      in if SL \<in> set start then (take (length path - length name - 1) path, file) else ([SL], file))"

text \<open>A path goes without its first character and with the zero behind it. \<open>client_net_len\<close> are the two
  octets of the size wanted.\<close>

definition path_request :: "byte \<Rightarrow> nat \<Rightarrow> string \<Rightarrow> char list \<Rightarrow> request_args" where
  "path_request c pos fpath extra =
     \<lparr> ra_cmd = c, ra_pos = of_nat pos, ra_data1 = take (length fpath) (tl fpath @ [NUL]), ra_data2 = extra \<rparr>"

definition client_net_len :: "session \<Rightarrow> char list" where
  "client_net_len se = b2_chars (BB_WRITE2 (client_buf_len se))"

subsection \<open>Directories\<close>

definition dir_fetch :: "'s asking \<Rightarrow> session \<Rightarrow> string \<Rightarrow> nat \<Rightarrow> 's \<Rightarrow> ((string + char list) \<times> 's) option" where
  "dir_fetch ask se fpath pos s = do {
     (ub, s1) \<leftarrow> ask (path_request CC_GET_DIR pos fpath (client_net_len se)) s;
     Some (if cmd ub = CC_ERR then Inl (cstr (buf ub)) else Inr (take (unat (BB_READ2 (bb_len ub))) (buf ub)), s1) }"

definition read_remote_dir :: "'s asking \<Rightarrow> session \<Rightarrow> string \<Rightarrow> 's \<Rightarrow> ((string + RDIRENT list) \<times> 's) option" where
  "read_remote_dir ask se path s = do {
     fpath \<leftarrow> abs_path se path;
     get_dir_blk (dir_fetch ask se fpath) s }"

definition find_dir :: "string \<Rightarrow> session \<Rightarrow> DDLIST option" where
  "find_dir p se = find (\<lambda>d. dd_path d = p) (ddroot se)"

text \<open>Counting references to the record with path \<open>p\<close>.\<close>

definition count_ref :: "int \<Rightarrow> string \<Rightarrow> session \<Rightarrow> session" where
  "count_ref k p se = se\<lparr> ddroot := map (\<lambda>d. if dd_path d = p then d\<lparr> ref_cnt := ref_cnt d + k \<rparr> else d) (ddroot se) \<rparr>"

definition util_opendir :: "'s asking \<Rightarrow> string \<Rightarrow> session \<Rightarrow> 's \<Rightarrow> (RDIR option \<times> session \<times> 's) option" where
  "util_opendir ask path se s = do {
     fpath \<leftarrow> abs_path se path;
     (case find_dir fpath se of
        Some d \<Rightarrow> Some (Some \<lparr> ddp = fpath, dep = dep_root d \<rparr>, count_ref 1 fpath se, s)
      | None \<Rightarrow> do {
          (r, s1) \<leftarrow> read_remote_dir ask se fpath s;
          (case r of
             Inl e \<Rightarrow> Some (None, se, s1)
           | Inr es \<Rightarrow>
               Some (Some \<lparr> ddp = fpath, dep = es \<rparr>,
                     se\<lparr> ddroot := \<lparr> dd_path = fpath, dep_root = es, ref_cnt = 1 \<rparr> # ddroot se \<rparr>, s1)) }) }"

definition util_closedir :: "RDIR \<Rightarrow> session \<Rightarrow> session" where
  "util_closedir rd se = count_ref (- 1) (ddp rd) se"

definition util_readdir :: "RDIR \<Rightarrow> (string \<times> RDIR) option" where
  "util_readdir rd = (case dep rd of [] \<Rightarrow> None | e # es \<Rightarrow> Some (de_name e, rd\<lparr> dep := es \<rparr>))"

subsection \<open>Status\<close>

definition remote_stat_of :: "bool \<Rightarrow> char list \<Rightarrow> char list \<Rightarrow> remote_stat" where
  "remote_stat_of is_d sz tm =
     \<lparr> rs_dir = is_d, rs_nlink = (if is_d then 2 else 1),
       rs_size = unat (BB_READ4 (char_byte (sz ! 0), char_byte (sz ! 1), char_byte (sz ! 2), char_byte (sz ! 3))),
       rs_mtime = unat (BB_READ4 (char_byte (tm ! 0), char_byte (tm ! 1), char_byte (tm ! 2), char_byte (tm ! 3))) \<rparr>"

definition entry_stat :: "RDIRENT \<Rightarrow> remote_stat" where
  "entry_stat e = remote_stat_of (de_type e = RDTYPE_DIR) (bb_size e) (bb_time e)"

definition stat_by_listing ::
  "'s asking \<Rightarrow> string \<Rightarrow> string \<Rightarrow> session \<Rightarrow> 's \<Rightarrow> (remote_stat option \<times> session \<times> 's) option" where
  "stat_by_listing ask ppath pfile se s = do {
     (rd, se1, s1) \<leftarrow> util_opendir ask ppath se s;
     Some (case rd of
             None \<Rightarrow> (None, se1, s1)
           | Some d \<Rightarrow> (map_option entry_stat (find (\<lambda>e. de_name e = pfile) (dep d)), util_closedir d se1, s1)) }"

definition util_stat :: "'s asking \<Rightarrow> string \<Rightarrow> session \<Rightarrow> 's \<Rightarrow> (remote_stat option \<times> session \<times> 's) option" where
  "util_stat ask path se s = do {
     fpath \<leftarrow> abs_path se path;
     let (ppath, pfile) = (if fpath = env_dir se then (fpath, ''.'') else util_split_path fpath);
     if statworks se \<and> find_dir ppath se = None then do {
       (ub, s1) \<leftarrow> ask (path_request CC_STAT 0 fpath []) s;
       if cmd ub = CC_STAT then
         Some (if buf ub ! 8 = NUL then None
               else Some (remote_stat_of (buf ub ! 8 = RDTYPE_DIR) (take 4 (drop 4 (buf ub))) (take 4 (buf ub))), se, s1)
       else stat_by_listing ask ppath pfile (se\<lparr> statworks := False \<rparr>) s1 }
     else stat_by_listing ask ppath pfile se s }"

subsection \<open>The current directory\<close>

text \<open>The return value and \<open>env_dir\<close>, which keeps the password behind the path.\<close>

definition util_cd :: "'s asking \<Rightarrow> string \<Rightarrow> session \<Rightarrow> 's \<Rightarrow> (int \<times> session \<times> 's) option" where
  "util_cd ask p se s = do {
     fpath \<leftarrow> abs_path se p;
     if find_dir fpath se = None \<and> p \<noteq> ''.'' \<and> p \<noteq> ''..'' then do {
       (ub, s1) \<leftarrow> ask (path_request CC_GET_DIR 0 fpath (client_net_len se)) s;
       if cmd ub = CC_ERR then Some (- 1, se, s1) else Some (0, se\<lparr> env_dir := fpath \<rparr>, s1) }
     else Some (0, se\<lparr> env_dir := fpath \<rparr>, s) }"

definition util_cd2 :: "string \<Rightarrow> session \<Rightarrow> session option" where
  "util_cd2 p se = do { fpath \<leftarrow> abs_path se p; Some (se\<lparr> env_dir := fpath \<rparr>) }"

subsection \<open>Walking over the tree\<close>

text \<open>The functions the programs pass to \<open>util_process_file\<close>; each may change all of the state, the
  program's own part \<open>'c\<close> included. A null pointer is a function that does nothing and returns 0.\<close>

type_synonym ('c, 's) everything = "'c \<times> session \<times> 's"

record ('c, 's) visitor =
  process_file :: "string \<Rightarrow> remote_stat \<Rightarrow> int \<Rightarrow> nat \<Rightarrow> ('c, 's) everything \<Rightarrow> ('c, 's) everything option"
  process_start_dir :: "string \<Rightarrow> remote_stat \<Rightarrow> int \<Rightarrow> ('c, 's) everything \<Rightarrow> (int \<times> int \<times> ('c, 's) everything) option"
  process_end_dir :: "string \<Rightarrow> int \<Rightarrow> int \<Rightarrow> nat \<Rightarrow> ('c, 's) everything \<Rightarrow> ('c, 's) everything option"

text \<open>The path of an entry, from the path of its directory and the count \<open>pathlen\<close>, which the code keeps
  from one entry to the next; it reads in front of the buffer if the count is zero.\<close>

definition join_name :: "string \<Rightarrow> nat \<Rightarrow> string \<Rightarrow> (string \<times> nat) option" where
  "join_name path pathlen name =
     (if pathlen = 0 then None
      else if path ! (pathlen - 1) \<noteq> SL then Some (take pathlen path @ SL # name, pathlen)
      else Some (take pathlen path @ name, pathlen - 1))"

text \<open>What is left to do: a path, or the entries of an open directory.\<close>

datatype task = Visit string int nat | Entries RDIR string nat int int nat

partial_function (option) walk_tree ::
  "'s asking \<Rightarrow> ('c, 's) visitor \<Rightarrow> task \<Rightarrow> ('c, 's) everything \<Rightarrow> ('c, 's) everything option" where
  [code]: "walk_tree ask v t st =
     (case t of
        Visit path m level \<Rightarrow>
          util_stat ask path (fst (snd st)) (snd (snd st)) \<bind> (\<lambda>(r, se1, s1).
            (case r of
               None \<Rightarrow> Some (fst st, se1, s1)
             | Some sb \<Rightarrow>
                 if \<not> rs_dir sb then process_file v path sb m level (fst st, se1, s1)
                 else
                   process_start_dir v path sb m (fst st, se1, s1) \<bind> (\<lambda>(rc, sm, st2).
                     if rc < 0 then Some st2
                     else
                       util_opendir ask path (fst (snd st2)) (snd (snd st2)) \<bind> (\<lambda>(rd, se3, s3).
                         (case rd of
                            None \<Rightarrow> process_end_dir v path m sm level (fst st2, se3, s3)
                          | Some d \<Rightarrow>
                              walk_tree ask v (Entries d path (length path) m sm level) (fst st2, se3, s3))))))
      | Entries d path pathlen m sm level \<Rightarrow>
          (case util_readdir d of
             None \<Rightarrow> process_end_dir v path m sm level (fst st, util_closedir d (fst (snd st)), snd (snd st))
           | Some (name, d') \<Rightarrow>
               if name = ''.'' \<or> name = ''..'' then walk_tree ask v (Entries d' path pathlen m sm level) st
               else
                 join_name path pathlen name \<bind> (\<lambda>(newname, pathlen').
                   walk_tree ask v (Visit newname m (level + 1)) st \<bind> (\<lambda>st'.
                     walk_tree ask v (Entries d' path pathlen' m sm level) st'))))"

definition util_process_file ::
  "'s asking \<Rightarrow> ('c, 's) visitor \<Rightarrow> string \<Rightarrow> int \<Rightarrow> nat \<Rightarrow> ('c, 's) everything \<Rightarrow> ('c, 's) everything option" where
  "util_process_file ask v path m level st = walk_tree ask v (Visit path m level) st"

end
