(* ===== verification/Streams.thy ===== *)
theory Streams
  imports FileOps
begin

text \<open>
  Facts about theory Posix for code that copies files: names that are reached without symbolic links,
  streams at the end of a file, and \<open>copy_file\<close> of \<^verbatim>\<open>server/file.c\<close>.
\<close>

subsection \<open>Names without symbolic links\<close>

definition direct :: "world \<Rightarrow> string \<Rightarrow> path \<Rightarrow> bool" where
  "direct w s p \<longleftrightarrow> s \<noteq> [] \<and>
     (\<exists>base cs. p = base @ cs \<and> cs \<noteq> [] \<and> (\<forall>c \<in> set cs. c \<noteq> [] \<and> c \<noteq> ''.'' \<and> c \<noteq> ''..'') \<and>
        (if hd s = CHR ''/'' then base = [] \<and> components s = [] # cs else base = cwd w \<and> components s = cs) \<and>
        (\<forall>k. 0 < k \<and> k < length cs \<longrightarrow> is_dir w (base @ take k cs)))"

definition plain_at :: "world \<Rightarrow> path \<Rightarrow> bool" where
  "plain_at w p \<longleftrightarrow> (\<forall>i. node w p = Some i \<longrightarrow> (\<exists>c. kind i = Regular c))"

lemma link_at_None: "is_dir w p \<or> plain_at w p \<Longrightarrow> link_at w p = None"
  by (auto simp: is_dir_def plain_at_def link_at_def split: option.splits content.splits)

lemma walk_direct:
  assumes "\<forall>c \<in> set cs. c \<noteq> [] \<and> c \<noteq> ''.'' \<and> c \<noteq> ''..''" "plain_at w (base @ cs)"
    "\<And>k. 0 < k \<Longrightarrow> k < length cs \<Longrightarrow> is_dir w (base @ take k cs)"
  shows "walk fuel w b base cs = Some (base @ cs)"
  using assms
proof (induction cs arbitrary: base)
  case (Cons c cs)
  have c: "c \<noteq> []" "c \<noteq> ''.''" "c \<noteq> ''..''" using Cons.prems(1) by auto
  show ?case
  proof (cases "cs = []")
    case True
    then show ?thesis using c link_at_None [of w "base @ [c]"] Cons.prems(2) by simp
  next
    case False
    then have "is_dir w (base @ [c])" using Cons.prems(3) [of 1] by simp
    moreover have "walk fuel w b (base @ [c]) cs = Some ((base @ [c]) @ cs)"
    proof (rule Cons.IH)
      show "is_dir w ((base @ [c]) @ take k cs)" if "0 < k" "k < length cs" for k
        using Cons.prems(3) [of "Suc k"] that by simp
    qed (use Cons.prems(1,2) in auto)
    ultimately show ?thesis using c False link_at_None [of w "base @ [c]"] by simp
  qed
qed simp

lemma resolve_direct:
  assumes "direct w s p" "plain_at w p"
  shows "resolve w b s = Some p"
proof -
  obtain base cs where p: "p = base @ cs" "\<forall>c \<in> set cs. c \<noteq> [] \<and> c \<noteq> ''.'' \<and> c \<noteq> ''..''" "s \<noteq> []"
      "if hd s = CHR ''/'' then base = [] \<and> components s = [] # cs else base = cwd w \<and> components s = cs"
      "\<forall>k. 0 < k \<and> k < length cs \<longrightarrow> is_dir w (base @ take k cs)"
    using assms(1) by (auto simp: direct_def)
  have "walk 40 w b base cs = Some p"
    unfolding p(1) by (rule walk_direct) (use p assms(2) in auto)
  then show ?thesis using p(3,4) by (auto simp: resolve_def split: if_splits)
qed

lemma components_Nil_iff: "components s = [[]] \<longleftrightarrow> s = []"
  by (cases s) (auto split: list.splits)

lemma direct_last: "direct w s p \<Longrightarrow> last s \<noteq> CHR ''/'' \<and> p \<noteq> []"
proof -
  assume d: "direct w s p"
  have l: "last (components s) = []" if "s \<noteq> []" "last s = CHR ''/''" for s
    using that
  proof (induction s)
    case (Cons c cs)
    then show ?case by (cases "cs = []") (auto simp: components_Nil_iff split: list.splits)
  qed simp
  obtain base cs where cs: "p = base @ cs" "cs \<noteq> []" "\<forall>c \<in> set cs. c \<noteq> []" "s \<noteq> []" "components s = [] # cs \<or> components s = cs"
    using d by (auto simp: direct_def split: if_splits)
  then have "last (components s) \<in> set cs" by auto
  with cs l show ?thesis by auto
qed

lemma direct_cong: "cwd w' = cwd w \<Longrightarrow> (\<And>q. is_dir w q \<Longrightarrow> is_dir w' q) \<Longrightarrow> direct w s p \<Longrightarrow> direct w' s p"
  unfolding direct_def by (cases "hd s = CHR ''/''") (fastforce+)

subsection \<open>Streams\<close>

text \<open>A stream that writes at the end of the file with inode \<open>i\<close> and content \<open>c\<close>; one that reads it and
  has the first \<open>k\<close> octets behind it.\<close>

definition writes_to :: "world \<Rightarrow> nat \<Rightarrow> nat \<Rightarrow> char list \<Rightarrow> bool" where
  "writes_to w f i c \<longleftrightarrow> stream w f = Some \<lparr> s_ino = i, s_pos = length c, s_write = True, s_err = False \<rparr> \<and>
     kind (inodes w i) = Regular c"

definition reads_from :: "world \<Rightarrow> nat \<Rightarrow> nat \<Rightarrow> char list \<Rightarrow> nat \<Rightarrow> bool" where
  "reads_from w f i c k \<longleftrightarrow> stream w f = Some \<lparr> s_ino = i, s_pos = k, s_write = False, s_err = False \<rparr> \<and>
     kind (inodes w i) = Regular c"

text \<open>What stream operations leave alone: names, and all inodes but the one written to.\<close>

definition frame :: "nat set \<Rightarrow> nat set \<Rightarrow> world \<Rightarrow> world \<Rightarrow> bool" where
  "frame fs is w w' \<longleftrightarrow> entries w' = entries w \<and> cwd w' = cwd w \<and> cur_umask w' = cur_umask w \<and> next_ino w' = next_ino w \<and>
     next_stream w' = next_stream w \<and> clock w' = clock w \<and>
     (\<forall>g. g \<notin> fs \<longrightarrow> stream w' g = stream w g) \<and> (\<forall>j. j \<notin> is \<longrightarrow> inodes w' j = inodes w j) \<and>
     (\<forall>j. mode (inodes w' j) = mode (inodes w j)) \<and>
     (\<forall>j. (\<exists>c. kind (inodes w j) = Regular c) \<longleftrightarrow> (\<exists>c. kind (inodes w' j) = Regular c))"

lemma frame_refl [simp]: "frame fs is w w"
  by (simp add: frame_def)

lemma frame_trans: "frame fs is w1 w2 \<Longrightarrow> frame fs is w2 w3 \<Longrightarrow> frame fs is w1 w3"
  unfolding frame_def by auto

lemma frame_mono: "frame fs is w1 w2 \<Longrightarrow> fs \<subseteq> fs' \<Longrightarrow> is \<subseteq> is' \<Longrightarrow> frame fs' is' w1 w2"
  unfolding frame_def by blast

lemma stream_set_stream [simp]: "stream (set_stream w f st) g = (if g = f then Some st else stream w g)"
  by (simp add: stream_def set_stream_def map_of_filter_fst)

lemma set_stream_simps [simp]:
  "entries (set_stream w f st) = entries w" "inodes (set_stream w f st) = inodes w" "cwd (set_stream w f st) = cwd w"
  "cur_umask (set_stream w f st) = cur_umask w" "next_ino (set_stream w f st) = next_ino w"
  "next_stream (set_stream w f st) = next_stream w" "clock (set_stream w f st) = clock w" "room (set_stream w f st) = room w"
  by (simp_all add: set_stream_def)

lemma frame_set_stream: "frame {f} {} w (set_stream w f st)"
  by (simp add: frame_def)

lemma fread_reads:
  assumes "reads_from w f i c k"
  shows "\<exists>w'. fread w f n = Some (take n (drop k c), w') \<and> reads_from w' f i c (k + length (take n (drop k c))) \<and>
    frame {f} {} w w' \<and> room w' = room w"
proof -
  let ?st = "\<lparr> s_ino = i, s_pos = k + length (take n (drop k c)), s_write = False, s_err = False \<rparr>"
  have "fread w f n = Some (take n (drop k c), set_stream w f ?st)"
    using assms by (simp add: reads_from_def fread_def Let_def)
  then show ?thesis using assms frame_set_stream [of f w ?st] by (simp add: reads_from_def)
qed

lemma fwrite_writes:
  assumes "writes_to w f i c" "length d \<le> room w"
  shows "\<exists>w'. fwrite w f d = Some (length d, w') \<and> writes_to w' f i (c @ d) \<and> frame {f} {i} w w' \<and> room w' = room w - length d"
proof (cases "d = []")
  case True
  have "fwrite w f d = Some (0, set_stream w f \<lparr> s_ino = i, s_pos = length c, s_write = True, s_err = False \<rparr>)"
    using assms True by (simp add: writes_to_def fwrite_def Let_def)
  then show ?thesis using assms(1) True frame_mono [OF frame_set_stream, of f "{f}" "{i}"] by (simp add: writes_to_def)
next
  case False
  let ?st = "\<lparr> s_ino = i, s_pos = length c + length d, s_write = True, s_err = False \<rparr>"
  let ?w = "(set_stream (set_inode w i ((inodes w i)\<lparr> kind := Regular (c @ d), mtime := clock w \<rparr>)) f ?st)\<lparr> room := room w - length d \<rparr>"
  have "fwrite w f d = Some (length d, ?w)"
    using assms False by (simp add: writes_to_def fwrite_def Let_def overwrite_def)
  moreover have s: "stream ?w g = (if g = f then Some ?st else stream w g)" for g
    by (simp add: stream_def set_stream_def set_inode_def map_of_filter_fst)
  moreover have "frame {f} {i} w ?w"
    using assms(1) s by (auto simp: frame_def set_inode_def writes_to_def)
  ultimately show ?thesis using assms(1) by (auto simp: writes_to_def set_inode_def)
qed

subsection \<open>What file operations keep\<close>

definition ids_ok :: "world \<Rightarrow> bool" where
  "ids_ok w \<longleftrightarrow> (\<forall>e \<in> set (entries w). snd e < next_ino w) \<and> (\<forall>g. stream w g \<noteq> None \<longrightarrow> g < next_stream w)"

lemma ids_ok_lookup: "ids_ok w \<Longrightarrow> lookup w p = Some n \<Longrightarrow> n < next_ino w"
  by (auto simp: ids_ok_def lookup_def dest!: map_of_SomeD bspec)

text \<open>Directories stay what they are, and so do all files but those with inodes in \<open>J\<close>.\<close>

definition keeps :: "nat set \<Rightarrow> world \<Rightarrow> world \<Rightarrow> bool" where
  "keeps J w w' \<longleftrightarrow> cwd w' = cwd w \<and> next_ino w \<le> next_ino w' \<and> next_stream w \<le> next_stream w' \<and>
     (\<forall>r. is_dir w r \<longrightarrow> is_dir w' r) \<and> (\<forall>r. dir_writable w r \<longrightarrow> dir_writable w' r) \<and>
     (\<forall>j < next_ino w. j \<notin> J \<longrightarrow> kind (inodes w' j) = kind (inodes w j) \<and> mode (inodes w' j) = mode (inodes w j)) \<and>
     (ids_ok w \<longrightarrow> ids_ok w')"

lemma keeps_refl [simp]: "keeps J w w"
  by (simp add: keeps_def)

lemma keeps_trans: "keeps J w1 w2 \<Longrightarrow> keeps J w2 w3 \<Longrightarrow> keeps J w1 w3"
  unfolding keeps_def by auto

lemma keeps_mono: "keeps J w1 w2 \<Longrightarrow> J \<subseteq> J' \<Longrightarrow> keeps J' w1 w2"
  unfolding keeps_def by blast

lemma keeps_direct: "keeps J w w' \<Longrightarrow> direct w s p \<Longrightarrow> direct w' s p"
  by (rule direct_cong) (auto simp: keeps_def)

lemma keeps_umask [simp]: "keeps J w (umask w m)"
  by (simp add: keeps_def umask_def ids_ok_def is_dir_def dir_writable_def node_def lookup_def stream_def)

lemma frame_lookup: "frame fs is w w' \<Longrightarrow> lookup w' = lookup w"
  by (simp add: frame_def lookup_def fun_eq_iff)

lemma frame_keeps:
  assumes "frame fs J w w'" "\<And>j. j \<in> J \<Longrightarrow> \<exists>c. kind (inodes w j) = Regular c" "\<And>g. g \<in> fs \<Longrightarrow> stream w g \<noteq> None"
  shows "keeps J w w'"
proof -
  have l: "lookup w' = lookup w" by (rule frame_lookup [OF assms(1)])
  have d: "kind (inodes w j) = Directory \<Longrightarrow> inodes w' j = inodes w j" for j
    using assms(1) assms(2) [of j] by (cases "j \<in> J") (fastforce simp: frame_def)+
  have "is_dir w r \<longrightarrow> is_dir w' r" "dir_writable w r \<longrightarrow> dir_writable w' r" for r
    using d by (auto simp: is_dir_def dir_writable_def node_def l split: option.splits)
  moreover have "ids_ok w \<longrightarrow> ids_ok w'"
  proof -
    have "stream w' g \<noteq> None \<Longrightarrow> stream w g \<noteq> None" for g
      using assms(1,3) by (cases "g \<in> fs") (auto simp: frame_def)
    then show ?thesis using assms(1) by (auto simp: ids_ok_def frame_def)
  qed
  ultimately show ?thesis using assms(1) by (simp add: keeps_def frame_def)
qed

lemma stamp_keeps:
  "cwd (stamp_dir w p) = cwd w" "lookup (stamp_dir w p) = lookup w" "kind (inodes (stamp_dir w p) j) = kind (inodes w j)"
  "mode (inodes (stamp_dir w p) j) = mode (inodes w j)" "next_ino (stamp_dir w p) = next_ino w"
  "streams (stamp_dir w p) = streams w" "next_stream (stamp_dir w p) = next_stream w" "entries (stamp_dir w p) = entries w"
  "room (stamp_dir w p) = room w" "cur_umask (stamp_dir w p) = cur_umask w"
  by (auto simp: stamp_dir_def set_inode_def lookup_def fun_eq_iff split: option.split)

lemma dirs_kept:
  assumes "\<And>r n. lookup w r = Some n \<Longrightarrow> kind (inodes w n) = Directory \<Longrightarrow>
     lookup w' r = Some n \<and> kind (inodes w' n) = Directory \<and> mode (inodes w' n) = mode (inodes w n)"
  shows "(is_dir w r \<longrightarrow> is_dir w' r) \<and> (dir_writable w r \<longrightarrow> dir_writable w' r)"
  using assms [of r] by (auto simp: is_dir_def dir_writable_def node_def may_write_def split: option.splits)

text \<open>Removing a name.\<close>

lemma unlink_try_direct:
  assumes "direct w s p" "plain_at w p" "dir_writable w (butlast p)"
  defines "w' \<equiv> unlink_try s w"
  shows "keeps {} w w'" "lookup w' = (lookup w)(p := None)" "streams w' = streams w" "room w' = room w" "cur_umask w' = cur_umask w"
    "next_stream w' = next_stream w" "kind (inodes w' j) = kind (inodes w j)" "mode (inodes w' j) = mode (inodes w j)" "next_ino w' = next_ino w"
proof -
  have r: "resolve w False s = Some p" by (rule resolve_direct [OF assms(1,2)])
  have w': "w' = (if node w p = None then w else del_entry w p)"
    using assms(2,3) by (auto simp: w'_def unlink_try_def attempt_def unlink_def r plain_at_def split: option.split)
  define w1 where "w1 = w\<lparr> entries := filter (\<lambda>e. fst e \<noteq> p) (entries w) \<rparr>"
  have d: "del_entry w p = stamp_dir w1 (butlast p)" by (simp add: del_entry_def w1_def)
  have l1: "lookup w1 = (lookup w)(p := None)" by (simp add: lookup_def w1_def map_of_filter_fst fun_eq_iff)
  have n: "node w p = None \<Longrightarrow> (lookup w)(p := None) = lookup w" by (auto simp: node_def fun_eq_iff)
  show l: "lookup w' = (lookup w)(p := None)" using n by (simp add: w' d stamp_keeps l1)
  show s: "streams w' = streams w" "room w' = room w" "cur_umask w' = cur_umask w" "next_stream w' = next_stream w" "next_ino w' = next_ino w"
    by (simp_all add: w' d stamp_keeps) (simp_all add: w1_def)
  have k: "kind (inodes w' j) = kind (inodes w j)" "mode (inodes w' j) = mode (inodes w j)" for j
    by (simp_all add: w' d stamp_keeps) (simp_all add: w1_def)
  then show "kind (inodes w' j) = kind (inodes w j)" "mode (inodes w' j) = mode (inodes w j)" by simp_all
  have "(is_dir w r \<longrightarrow> is_dir w' r) \<and> (dir_writable w r \<longrightarrow> dir_writable w' r)" for r
    by (rule dirs_kept) (use assms(2) k l in \<open>auto simp: plain_at_def node_def\<close>)
  moreover have "set (entries w') \<subseteq> set (entries w)" "cwd w' = cwd w" by (auto simp: w' d stamp_keeps) (auto simp: w1_def)
  ultimately show "keeps {} w w'" using k s by (auto simp: keeps_def ids_ok_def stream_def)
qed

subsection \<open>Opening and closing\<close>

text \<open>The same tree and files; streams may differ.\<close>

definition same_disk :: "world \<Rightarrow> world \<Rightarrow> bool" where
  "same_disk w w' \<longleftrightarrow> entries w' = entries w \<and> inodes w' = inodes w \<and> cwd w' = cwd w \<and> next_ino w' = next_ino w \<and>
     cur_umask w' = cur_umask w \<and> room w' = room w \<and> next_stream w \<le> next_stream w'"

lemma same_disk_simps:
  assumes "same_disk w w'"
  shows "lookup w' = lookup w" "inodes w' = inodes w" "room w' = room w" "cur_umask w' = cur_umask w" "next_ino w' = next_ino w"
    "node w' p = node w p" "is_dir w' p = is_dir w p" "dir_writable w' p = dir_writable w p" "cwd w' = cwd w"
proof -
  have l: "lookup w' = lookup w" using assms by (simp add: same_disk_def lookup_def fun_eq_iff)
  moreover have "inodes w' = inodes w" using assms by (simp add: same_disk_def)
  ultimately show "lookup w' = lookup w" "inodes w' = inodes w" "node w' p = node w p" "is_dir w' p = is_dir w p"
      "dir_writable w' p = dir_writable w p"
    by (simp_all add: node_def is_dir_def dir_writable_def)
qed (use assms in \<open>simp_all add: same_disk_def\<close>)

lemma same_disk_keeps:
  assumes "same_disk w w'" "ids_ok w \<Longrightarrow> \<forall>g. stream w' g \<noteq> None \<longrightarrow> g < next_stream w'"
  shows "keeps {} w w'"
  using assms same_disk_simps [OF assms(1)] by (auto simp: keeps_def ids_ok_def same_disk_def)

lemma stream_new [simp]:
  "stream (snd (new_stream w n wr)) g =
    (if g = next_stream w then Some \<lparr> s_ino = n, s_pos = 0, s_write = wr, s_err = False \<rparr> else stream w g)"
  by (simp add: stream_def new_stream_def)

lemma new_stream_same: "same_disk w (snd (new_stream w n wr))"
  by (simp add: new_stream_def same_disk_def)

lemma new_stream_keeps: "keeps {} w (snd (new_stream w n wr))"
proof (rule same_disk_keeps [OF new_stream_same])
  assume "ids_ok w"
  moreover have "next_stream (snd (new_stream w n wr)) = Suc (next_stream w)" by (simp add: new_stream_def)
  ultimately show "\<forall>g. stream (snd (new_stream w n wr)) g \<noteq> None \<longrightarrow> g < next_stream (snd (new_stream w n wr))"
    by (auto simp: ids_ok_def less_Suc_eq)
qed

lemma fopen_read_direct:
  assumes "direct w s p" "lookup w p = Some i" "kind (inodes w i) = Regular c" "may_read (inodes w i)"
  shows "\<exists>w'. fopen w s Read = Some (next_stream w, w') \<and> reads_from w' (next_stream w) i c 0 \<and> same_disk w w' \<and> keeps {} w w' \<and>
    next_stream w' = Suc (next_stream w) \<and> (\<forall>g. g \<noteq> next_stream w \<longrightarrow> stream w' g = stream w g)"
proof -
  have "plain_at w p" using assms(2,3) by (simp add: plain_at_def node_def)
  then have "fopen w s Read = Some (new_stream w i False)"
    using resolve_direct [OF assms(1)] assms(2,4) by (simp add: fopen_def)
  then show ?thesis using assms(3) new_stream_same new_stream_keeps [of w i False]
    by (intro exI [of _ "snd (new_stream w i False)"]) (simp add: reads_from_def new_stream_def stream_def)
qed

lemma add_entry_facts:
  fixes m :: nat
  assumes "lookup w p = None" "dir_writable w (butlast p)" "ids_ok w"
  defines "w' \<equiv> add_entry w p (Regular []) m"
  shows "keeps {} w w'" "lookup w' = (lookup w)(p \<mapsto> next_ino w)" "kind (inodes w' (next_ino w)) = Regular []"
    "mode (inodes w' (next_ino w)) = m - (m AND cur_umask w)" "streams w' = streams w" "next_stream w' = next_stream w"
    "room w' = room w" "cur_umask w' = cur_umask w" "next_ino w' = Suc (next_ino w)"
proof -
  let ?i = "\<lparr> kind = Regular [], mtime = clock w, mode = m - (m AND cur_umask w) \<rparr>"
  define w1 where "w1 = w\<lparr> entries := entries w @ [(p, next_ino w)], inodes := (inodes w)(next_ino w := ?i), next_ino := Suc (next_ino w) \<rparr>"
  have w': "w' = stamp_dir w1 (butlast p)" by (simp add: w'_def add_entry_def w1_def)
  have l1: "lookup w1 = (lookup w)(p \<mapsto> next_ino w)"
    using assms(1) by (auto simp: lookup_def w1_def map_add_def fun_eq_iff split: option.split)
  show l: "lookup w' = (lookup w)(p \<mapsto> next_ino w)" by (simp add: w' stamp_keeps l1)
  show f: "streams w' = streams w" "next_stream w' = next_stream w" "room w' = room w" "cur_umask w' = cur_umask w" "next_ino w' = Suc (next_ino w)"
    "kind (inodes w' (next_ino w)) = Regular []" "mode (inodes w' (next_ino w)) = m - (m AND cur_umask w)"
    by (simp_all add: w' stamp_keeps) (simp_all add: w1_def)
  have k: "j < next_ino w \<Longrightarrow> kind (inodes w' j) = kind (inodes w j) \<and> mode (inodes w' j) = mode (inodes w j)" for j
    by (simp add: w' stamp_keeps) (simp add: w1_def)
  have "(is_dir w r \<longrightarrow> is_dir w' r) \<and> (dir_writable w r \<longrightarrow> dir_writable w' r)" for r
  proof (rule dirs_kept)
    fix r n assume r: "lookup w r = Some n" "kind (inodes w n) = Directory"
    with ids_ok_lookup [OF assms(3)] k [of n] assms(1) l
    show "lookup w' r = Some n \<and> kind (inodes w' n) = Directory \<and> mode (inodes w' n) = mode (inodes w n)"
      by auto
  qed
  moreover have "entries w' = entries w @ [(p, next_ino w)]" "cwd w' = cwd w"
    by (simp_all add: w' stamp_keeps) (simp_all add: w1_def)
  ultimately show "keeps {} w w'" using k f assms(3) by (auto simp: keeps_def ids_ok_def stream_def less_Suc_eq)
qed

lemma fopen_write_direct:
  assumes "direct w s p" "lookup w p = None" "dir_writable w (butlast p)" "ids_ok w"
  shows "\<exists>w'. fopen w s Write = Some (next_stream w, w') \<and> writes_to w' (next_stream w) (next_ino w) [] \<and> keeps {} w w' \<and>
    lookup w' = (lookup w)(p \<mapsto> next_ino w) \<and> room w' = room w \<and> next_stream w' = Suc (next_stream w) \<and>
    (\<forall>g. g \<noteq> next_stream w \<longrightarrow> stream w' g = stream w g) \<and> next_ino w' = Suc (next_ino w)"
proof -
  let ?a = "add_entry w p (Regular []) 438"
  note a = add_entry_facts [OF assms(2-4), of 438]
  have n: "node w p = None" using assms(2) by (simp add: node_def)
  then have pl: "plain_at w p" by (simp add: plain_at_def)
  have "creatable w s p" using direct_last [OF assms(1)] assms(3) n by (simp add: creatable_def)
  then have o': "fopen w s Write = Some (new_stream ?a (next_ino w) True)"
    using resolve_direct [OF assms(1) pl] assms(2) by (simp add: fopen_def)
  let ?w = "snd (new_stream ?a (next_ino w) True)"
  have ns: "next_stream ?w = Suc (next_stream ?a)" "fst (new_stream ?a (next_ino w) True) = next_stream ?a"
    by (simp_all add: new_stream_def)
  note s = same_disk_simps [OF new_stream_same [of ?a "next_ino w" True]]
  have "keeps {} w ?w" by (rule keeps_trans [OF a(1) new_stream_keeps])
  then show ?thesis using o' a s ns
    by (intro exI [of _ ?w]) (auto simp: writes_to_def stream_def [of ?a] stream_def [of w] prod_eq_iff)
qed

lemma fclose_known:
  assumes "stream w f \<noteq> None"
  shows "\<exists>w'. fclose w f = Some w' \<and> same_disk w w' \<and> keeps {} w w' \<and> (\<forall>g. g \<noteq> f \<longrightarrow> stream w' g = stream w g) \<and>
    next_stream w' = next_stream w"
proof -
  let ?w = "w\<lparr> streams := filter (\<lambda>e. fst e \<noteq> f) (streams w) \<rparr>"
  have sd: "same_disk w ?w" by (simp add: same_disk_def)
  moreover have st: "stream ?w g = (if g = f then None else stream w g)" for g by (simp add: stream_def map_of_filter_fst)
  moreover have "keeps {} w ?w" by (rule same_disk_keeps [OF sd]) (auto simp: ids_ok_def st)
  ultimately show ?thesis using assms by (auto simp: fclose_def)
qed

subsection \<open>Copying a file\<close>

lemma reads_from_frame:
  assumes "frame {f} J w w'" "reads_from w g i c k" "g \<noteq> f" "i \<notin> J"
  shows "reads_from w' g i c k"
  using assms by (auto simp: reads_from_def frame_def)

lemma writes_to_frame:
  assumes "frame {g} {} w w'" "writes_to w f j c" "g \<noteq> f"
  shows "writes_to w' f j c"
  using assms by (auto simp: writes_to_def frame_def)

lemma copy_loop_copies:
  assumes "reads_from w g i c k" "writes_to w f j (take k c)" "f \<noteq> g" "i \<noteq> j" "k \<le> length c" "length c - k \<le> room w"
  shows "\<exists>w'. copy_loop g f w = Some w' \<and> reads_from w' g i c (length c) \<and> writes_to w' f j c \<and> frame {f, g} {j} w w' \<and>
    room w' = room w - (length c - k)"
  using assms(1,2,5,6)
proof (induction "length c - k" arbitrary: k w rule: less_induct)
  case less
  let ?d = "take 1024 (drop k c)"
  obtain w1 where r: "fread w g 1024 = Some (?d, w1)" "reads_from w1 g i c (k + length ?d)" "frame {g} {} w w1" "room w1 = room w"
    using fread_reads [OF less.prems(1), of 1024] by blast
  have w1: "writes_to w1 f j (take k c)" by (rule writes_to_frame [OF r(3) less.prems(2)]) (use assms(3) in simp)
  have f1: "frame {f, g} {j} w w1" by (rule frame_mono [OF r(3)]) auto
  show ?case
  proof (cases "k = length c")
    case True
    then show ?thesis using r w1 f1 by (subst copy_loop.simps) simp
  next
    case False
    with less.prems(3) have k: "k < length c" by simp
    have len: "length ?d \<le> room w1" using less.prems(4) r(4) by simp
    obtain w2 where w: "fwrite w1 f ?d = Some (length ?d, w2)" "writes_to w2 f j (take k c @ ?d)" "frame {f} {j} w1 w2"
        "room w2 = room w1 - length ?d"
      using fwrite_writes [OF w1 len] by blast
    let ?k = "k + length ?d"
    have t: "take k c @ ?d = take ?k c"
    proof (cases "length c \<le> k + 1024")
      case False
      then show ?thesis using take_add [of k 1024 c] by simp
    qed simp
    have r2: "reads_from w2 g i c ?k" by (rule reads_from_frame [OF w(3) r(2)]) (use assms(3,4) in auto)
    have "?k \<le> length c" "length c - ?k < length c - k" using k by auto
    moreover have "length c - ?k \<le> room w2" using less.prems(4) w(4) r(4) by linarith
    ultimately obtain w3 where h: "copy_loop g f w2 = Some w3" "reads_from w3 g i c (length c)" "writes_to w3 f j c" "frame {f, g} {j} w2 w3"
        "room w3 = room w2 - (length c - ?k)"
      using less.hyps [of ?k w2] r2 w(2) t by auto
    have "frame {f, g} {j} w1 w2" by (rule frame_mono [OF w(3)]) auto
    from frame_trans [OF frame_trans [OF f1 this] h(4)] have "frame {f, g} {j} w w3" .
    moreover have "copy_loop g f w = Some w3" using r(1) w(1) h(1) k by (subst copy_loop.simps) simp
    moreover have "room w3 = room w - (length c - k)" using h(5) w(4) r(4) \<open>?k \<le> length c\<close> by linarith
    ultimately show ?thesis using h(2,3) by blast
  qed
qed

lemma copy_file_copies:
  assumes "direct w s1 p1" "lookup w p1 = Some i" "kind (inodes w i) = Regular c" "may_read (inodes w i)"
    and "direct w s2 p2" "lookup w p2 = None" "dir_writable w (butlast p2)" "ids_ok w" "length c \<le> room w"
  shows "\<exists>w'. copy_file s1 s2 w = Some (Inr (), w') \<and> lookup w' = (lookup w)(p2 \<mapsto> next_ino w) \<and>
    kind (inodes w' (next_ino w)) = Regular c \<and> keeps {} w w'"
proof -
  let ?g = "next_stream w" and ?f = "Suc (next_stream w)" and ?j = "next_ino w"
  obtain w1 where o1: "fopen w s1 Read = Some (?g, w1)" "reads_from w1 ?g i c 0" "same_disk w w1" "keeps {} w w1" "next_stream w1 = ?f"
    using fopen_read_direct [OF assms(1-4)] by blast
  note s1 = same_disk_simps [OF o1(3)]
  have ids1: "ids_ok w1" using o1(4) assms(8) by (simp add: keeps_def)
  obtain w2 where o2: "fopen w1 s2 Write = Some (?f, w2)" "writes_to w2 ?f ?j []" "keeps {} w1 w2" "lookup w2 = (lookup w)(p2 \<mapsto> ?j)"
      "room w2 = room w" "\<forall>g. g \<noteq> ?f \<longrightarrow> stream w2 g = stream w1 g" "next_ino w2 = Suc ?j"
    using fopen_write_direct [OF keeps_direct [OF o1(4) assms(5)] _ _ ids1] assms(6,7) s1 o1(5) by auto
  have i: "i < ?j" by (rule ids_ok_lookup [OF assms(8,2)])
  have r2: "reads_from w2 ?g i c 0"
    using o1(2) o2(3,6) i s1(5) by (auto simp: reads_from_def keeps_def)
  obtain w3 where c: "copy_loop ?g ?f w2 = Some w3" "reads_from w3 ?g i c (length c)" "writes_to w3 ?f ?j c" "frame {?f, ?g} {?j} w2 w3"
    using copy_loop_copies [OF r2, of ?f ?j] o2(2,5) i assms(9) by auto
  have st: "stream w3 ?g \<noteq> None" "stream w3 ?f \<noteq> None" "ferror w3 ?g = Some False" "ferror w3 ?f = Some False"
    using c(2,3) by (auto simp: reads_from_def writes_to_def ferror_def)
  obtain w4 where c4: "fclose w3 ?g = Some w4" "same_disk w3 w4" "keeps {} w3 w4" "\<forall>g. g \<noteq> ?g \<longrightarrow> stream w4 g = stream w3 g"
    using fclose_known [OF st(1)] by blast
  obtain w5 where c5: "fclose w4 ?f = Some w5" "same_disk w4 w5" "keeps {} w4 w5"
    using fclose_known [of w4 ?f] c4(4) st(2) by auto
  have run: "copy_file s1 s2 w = Some (Inr (), w5)"
    using o1(1) o2(1) c(1) st(3,4) c4(1) c5(1) by (simp add: copy_file_def)
  note e = same_disk_simps [OF c4(2)] same_disk_simps [OF c5(2)]
  have l: "lookup w5 = (lookup w)(p2 \<mapsto> ?j)" using e frame_lookup [OF c(4)] o2(4) by simp
  have k: "kind (inodes w5 ?j) = Regular c" using e c(3) by (simp add: writes_to_def)
  have k3: "keeps {?j} w2 w3"
  proof (rule frame_keeps [OF c(4)])
    show "\<exists>c. kind (inodes w2 j) = Regular c" if "j \<in> {?j}" for j using that o2(2) by (simp add: writes_to_def)
    show "stream w2 g \<noteq> None" if "g \<in> {?f, ?g}" for g using that o2(2) r2 by (auto simp: reads_from_def writes_to_def)
  qed
  have "keeps {?j} w w5"
    using keeps_trans [OF keeps_trans [OF keeps_mono [OF keeps_trans [OF o1(4) o2(3)]] k3] keeps_mono [OF keeps_trans [OF c4(3) c5(3)]]]
    by blast
  then have "keeps {} w w5" by (auto simp: keeps_def)
  with run l k show ?thesis by blast
qed

end
