(* ===== verification/FileTransfer.thy ===== *)
theory FileTransfer
  imports ClientTree Streams
begin

text \<open>
  Files between the client's disk and the server: \<open>util_download_main\<close>, \<open>util_download\<close>,
  \<open>util_grab_file\<close> and \<open>util_upload\<close> of \<^verbatim>\<open>client/util.c\<close>, in the setting of theory ClientTree.

  The local file is a stream of theory Posix in the client's own world \<open>w\<close>. Return values are the
  code's; positions are \<open>off_t\<close> and \<open>unsigned long\<close> of 64 bits that stay below \<open>2 ^ 33\<close>. Statistics
  and messages to the terminal are left out.
\<close>

subsection \<open>Downloading\<close>

text \<open>The loop: ask for the octets at \<open>pos\<close>, write what comes, until nothing comes or the position
  passes 4 GB.\<close>

partial_function (option) download_loop ::
  "'s asking \<Rightarrow> byte \<Rightarrow> session \<Rightarrow> string \<Rightarrow> nat \<Rightarrow> nat \<Rightarrow> world \<Rightarrow> 's \<Rightarrow> (int \<times> world \<times> 's) option" where
  [code]: "download_loop ask c se fpath f pos w s =
     ask (path_request c pos fpath (client_net_len se)) s \<bind> (\<lambda>(ub, s1).
       if cmd ub = CC_ERR then Some (- 1, w, s1)
       else
         (let rlen = unat (BB_READ2 (bb_len ub)) in
          fwrite w f (take rlen (buf ub)) \<bind> (\<lambda>(wrote, w1).
            if pos + wrote > FOURGIGS then Some (0, w1, s1)
            else if rlen = 0 then Some (0, w1, s1)
            else if rlen \<noteq> wrote then Some (- 1, w1, s1)
            else download_loop ask c se fpath f (pos + wrote) w1 s1)))"

definition util_download_main ::
  "'s asking \<Rightarrow> byte \<Rightarrow> session \<Rightarrow> string \<Rightarrow> nat \<Rightarrow> nat \<Rightarrow> world \<Rightarrow> 's \<Rightarrow> (int \<times> world \<times> 's) option" where
  "util_download_main ask c se fpath f start_from w s = download_loop ask c se fpath f start_from w s"

text \<open>What \<open>util_abs_path\<close> allocates, and the second password that is appended to its result.\<close>

definition abs_path_room :: "session \<Rightarrow> string \<Rightarrow> nat" where
  "abs_path_room se s2 =
     (if s2 \<noteq> [] \<and> hd s2 = SL then length s2 + 2 + length (env_passwd se) + 1
      else length (env_dir se) + length s2 + 3 + length (env_passwd se) + 1)"

definition append_password :: "session \<Rightarrow> string \<Rightarrow> string \<Rightarrow> string option" where
  "append_password se path fpath =
     (if env_passwd se = [] then Some fpath
      else
        (let f = fpath @ NL # env_passwd se
         in if length f + 1 > abs_path_room se path then None else Some f))"

definition util_download ::
  "'s asking \<Rightarrow> session \<Rightarrow> string \<Rightarrow> nat \<Rightarrow> nat \<Rightarrow> world \<Rightarrow> 's \<Rightarrow> (int \<times> world \<times> 's) option" where
  "util_download ask se path f start_from w s = do {
     fpath0 \<leftarrow> abs_path se path;
     fpath \<leftarrow> append_password se path fpath0;
     util_download_main ask CC_GET_FILE se fpath f start_from w s }"

text \<open>The length of the last request is set only with a password; else it is whatever \<open>len\<close> held. A
  length beyond the string reads memory that was not written.\<close>

definition util_grab_file ::
  "'s asking \<Rightarrow> nat \<Rightarrow> session \<Rightarrow> string \<Rightarrow> nat \<Rightarrow> nat \<Rightarrow> world \<Rightarrow> 's \<Rightarrow> (int \<times> world \<times> 's) option" where
  "util_grab_file ask garbage se path f start_from w s = do {
     fpath0 \<leftarrow> abs_path se path;
     fpath \<leftarrow> append_password se path fpath0;
     let len = (if env_passwd se = [] then garbage else length fpath);
     (code, w1, s1) \<leftarrow> util_download_main ask CC_GRAB_FILE se fpath f start_from w s;
     if code \<noteq> 0 then Some (code, w1, s1)
     else if len > length fpath then None
     else do {
       (ub, s2) \<leftarrow> ask \<lparr> ra_cmd = CC_GRAB_DONE, ra_pos = 0, ra_data1 = take len (tl fpath @ [NUL]), ra_data2 = [] \<rparr> s1;
       Some (code, w1, s2) } }"

subsection \<open>Uploading\<close>

text \<open>The requests of \<open>upload_loop\<close>.\<close>

definition up_load_request :: "nat \<Rightarrow> char list \<Rightarrow> request_args" where
  "up_load_request pos data = \<lparr> ra_cmd = CC_UP_LOAD, ra_pos = of_nat pos, ra_data1 = data, ra_data2 = [] \<rparr>"

definition install_request :: "string \<Rightarrow> int \<Rightarrow> request_args" where
  "install_request fpath stamp = path_request CC_INSTALL (if stamp = 0 then 0 else 4) fpath
     (if stamp = 0 then [] else b4_chars (BB_WRITE4 (of_int stamp)))"

partial_function (option) upload_loop ::
  "'s asking \<Rightarrow> session \<Rightarrow> string \<Rightarrow> int \<Rightarrow> nat \<Rightarrow> bool \<Rightarrow> nat \<Rightarrow> world \<Rightarrow> 's \<Rightarrow> (int \<times> world \<times> 's) option" where
  [code]: "upload_loop ask se fpath stamp f first pos w s =
     fread w f (unat (client_buf_len se)) \<bind> (\<lambda>(data, w1).
       ask (if data \<noteq> [] \<or> first then up_load_request pos data else install_request fpath stamp) s \<bind> (\<lambda>(ub, s1).
         if cmd ub = CC_ERR then Some (1, w1, s1)
         else if data = [] \<and> \<not> first then Some (0, w1, s1)
         else if pos + length data > FOURGIGS then Some (0, w1, s1)
         else upload_loop ask se fpath stamp f False (pos + length data) w1 s1))"

text \<open>The rights in the answer to \<open>CC_GET_PRO\<close>, if there are any: whether files may be added, and whether
  existing ones may be replaced.\<close>

definition upload_rights :: "UBUF \<Rightarrow> bool \<times> bool" where
  "upload_rights ub =
     (if BB_READ4 (bb_pos ub) = 0 then (True, True)
      else
        (let flags = ucast (char_byte (buf ub ! unat (BB_READ2 (bb_len ub))))
         in (if flag flags DIR_OWNER then (True, True) else (flag flags DIR_ADD, flag flags DIR_DEL))))"

definition util_upload ::
  "'s asking \<Rightarrow> session \<Rightarrow> string \<Rightarrow> nat \<Rightarrow> int \<Rightarrow> world \<Rightarrow> 's \<Rightarrow> (int \<times> session \<times> world \<times> 's) option" where
  "util_upload ask se path f stamp w s = do {
     fpath \<leftarrow> abs_path se path;
     (ub, s1) \<leftarrow> ask (path_request CC_GET_PRO 0 (fst (util_split_path fpath)) []) s;
     if cmd ub = CC_ERR then Some (1, se, w, s1)
     else do {
       let (may_add, may_replace) = upload_rights ub;
       if \<not> may_add then Some (1, se, w, s1)
       else do {
         (there, se2, s2) \<leftarrow> (if may_replace then Some (None, se, s1) else util_stat ask fpath se s1);
         if there \<noteq> None then Some (1, se2, w, s2)
         else do {
           (code, w1, s3) \<leftarrow> upload_loop ask se2 fpath stamp f True 0 w s2;
           Some (code, se2, w1, s3) } } } }"

subsection \<open>A local file\<close>

text \<open>A stream that writes at the end of a file with content \<open>c\<close>.\<close>

definition at_end :: "world \<Rightarrow> nat \<Rightarrow> char list \<Rightarrow> bool" where
  "at_end w f c \<longleftrightarrow> (\<exists>st. stream w f = Some st \<and> s_write st \<and> s_pos st = length c \<and> kind (inodes w (s_ino st)) = Regular c)"

lemma fwrite_at_end:
  assumes "at_end w f c" "length d \<le> room w"
  shows "\<exists>w'. fwrite w f d = Some (length d, w') \<and> at_end w' f (c @ d) \<and> room w' = room w - length d"
proof -
  obtain st where st: "stream w f = Some st" "s_write st" "s_pos st = length c" "kind (inodes w (s_ino st)) = Regular c"
    using assms(1) by (auto simp: at_end_def)
  show ?thesis
  proof (cases "d = []")
    case True
    then have "fwrite w f d = Some (0, set_stream w f (st\<lparr> s_pos := length c \<rparr>))"
      using st by (simp add: fwrite_def Let_def)
    moreover have "at_end (set_stream w f (st\<lparr> s_pos := length c \<rparr>)) f c"
      using st by (simp add: at_end_def)
    ultimately show ?thesis using True by (simp add: set_stream_def)
  next
    case False
    let ?w = "(set_stream (set_inode w (s_ino st) ((inodes w (s_ino st))\<lparr> kind := Regular (c @ d), mtime := clock w \<rparr>)) f
        (st\<lparr> s_pos := length c + length d \<rparr>))\<lparr> room := room w - length d \<rparr>"
    have "fwrite w f d = Some (length d, ?w)"
      using st False assms(2) by (simp add: fwrite_def Let_def overwrite_def)
    moreover have "at_end ?w f (c @ d)"
      using st by (auto simp: at_end_def stream_def set_stream_def set_inode_def)
    ultimately show ?thesis by simp
  qed
qed

subsection \<open>The contract of a served file\<close>

text \<open>The data of a reply.\<close>

definition carries :: "UBUF \<Rightarrow> char list \<Rightarrow> bool" where
  "carries ub d \<longleftrightarrow> cmd ub \<noteq> CC_ERR \<and> unat (BB_READ2 (bb_len ub)) = length d \<and> take (length d) (buf ub) = d"

text \<open>A server that answers every request for a position with the octets there, \<open>n\<close> at a time.\<close>

locale file_source =
  fixes ask :: "'s asking"
    and c :: byte
    and se :: session
    and fpath :: string
    and ready :: "char list \<Rightarrow> nat \<Rightarrow> 's \<Rightarrow> bool"
  assumes some_octets: "ready content n s \<Longrightarrow> 0 < n"
    and answer: "ready content n s \<Longrightarrow> pos \<le> FOURGIGS \<Longrightarrow>
      \<exists>ub s'. ask (path_request c pos fpath (client_net_len se)) s = Some (ub, s') \<and> ready content n s' \<and>
        carries ub (take n (drop pos content))"
begin

lemma download_loop_gets:
  assumes "ask (path_request c pos fpath (client_net_len se)) s = Some (ub, s')" "carries ub (take n (drop pos content))"
    and "ready content n s'" "at_end w f c0" "length content \<le> FOURGIGS" "pos \<le> FOURGIGS" "length content - pos \<le> room w"
  shows "\<exists>w' s'. download_loop ask c se fpath f pos w s = Some (0, w', s') \<and> at_end w' f (c0 @ drop pos content) \<and>
    room w' = room w - (length content - pos) \<and> ready content n s'"
  using assms(1-4,6,7)
proof (induction "length content - pos" arbitrary: pos w s s' ub c0 rule: less_induct)
  case less
  let ?d = "take n (drop pos content)"
  have n: "0 < n" by (rule some_octets [OF less.prems(3)])
  have len: "length ?d = min n (length content - pos)" by simp
  have room: "length ?d \<le> room w" using len less.prems(6) by linarith
  obtain w' where w: "fwrite w f ?d = Some (length ?d, w')" "at_end w' f (c0 @ ?d)" "room w' = room w - length ?d"
    using fwrite_at_end [OF less.prems(4) room] by blast
  have within: "\<not> pos + length ?d > FOURGIGS" using len less.prems(5) assms(5) by linarith
  have step: "download_loop ask c se fpath f pos w s =
      (if length ?d = 0 then Some (0, w', s') else download_loop ask c se fpath f (pos + length ?d) w' s')"
    using less.prems(1,2) w(1) within by (subst download_loop.simps) (auto simp: carries_def Let_def)
  show ?case
  proof (cases "length content \<le> pos")
    case True
    then show ?thesis using step w less.prems(3) by simp
  next
    case False
    with len n have pos: "0 < length ?d" "pos + length ?d \<le> length content" by (auto simp: min_def)
    have "take n xs @ drop (length (take n xs)) xs = xs" for xs :: "char list" by (cases "n \<le> length xs") simp_all
    from this [of "drop pos content"] have whole: "?d @ drop (pos + length ?d) content = drop pos content"
      by (simp only: drop_drop add.commute)
    have le: "pos + length ?d \<le> FOURGIGS" using within by simp
    obtain ub2 s2 where a: "ask (path_request c (pos + length ?d) fpath (client_net_len se)) s' = Some (ub2, s2)"
        "ready content n s2" "carries ub2 (take n (drop (pos + length ?d) content))"
      using answer [OF less.prems(3) le] by blast
    have "\<exists>w'' s''. download_loop ask c se fpath f (pos + length ?d) w' s' = Some (0, w'', s'') \<and>
        at_end w'' f ((c0 @ ?d) @ drop (pos + length ?d) content) \<and>
        room w'' = room w' - (length content - (pos + length ?d)) \<and> ready content n s''"
    proof (rule less.hyps [OF _ a(1,3,2) w(2) le])
      show "length content - (pos + length ?d) < length content - pos" using pos by linarith
      show "length content - (pos + length ?d) \<le> room w'" using w(3) less.prems(6) by linarith
    qed
    then show ?thesis using step pos w(3) whole by auto
  qed
qed

end

subsection \<open>The contract of an upload\<close>

text \<open>A server that takes up to \<open>limit\<close> octets: \<open>holds c\<close> is a state in which it has got \<open>c\<close>.\<close>

locale file_sink =
  fixes ask :: "'s asking"
    and fpath :: string
    and stamp :: int
    and limit :: nat
    and ready :: "'s \<Rightarrow> bool"
    and holds :: "char list \<Rightarrow> 's \<Rightarrow> bool"
    and installed :: "char list \<Rightarrow> 's \<Rightarrow> bool"
  assumes first: "ready s \<Longrightarrow> length d \<le> limit \<Longrightarrow> length d \<le> UBUF_MAXSPACE \<Longrightarrow>
      \<exists>ub s'. ask (up_load_request 0 d) s = Some (ub, s') \<and> cmd ub \<noteq> CC_ERR \<and> holds d s'"
    and further: "holds c s \<Longrightarrow> length c + length d \<le> limit \<Longrightarrow> length d \<le> UBUF_MAXSPACE \<Longrightarrow> length c \<le> FOURGIGS \<Longrightarrow>
      \<exists>ub s'. ask (up_load_request (length c) d) s = Some (ub, s') \<and> cmd ub \<noteq> CC_ERR \<and> holds (c @ d) s'"
    and install: "holds c s \<Longrightarrow>
      \<exists>ub s'. ask (install_request fpath stamp) s = Some (ub, s') \<and> cmd ub \<noteq> CC_ERR \<and> installed c s'"
begin

lemma upload_loop_continues:
  assumes "holds (take k content) s" "reads_from w f i content k" "k \<le> length content"
    and "length content \<le> limit" "length content \<le> FOURGIGS" "client_buf_len se \<noteq> 0" "unat (client_buf_len se) \<le> UBUF_MAXSPACE"
  shows "\<exists>w' s'. upload_loop ask se fpath stamp f False k w s = Some (0, w', s') \<and> installed content s'"
  using assms(1-3)
proof (induction "length content - k" arbitrary: k w s rule: less_induct)
  case less
  let ?n = "unat (client_buf_len se)"
  let ?d = "take ?n (drop k content)"
  have n: "0 < ?n" using assms(6) by (simp add: unat_gt_0)
  obtain w1 where r: "fread w f ?n = Some (?d, w1)" "reads_from w1 f i content (k + length ?d)"
    using fread_reads [OF less.prems(2)] by blast
  show ?case
  proof (cases "k = length content")
    case True
    then have "holds content s" using less.prems(1) by simp
    from install [OF this] r(1) True show ?thesis by (subst upload_loop.simps) auto
  next
    case False
    with less.prems(3) n have k: "k < length content" "?d \<noteq> []" by simp_all
    have len: "length (take k content) = k" "k + length ?d \<le> length content" using k by auto
    have "length ?d \<le> UBUF_MAXSPACE" using assms(7) by (simp add: min.coboundedI2)
    then obtain ub s1 where a: "ask (up_load_request k ?d) s = Some (ub, s1)" "cmd ub \<noteq> CC_ERR" "holds (take k content @ ?d) s1"
      using further [OF less.prems(1), of ?d] len assms(4,5) by auto
    have t: "take k content @ ?d = take (k + length ?d) content"
    proof (cases "length content \<le> k + ?n")
      case False
      then show ?thesis using take_add [of k ?n content] by simp
    qed simp
    have "length content - (k + length ?d) < length content - k" using k by auto
    from less.hyps [OF this a(3) [unfolded t] r(2) len(2)]
    obtain w' s' where "upload_loop ask se fpath stamp f False (k + length ?d) w1 s1 = Some (0, w', s')" "installed content s'"
      by blast
    moreover have "\<not> k + length ?d > FOURGIGS" using len(2) assms(5) by linarith
    ultimately show ?thesis using r(1) a(1,2) k(2) by (subst upload_loop.simps) simp
  qed
qed

lemma upload_loop_delivers:
  assumes "ready s" "reads_from w f i content 0"
    and "length content \<le> limit" "length content \<le> FOURGIGS" "client_buf_len se \<noteq> 0" "unat (client_buf_len se) \<le> UBUF_MAXSPACE"
  shows "\<exists>w' s'. upload_loop ask se fpath stamp f True 0 w s = Some (0, w', s') \<and> installed content s'"
proof -
  let ?n = "unat (client_buf_len se)"
  let ?d = "take ?n content"
  obtain w1 where r: "fread w f ?n = Some (?d, w1)" "reads_from w1 f i content (length ?d)"
    using fread_reads [OF assms(2), of ?n] by auto
  have "length ?d \<le> limit" "length ?d \<le> UBUF_MAXSPACE" using assms(3,6) by (simp_all add: min.coboundedI1 min.coboundedI2)
  from first [OF assms(1) this] obtain ub s1 where a: "ask (up_load_request 0 ?d) s = Some (ub, s1)" "cmd ub \<noteq> CC_ERR" "holds ?d s1"
    by blast
  have "take (length ?d) content = ?d" by (simp add: min_def)
  then have d: "holds (take (length ?d) content) s1" using a(3) by (simp del: length_take)
  have le: "length ?d \<le> length content" by simp
  from upload_loop_continues [OF d r(2) le assms(3-6)] obtain w' s' where
    "upload_loop ask se fpath stamp f False (length ?d) w1 s1 = Some (0, w', s')" "installed content s'" by blast
  moreover have "\<not> length ?d > FOURGIGS" using le assms(4) by linarith
  ultimately show ?thesis using r(1) a(1,2) by (subst upload_loop.simps) (simp del: length_take)
qed

end

end
