(* ===== verification/Download.thy ===== *)
theory Download
  imports FileTransfer Rights ServerInv
begin

text \<open>
  Client and server together: a conversation in which no datagram is lost (\<open>conversation\<close>), and the
  download of a file with \<open>util_download\<close> from \<open>server_process_packet\<close>.

  The server keeps the record of a directory and the stream of a file in its caches between the requests
  of a download; \<open>served\<close> says that they are there for a client, and is what every request keeps.
\<close>

text \<open>The request reaches the dispatcher as a new one of the client with record \<open>hp\<close>, and its answer comes
  back. \<open>old\<close> is what the message buffers of the two ends held before.\<close>

definition conversation ::
  "fsp_conf \<Rightarrow> resolver \<Rightarrow> string \<Rightarrow> UBUF \<Rightarrow> HTAB \<Rightarrow> u16 \<Rightarrow> request_args \<Rightarrow> fsrv \<Rightarrow> (UBUF \<times> fsrv) option" where
  "conversation conf dns version old hp port ra \<sigma> =
     (let p = packet_of ra (next_key hp) (0, 0) in
      (case server_process_packet conf dns version 0 0 (length p) (recv_into old p) False hp port \<sigma> of
         Some (Answer m n, ub, \<sigma>', hp') \<Rightarrow> Some (recv_into old (reply_packet ub m n), \<sigma>')
       | _ \<Rightarrow> None))"

definition file_behind :: "world \<Rightarrow> nat \<Rightarrow> char list" where
  "file_behind w f = (case stream w f of
     None \<Rightarrow> [] | Some st \<Rightarrow> (case kind (inodes w (s_ino st)) of Regular c \<Rightarrow> c | _ \<Rightarrow> []))"

definition file_name :: "fsrv \<Rightarrow> nat \<Rightarrow> PPATH \<Rightarrow> string" where
  "file_name \<sigma> di pp = realname (dirstat_at \<sigma> di) @ ''/'' @ f_ptr pp"

definition served :: "fsp_conf \<Rightarrow> u32 \<Rightarrow> u16 \<Rightarrow> PPATH \<Rightarrow> nat \<Rightarrow> fsrv \<Rightarrow> bool" where
  "served conf inet port pp f \<sigma> \<longleftrightarrow>
     (\<exists>di c. fst (dirstat_find (dir_name pp) \<sigma>) = Some di \<and>
        lastcheck (dirstat_at \<sigma> di) + stat_cache_timeout conf > cur_time \<sigma> \<and>
        granted (require_access_rights conf (dirstat_at \<sigma> di) DIR_GET inet (passwd pp)) \<and>
        length (file_name \<sigma> di pp) < NBSIZE \<and>
        fpcache_scan \<sigma> inet port (file_name \<sigma> di pp) 0 (nat (fp_cache_limit conf)) = Some (Some c) \<and>
        fp (fp_at \<sigma> c) = Some f \<and> stream (os \<sigma>) f \<noteq> None)"

subsection \<open>Statistics do not matter\<close>

definition forget :: "('k, 'e, 'w) fifo_cache \<Rightarrow> ('k, 'e, 'w) fifo_cache" where
  "forget c = c\<lparr> hit := 0, miss := 0 \<rparr>"

definition same_records :: "fsrv \<Rightarrow> fsrv \<Rightarrow> bool" where
  "same_records \<sigma> \<sigma>' \<longleftrightarrow> cur_time \<sigma>' = cur_time \<sigma> \<and> forget (dirstatcache \<sigma>') = forget (dirstatcache \<sigma>) \<and>
     forget (fpcache \<sigma>') = forget (fpcache \<sigma>)"

lemma forget_simps:
  "fst (f_cache_find (forget c) k) = fst (f_cache_find c k)" "entry_at (forget c) = entry_at c"
  "f_cache_get_key (forget c) = f_cache_get_key c" "forget (snd (f_cache_find c k)) = forget c"
  by (auto simp: forget_def f_cache_find_def entry_at_def f_cache_get_key_def fun_eq_iff split: option.split)

lemma same_records_simps:
  assumes "same_records \<sigma> \<sigma>'"
  shows "dirstat_at \<sigma>' = dirstat_at \<sigma>" "fp_at \<sigma>' = fp_at \<sigma>" "fst (dirstat_find k \<sigma>') = fst (dirstat_find k \<sigma>)"
    "fpcache_scan \<sigma>' inet port name i n = fpcache_scan \<sigma> inet port name i n" "cur_time \<sigma>' = cur_time \<sigma>"
    "file_name \<sigma>' di pp = file_name \<sigma> di pp"
proof -
  have e: "forget (dirstatcache \<sigma>') = forget (dirstatcache \<sigma>)" "forget (fpcache \<sigma>') = forget (fpcache \<sigma>)"
    and "cur_time \<sigma>' = cur_time \<sigma>"
    using assms by (auto simp: same_records_def)
  then show "cur_time \<sigma>' = cur_time \<sigma>" by simp
  have "dirstat_at \<sigma>' p = dirstat_at \<sigma> p" "fp_at \<sigma>' p = fp_at \<sigma> p" for p
    unfolding dirstat_at_def fp_at_def by (metis e forget_simps(2))+
  then show a: "dirstat_at \<sigma>' = dirstat_at \<sigma>" "fp_at \<sigma>' = fp_at \<sigma>" by (simp_all add: fun_eq_iff)
  have d: "fst (dirstat_find k \<sigma>) = fst (f_cache_find (dirstatcache \<sigma>) (Some k))" for \<sigma>
    by (simp add: dirstat_find_def split: prod.split)
  show "fst (dirstat_find k \<sigma>') = fst (dirstat_find k \<sigma>)" unfolding d by (metis e(1) forget_simps(1))
  have key: "f_cache_get_key (fpcache \<sigma>') = f_cache_get_key (fpcache \<sigma>)" by (metis e(2) forget_simps(3))
  show "fpcache_scan \<sigma>' inet port name i n = fpcache_scan \<sigma> inet port name i n"
    by (induction n arbitrary: i) (simp_all only: fpcache_scan.simps a key)
  show "file_name \<sigma>' di pp = file_name \<sigma> di pp" by (simp add: file_name_def a)
qed

lemma same_records_served:
  assumes "same_records \<sigma> \<sigma>'" "served conf inet port pp f \<sigma>" "stream (os \<sigma>') f \<noteq> None"
  shows "served conf inet port pp f \<sigma>'"
  using assms(2,3) by (auto simp: served_def same_records_simps [OF assms(1)])

lemma dirstat_find_same: "dirstat_find k \<sigma> = (p, \<sigma>') \<Longrightarrow> same_records \<sigma> \<sigma>' \<and> os \<sigma>' = os \<sigma>"
  using forget_simps(4) [of "dirstatcache \<sigma>" "Some k"]
  by (auto simp: dirstat_find_def same_records_def split: prod.splits)

lemma same_records_refl: "same_records \<sigma> (\<sigma>\<lparr> os := w \<rparr>)"
  by (simp add: same_records_def)

lemma same_records_trans: "same_records a b \<Longrightarrow> same_records b c \<Longrightarrow> same_records a c"
  by (simp add: same_records_def)

subsection \<open>One request\<close>

lemma check_directory_known:
  assumes "fst (dirstat_find work \<sigma>) = Some di" "lastcheck (dirstat_at \<sigma> di) + stat_cache_timeout conf > cur_time \<sigma>"
  shows "\<exists>\<sigma>'. check_directory conf dns work \<sigma> = Some (Inr di, \<sigma>') \<and> same_records \<sigma> \<sigma>' \<and> os \<sigma>' = os \<sigma> \<and>
    (server_wf \<sigma> \<longrightarrow> server_wf \<sigma>')"
proof -
  obtain \<sigma>' where f: "dirstat_find work \<sigma> = (Some di, \<sigma>')" using assms(1) by (metis prod.collapse)
  note s = dirstat_find_same [OF f] dirstat_find_wf [OF _ f]
  then show ?thesis using assms(2) f same_records_simps(1,5) [of \<sigma> \<sigma>'] by (simp add: check_directory_def)
qed

lemma search_fpcache_known:
  assumes "fpcache_scan \<sigma> inet port name 0 (nat (fp_cache_limit conf)) = Some (Some c)"
  shows "\<exists>\<sigma>'. search_fpcache conf inet port name \<sigma> = Some (Some c, \<sigma>') \<and> same_records \<sigma> \<sigma>' \<and> os \<sigma>' = os \<sigma>"
  using assms by (simp add: search_fpcache_def same_records_def forget_def)

lemma serve_file_known:
  fixes \<sigma> :: fsrv and ub :: UBUF
  assumes "stream (os \<sigma>) f \<noteq> None" "serve_length conf has_len lp \<le> UBUF_MAXSPACE"
  defines "d \<equiv> take (serve_length conf has_len lp) (drop (unat (BB_READ4 (bb_pos ub))) (file_behind (os \<sigma>) f))"
  shows "\<exists>w. serve_file conf ub (Some f) has_len lp \<sigma> = reply (length d) 0 (put_buf ub 0 d) (\<sigma>\<lparr> os := w \<rparr>) \<and>
    stream w f \<noteq> None \<and> file_behind w f = file_behind (os \<sigma>) f"
proof -
  obtain st where st: "stream (os \<sigma>) f = Some st" using assms(1) by blast
  let ?pos = "unat (BB_READ4 (bb_pos ub))"
  define w1 where "w1 = set_stream (os \<sigma>) f (st\<lparr> s_pos := ?pos \<rparr>)"
  have seek: "fseek (os \<sigma>) f ?pos = Some w1" using st by (simp add: fseek_def w1_def)
  have i: "inodes w1 = inodes (os \<sigma>)" "stream w1 f = Some (st\<lparr> s_pos := ?pos \<rparr>)" by (simp_all add: w1_def)
  have "\<exists>st'. fread w1 f (serve_length conf has_len lp) = Some (d, set_stream w1 f st') \<and> s_ino st' = s_ino st"
    using st i by (auto simp: fread_def d_def file_behind_def split: content.split)
  then obtain st' where read: "fread w1 f (serve_length conf has_len lp) = Some (d, set_stream w1 f st')" "s_ino st' = s_ino st"
    by blast
  have "file_behind (set_stream w1 f st') f = file_behind (os \<sigma>) f"
    using st i(1) read(2) by (simp add: file_behind_def)
  with seek read assms(2) show ?thesis
    by (intro exI [of _ "set_stream w1 f st'"]) (simp add: serve_file_def Let_def)
qed

lemma cmd_get_file_served:
  fixes \<sigma> :: fsrv and ub :: UBUF
  assumes "served conf (rq_inet rq) (rq_port rq) pp f \<sigma>"
    and "parse_path (buf ub) (rq_l1 rq) = Inr (pp, b')" "drop (rq_l1 rq) b' = drop (rq_l1 rq) (buf ub)"
    and "serve_length conf (rq_l2 rq) (drop (rq_l1 rq) (buf ub)) \<le> UBUF_MAXSPACE"
  defines "d \<equiv> take (serve_length conf (rq_l2 rq) (drop (rq_l1 rq) (buf ub)))
      (drop (unat (BB_READ4 (bb_pos ub))) (file_behind (os \<sigma>) f))"
  shows "\<exists>\<sigma>'. cmd_get_file conf dns rq ub \<sigma> = reply (length d) 0 (put_buf (ub\<lparr> buf := b' \<rparr>) 0 d) \<sigma>' \<and>
    served conf (rq_inet rq) (rq_port rq) pp f \<sigma>' \<and> file_behind (os \<sigma>') f = file_behind (os \<sigma>) f"
proof -
  obtain di c where s: "fst (dirstat_find (dir_name pp) \<sigma>) = Some di"
      "lastcheck (dirstat_at \<sigma> di) + stat_cache_timeout conf > cur_time \<sigma>"
      "granted (require_access_rights conf (dirstat_at \<sigma> di) DIR_GET (rq_inet rq) (passwd pp))"
      "length (file_name \<sigma> di pp) < NBSIZE"
      "fpcache_scan \<sigma> (rq_inet rq) (rq_port rq) (file_name \<sigma> di pp) 0 (nat (fp_cache_limit conf)) = Some (Some c)"
      "fp (fp_at \<sigma> c) = Some f" "stream (os \<sigma>) f \<noteq> None"
    using assms(1) by (auto simp: served_def)
  obtain \<sigma>1 where c: "check_directory conf dns (dir_name pp) \<sigma> = Some (Inr di, \<sigma>1)" "same_records \<sigma> \<sigma>1" "os \<sigma>1 = os \<sigma>"
    using check_directory_known [OF s(1,2)] by blast
  note e = same_records_simps [OF c(2)]
  obtain \<sigma>2 where f: "search_fpcache conf (rq_inet rq) (rq_port rq) (file_name \<sigma> di pp) \<sigma>1 = Some (Some c, \<sigma>2)"
      "same_records \<sigma>1 \<sigma>2" "os \<sigma>2 = os \<sigma>1"
    using search_fpcache_known [of \<sigma>1] s(5) e(4) by metis
  have g: "server_get_file conf pp (rq_inet rq) (rq_port rq) di \<sigma>1 = Some (Inr (Some f), \<sigma>2)"
    using s(4,6) f(1) same_records_simps(2) [OF f(2)] e
    by (simp add: server_get_file_def Let_def file_name_def not_less)
  let ?ub = "ub\<lparr> buf := b' \<rparr>"
  obtain w where w: "serve_file conf ?ub (Some f) (rq_l2 rq) (drop (rq_l1 rq) b') \<sigma>2 =
      reply (length d) 0 (put_buf ?ub 0 d) (\<sigma>2\<lparr> os := w \<rparr>)" "stream w f \<noteq> None" "file_behind w f = file_behind (os \<sigma>) f"
    using serve_file_known [of \<sigma>2 f conf "rq_l2 rq" "drop (rq_l1 rq) b'" ?ub] s(7) assms(3,4) c(3) f(3)
    by (auto simp: d_def)
  have "cmd_get_file conf dns rq ub \<sigma> = reply (length d) 0 (put_buf ?ub 0 d) (\<sigma>2\<lparr> os := w \<rparr>)"
    using assms(2) c(1) s(3) g w(1) e(1)
    by (simp add: cmd_get_file_def with_path_def validate_path_def directory_path_def check_access_def do_op_def granted_iff Let_def)
  moreover have "served conf (rq_inet rq) (rq_port rq) pp f (\<sigma>2\<lparr> os := w \<rparr>)"
    by (rule same_records_served [OF same_records_trans [OF same_records_trans [OF c(2) f(2)] same_records_refl] assms(1)])
      (simp add: w(2))
  ultimately show ?thesis using w(3) by (intro exI [of _ "\<sigma>2\<lparr> os := w \<rparr>"]) simp
qed

subsection \<open>The path of a request\<close>

lemma parse_scan_cuts:
  "parse_scan cs s ps = Inr ps' \<Longrightarrow> cuts ps = [] \<Longrightarrow> \<forall>i \<in> set (cuts ps'). i < s + length cs"
proof (induction cs s ps rule: parse_scan.induct)
  case (1 s ps)
  then show ?case by auto
next
  case (2 c cs s ps)
  show ?case
  proof (cases "c = NL")
    case True
    obtain i where i: "strrchr (c # cs) NL = Some i" using strrchr_None [of "c # cs" NL] True by (cases "strrchr (c # cs) NL") auto
    then have "i < length (c # cs)" using strrchr_Some by blast
    with "2.prems" True i show ?thesis by (auto simp: Let_def simp del: strrchr.simps)
  next
    case False
    with 2 show ?thesis by (auto simp: Let_def split: if_splits)
  qed
qed

lemma drop_zero_at: "\<forall>i \<in> set is. i < k \<Longrightarrow> drop k (zero_at b is) = drop k b"
  by (induction b "is" rule: zero_at.induct) auto

definition good_path :: "string \<Rightarrow> bool" where
  "good_path p \<longleftrightarrow> NUL \<notin> set p \<and> path_chars (path_text p) \<and> no_hidden (path_text p)"

lemma path_of_request:
  assumes "NUL \<notin> set p"
  shows "cstr (p @ NUL # r) = p" "path_spec (p @ NUL # r) = path_spec p" "path_text (p @ NUL # r) = path_text p"
  using assms by (simp_all add: cstr_append_NUL path_spec_def path_text_def path_password_def cstr_id)

lemma parse_request:
  assumes "good_path p"
  shows "\<exists>b'. parse_path (p @ NUL # r) (Suc (length p)) = Inr (path_spec p, b') \<and> drop (Suc (length p)) b' = r"
proof -
  let ?b = "p @ NUL # r"
  have p: "NUL \<notin> set p" "path_chars (path_text p)" "no_hidden (path_text p)" using assms by (auto simp: good_path_def)
  then have "acceptable ?b (Suc (length p))" by (simp add: acceptable_def path_of_request nth_append)
  then obtain pp b' where ok: "parse_path ?b (Suc (length p)) = Inr (pp, b')"
    using parse_path_Inl_iff [of ?b "Suc (length p)"] by (cases "parse_path ?b (Suc (length p))") auto
  then obtain ps where ps: "parse_scan p 0 parse_start = Inr ps" "b' = zero_at ?b (cuts ps)"
    by (auto simp: parse_path_def path_of_request [OF p(1)] Let_def split: if_splits sum.splits)
  have "\<forall>i \<in> set (cuts ps). i < Suc (length p)"
    using parse_scan_cuts [OF ps(1)] by (auto simp: parse_start_def)
  from drop_zero_at [OF this, of ?b] ps(2) have "drop (Suc (length p)) b' = r" by simp
  with parse_path_Inr [OF ok] ok show ?thesis by (simp add: path_of_request [OF p(1)])
qed

subsection \<open>A conversation\<close>

text \<open>What the dispatcher gets: the path, and behind it the size wanted.\<close>

definition file_request :: "session \<Rightarrow> fsp_conf \<Rightarrow> HTAB \<Rightarrow> u16 \<Rightarrow> string \<Rightarrow> nat \<Rightarrow> request \<Rightarrow> UBUF \<Rightarrow> char list \<Rightarrow> bool" where
  "file_request se conf hp port p pos rq ub b' \<longleftrightarrow>
     cmd ub = CC_GET_FILE \<and> unat (BB_READ4 (bb_pos ub)) = pos \<and> rq_inet rq = inet_num hp \<and> rq_port rq = port \<and>
     parse_path (buf ub) (rq_l1 rq) = Inr (path_spec p, b') \<and> drop (rq_l1 rq) b' = drop (rq_l1 rq) (buf ub) \<and>
     serve_length conf (rq_l2 rq) (drop (rq_l1 rq) (buf ub)) = serve_length conf 2 (client_net_len se)"

definition answered :: "UBUF \<Rightarrow> result \<Rightarrow> (UBUF \<times> fsrv) option" where
  "answered old r = (case r of Some (Answer m n, ub, \<sigma>) \<Rightarrow> Some (recv_into old (reply_packet ub m n), \<sigma>) | _ \<Rightarrow> None)"

lemma conversation_received:
  assumes "good_path p" "length p + 3 \<le> UBUF_MAXSPACE" "pos \<le> FOURGIGS"
  shows "\<exists>rq ub b'. file_request se conf hp port p pos rq ub b' \<and>
    (\<forall>\<sigma>. conversation conf dns version old hp port (path_request CC_GET_FILE pos (SL # p) (client_net_len se)) \<sigma> =
      answered old (cmd_get_file conf dns rq ub \<sigma>))"
proof -
  let ?ra = "path_request CC_GET_FILE pos (SL # p) (client_net_len se)"
  define pk where "pk = packet_of ?ra (next_key hp) (0, 0)"
  define rb where "rb = recv_into old pk"
  have pk: "pk = request_packet CC_GET_FILE (ucast (of_nat pos :: u64)) (p @ [NUL]) (client_net_len se) (next_key hp) (0, 0)"
    by (simp add: pk_def packet_of_def path_request_def)
  have l2: "length (client_net_len se) = 2" by (simp add: client_net_len_def)
  have "length (p @ [NUL]) + length (client_net_len se) \<le> UBUF_MAXSPACE" using assms(2) l2 by simp
  note r = request_arrives [OF this pk, of old, folded rb_def]
  have len: "length pk = length p + 3 + UBUF_HSIZE" using r l2 by simp
  obtain r0 where buf: "buf rb = p @ NUL # client_net_len se @ r0"
  proof -
    have e: "length pk - UBUF_HSIZE = length p + 3" by (simp add: len)
    have "take (length pk - UBUF_HSIZE) (buf rb) = (p @ [NUL]) @ client_net_len se" using r by blast
    then have "take (length p + 3) (buf rb) = p @ NUL # client_net_len se" unfolding e by simp
    then have "buf rb = (p @ NUL # client_net_len se) @ drop (length p + 3) (buf rb)"
      by (metis append_take_drop_id)
    with that show ?thesis by simp
  qed
  have pos: "unat (BB_READ4 (bb_pos rb)) = pos"
  proof -
    have "(ucast (of_nat pos :: u64) :: u32) = of_nat pos" using assms(3) by (simp add: unsigned_of_nat take_bit_nat_eq_self)
    then show ?thesis using r assms(3) by (simp add: unat_u32_of_nat)
  qed
  obtain k where k: "next_keys False 0 hp = k" "inet_num k = inet_num hp" by (simp add: next_keys_def Let_def)
  let ?rq = "\<lparr> rq_old = False, rq_pos = unat (BB_READ4 (bb_pos rb)), rq_l1 = Suc (length p),
      rq_l2 = 2, rq_inet = inet_num hp, rq_port = port \<rparr>" and ?ub = "rb\<lparr> bb_key := BB_WRITE2 (next_key k) \<rparr>"
  obtain b' where b': "parse_path (buf rb) (Suc (length p)) = Inr (path_spec p, b')"
      "drop (Suc (length p)) b' = drop (Suc (length p)) (buf rb)"
    using parse_request [OF assms(1), of "client_net_len se @ r0"] buf by auto
  have "serve_length conf 2 (drop (Suc (length p)) (buf rb)) = serve_length conf 2 (client_net_len se)"
    using l2 by (simp add: buf serve_length_def nth_append)
  then have "file_request se conf hp port p pos ?rq ?ub b'" using r b' pos by (simp add: file_request_def)
  moreover have "conversation conf dns version old hp port ?ra \<sigma> = answered old (cmd_get_file conf dns ?rq ?ub \<sigma>)" for \<sigma>
  proof -
    have "server_process_packet conf dns version 0 0 (length pk) rb False hp port \<sigma> =
        map_option (\<lambda>(a, ub', \<sigma>'). (a, ub', \<sigma>', k)) (cmd_get_file conf dns ?rq ?ub \<sigma>)"
      using r len k by (simp add: server_process_packet_def Let_def)
    then show ?thesis
      by (auto simp: conversation_def answered_def Let_def simp flip: pk_def rb_def split: option.split answer.split)
  qed
  ultimately show ?thesis by blast
qed

lemma answered_carries:
  assumes "length d \<le> UBUF_MAXSPACE" "cmd ub \<noteq> CC_ERR"
  shows "\<exists>ub'. answered old (reply (length d) 0 (put_buf ub 0 d) \<sigma>) = Some (ub', \<sigma>) \<and> carries ub' d"
proof -
  let ?a = "put_buf ub 0 d"
  have dl: "length d + 0 \<le> length (buf ?a)" "length d + 0 \<le> UBUF_MAXSPACE"
    using assms(1) by (simp_all add: put_buf_def memcpy_def)
  from reply_arrives [OF dl, of old] have "carries (recv_into old (reply_packet ?a (length d) 0)) d"
    using assms(2) by (simp add: carries_def put_buf_def)
  then show ?thesis by (simp add: answered_def reply_def)
qed

lemma conversation_get_file:
  assumes "served conf (inet_num hp) port (path_spec p) f \<sigma>" "good_path p"
    and "length p + 3 \<le> UBUF_MAXSPACE" "pos \<le> FOURGIGS" "serve_length conf 2 (client_net_len se) \<le> UBUF_MAXSPACE"
  shows "\<exists>ub \<sigma>'. conversation conf dns version old hp port
      (path_request CC_GET_FILE pos (SL # p) (client_net_len se)) \<sigma> = Some (ub, \<sigma>') \<and>
    served conf (inet_num hp) port (path_spec p) f \<sigma>' \<and> file_behind (os \<sigma>') f = file_behind (os \<sigma>) f \<and>
    carries ub (take (serve_length conf 2 (client_net_len se)) (drop pos (file_behind (os \<sigma>) f)))"
proof -
  let ?d = "take (serve_length conf 2 (client_net_len se)) (drop pos (file_behind (os \<sigma>) f))"
  obtain rq ub b' where rq: "file_request se conf hp port p pos rq ub b'"
    and c: "\<And>\<sigma>. conversation conf dns version old hp port (path_request CC_GET_FILE pos (SL # p) (client_net_len se)) \<sigma> =
      answered old (cmd_get_file conf dns rq ub \<sigma>)"
    using conversation_received [OF assms(2-4)] by metis
  note rq = rq [unfolded file_request_def]
  obtain \<sigma>' where s: "cmd_get_file conf dns rq ub \<sigma> = reply (length ?d) 0 (put_buf (ub\<lparr> buf := b' \<rparr>) 0 ?d) \<sigma>'"
      "served conf (inet_num hp) port (path_spec p) f \<sigma>'" "file_behind (os \<sigma>') f = file_behind (os \<sigma>) f"
    using cmd_get_file_served [of conf rq "path_spec p" f \<sigma> ub b' dns] assms(1,5) rq by auto
  have "length ?d \<le> UBUF_MAXSPACE" using assms(5) by simp
  from answered_carries [OF this, of "ub\<lparr> buf := b' \<rparr>" old \<sigma>'] s c rq show ?thesis by auto
qed

subsection \<open>The first request\<close>

text \<open>No directory has two records, and the stream cache has the configured size.\<close>

definition orderly :: "fsp_conf \<Rightarrow> fsrv \<Rightarrow> bool" where
  "orderly conf \<sigma> \<longleftrightarrow> server_wf \<sigma> \<and> distinct_keys (dirstatcache \<sigma>) \<and> cachesize (fpcache \<sigma>) = nat (fp_cache_limit conf)"

lemma find_after_put:
  assumes "cache_wf c" "k \<noteq> k_zero c" "k \<notin> set (k_head c)" "f_cache_put c k e s = (p, c', s')"
  shows "fst (f_cache_find c' k) = Some p"
proof -
  note fr = f_cache_put_frame [OF assms(1,4)] and wf = f_cache_put_wf [OF assms(1,4)]
  have only: "q = p" if "q < cachesize c" "k_head c' ! q = k" for q
    using that fr(2) assms(3) cache_wfD(1) [OF assms(1)] by (metis nth_list_update_neq nth_mem)
  obtain r c2 where r: "f_cache_find c' k = (r, c2)" by fastforce
  show ?thesis
  proof (cases r)
    case None
    have "k \<in> set (k_head c')" using fr(2) wf(2) cache_wfD(1) [OF assms(1)] by (simp add: set_update_memI)
    with f_cache_find_None [OF wf(1) r [unfolded None]] assms(2) fr(5) show ?thesis by simp
  next
    case (Some q)
    with f_cache_find_Some [OF wf(1) r [unfolded Some]] only fr(4) r show ?thesis by simp
  qed
qed

lemma gone_after_delete:
  assumes "cache_wf c" "distinct_keys c" "f_cache_find c k = (Some i, c1)" "f_cache_delete_entry c1 (Some i) s = (d, c', s')"
  shows "k \<notin> set (k_head c')"
proof -
  note f = f_cache_find_Some [OF assms(1,3)] and fr = f_cache_find_frame [OF assms(3)]
  have wf1: "cache_wf c1" using assms(1) f_cache_find_abs(1) [OF assms(3)] by simp
  have i: "i < cachesize c" "k_head c ! i = k" "k \<noteq> k_zero c" using f by auto
  note dl = f_cache_delete_frame [OF wf1 assms(4)]
  have k: "k_head c' = (k_head c)[i := k_zero c]" using dl(2) i(1) fr by simp
  show ?thesis
  proof
    assume "k \<in> set (k_head c')"
    then obtain j where j: "j < length (k_head c)" "(k_head c)[i := k_zero c] ! j = k" by (auto simp: k in_set_conv_nth)
    then have "j \<noteq> i" "k_head c ! j = k" using i cache_wfD(1) [OF assms(1)] by (auto simp: nth_list_update split: if_splits)
    with j(1) i assms(2) cache_wfD(1) [OF assms(1)] show False
      unfolding distinct_keys_nth by (metis linorder_neqE_nat)
  qed
qed

lemma load_access_rights_lastcheck: "load_access_rights conf dns di w = Some (di', w') \<Longrightarrow> lastcheck di' = lastcheck di"
  by (auto simp: load_access_rights_def load_readme_def Let_def split: prod.splits if_splits option.splits)

lemma dirstat_wf: "server_wf \<sigma> \<Longrightarrow> cache_wf (dirstatcache \<sigma>) \<and> k_zero (dirstatcache \<sigma>) = None"
  by (simp add: server_wf_def file_cache_wf_def)

lemma dirstat_find_fst: "fst (dirstat_find k \<sigma>) = fst (f_cache_find (dirstatcache \<sigma>) (Some k))"
  by (simp add: dirstat_find_def split: prod.split)

lemma build_dirinfo_knows:
  assumes "server_wf \<sigma>" "Some work \<notin> set (k_head (dirstatcache \<sigma>))" "build_dirinfo conf dns work sd \<sigma> = Some (Inr di, \<sigma>')"
  shows "fst (dirstat_find work \<sigma>') = Some di \<and> lastcheck (dirstat_at \<sigma>' di) = cur_time \<sigma> \<and>
    cur_time \<sigma>' = cur_time \<sigma> \<and> fpcache \<sigma>' = fpcache \<sigma> \<and> server_wf \<sigma>'"
proof -
  obtain d w where d: "lastcheck d = cur_time \<sigma>" "dirstat_put work d (\<sigma>\<lparr> os := w \<rparr>) = (di, \<sigma>')"
    using assms(3) by (auto simp: build_dirinfo_def Let_def split: option.splits if_splits prod.splits
        dest!: load_access_rights_lastcheck)
  obtain c v where c: "f_cache_put (dirstatcache \<sigma>) (Some work) d (Some w) = (di, c, v)" "\<sigma>' = \<sigma>\<lparr> os := w, dirstatcache := c \<rparr>"
    using d(2) by (auto simp: dirstat_put_def split: prod.splits)
  note w = dirstat_wf [OF assms(1)]
  have "fst (f_cache_find c (Some work)) = Some di"
    using find_after_put [OF _ _ assms(2) c(1)] w by simp
  moreover have "entry_at c di = d" using f_cache_put_wf(3) [OF _ c(1)] w by simp
  moreover have "server_wf \<sigma>'" using dirstat_put_wf [OF _ d(2)] assms(1) by simp
  ultimately show ?thesis using c(2) d(1) by (simp add: dirstat_find_fst dirstat_at_def)
qed

lemma check_directory_knows:
  assumes "orderly conf \<sigma>" "check_directory conf dns work \<sigma> = Some (Inr di, \<sigma>')" "0 < stat_cache_timeout conf"
  shows "fst (dirstat_find work \<sigma>') = Some di \<and> lastcheck (dirstat_at \<sigma>' di) + stat_cache_timeout conf > cur_time \<sigma>' \<and>
    fpcache \<sigma>' = fpcache \<sigma> \<and> server_wf \<sigma>'"
proof -
  obtain found \<sigma>1 where f: "dirstat_find work \<sigma> = (found, \<sigma>1)" by fastforce
  have wf: "server_wf \<sigma>" and ds: "distinct_keys (dirstatcache \<sigma>)" using assms(1) by (auto simp: orderly_def)
  note w = dirstat_wf [OF wf] and w1 = dirstat_find_wf [OF wf f]
  note same = dirstat_find_same [OF f, THEN conjunct1]
  obtain c where c: "f_cache_find (dirstatcache \<sigma>) (Some work) = (found, c)" "\<sigma>1 = \<sigma>\<lparr> dirstatcache := c \<rparr>"
    using f by (auto simp: dirstat_find_def split: prod.splits)
  have again: "fst (dirstat_find work \<sigma>1) = found" using same_records_simps(3) [OF same, of work] f by simp
  have keys: "k_head c = k_head (dirstatcache \<sigma>)" by (rule f_cache_find_frame [OF c(1)])
  consider (fresh) i where "found = Some i" "di = i" "\<sigma>' = \<sigma>1" "lastcheck (dirstat_at \<sigma>1 i) + stat_cache_timeout conf > cur_time \<sigma>1"
    | (mtime) i where "found = Some i" "di = i" "\<sigma>' = dirstat_set i (\<lambda>d. d\<lparr> lastcheck := cur_time \<sigma>1 \<rparr>) \<sigma>1"
    | (build) sd where "build_dirinfo conf dns work sd (if found \<noteq> None then dirstat_delete found \<sigma>1 else \<sigma>1) = Some (Inr di, \<sigma>')"
    using assms(2) f unfolding check_directory_def by (auto simp: Let_def split: if_splits option.splits)
  then show ?thesis
  proof cases
    case fresh
    with again w1 c(2) show ?thesis by simp
  next
    case mtime
    have i: "i < cachesize (dirstatcache \<sigma>)" using f_cache_find_Some [of "dirstatcache \<sigma>" "Some work" i c] w c(1) mtime(1) by simp
    have fs: "fst (f_cache_find (set_entry c i g) k) = fst (f_cache_find c k)" for g k
      by (simp add: f_cache_find_def set_entry_def split: option.split)
    have "fst (dirstat_find work \<sigma>') = Some i"
      using again mtime(1,3) fs by (simp add: dirstat_find_fst dirstat_set_def c(2))
    moreover have "i < length (e_head c)" using i cache_wfD(2) f_cache_find_frame(2) [OF c(1)] w by metis
    then have "lastcheck (dirstat_at \<sigma>' i) = cur_time \<sigma>'" by (simp add: mtime(3) dirstat_at_def dirstat_set_def entry_at_def set_entry_def c(2))
    moreover have "server_wf \<sigma>'" unfolding mtime(3) by (rule dirstat_set_wf(1)) (use w1 in simp)
    moreover have "fpcache \<sigma>' = fpcache \<sigma>" by (simp add: mtime(3) dirstat_set_def c(2))
    ultimately show ?thesis using mtime(2) assms(3) by simp
  next
    case (build sd)
    let ?s = "if found \<noteq> None then dirstat_delete found \<sigma>1 else \<sigma>1"
    have s: "server_wf ?s" "fpcache ?s = fpcache \<sigma>"
      using w1 dirstat_delete_wf [of \<sigma>1 found] c(2) by (auto simp: dirstat_delete_def split: prod.splits)
    have "Some work \<notin> set (k_head (dirstatcache ?s))"
    proof (cases found)
      case None
      with f_cache_find_None [of "dirstatcache \<sigma>" "Some work" c] w c keys show ?thesis by simp
    next
      case (Some i)
      obtain d c' v where dl: "f_cache_delete_entry c (Some i) (Some (os \<sigma>1)) = (d, c', v)" by (metis prod_cases3)
      have "Some work \<notin> set (k_head c')"
        using gone_after_delete [OF _ ds _ dl] w c(1) Some by simp
      with dl Some show ?thesis by (simp add: dirstat_delete_def c(2))
    qed
    from build_dirinfo_knows [OF s(1) this build] s(2) assms(3) show ?thesis by simp
  qed
qed

lemma fpcache_scan_other:
  assumes "fpcache_scan \<sigma> inet port name i n = Some None" "i + n \<le> m" "\<And>j. j < m \<Longrightarrow> j \<noteq> p \<Longrightarrow> fp_at \<sigma>' j = fp_at \<sigma> j"
    "\<And>j. j < m \<Longrightarrow> j \<noteq> p \<Longrightarrow> f_cache_get_key (fpcache \<sigma>') (Some j) = f_cache_get_key (fpcache \<sigma>) (Some j)"
    "fp_port_num (fp_at \<sigma>' p) = port" "fp_inet_num (fp_at \<sigma>' p) = inet" "f_cache_get_key (fpcache \<sigma>') (Some p) = Some (Some name)"
    "i \<le> p" "p < i + n"
  shows "fpcache_scan \<sigma>' inet port name i n = Some (Some p)"
  using assms(1,2,8,9)
proof (induction n arbitrary: i)
  case (Suc n)
  show ?case
  proof (cases "i = p")
    case True
    then show ?thesis using assms(5-7) by simp
  next
    case False
    have "fp_at \<sigma>' i = fp_at \<sigma> i" "f_cache_get_key (fpcache \<sigma>') (Some i) = f_cache_get_key (fpcache \<sigma>) (Some i)"
      using assms(3,4) [of i] False Suc.prems(2) by auto
    moreover have "fpcache_scan \<sigma> inet port name (Suc i) n = Some None"
      using Suc.prems(1) by (auto split: if_splits option.splits)
    then have "fpcache_scan \<sigma>' inet port name (Suc i) n = Some (Some p)"
      using Suc.IH [of "Suc i"] Suc.prems False by simp
    ultimately show ?thesis using Suc.prems(1) by (auto split: if_splits option.splits)
  qed
qed simp

lemma fp_put_scan:
  assumes "server_wf \<sigma>" "fpcache_scan \<sigma> inet port name 0 (cachesize (fpcache \<sigma>)) = Some None"
    and "fp_put name \<lparr> fp = Some f, fp_inet_num = inet, fp_port_num = port \<rparr> \<sigma> = Some \<sigma>'"
  shows "\<exists>p. fpcache_scan \<sigma>' inet port name 0 (cachesize (fpcache \<sigma>)) = Some (Some p) \<and> fp (fp_at \<sigma>' p) = Some f \<and>
    dirstatcache \<sigma>' = dirstatcache \<sigma> \<and> cur_time \<sigma>' = cur_time \<sigma>"
proof -
  let ?e = "\<lparr> fp = Some f, fp_inet_num = inet, fp_port_num = port \<rparr>"
  obtain p c v where c: "f_cache_put (fpcache \<sigma>) (Some name) ?e (Some (os \<sigma>)) = (p, c, v)" by (metis prod_cases3)
  then have \<sigma>': "fpcache \<sigma>' = c" "dirstatcache \<sigma>' = dirstatcache \<sigma>" "cur_time \<sigma>' = cur_time \<sigma>"
    using assms(3) by (auto simp: fp_put_def)
  have wf: "cache_wf (fpcache \<sigma>)" using assms(1) by (simp add: server_wf_def file_cache_wf_def)
  note fr = f_cache_put_frame [OF wf c] and pw = f_cache_put_wf [OF wf c] and len = cache_wfD [OF wf]
  have at: "fp_at \<sigma>' p = ?e" using pw(3) by (simp add: fp_at_def \<sigma>')
  have "fpcache_scan \<sigma>' inet port name 0 (cachesize (fpcache \<sigma>)) = Some (Some p)"
  proof (rule fpcache_scan_other [OF assms(2), where m = "cachesize (fpcache \<sigma>)"])
    fix j assume j: "j < cachesize (fpcache \<sigma>)" "j \<noteq> p"
    show "fp_at \<sigma>' j = fp_at \<sigma> j" using j fr(3) by (simp add: fp_at_def entry_at_def \<sigma>')
    show "f_cache_get_key (fpcache \<sigma>') (Some j) = f_cache_get_key (fpcache \<sigma>) (Some j)"
      using j fr by (simp add: f_cache_get_key_def \<sigma>')
  next
    show "f_cache_get_key (fpcache \<sigma>') (Some p) = Some (Some name)"
      using fr pw(2) len by (simp add: f_cache_get_key_def \<sigma>')
  qed (use at pw(2) in simp_all)
  then show ?thesis using at \<sigma>' by auto
qed

lemma server_get_file_opens:
  assumes "server_wf \<sigma>" "cachesize (fpcache \<sigma>) = nat (fp_cache_limit conf)"
    and "server_get_file conf pp inet port di \<sigma> = Some (Inr r, \<sigma>')"
  shows "\<exists>c. fpcache_scan \<sigma>' inet port (file_name \<sigma> di pp) 0 (nat (fp_cache_limit conf)) = Some (Some c) \<and> fp (fp_at \<sigma>' c) = r \<and>
    length (file_name \<sigma> di pp) < NBSIZE \<and> dirstatcache \<sigma>' = dirstatcache \<sigma> \<and> cur_time \<sigma>' = cur_time \<sigma>"
proof -
  let ?n = "file_name \<sigma> di pp" and ?k = "nat (fp_cache_limit conf)"
  have nb: "length ?n < NBSIZE"
    using assms(3) by (auto simp: server_get_file_def Let_def file_name_def split: if_splits)
  obtain x where x: "fpcache_scan \<sigma> inet port ?n 0 ?k = Some x"
    using assms(3) by (cases "fpcache_scan \<sigma> inet port ?n 0 ?k") (auto simp: server_get_file_def Let_def file_name_def search_fpcache_def split: if_splits)
  show ?thesis
  proof (cases x)
    case (Some c)
    obtain \<sigma>1 where s: "search_fpcache conf inet port ?n \<sigma> = Some (Some c, \<sigma>1)" "same_records \<sigma> \<sigma>1"
        "dirstatcache \<sigma>1 = dirstatcache \<sigma>" using x Some by (simp add: search_fpcache_def same_records_def forget_def)
    have "r = fp (fp_at \<sigma>1 c)" "\<sigma>' = \<sigma>1"
      using assms(3) s(1) nb by (auto simp: server_get_file_def Let_def file_name_def split: if_splits)
    then show ?thesis using x Some nb s(3) same_records_simps [OF s(2)] by simp
  next
    case None
    let ?s = "\<sigma>\<lparr> fpcache := (fpcache \<sigma>)\<lparr> miss := miss (fpcache \<sigma>) + 1 \<rparr> \<rparr>"
    have s: "search_fpcache conf inet port ?n \<sigma> = Some (None, ?s)" using x None by (simp add: search_fpcache_def)
    have same: "same_records \<sigma> ?s" by (simp add: same_records_def forget_def)
    obtain f w where o': "r = Some f" "fp_put ?n \<lparr> fp = Some f, fp_inet_num = inet, fp_port_num = port \<rparr> (?s\<lparr> os := w \<rparr>) = Some \<sigma>'"
      using assms(3) s nb by (auto simp: server_get_file_def Let_def file_name_def fail_def split: option.splits if_splits Option.bind_splits)
    have "cache_wf (e\<lparr> miss := m \<rparr>) = cache_wf e" for e :: "FPCACHE file_cache" and m
      by (simp add: cache_wf_def cong: option.case_cong)
    then have "file_cache_wf ed (e\<lparr> miss := m \<rparr>) = file_cache_wf ed e" for ed and e :: "FPCACHE file_cache" and m
      by (simp add: file_cache_wf_def)
    then have "server_wf (?s\<lparr> os := w \<rparr>)" using assms(1) by (simp add: server_wf_def)
    moreover have "fpcache_scan (?s\<lparr> os := w \<rparr>) inet port ?n 0 (cachesize (fpcache (?s\<lparr> os := w \<rparr>))) = Some None"
      using x None same_records_simps(4) [OF same_records_trans [OF same same_records_refl]] assms(2) by simp
    ultimately show ?thesis using fp_put_scan [OF _ _ o'(2)] o'(1) nb assms(2) by simp
  qed
qed

lemma serve_file_answers:
  assumes "serve_file conf ub f has_len lp \<sigma> = Some (Answer m n, ub', \<sigma>')"
  shows "\<exists>s. f = Some s \<and> stream (os \<sigma>) s \<noteq> None \<and> serve_length conf has_len lp \<le> UBUF_MAXSPACE"
  using assms by (auto simp: serve_file_def fseek_def Let_def split: Option.bind_splits if_splits)

lemma do_op_succeeded:
  "succeeded (do_op op ub0 rest) ub \<sigma> \<Longrightarrow> \<exists>x \<sigma>1. op = Some (Inr x, \<sigma>1) \<and> succeeded (rest x \<sigma>1) ub \<sigma>"
  by (auto simp: do_op_def split: Option.bind_splits sum.splits)

lemma cmd_get_file_first:
  assumes "orderly conf \<sigma>" "0 < stat_cache_timeout conf" "succeeded (cmd_get_file conf dns rq ub \<sigma>) ub' \<sigma>'"
    and "parse_path (buf ub) (rq_l1 rq) = Inr (pp, b')" "drop (rq_l1 rq) b' = drop (rq_l1 rq) (buf ub)"
  defines "n \<equiv> serve_length conf (rq_l2 rq) (drop (rq_l1 rq) (buf ub))"
  shows "\<exists>f d. cmd_get_file conf dns rq ub \<sigma> = reply (length d) 0 ub' \<sigma>' \<and> ub' = put_buf (ub\<lparr> buf := b' \<rparr>) 0 d \<and>
    served conf (rq_inet rq) (rq_port rq) pp f \<sigma>' \<and> n \<le> UBUF_MAXSPACE \<and>
    d = take n (drop (unat (BB_READ4 (bb_pos ub))) (file_behind (os \<sigma>') f))"
proof -
  obtain q di b \<sigma>1 where v: "validate_path conf dns (buf ub) (rq_l1 rq) False \<sigma> = Some (Inr (q, di), b, \<sigma>1)"
    and s: "succeeded (check_access conf rq DIR_GET q di (ub\<lparr> buf := b \<rparr>) \<sigma>1 (\<lambda>pe.
      do_op (server_get_file conf q (rq_inet rq) (rq_port rq) di \<sigma>1) (ub\<lparr> buf := b \<rparr>) (\<lambda>f \<sigma>.
        serve_file conf (ub\<lparr> buf := b \<rparr>) f (rq_l2 rq) (drop (rq_l1 rq) (buf (ub\<lparr> buf := b \<rparr>))) \<sigma>))) ub' \<sigma>'"
    using with_path_succeeded [OF assms(3) [unfolded cmd_get_file_def]] by metis
  have q: "q = pp" "b = b'" and cd: "check_directory conf dns (dir_name pp) \<sigma> = Some (Inr di, \<sigma>1)"
    using v assms(4) by (auto simp: validate_path_def directory_path_def split: option.splits sum.splits)
  let ?ub = "ub\<lparr> buf := b' \<rparr>"
  note s = s [unfolded q]
  note k = check_directory_knows [OF assms(1) cd assms(2)]
  have gr: "granted (require_access_rights conf (dirstat_at \<sigma>1 di) DIR_GET (rq_inet rq) (passwd pp))"
    using check_access_succeeded [OF s] by blast
  obtain r \<sigma>2 where r: "server_get_file conf pp (rq_inet rq) (rq_port rq) di \<sigma>1 = Some (Inr r, \<sigma>2)"
    and sf: "succeeded (serve_file conf ?ub r (rq_l2 rq) (drop (rq_l1 rq) b') \<sigma>2) ub' \<sigma>'"
    using check_access_succeeded [OF s] do_op_succeeded by fastforce
  have cs: "cachesize (fpcache \<sigma>1) = nat (fp_cache_limit conf)" using assms(1) k by (simp add: orderly_def)
  obtain c where c: "fpcache_scan \<sigma>2 (rq_inet rq) (rq_port rq) (file_name \<sigma>1 di pp) 0 (nat (fp_cache_limit conf)) = Some (Some c)"
      "fp (fp_at \<sigma>2 c) = r" "length (file_name \<sigma>1 di pp) < NBSIZE" "dirstatcache \<sigma>2 = dirstatcache \<sigma>1" "cur_time \<sigma>2 = cur_time \<sigma>1"
    using server_get_file_opens [OF _ cs r] k by blast
  have at: "dirstat_at \<sigma>2 = dirstat_at \<sigma>1" "fst (dirstat_find (dir_name pp) \<sigma>2) = Some di"
    using k c(4) by (simp_all add: dirstat_at_def dirstat_find_fst fun_eq_iff)
  obtain f where f: "r = Some f" "stream (os \<sigma>2) f \<noteq> None" "n \<le> UBUF_MAXSPACE"
    using sf serve_file_answers assms(5) by (fastforce simp: succeeded_def n_def)
  have sv: "served conf (rq_inet rq) (rq_port rq) pp f \<sigma>2"
    unfolding served_def using k gr c f at by (auto simp: file_name_def intro!: exI [of _ di] exI [of _ c])
  from cmd_get_file_served [OF sv assms(4,5), where dns = dns] f(3)
  obtain w where w: "serve_file conf ?ub (Some f) (rq_l2 rq) (drop (rq_l1 rq) b') \<sigma>2 =
      reply (length (take n (drop (unat (BB_READ4 (bb_pos ub))) (file_behind (os \<sigma>2) f)))) 0
        (put_buf ?ub 0 (take n (drop (unat (BB_READ4 (bb_pos ub))) (file_behind (os \<sigma>2) f)))) (\<sigma>2\<lparr> os := w \<rparr>)"
      "stream w f \<noteq> None" "file_behind w f = file_behind (os \<sigma>2) f"
    using serve_file_known [OF f(2), of conf "rq_l2 rq" "drop (rq_l1 rq) b'" ?ub] assms(5) by (auto simp: n_def)
  have granted_letter: "first_char (require_access_rights conf (dirstat_at \<sigma>1 di) DIR_GET (rq_inet rq) (passwd pp)) \<notin> {CHR ''I'', CHR ''D''}"
    using gr granted_iff by blast
  have run: "cmd_get_file conf dns rq ub \<sigma> = serve_file conf ?ub (Some f) (rq_l2 rq) (drop (rq_l1 rq) b') \<sigma>2"
    using v q granted_letter r f(1)
    by (simp add: cmd_get_file_def with_path_def check_access_def do_op_def Let_def)
  have e: "ub' = put_buf ?ub 0 (take n (drop (unat (BB_READ4 (bb_pos ub))) (file_behind (os \<sigma>2) f)))" "\<sigma>' = \<sigma>2\<lparr> os := w \<rparr>"
    using sf f(1) w(1) by (auto simp: succeeded_def reply_def)
  have "served conf (rq_inet rq) (rq_port rq) pp f \<sigma>'"
    unfolding e by (rule same_records_served [OF same_records_refl sv]) (simp add: w(2))
  then show ?thesis using run w(1,3) e f(3) by (intro exI [of _ f]) simp
qed

lemma reply_packet_cmd: "cmd (recv_into old (reply_packet ub m n)) = cmd ub"
proof -
  let ?p = "reply_packet ub m n"
  have "0 < length ?p" by (simp add: reply_packet_def down.length_seal)
  then have "cmd (recv_into old ?p) = ?p ! 0" by (simp add: recv_into_def Let_def nth_append)
  then show ?thesis by (simp add: reply_packet_def down.seal_frame ubuf_octets_def)
qed

lemma conversation_first:
  assumes "conversation conf dns version old hp port (path_request CC_GET_FILE pos (SL # p) (client_net_len se)) \<sigma> = Some (ub, \<sigma>')"
    and "cmd ub \<noteq> CC_ERR" "orderly conf \<sigma>" "0 < stat_cache_timeout conf"
    and "good_path p" "length p + 3 \<le> UBUF_MAXSPACE" "pos \<le> FOURGIGS"
  shows "\<exists>f. served conf (inet_num hp) port (path_spec p) f \<sigma>' \<and> serve_length conf 2 (client_net_len se) \<le> UBUF_MAXSPACE \<and>
    carries ub (take (serve_length conf 2 (client_net_len se)) (drop pos (file_behind (os \<sigma>') f)))"
proof -
  obtain rq ub0 b' where rq: "file_request se conf hp port p pos rq ub0 b'"
    and c: "conversation conf dns version old hp port (path_request CC_GET_FILE pos (SL # p) (client_net_len se)) \<sigma> =
      answered old (cmd_get_file conf dns rq ub0 \<sigma>)"
    using conversation_received [OF assms(5-7)] by metis
  note rq = rq [unfolded file_request_def]
  obtain m n ub1 where r: "cmd_get_file conf dns rq ub0 \<sigma> = Some (Answer m n, ub1, \<sigma>')" "ub = recv_into old (reply_packet ub1 m n)"
    using assms(1) c by (auto simp: answered_def split: option.splits answer.splits)
  have "cmd ub = cmd ub1" unfolding r(2) by (rule reply_packet_cmd)
  then have "succeeded (cmd_get_file conf dns rq ub0 \<sigma>) ub1 \<sigma>'" using r(1) assms(2) by (simp add: succeeded_def)
  then obtain f d where f: "cmd_get_file conf dns rq ub0 \<sigma> = reply (length d) 0 ub1 \<sigma>'" "ub1 = put_buf (ub0\<lparr> buf := b' \<rparr>) 0 d"
      "served conf (inet_num hp) port (path_spec p) f \<sigma>'" "serve_length conf 2 (client_net_len se) \<le> UBUF_MAXSPACE"
      "d = take (serve_length conf 2 (client_net_len se)) (drop pos (file_behind (os \<sigma>') f))"
    using cmd_get_file_first [OF assms(3,4), of dns rq ub0 ub1 \<sigma>' "path_spec p" b'] rq by auto
  have "length d \<le> UBUF_MAXSPACE" using f(4,5) by simp
  from answered_carries [OF this, of "ub0\<lparr> buf := b' \<rparr>" old \<sigma>'] f(1,2) c assms(1) rq
  have "carries ub d" by auto
  with f(3-5) show ?thesis by auto
qed

subsection \<open>The whole download\<close>

definition serving_file :: "fsp_conf \<Rightarrow> session \<Rightarrow> HTAB \<Rightarrow> u16 \<Rightarrow> string \<Rightarrow> char list \<Rightarrow> nat \<Rightarrow> fsrv \<Rightarrow> bool" where
  "serving_file conf se hp port p content n \<sigma> \<longleftrightarrow> good_path p \<and> length p + 3 \<le> UBUF_MAXSPACE \<and>
     n = serve_length conf 2 (client_net_len se) \<and> 0 < n \<and> n \<le> UBUF_MAXSPACE \<and>
     (\<exists>f. served conf (inet_num hp) port (path_spec p) f \<sigma> \<and> file_behind (os \<sigma>) f = content)"

interpretation remote_file: file_source "conversation conf dns version old hp port" CC_GET_FILE se "SL # p" "serving_file conf se hp port p"
  for conf dns version old hp port se p
proof unfold_locales
  fix content n \<sigma>
  assume r: "serving_file conf se hp port p content n \<sigma>"
  then show "0 < n" by (simp add: serving_file_def)
  fix pos :: nat
  assume pos: "pos \<le> FOURGIGS"
  obtain f where f: "served conf (inet_num hp) port (path_spec p) f \<sigma>" "file_behind (os \<sigma>) f = content"
    using r by (auto simp: serving_file_def)
  have "good_path p" "length p + 3 \<le> UBUF_MAXSPACE" "serve_length conf 2 (client_net_len se) \<le> UBUF_MAXSPACE"
    using r by (auto simp: serving_file_def)
  from conversation_get_file [OF f(1) this(1,2) pos this(3)]
  obtain ub \<sigma>' where a: "conversation conf dns version old hp port (path_request CC_GET_FILE pos (SL # p) (client_net_len se)) \<sigma> = Some (ub, \<sigma>')"
      "served conf (inet_num hp) port (path_spec p) f \<sigma>'" "file_behind (os \<sigma>') f = content"
      "carries ub (take (serve_length conf 2 (client_net_len se)) (drop pos content))"
    using f(2) by metis
  then have "serving_file conf se hp port p content n \<sigma>'" using r by (auto simp: serving_file_def)
  with a show "\<exists>ub \<sigma>'. conversation conf dns version old hp port (path_request CC_GET_FILE pos (SL # p) (client_net_len se)) \<sigma> = Some (ub, \<sigma>') \<and>
      serving_file conf se hp port p content n \<sigma>' \<and> carries ub (take n (drop pos content))"
    using r by (auto simp: serving_file_def)
qed

lemma serve_length_pos: "0 < unat (packetsize conf) \<Longrightarrow> 0 < serve_length conf k lp"
  by (simp add: serve_length_def Let_def)


definition demo_session :: session where
  "demo_session = \<lparr> env_dir = ''/'', env_passwd = [], client_buf_len = 1024, ddroot = [], statworks = True \<rparr>"

definition demo_old :: UBUF where
  "demo_old = \<lparr> cmd = 0, ub_sum = 0, bb_key = (0, 0), bb_seq = (0, 0), bb_len = (0, 0), bb_pos = (0, 0, 0, 0), buf = replicate 12 NUL \<rparr>"

text \<open>A local disk with an empty file open for writing.\<close>

definition local_disk :: world where
  "local_disk = \<lparr> entries = [([], 0), ([''out''], 1)],
     inodes = (\<lambda>n. if n = 0 then \<lparr> kind = Directory, mtime = 5, mode = 493 \<rparr> else \<lparr> kind = Regular [], mtime = 6, mode = 420 \<rparr>),
     next_ino = 2, streams = [(1, \<lparr> s_ino = 1, s_pos = 0, s_write = True, s_err = False \<rparr>)], next_stream = 2, cwd = [],
     cur_umask = 63, clock = 100, room = 1000 \<rparr>"

text \<open>The site of theory DemoSite with the file open for its client.\<close>

definition warm_start :: fsrv where
  "warm_start = snd (dirstat_put ''.'' (zero_DIRINFO\<lparr> realname := ''/f'', protection := DIR_LIST OR DIR_GET, lastcheck := 100 \<rparr>)
     (site_server\<lparr> os := demo_site\<lparr> streams := [(1, \<lparr> s_ino = 3, s_pos = 0, s_write = False, s_err = False \<rparr>)], next_stream := 2 \<rparr> \<rparr>))"

definition warm_server :: fsrv where
  "warm_server = (case fp_put ''/f/a.txt'' \<lparr> fp = Some 1, fp_inet_num = 5, fp_port_num = 9 \<rparr> warm_start of
     Some \<sigma> \<Rightarrow> \<sigma> | None \<Rightarrow> warm_start)"

lemma served_unique: "served conf inet port pp f \<sigma> \<Longrightarrow> served conf inet port pp f' \<sigma> \<Longrightarrow> f = f'"
  by (auto simp: served_def)

lemma warm_served: "served site_conf 5 9 (path_spec ''a.txt'') 1 warm_server"
proof -
  have pp: "path_spec ''a.txt'' = \<lparr> fullp = ''a.txt'', f_ptr = ''a.txt'', f_len = 5, d_ptr = ''.'', d_len = 1, passwd = None \<rparr>"
    by code_simp
  have d: "fst (dirstat_find ''.'' warm_server) = Some 0" by code_simp
  have r: "dirstat_at warm_server 0 = zero_DIRINFO\<lparr> realname := ''/f'', protection := DIR_LIST OR DIR_GET, lastcheck := 100 \<rparr>"
    by code_simp
  have t: "cur_time warm_server = 100" by code_simp
  have s: "fpcache_scan warm_server 5 9 ''/f/a.txt'' 0 (nat (fp_cache_limit site_conf)) = Some (Some 0)" by code_simp
  have o: "fp (fp_at warm_server 0) = Some 1" "stream (os warm_server) 1 \<noteq> None" by code_simp+
  have "granted (require_access_rights site_conf (zero_DIRINFO\<lparr> realname := ''/f'', protection := DIR_LIST OR DIR_GET, lastcheck := 100 \<rparr>) DIR_GET 5 None)"
    by code_simp
  with d r t s o show ?thesis unfolding served_def pp
    by (intro exI [of _ 0]) (simp add: dir_name_def file_name_def site_conf_def default_conf_def)
qed

lemma warm_orderly: "orderly site_conf warm_server"
proof -
  have i: "init_caches site_conf demo_site \<noteq> None" by code_simp
  then have "server_wf site_server" using init_caches_wf by (auto simp: site_server_def)
  then have "server_wf (snd (dirstat_put k e (site_server\<lparr> os := w \<rparr>)))" for k e w
    using dirstat_put_wf [of "site_server\<lparr> os := w \<rparr>" k e] by (cases "dirstat_put k e (site_server\<lparr> os := w \<rparr>)") simp
  then have "server_wf warm_start" unfolding warm_start_def by blast
  then have "server_wf warm_server"
    using fp_put_wf by (auto simp: warm_server_def split: option.split)
  moreover have "distinct_keys (dirstatcache warm_server)" "cachesize (fpcache warm_server) = nat (fp_cache_limit site_conf)"
    by code_simp+
  ultimately show ?thesis by (simp add: orderly_def)
qed


end
