(* ===== verification/Upload.thy ===== *)
theory Upload
  imports Streams Download
begin

text \<open>
  Client and server together: the upload of a file, from the loop of \<open>util_upload\<close> over the requests
  \<open>CC_UP_LOAD\<close>, which the server collects in a temporary file whose stream it keeps in its cache, to
  \<open>CC_INSTALL\<close>, which copies that file to its place.

  \<open>uploading\<close> is what the server holds between the requests; it is stated relative to the server \<open>\<sigma>0\<close>
  the upload began with.
\<close>

subsection \<open>The stream cache\<close>

definition cached_streams_open :: "fsrv \<Rightarrow> bool" where
  "cached_streams_open \<sigma> \<longleftrightarrow> (\<forall>e \<in> set (e_head (fpcache \<sigma>)). \<forall>g. fp e = Some g \<longrightarrow> stream (os \<sigma>) g \<noteq> None)"

lemma fp_wf: "server_wf \<sigma> \<Longrightarrow> file_cache_wf fpcache_free_entry (fpcache \<sigma>) \<and> cache_wf (fpcache \<sigma>) \<and> k_zero (fpcache \<sigma>) = None"
  by (simp add: server_wf_def file_cache_wf_def)

lemma fp_find_fst: "fst (fp_find k \<sigma>) = fst (f_cache_find (fpcache \<sigma>) (Some k))"
  by (simp add: fp_find_def split: prod.split)

lemma fp_find_frame:
  assumes "fp_find k \<sigma> = (r, \<sigma>')"
  shows "os \<sigma>' = os \<sigma>" "fp_at \<sigma>' = fp_at \<sigma>" "fst (fp_find k' \<sigma>') = fst (fp_find k' \<sigma>)" "dirstatcache \<sigma>' = dirstatcache \<sigma>"
    "cur_time \<sigma>' = cur_time \<sigma>" "e_head (fpcache \<sigma>') = e_head (fpcache \<sigma>)" "cachesize (fpcache \<sigma>') = cachesize (fpcache \<sigma>)"
proof -
  obtain c where c: "f_cache_find (fpcache \<sigma>) (Some k) = (r, c)" "\<sigma>' = \<sigma>\<lparr> fpcache := c \<rparr>"
    using assms by (auto simp: fp_find_def split: prod.splits)
  show "os \<sigma>' = os \<sigma>" "dirstatcache \<sigma>' = dirstatcache \<sigma>" "cur_time \<sigma>' = cur_time \<sigma>" using c(2) by simp_all
  note fr = f_cache_find_frame [OF c(1)]
  show "e_head (fpcache \<sigma>') = e_head (fpcache \<sigma>)" "cachesize (fpcache \<sigma>') = cachesize (fpcache \<sigma>)" using c(2) fr by simp_all
  then show "fp_at \<sigma>' = fp_at \<sigma>" by (simp add: fp_at_def entry_at_def fun_eq_iff)
  have "forget c = forget (fpcache \<sigma>)" using forget_simps(4) [of "fpcache \<sigma>" "Some k"] c(1) by simp
  then show "fst (fp_find k' \<sigma>') = fst (fp_find k' \<sigma>)"
    using forget_simps(1) [of c "Some k'"] forget_simps(1) [of "fpcache \<sigma>" "Some k'"] by (simp add: fp_find_fst c(2))
qed

text \<open>Closing the stream of a cache entry.\<close>

lemma free_entry_open:
  assumes "\<And>g. fp e = Some g \<Longrightarrow> stream w g \<noteq> None"
  shows "\<exists>w'. fpcache_free_entry e (Some w) = Some w' \<and> same_disk w w' \<and> keeps {} w w' \<and>
    (\<forall>g. fp e \<noteq> Some g \<longrightarrow> stream w' g = stream w g)"
proof (cases "fp e")
  case None
  then show ?thesis by (simp add: fpcache_free_entry_def same_disk_def)
next
  case (Some g)
  then show ?thesis using fclose_known [of w g] assms by (auto simp: fpcache_free_entry_def)
qed

lemma fp_put_fresh:
  assumes "server_wf \<sigma>" "fst (fp_find t \<sigma>) = None" "cached_streams_open \<sigma>"
  shows "\<exists>\<sigma>' slot. fp_put t e \<sigma> = Some \<sigma>' \<and> server_wf \<sigma>' \<and> fst (fp_find t \<sigma>') = Some slot \<and> fp_at \<sigma>' slot = e \<and>
    same_disk (os \<sigma>) (os \<sigma>') \<and> keeps {} (os \<sigma>) (os \<sigma>') \<and>
    (\<forall>g. (\<forall>e \<in> set (e_head (fpcache \<sigma>)). fp e \<noteq> Some g) \<longrightarrow> stream (os \<sigma>') g = stream (os \<sigma>) g) \<and>
    dirstatcache \<sigma>' = dirstatcache \<sigma> \<and> cur_time \<sigma>' = cur_time \<sigma>"
proof -
  obtain p c v where c: "f_cache_put (fpcache \<sigma>) (Some t) e (Some (os \<sigma>)) = (p, c, v)" by (metis prod_cases3)
  note wf = fp_wf [OF assms(1)]
  note put = f_cache_put_wf [OF wf [THEN conjunct2, THEN conjunct1] c]
  have p: "p < cachesize (fpcache \<sigma>)" "entry_at c p = e" using put by simp_all
  then have in_cache: "e_head (fpcache \<sigma>) ! p \<in> set (e_head (fpcache \<sigma>))" using wf cache_wfD(2) by (metis nth_mem)
  then have "\<And>g. fp (e_head (fpcache \<sigma>) ! p) = Some g \<Longrightarrow> stream (os \<sigma>) g \<noteq> None"
    using assms(3) by (auto simp: cached_streams_open_def)
  from free_entry_open [OF this] obtain w where w: "fpcache_free_entry (e_head (fpcache \<sigma>) ! p) (Some (os \<sigma>)) = Some w"
      "same_disk (os \<sigma>) w" "keeps {} (os \<sigma>) w" "\<forall>g. fp (e_head (fpcache \<sigma>) ! p) \<noteq> Some g \<longrightarrow> stream w g = stream (os \<sigma>) g"
    by blast
  have v: "v = Some w" using file_cache_put [OF wf [THEN conjunct1] c] w(1) by simp
  let ?s = "\<sigma>\<lparr> fpcache := c, os := w \<rparr>"
  have run: "fp_put t e \<sigma> = Some ?s" using c v by (simp add: fp_put_def)
  obtain r c1 where f: "f_cache_find (fpcache \<sigma>) (Some t) = (r, c1)" by fastforce
  then have "r = None" using assms(2) by (simp add: fp_find_fst)
  with f_cache_find_None [of "fpcache \<sigma>" "Some t" c1] f wf have "Some t \<notin> set (k_head (fpcache \<sigma>))" by simp
  with find_after_put [OF _ _ _ c] wf have "fst (fp_find t ?s) = Some p" by (simp add: fp_find_fst)
  moreover have "fp_at ?s p = e" using p by (simp add: fp_at_def)
  ultimately show ?thesis using run w(2-4) in_cache fp_put_wf [OF assms(1) run] by (intro exI [of _ ?s] exI [of _ p]) auto
qed

lemma fp_delete_open:
  assumes "server_wf \<sigma>" "fst (fp_find t \<sigma>) = Some slot" "fp (fp_at \<sigma> slot) = Some f" "stream (os \<sigma>) f \<noteq> None"
  shows "\<exists>\<sigma>'. fp_delete (Some slot) \<sigma> = Some \<sigma>' \<and> same_disk (os \<sigma>) (os \<sigma>') \<and> keeps {} (os \<sigma>) (os \<sigma>') \<and>
    dirstatcache \<sigma>' = dirstatcache \<sigma> \<and> cur_time \<sigma>' = cur_time \<sigma>"
proof -
  note wf = fp_wf [OF assms(1)]
  obtain c1 where f: "f_cache_find (fpcache \<sigma>) (Some t) = (Some slot, c1)"
    using assms(2) by (metis fp_find_fst prod.collapse)
  have slot: "slot < cachesize (fpcache \<sigma>)" using f_cache_find_Some [of "fpcache \<sigma>" "Some t" slot c1] f wf by simp
  obtain d c v where c: "f_cache_delete_entry (fpcache \<sigma>) (Some slot) (Some (os \<sigma>)) = (d, c, v)" by (metis prod_cases3)
  have e: "fp_at \<sigma> slot = e_head (fpcache \<sigma>) ! slot"
    using wf by (simp add: fp_at_def entry_at_def cache_wf_def)
  have "v = fpcache_free_entry (fp_at \<sigma> slot) (Some (os \<sigma>))"
    using f_cache_delete_frame [of "fpcache \<sigma>" slot "Some (os \<sigma>)" d c v] c slot wf
    by (simp add: file_cache_wf_def call_destroy_def memory_only_def e)
  moreover obtain w where w: "fpcache_free_entry (fp_at \<sigma> slot) (Some (os \<sigma>)) = Some w" "same_disk (os \<sigma>) w" "keeps {} (os \<sigma>) w"
    using free_entry_open [of "fp_at \<sigma> slot" "os \<sigma>"] assms(3,4) by auto
  ultimately show ?thesis using c by (intro exI [of _ "\<sigma>\<lparr> fpcache := c, os := w \<rparr>"]) (simp add: fp_delete_def)
qed

subsection \<open>The temporary file\<close>

lemma chmod_direct:
  fixes m :: nat
  assumes "direct w s p" "lookup w p = Some n" "kind (inodes w n) = Regular c"
  defines "w' \<equiv> attempt (\<lambda>w. chmod w s m) w"
  shows "lookup w' = lookup w" "stream w' = stream w" "kind (inodes w' j) = kind (inodes w j)" "mode (inodes w' n) = m"
    "room w' = room w" "next_ino w' = next_ino w" "next_stream w' = next_stream w" "keeps {n} w w'"
proof -
  have "plain_at w p" using assms(2,3) by (simp add: plain_at_def node_def)
  then have w': "w' = set_inode w n ((inodes w n)\<lparr> mode := m \<rparr>)"
    using resolve_direct [OF assms(1)] assms(2) by (simp add: w'_def attempt_def chmod_def)
  then show e: "lookup w' = lookup w" "stream w' = stream w" "kind (inodes w' j) = kind (inodes w j)" "mode (inodes w' n) = m"
    "room w' = room w" "next_ino w' = next_ino w" "next_stream w' = next_stream w"
    by (simp_all add: set_inode_def lookup_def stream_def fun_eq_iff)
  have "(is_dir w r \<longrightarrow> is_dir w' r) \<and> (dir_writable w r \<longrightarrow> dir_writable w' r)" for r
    by (rule dirs_kept) (use assms(3) in \<open>auto simp: w' set_inode_def lookup_def\<close>)
  then show "keeps {n} w w'" by (auto simp: keeps_def ids_ok_def w' set_inode_def stream_def)
qed

text \<open>What opening a new temporary file does.\<close>

lemma open_temp:
  assumes "direct w t p" "plain_at w p" "dir_writable w (butlast p)" "ids_ok w"
  defines "w0 \<equiv> unlink_try t w"
  shows "\<exists>w1 w2 sf. fopen w0 t Write = Some (next_stream w, w1) \<and> lstat w1 t = Some sf \<and> S_ISREG sf \<and> st_size sf = 0 \<and>
    fseek w1 (next_stream w) 0 = Some w2 \<and>
    (let w3 = attempt (\<lambda>w. chmod w t 384) w2 in
       writes_to w3 (next_stream w) (next_ino w) [] \<and> keeps {} w w3 \<and> lookup w3 = (lookup w)(p \<mapsto> next_ino w) \<and> room w3 = room w \<and>
       mode (inodes w3 (next_ino w)) = 384 \<and> (\<forall>g. g \<noteq> next_stream w \<longrightarrow> stream w3 g = stream w g))"
proof -
  let ?f = "next_stream w" and ?i = "next_ino w"
  note u = unlink_try_direct [OF assms(1-3), folded w0_def]
  have ids0: "ids_ok w0" using u(1) assms(4) by (simp add: keeps_def)
  have dw: "dir_writable w0 (butlast p)" using u(1) assms(3) by (simp add: keeps_def)
  have d0: "direct w0 t p" by (rule keeps_direct [OF u(1) assms(1)])
  have l0: "lookup w0 p = None" by (simp add: u(2))
  from fopen_write_direct [OF d0 l0 dw ids0]
  obtain w1 where o1: "fopen w0 t Write = Some (?f, w1)" "writes_to w1 ?f ?i []" "keeps {} w0 w1" "lookup w1 = (lookup w)(p \<mapsto> ?i)"
      "room w1 = room w" "\<forall>g. g \<noteq> ?f \<longrightarrow> stream w1 g = stream w g" "next_ino w1 = Suc ?i"
    by (auto simp: u stream_def)
  have d1: "direct w1 t p" by (rule keeps_direct [OF o1(3) d0])
  have p1: "plain_at w1 p" "kind (inodes w1 ?i) = Regular []" using o1(2,4) by (auto simp: plain_at_def node_def writes_to_def)
  have ls: "lstat w1 t = Some (stat_of (inodes w1 ?i))"
    using resolve_direct [OF d1 p1(1)] o1(4) by (simp add: lstat_def node_def)
  let ?w2 = "set_stream w1 ?f \<lparr> s_ino = ?i, s_pos = 0, s_write = True, s_err = False \<rparr>"
  have sk: "fseek w1 ?f 0 = Some ?w2" using o1(2) by (simp add: writes_to_def fseek_def)
  have k2: "keeps {} w1 ?w2"
    by (rule frame_keeps [OF frame_set_stream]) (use o1(2) in \<open>simp_all add: writes_to_def\<close>)
  have l2: "lookup ?w2 = lookup w1" by (simp add: lookup_def fun_eq_iff)
  note c = chmod_direct [OF keeps_direct [OF k2 d1], of ?i "[]" 384]
  have "lookup ?w2 p = Some ?i" "kind (inodes ?w2 ?i) = Regular []" using l2 o1(4) p1(2) by simp_all
  note c = c [OF this]
  let ?w3 = "attempt (\<lambda>w. chmod w t 384) ?w2"
  have "keeps {?i} w ?w3"
    using keeps_trans [OF keeps_mono [OF keeps_trans [OF keeps_trans [OF u(1) o1(3)] k2]] c(8)] by blast
  then have "keeps {} w ?w3" by (auto simp: keeps_def)
  moreover have "writes_to ?w3 ?f ?i []" using c(2,3) p1(2) by (simp add: writes_to_def)
  ultimately show ?thesis using o1(1,4,5,6) ls sk c(1,2,4,5) l2 p1(2)
    by (intro exI [of _ w1] exI [of _ ?w2] exI [of _ "stat_of (inodes w1 ?i)"]) (auto simp: stat_of_def Let_def)
qed

text \<open>The temporary file with name \<open>t\<close> at \<open>p\<close> holds \<open>c\<close>, and all else is as in \<open>\<sigma>0\<close>.\<close>

definition uploading :: "fsrv \<Rightarrow> string \<Rightarrow> path \<Rightarrow> char list \<Rightarrow> fsrv \<Rightarrow> bool" where
  "uploading \<sigma>0 t p c \<sigma> \<longleftrightarrow> server_wf \<sigma> \<and> forget (dirstatcache \<sigma>) = forget (dirstatcache \<sigma>0) \<and> cur_time \<sigma> = cur_time \<sigma>0 \<and>
     keeps {} (os \<sigma>0) (os \<sigma>) \<and> ids_ok (os \<sigma>) \<and> lookup (os \<sigma>) = (lookup (os \<sigma>0))(p \<mapsto> next_ino (os \<sigma>0)) \<and>
     room (os \<sigma>) = room (os \<sigma>0) - length c \<and> mode (inodes (os \<sigma>) (next_ino (os \<sigma>0))) = 384 \<and>
     (\<exists>slot f. fst (fp_find t \<sigma>) = Some slot \<and> fp (fp_at \<sigma> slot) = Some f \<and> writes_to (os \<sigma>) f (next_ino (os \<sigma>0)) c)"

text \<open>A server that can begin an upload into \<open>t\<close>.\<close>

definition can_upload :: "string \<Rightarrow> path \<Rightarrow> fsrv \<Rightarrow> bool" where
  "can_upload t p \<sigma> \<longleftrightarrow> server_wf \<sigma> \<and> fst (fp_find t \<sigma>) = None \<and> cached_streams_open \<sigma> \<and> ids_ok (os \<sigma>) \<and>
     direct (os \<sigma>) t p \<and> plain_at (os \<sigma>) p \<and> dir_writable (os \<sigma>) (butlast p)"

text \<open>Writing at the end of the temporary file.\<close>

lemma write_upload_appends:
  assumes "writes_to (os \<sigma>) f i c" "length data \<le> room (os \<sigma>)"
  shows "\<exists>w. write_upload t data (length c) f slot \<sigma> = Some (Inr (Some ()), \<sigma>\<lparr> os := w \<rparr>) \<and> writes_to w f i (c @ data) \<and>
    frame {f} {i} (os \<sigma>) w \<and> room w = room (os \<sigma>) - length data"
proof -
  obtain w where "fwrite (os \<sigma>) f data = Some (length data, w)" "writes_to w f i (c @ data)" "frame {f} {i} (os \<sigma>) w"
      "room w = room (os \<sigma>) - length data"
    using fwrite_writes [OF assms] by blast
  moreover have "ftell (os \<sigma>) f = Some (length c)" using assms(1) by (simp add: writes_to_def ftell_def)
  ultimately show ?thesis by (auto simp: write_upload_def)
qed

lemma fp_find_os [simp]: "fst (fp_find k (\<sigma>\<lparr> os := w \<rparr>)) = fst (fp_find k \<sigma>)" "fp_at (\<sigma>\<lparr> os := w \<rparr>) = fp_at \<sigma>"
  by (simp_all add: fp_find_fst fp_at_def fun_eq_iff)

lemma frame_writes_keeps:
  assumes "writes_to w f i c" "frame {f} {i} w w'"
  shows "keeps {i} w w'"
  by (rule frame_keeps [OF assms(2)]) (use assms(1) in \<open>auto simp: writes_to_def\<close>)

text \<open>One write takes the server from content \<open>c\<close> to \<open>c @ data\<close>.\<close>

lemma uploading_write:
  assumes "uploading \<sigma>0 t p c \<sigma>" "fst (fp_find t \<sigma>) = Some slot" "fp (fp_at \<sigma> slot) = Some f"
    and "writes_to w f (next_ino (os \<sigma>0)) (c @ data)" "frame {f} {next_ino (os \<sigma>0)} (os \<sigma>) w" "room w = room (os \<sigma>) - length data"
  shows "uploading \<sigma>0 t p (c @ data) (\<sigma>\<lparr> os := w \<rparr>)"
proof -
  let ?i = "next_ino (os \<sigma>0)"
  have u: "keeps {} (os \<sigma>0) (os \<sigma>)" "ids_ok (os \<sigma>)" "writes_to (os \<sigma>) f ?i c" "mode (inodes (os \<sigma>) ?i) = 384"
    using assms(1-3) by (auto simp: uploading_def)
  have k: "keeps {?i} (os \<sigma>) w" by (rule frame_writes_keeps [OF u(3) assms(5)])
  have "keeps {?i} (os \<sigma>0) w" by (rule keeps_trans [OF keeps_mono [OF u(1)] k]) simp
  then have "keeps {} (os \<sigma>0) w" by (auto simp: keeps_def)
  moreover have "ids_ok w" using k u(2) by (simp add: keeps_def)
  moreover have "lookup w = lookup (os \<sigma>)" by (rule frame_lookup [OF assms(5)])
  moreover have "mode (inodes w ?i) = 384" using assms(5) u(4) by (simp add: frame_def)
  ultimately show ?thesis using assms by (simp add: uploading_def)
qed

subsection \<open>\<open>server_up_load\<close> and \<open>server_install\<close>\<close>

lemma up_load_first:
  assumes "can_upload t p \<sigma>0" "upload_name conf inet port = Some t" "length data \<le> room (os \<sigma>0)"
  shows "\<exists>\<sigma>. server_up_load conf data 0 inet port \<sigma>0 = done_with \<sigma> \<and> uploading \<sigma>0 t p data \<sigma>"
proof -
  let ?f = "next_stream (os \<sigma>0)" and ?i = "next_ino (os \<sigma>0)" and ?w0 = "unlink_try t (os \<sigma>0)"
  have c: "server_wf \<sigma>0" "fst (fp_find t \<sigma>0) = None" "cached_streams_open \<sigma>0" "ids_ok (os \<sigma>0)"
      "direct (os \<sigma>0) t p" "plain_at (os \<sigma>0) p" "dir_writable (os \<sigma>0) (butlast p)"
    using assms(1) by (auto simp: can_upload_def)
  obtain \<sigma>1 where f: "fp_find t \<sigma>0 = (None, \<sigma>1)" using c(2) by (metis prod.collapse)
  note fr = fp_find_frame [OF f]
  have wf1: "server_wf \<sigma>1" using fp_find_wf [OF c(1) f] by simp
  obtain w1 w2 sf w3 where o1: "fopen ?w0 t Write = Some (?f, w1)" "lstat w1 t = Some sf" "S_ISREG sf" "st_size sf = 0"
      "fseek w1 ?f 0 = Some w2" "w3 = attempt (\<lambda>w. chmod w t 384) w2"
      "writes_to w3 ?f ?i []" "keeps {} (os \<sigma>0) w3" "lookup w3 = (lookup (os \<sigma>0))(p \<mapsto> ?i)" "room w3 = room (os \<sigma>0)"
      "mode (inodes w3 ?i) = 384" "\<forall>g. g \<noteq> ?f \<longrightarrow> stream w3 g = stream (os \<sigma>0) g"
    using open_temp [OF c(5-7,4)] unfolding Let_def by blast
  let ?s = "\<sigma>1\<lparr> os := w3 \<rparr>" and ?e = "\<lparr> fp = Some ?f, fp_inet_num = inet, fp_port_num = port \<rparr>"
  have new: "fp e \<noteq> Some ?f" if "e \<in> set (e_head (fpcache \<sigma>0))" for e
    using that c(3,4) unfolding cached_streams_open_def ids_ok_def by (metis less_irrefl)
  have open3: "cached_streams_open ?s"
    unfolding cached_streams_open_def
  proof (intro ballI allI impI)
    fix e g assume e: "e \<in> set (e_head (fpcache ?s))" "fp e = Some g"
    then have "e \<in> set (e_head (fpcache \<sigma>0))" using fr(6) by simp
    with e(2) new o1(12) c(3) show "stream (os ?s) g \<noteq> None" unfolding cached_streams_open_def by simp metis
  qed
  obtain \<sigma>2 slot where put: "fp_put t ?e ?s = Some \<sigma>2" "server_wf \<sigma>2" "fst (fp_find t \<sigma>2) = Some slot" "fp_at \<sigma>2 slot = ?e"
      "same_disk w3 (os \<sigma>2)" "keeps {} w3 (os \<sigma>2)" "stream (os \<sigma>2) ?f = stream w3 ?f" "dirstatcache \<sigma>2 = dirstatcache \<sigma>0" "cur_time \<sigma>2 = cur_time \<sigma>0"
    using fp_put_fresh [of ?s t ?e] open3 wf1 c(2) fr new by auto
  have opened: "open_upload t 0 (length data) inet port \<sigma>1 = Some (Inr (Some ?f), \<sigma>2)"
    using o1 fr(1) put(1) by (simp add: open_upload_def Let_def)
  note sd = same_disk_simps [OF put(5)]
  have u0: "uploading \<sigma>0 t p [] \<sigma>2"
    unfolding uploading_def using put sd o1 keeps_trans [OF o1(8) put(6)] c(4)
    by (auto simp: writes_to_def keeps_def intro!: exI [of _ slot])
  have w2: "writes_to (os \<sigma>2) ?f ?i []" using o1(7) put(7) sd by (simp add: writes_to_def)
  have "length data \<le> room (os \<sigma>2)" using assms(3) o1(10) sd by simp
  from write_upload_appends [OF w2 this, of t None] obtain w where w: "write_upload t data 0 ?f None \<sigma>2 = Some (Inr (Some ()), \<sigma>2\<lparr> os := w \<rparr>)"
      "writes_to w ?f ?i ([] @ data)" "frame {?f} {?i} (os \<sigma>2) w" "room w = room (os \<sigma>2) - length data"
    by auto
  have "server_up_load conf data 0 inet port \<sigma>0 = done_with (\<sigma>2\<lparr> os := w \<rparr>)"
    using assms(2) f opened w(1) by (subst server_up_load.simps) simp
  with uploading_write [OF u0 put(3) _ w(2-4)] put(4) show ?thesis by auto
qed

lemma up_load_next:
  assumes "uploading \<sigma>0 t p c \<sigma>" "upload_name conf inet port = Some t" "length data \<le> room (os \<sigma>)"
  shows "\<exists>\<sigma>'. server_up_load conf data (length c) inet port \<sigma> = done_with \<sigma>' \<and> uploading \<sigma>0 t p (c @ data) \<sigma>'"
proof -
  obtain slot f where s: "fst (fp_find t \<sigma>) = Some slot" "fp (fp_at \<sigma> slot) = Some f" "writes_to (os \<sigma>) f (next_ino (os \<sigma>0)) c"
    using assms(1) by (auto simp: uploading_def)
  obtain \<sigma>1 where f: "fp_find t \<sigma> = (Some slot, \<sigma>1)" using s(1) by (metis prod.collapse)
  note fr = fp_find_frame [OF f]
  have u1: "uploading \<sigma>0 t p c \<sigma>1"
    using assms(1) fr fp_find_wf [OF _ f] by (auto simp: uploading_def)
  have "writes_to (os \<sigma>1) f (next_ino (os \<sigma>0)) c" "length data \<le> room (os \<sigma>1)" using s(3) assms(3) fr(1) by simp_all
  from write_upload_appends [OF this, of t "Some slot"] obtain w where w:
      "write_upload t data (length c) f (Some slot) \<sigma>1 = Some (Inr (Some ()), \<sigma>1\<lparr> os := w \<rparr>)"
      "writes_to w f (next_ino (os \<sigma>0)) (c @ data)" "frame {f} {next_ino (os \<sigma>0)} (os \<sigma>1) w" "room w = room (os \<sigma>1) - length data"
    by blast
  have "server_up_load conf data (length c) inet port \<sigma> = done_with (\<sigma>1\<lparr> os := w \<rparr>)"
    using assms(2) f w(1) fr(2) s(2) by (subst server_up_load.simps) simp
  with uploading_write [OF u1 _ _ w(2-4), of slot] s(1,2) fr(2,3) show ?thesis by auto
qed

text \<open>A target in a writable directory that is no directory, symbolic link or device.\<close>

definition can_install :: "fsrv \<Rightarrow> path \<Rightarrow> string \<Rightarrow> path \<Rightarrow> bool" where
  "can_install \<sigma> p s q \<longleftrightarrow> s \<noteq> ''.'' \<and> q \<noteq> p \<and> direct (os \<sigma>) s q \<and> plain_at (os \<sigma>) q \<and> dir_writable (os \<sigma>) (butlast q)"

text \<open>The content of the file a path leads to.\<close>

definition file_at :: "world \<Rightarrow> path \<Rightarrow> char list option" where
  "file_at w p = do { i \<leftarrow> node w p; (case kind i of Regular c \<Rightarrow> Some c | _ \<Rightarrow> None) }"

lemma fexist_direct: "direct w s p \<Longrightarrow> node w p = None \<Longrightarrow> \<not> fexist w s"
  using resolve_direct [of w s p] by (simp add: plain_at_def fexist_def stat_def)

lemma keeps_plain_at:
  assumes "keeps {} w w'" "plain_at w p" "lookup w' p = lookup w p" "ids_ok w"
  shows "plain_at w' p"
  using assms ids_ok_lookup [OF assms(4)] by (auto simp: plain_at_def node_def keeps_def)

lemma utime_file_at: "file_at (attempt (\<lambda>w. utime w s tm) w) p = file_at w p"
  by (auto simp: attempt_def utime_def file_at_def node_def lookup_def set_inode_def split: option.splits Option.bind_splits)

lemma keeps_writable: "keeps J w w' \<Longrightarrow> dir_writable w p \<Longrightarrow> dir_writable w' p"
  by (simp add: keeps_def)

lemma umask_simps [simp]:
  "lookup (umask w m) = lookup w" "inodes (umask w m) = inodes w" "room (umask w m) = room w" "next_ino (umask w m) = next_ino w"
  "node (umask w m) p = node w p"
  by (auto simp: umask_def lookup_def node_def fun_eq_iff)

lemma touch_dirinfo_os [simp]: "os (touch_dirinfo di \<sigma>) = os \<sigma>"
  by (simp add: touch_dirinfo_def dirstat_set_def)

text \<open>Removing the old target, copying, and removing the temporary file.\<close>

lemma install_copies:
  fixes m1 :: nat
  assumes "keeps {} w0 w" "ids_ok w0" "ids_ok w" "lookup w = (lookup w0)(p \<mapsto> i)" "kind (inodes w i) = Regular c" "may_read (inodes w i)"
    and "direct w0 t p" "dir_writable w0 (butlast p)"
    and "q \<noteq> p" "direct w0 s q" "plain_at w0 q" "dir_writable w0 (butlast q)" "length c \<le> room w"
  defines "w1 \<equiv> umask (unlink_try s w) m1"
  shows "\<exists>w2. copy_file t s w1 = Some (Inr (), w2) \<and> file_at (umask (unlink_try t w2) m2) q = Some c \<and>
    lookup (umask (unlink_try t w2) m2) p = None"
proof -
  note dq = keeps_direct [OF assms(1,10)] keeps_writable [OF assms(1,12)]
  have pq: "plain_at w q" by (rule keeps_plain_at [OF assms(1,11) _ assms(2)]) (simp add: assms(4,9))
  note u = unlink_try_direct [OF dq(1) pq dq(2)]
  have k1: "keeps {} w w1" unfolding w1_def by (rule keeps_trans [OF u(1) keeps_umask])
  have ids1: "ids_ok w1" using k1 assms(3) by (simp add: keeps_def)
  note k01 = keeps_trans [OF assms(1) k1]
  have l1: "lookup w1 = (lookup w)(q := None)" by (simp add: w1_def u)
  have p1: "lookup w1 p = Some i" using l1 assms(4,9) by auto
  have i1: "kind (inodes w1 i) = Regular c" "may_read (inodes w1 i)" using assms(5,6) by (simp_all add: w1_def u may_read_def)
  note d1 = keeps_direct [OF k01 assms(7)] keeps_direct [OF k01 assms(10)] keeps_writable [OF k01 assms(12)] keeps_writable [OF k01 assms(8)]
  have "lookup w1 q = None" "length c \<le> room w1" using l1 assms(13) by (simp_all add: w1_def u)
  from copy_file_copies [OF d1(1) p1 i1 d1(2) this(1) d1(3) ids1 this(2)]
  obtain w2 where c: "copy_file t s w1 = Some (Inr (), w2)" "lookup w2 = (lookup w1)(q \<mapsto> next_ino w1)"
      "kind (inodes w2 (next_ino w1)) = Regular c" "keeps {} w1 w2"
    by blast
  note d2 = keeps_direct [OF c(4) d1(1)] keeps_writable [OF c(4) d1(4)]
  have "plain_at w1 p" using p1 i1(1) by (simp add: plain_at_def node_def)
  then have p2: "plain_at w2 p" by (rule keeps_plain_at [OF c(4) _ _ ids1]) (use c(2) assms(9) in auto)
  note v = unlink_try_direct [OF d2(1) p2 d2(2)]
  have "file_at (umask (unlink_try t w2) m2) q = Some c"
    using c(2,3) assms(9) by (auto simp: file_at_def node_def v)
  moreover have "lookup (umask (unlink_try t w2) m2) p = None" by (simp add: v)
  ultimately show ?thesis using c(1) by blast
qed

lemma install_known:
  assumes "uploading \<sigma>0 t p c \<sigma>" "upload_name conf inet port = Some t" "can_upload t p \<sigma>0" "can_install \<sigma>0 p (fullp pp) q"
    and "node (os \<sigma>0) q = None \<or> flag (protection (dirstat_at \<sigma>0 di)) DIR_DEL \<or> first_char acc = CHR ''O''"
    and "2 * length c \<le> room (os \<sigma>0)"
  shows "\<exists>\<sigma>'. server_install conf pp inet port acc di s2 \<sigma> = Some (Inr (), \<sigma>') \<and> file_at (os \<sigma>') q = Some c"
proof -
  let ?i = "next_ino (os \<sigma>0)" and ?s = "fullp pp"
  have up: "can_install \<sigma>0 p ?s q" "ids_ok (os \<sigma>0)" "direct (os \<sigma>0) t p" "dir_writable (os \<sigma>0) (butlast p)"
    using assms(3,4) by (auto simp: can_upload_def)
  note ci = up(1) [unfolded can_install_def]
  obtain slot f where s: "fst (fp_find t \<sigma>) = Some slot" "fp (fp_at \<sigma> slot) = Some f" "writes_to (os \<sigma>) f ?i c"
    using assms(1) by (auto simp: uploading_def)
  obtain \<sigma>1 where f: "fp_find t \<sigma> = (Some slot, \<sigma>1)" using s(1) by (metis prod.collapse)
  note fr = fp_find_frame [OF f]
  have wf1: "server_wf \<sigma>1" using assms(1) fp_find_wf [OF _ f] by (simp add: uploading_def)
  have "fst (fp_find t \<sigma>1) = Some slot" "fp (fp_at \<sigma>1 slot) = Some f" "stream (os \<sigma>1) f \<noteq> None"
    using fr s by (simp_all add: writes_to_def)
  from fp_delete_open [OF wf1 this] obtain \<sigma>2 where d: "fp_delete (Some slot) \<sigma>1 = Some \<sigma>2" "same_disk (os \<sigma>1) (os \<sigma>2)"
      "keeps {} (os \<sigma>1) (os \<sigma>2)" "dirstatcache \<sigma>2 = dirstatcache \<sigma>1"
    by blast
  note sd = same_disk_simps [OF d(2)]
  have u: "keeps {} (os \<sigma>0) (os \<sigma>2)" "ids_ok (os \<sigma>2)" "lookup (os \<sigma>2) = (lookup (os \<sigma>0))(p \<mapsto> ?i)"
      "room (os \<sigma>2) = room (os \<sigma>0) - length c" "mode (inodes (os \<sigma>2) ?i) = 384" "forget (dirstatcache \<sigma>2) = forget (dirstatcache \<sigma>0)"
    using assms(1) keeps_trans [OF _ d(3)] d(3,4) sd fr(1,4) by (auto simp: uploading_def keeps_def)
  have k: "kind (inodes (os \<sigma>2) ?i) = Regular c" "may_read (inodes (os \<sigma>2) ?i)"
    using s(3) sd fr(1) u(5) by (simp_all add: writes_to_def may_read_def)
  have room: "length c \<le> room (os \<sigma>2)" using assms(6) u(4) by simp
  obtain w2 where w: "copy_file t ?s (umask (unlink_try ?s (os \<sigma>2)) (upload_umask conf)) = Some (Inr (), w2)"
      "file_at (umask (unlink_try t w2) (system_umask conf)) q = Some c"
    using install_copies [OF u(1) up(2) u(2,3) k up(3,4) _ _ _ _ room] ci by blast
  have "direct (os \<sigma>2) ?s q" using keeps_direct [OF u(1)] ci by blast
  moreover have "node (os \<sigma>2) q = None" if "node (os \<sigma>0) q = None" using that u(3) ci by (simp add: node_def)
  moreover have "dirstat_at \<sigma>2 di = dirstat_at \<sigma>0 di" using u(6) forget_simps(2) by (metis dirstat_at_def)
  ultimately have may: "\<not> (fexist (os \<sigma>2) ?s \<and> \<not> flag (protection (dirstat_at \<sigma>2 di)) DIR_DEL \<and> first_char acc \<noteq> CHR ''O'')"
    using assms(5) fexist_direct by metis
  show ?thesis
    using assms(2) f d(1) ci may w by (simp add: server_install_def Let_def utime_file_at) blast
qed

subsection \<open>The conversation\<close>

lemma uploading_same: "same_records \<sigma> \<sigma>1 \<Longrightarrow> os \<sigma>1 = os \<sigma> \<Longrightarrow> server_wf \<sigma>1 \<Longrightarrow> uploading \<sigma>0 t p c \<sigma> \<Longrightarrow> uploading \<sigma>0 t p c \<sigma>1"
  unfolding uploading_def same_records_def fp_find_fst fp_at_def by (metis forget_simps(1,2))

text \<open>What the dispatcher gets of a request.\<close>

definition as_sent :: "HTAB \<Rightarrow> u16 \<Rightarrow> request_args \<Rightarrow> request \<Rightarrow> UBUF \<Rightarrow> bool" where
  "as_sent hp port ra rq ub \<longleftrightarrow> \<not> rq_old rq \<and> rq_pos rq = unat (ucast (ra_pos ra) :: u32) \<and> rq_inet rq = inet_num hp \<and> rq_port rq = port \<and>
     rq_l1 rq = length (ra_data1 ra) \<and> rq_l2 rq = length (ra_data2 ra) \<and> cmd ub = ra_cmd ra \<and>
     take (length (ra_data1 ra) + length (ra_data2 ra)) (buf ub) = ra_data1 ra @ ra_data2 ra"

lemma conversation_request:
  assumes "length (ra_data1 ra) + length (ra_data2 ra) \<le> UBUF_MAXSPACE"
  shows "\<exists>rq ub. as_sent hp port ra rq ub \<and>
    (ra_cmd ra = CC_UP_LOAD \<longrightarrow> (\<forall>\<sigma>. conversation conf dns version old hp port ra \<sigma> = answered old (cmd_up_load conf rq ub \<sigma>))) \<and>
    (ra_cmd ra = CC_INSTALL \<longrightarrow> (\<forall>\<sigma>. conversation conf dns version old hp port ra \<sigma> = answered old (cmd_install conf dns rq ub \<sigma>))) \<and>
    (ra_cmd ra = CC_GET_PRO \<longrightarrow> (\<forall>\<sigma>. conversation conf dns version old hp port ra \<sigma> = answered old (cmd_get_pro conf dns rq ub \<sigma>))) \<and>
    (ra_cmd ra = CC_GRAB_FILE \<longrightarrow> (\<forall>\<sigma>. conversation conf dns version old hp port ra \<sigma> = answered old (cmd_grab_file conf dns rq ub \<sigma>))) \<and>
    (ra_cmd ra = CC_RENAME \<longrightarrow> (\<forall>\<sigma>. conversation conf dns version old hp port ra \<sigma> = answered old (cmd_rename conf dns rq ub \<sigma>)))"
proof -
  define pk where "pk = packet_of ra (next_key hp) (0, 0)"
  define rb where "rb = recv_into old pk"
  have pk: "pk = request_packet (ra_cmd ra) (ucast (ra_pos ra)) (ra_data1 ra) (ra_data2 ra) (next_key hp) (0, 0)"
    by (simp add: pk_def packet_of_def)
  note r = request_arrives [OF assms pk, of old, folded rb_def]
  have l: "length pk - UBUF_HSIZE = length (ra_data1 ra) + length (ra_data2 ra)" using r by simp
  obtain k where k: "next_keys False 0 hp = k" "inet_num k = inet_num hp" by (simp add: next_keys_def Let_def)
  let ?rq = "\<lparr> rq_old = False, rq_pos = unat (BB_READ4 (bb_pos rb)), rq_l1 = length (ra_data1 ra),
      rq_l2 = length (ra_data2 ra), rq_inet = inet_num hp, rq_port = port \<rparr>" and ?ub = "rb\<lparr> bb_key := BB_WRITE2 (next_key k) \<rparr>"
  let ?run = "\<lambda>\<sigma>. server_process_packet conf dns version 0 0 (length pk) rb False hp port \<sigma>"
  have sent: "as_sent hp port ra ?rq ?ub" using r l by (simp add: as_sent_def)
  have gen: "conversation conf dns version old hp port ra \<sigma> = answered old (h \<sigma>)"
    if "?run \<sigma> = map_option (\<lambda>(a, ub', \<sigma>'). (a, ub', \<sigma>', k)) (h \<sigma>)" for h \<sigma>
    using that by (auto simp: conversation_def answered_def Let_def simp flip: pk_def rb_def split: option.split answer.split)
  note dispatch = server_process_packet_def Let_def
  have "conversation conf dns version old hp port ra \<sigma> = answered old (cmd_up_load conf ?rq ?ub \<sigma>)" if "ra_cmd ra = CC_UP_LOAD" for \<sigma>
    by (rule gen) (use r k that in \<open>simp add: dispatch\<close>)
  moreover have "conversation conf dns version old hp port ra \<sigma> = answered old (cmd_install conf dns ?rq ?ub \<sigma>)" if "ra_cmd ra = CC_INSTALL" for \<sigma>
    by (rule gen) (use r k that in \<open>simp add: dispatch\<close>)
  moreover have "conversation conf dns version old hp port ra \<sigma> = answered old (cmd_get_pro conf dns ?rq ?ub \<sigma>)" if "ra_cmd ra = CC_GET_PRO" for \<sigma>
    by (rule gen) (use r k that in \<open>simp add: dispatch\<close>)
  moreover have "conversation conf dns version old hp port ra \<sigma> = answered old (cmd_grab_file conf dns ?rq ?ub \<sigma>)" if "ra_cmd ra = CC_GRAB_FILE" for \<sigma>
    by (rule gen) (use r k that in \<open>simp add: dispatch\<close>)
  moreover have "conversation conf dns version old hp port ra \<sigma> = answered old (cmd_rename conf dns ?rq ?ub \<sigma>)" if "ra_cmd ra = CC_RENAME" for \<sigma>
    by (rule gen) (use r k that in \<open>simp add: dispatch\<close>)
  ultimately show ?thesis using sent by (intro exI [of _ ?rq] exI [of _ ?ub]) blast
qed

lemma answered_empty: "\<exists>ub'. answered old (reply 0 0 ub \<sigma>) = Some (ub', \<sigma>) \<and> cmd ub' = cmd ub"
  by (simp add: answered_def reply_def reply_packet_cmd)

lemma conversation_up_load:
  assumes "length data \<le> UBUF_MAXSPACE" "pos \<le> FOURGIGS" "\<not> read_only conf"
    and "server_up_load conf data pos (inet_num hp) port \<sigma> = done_with \<sigma>'"
  shows "\<exists>ub. conversation conf dns version old hp port (up_load_request pos data) \<sigma> = Some (ub, \<sigma>') \<and> cmd ub \<noteq> CC_ERR"
proof -
  let ?ra = "up_load_request pos data"
  have l: "length (ra_data1 ?ra) + length (ra_data2 ?ra) \<le> UBUF_MAXSPACE" using assms(1) by (simp add: up_load_request_def)
  obtain rq ub where rq: "as_sent hp port ?ra rq ub"
    and c: "conversation conf dns version old hp port ?ra \<sigma> = answered old (cmd_up_load conf rq ub \<sigma>)"
    using conversation_request [OF l, of hp port conf dns version old] by (auto simp: up_load_request_def)
  have "(ucast (of_nat pos :: u64) :: u32) = of_nat pos" using assms(2) by (simp add: unsigned_of_nat take_bit_nat_eq_self)
  then have "rq_pos rq = pos" "take (rq_l1 rq) (buf ub) = data" "cmd ub = CC_UP_LOAD"
    using rq assms(2) by (simp_all add: as_sent_def up_load_request_def unat_u32_of_nat)
  then have "cmd_up_load conf rq ub \<sigma> = reply 0 0 ub \<sigma>'"
    using assms(3,4) rq by (simp add: cmd_up_load_def do_op_def done_with_def as_sent_def)
  with answered_empty [of old ub \<sigma>'] c \<open>cmd ub = CC_UP_LOAD\<close> show ?thesis by auto
qed

subsection \<open>Installing\<close>

text \<open>The server lets the client with that address put the file with path \<open>pp\<close> in its place \<open>q\<close>: it has a
  record of the directory that is not too old and grants the right to add, and either there is no such file
  or it may be replaced.\<close>

definition grants_install :: "fsp_conf \<Rightarrow> u32 \<Rightarrow> PPATH \<Rightarrow> path \<Rightarrow> fsrv \<Rightarrow> bool" where
  "grants_install conf inet pp q \<sigma> \<longleftrightarrow>
     (\<exists>di. fst (dirstat_find (dir_name pp) \<sigma>) = Some di \<and> lastcheck (dirstat_at \<sigma> di) + stat_cache_timeout conf > cur_time \<sigma> \<and>
        (let pe = require_access_rights conf (dirstat_at \<sigma> di) DIR_ADD inet (passwd pp) in
           granted pe \<and> (node (os \<sigma>) q = None \<or> flag (protection (dirstat_at \<sigma> di)) DIR_DEL \<or> first_char pe = CHR ''O'')))"

lemma uploading_records:
  assumes "uploading \<sigma>0 t p c \<sigma>"
  shows "dirstat_at \<sigma> = dirstat_at \<sigma>0" "fst (dirstat_find k \<sigma>) = fst (dirstat_find k \<sigma>0)" "cur_time \<sigma> = cur_time \<sigma>0"
proof -
  have f: "forget (dirstatcache \<sigma>) = forget (dirstatcache \<sigma>0)" "cur_time \<sigma> = cur_time \<sigma>0" using assms by (auto simp: uploading_def)
  then show "dirstat_at \<sigma> = dirstat_at \<sigma>0" "fst (dirstat_find k \<sigma>) = fst (dirstat_find k \<sigma>0)" "cur_time \<sigma> = cur_time \<sigma>0"
    unfolding dirstat_at_def dirstat_find_fst fun_eq_iff by (metis forget_simps(1,2))+
qed

lemma conversation_install:
  assumes "uploading \<sigma>0 t tp c \<sigma>" "upload_name conf (inet_num hp) port = Some t" "can_upload t tp \<sigma>0"
    and "can_install \<sigma>0 tp (fullp (path_spec p)) q" "grants_install conf (inet_num hp) (path_spec p) q \<sigma>0"
    and "2 * length c \<le> room (os \<sigma>0)" "good_path p" "p \<noteq> []" "length p + 1 + length extra \<le> UBUF_MAXSPACE" "\<not> read_only conf"
  shows "\<exists>ub \<sigma>'. conversation conf dns version old hp port (path_request CC_INSTALL pos (SL # p) extra) \<sigma> = Some (ub, \<sigma>') \<and>
    cmd ub \<noteq> CC_ERR \<and> file_at (os \<sigma>') q = Some c"
proof -
  let ?ra = "path_request CC_INSTALL pos (SL # p) extra"
  have ra: "ra_data1 ?ra = p @ [NUL]" "ra_data2 ?ra = extra" "ra_cmd ?ra = CC_INSTALL" by (simp_all add: path_request_def)
  have l: "length (ra_data1 ?ra) + length (ra_data2 ?ra) \<le> UBUF_MAXSPACE" using assms(9) by (simp add: ra)
  obtain rq ub where rq: "as_sent hp port ?ra rq ub"
    and c: "conversation conf dns version old hp port ?ra \<sigma> = answered old (cmd_install conf dns rq ub \<sigma>)"
    using conversation_request [OF l, of hp port conf dns version old] by (auto simp: ra)
  have r: "rq_l1 rq = Suc (length p)" "rq_inet rq = inet_num hp" "rq_port rq = port" "\<not> rq_old rq" "cmd ub = CC_INSTALL"
    using rq by (simp_all add: as_sent_def ra)
  have "take (length p + 1 + length extra) (buf ub) = p @ NUL # extra" using rq by (simp add: as_sent_def ra)
  then have buf: "buf ub = p @ NUL # (extra @ drop (length p + 1 + length extra) (buf ub))"
    by (metis append_Cons append_assoc append_take_drop_id)
  obtain b' where b': "parse_path (buf ub) (Suc (length p)) = Inr (path_spec p, b')"
    using parse_request [OF assms(7)] buf by metis
  obtain di where di: "fst (dirstat_find (dir_name (path_spec p)) \<sigma>0) = Some di"
      "lastcheck (dirstat_at \<sigma>0 di) + stat_cache_timeout conf > cur_time \<sigma>0"
      "granted (require_access_rights conf (dirstat_at \<sigma>0 di) DIR_ADD (inet_num hp) (passwd (path_spec p)))"
      "node (os \<sigma>0) q = None \<or> flag (protection (dirstat_at \<sigma>0 di)) DIR_DEL \<or>
        first_char (require_access_rights conf (dirstat_at \<sigma>0 di) DIR_ADD (inet_num hp) (passwd (path_spec p))) = CHR ''O''"
    using assms(5) by (auto simp: grants_install_def Let_def)
  note rec = uploading_records [OF assms(1)]
  obtain \<sigma>1 where cd: "check_directory conf dns (dir_name (path_spec p)) \<sigma> = Some (Inr di, \<sigma>1)" "same_records \<sigma> \<sigma>1" "os \<sigma>1 = os \<sigma>"
      "server_wf \<sigma>1"
    using check_directory_known [of _ \<sigma> di conf dns] di(1,2) rec assms(1) unfolding uploading_def by metis
  then have u1: "uploading \<sigma>0 t tp c \<sigma>1" using uploading_same [OF cd(2-4)] assms(1) by blast
  let ?pe = "require_access_rights conf (dirstat_at \<sigma>1 di) DIR_ADD (inet_num hp) (passwd (path_spec p))"
  have pe: "?pe = require_access_rights conf (dirstat_at \<sigma>0 di) DIR_ADD (inet_num hp) (passwd (path_spec p))"
    using uploading_records(1) [OF u1] by simp
  obtain \<sigma>2 where i: "server_install conf (path_spec p) (inet_num hp) port ?pe di (take (rq_l2 rq) (drop (Suc (length p)) b')) \<sigma>1 =
      Some (Inr (), \<sigma>2)" "file_at (os \<sigma>2) q = Some c"
    using install_known [OF u1 assms(2-4)] di(4) assms(6) unfolding pe by blast
  have "cmd_install conf dns rq ub \<sigma> = reply 0 0 (ub\<lparr> buf := b' \<rparr>) \<sigma>2"
    using assms(8,10) r b' cd(1) di(3) i(1) pe
    by (simp add: cmd_install_def with_path_def validate_path_def directory_path_def check_access_def do_op_def granted_iff Let_def)
  with answered_empty [of old "ub\<lparr> buf := b' \<rparr>" \<sigma>2] c r(5) i(2) show ?thesis by auto
qed

subsection \<open>The whole upload\<close>

text \<open>A server that takes a file of up to \<open>limit\<close> octets with path \<open>p\<close>, and one that has got some of them.\<close>

definition receptive :: "fsp_conf \<Rightarrow> HTAB \<Rightarrow> u16 \<Rightarrow> string \<Rightarrow> path \<Rightarrow> nat \<Rightarrow> fsrv \<Rightarrow> bool" where
  "receptive conf hp port p q limit \<sigma> \<longleftrightarrow> \<not> read_only conf \<and> good_path p \<and> p \<noteq> [] \<and> length p + 5 \<le> UBUF_MAXSPACE \<and>
     2 * limit \<le> room (os \<sigma>) \<and> grants_install conf (inet_num hp) (path_spec p) q \<sigma> \<and>
     (\<exists>t tp. upload_name conf (inet_num hp) port = Some t \<and> can_upload t tp \<sigma> \<and> can_install \<sigma> tp (fullp (path_spec p)) q)"

definition has_got :: "fsp_conf \<Rightarrow> HTAB \<Rightarrow> u16 \<Rightarrow> string \<Rightarrow> path \<Rightarrow> nat \<Rightarrow> char list \<Rightarrow> fsrv \<Rightarrow> bool" where
  "has_got conf hp port p q limit c \<sigma> \<longleftrightarrow> length c \<le> limit \<and>
     (\<exists>\<sigma>0 t tp. receptive conf hp port p q limit \<sigma>0 \<and> upload_name conf (inet_num hp) port = Some t \<and>
        can_upload t tp \<sigma>0 \<and> can_install \<sigma>0 tp (fullp (path_spec p)) q \<and> uploading \<sigma>0 t tp c \<sigma>)"

interpretation remote_place: file_sink "conversation conf dns version old hp port" "SL # p" stamp limit
    "receptive conf hp port p q limit" "has_got conf hp port p q limit" "\<lambda>c \<sigma>. file_at (os \<sigma>) q = Some c"
  for conf dns version old hp port p stamp limit q
proof unfold_locales
  let ?ask = "conversation conf dns version old hp port"
  fix \<sigma> and d :: "char list"
  assume r: "receptive conf hp port p q limit \<sigma>" and d: "length d \<le> limit" "length d \<le> UBUF_MAXSPACE"
  obtain t tp where t: "upload_name conf (inet_num hp) port = Some t" "can_upload t tp \<sigma>" "can_install \<sigma> tp (fullp (path_spec p)) q"
    using r by (auto simp: receptive_def)
  have "length d \<le> room (os \<sigma>)" "\<not> read_only conf" using r d(1) by (auto simp: receptive_def)
  from up_load_first [OF t(2,1) this(1)] obtain \<sigma>' where
    s: "server_up_load conf d 0 (inet_num hp) port \<sigma> = done_with \<sigma>'" "uploading \<sigma> t tp d \<sigma>'" by blast
  have "has_got conf hp port p q limit d \<sigma>'" using r t s(2) d(1) unfolding has_got_def by blast
  with conversation_up_load [OF d(2) _ \<open>\<not> read_only conf\<close> s(1)]
  show "\<exists>ub \<sigma>'. ?ask (up_load_request 0 d) \<sigma> = Some (ub, \<sigma>') \<and> cmd ub \<noteq> CC_ERR \<and> has_got conf hp port p q limit d \<sigma>'"
    by fastforce
next
  let ?ask = "conversation conf dns version old hp port"
  fix c \<sigma> and d :: "char list"
  assume h: "has_got conf hp port p q limit c \<sigma>" and d: "length c + length d \<le> limit" "length d \<le> UBUF_MAXSPACE" "length c \<le> FOURGIGS"
  obtain \<sigma>0 t tp where t: "receptive conf hp port p q limit \<sigma>0" "upload_name conf (inet_num hp) port = Some t"
      "can_upload t tp \<sigma>0" "can_install \<sigma>0 tp (fullp (path_spec p)) q" "uploading \<sigma>0 t tp c \<sigma>"
    using h by (auto simp: has_got_def)
  have "length d \<le> room (os \<sigma>)" "\<not> read_only conf" using t(1,5) d(1) by (auto simp: receptive_def uploading_def)
  from up_load_next [OF t(5,2) this(1)] obtain \<sigma>' where
    s: "server_up_load conf d (length c) (inet_num hp) port \<sigma> = done_with \<sigma>'" "uploading \<sigma>0 t tp (c @ d) \<sigma>'" by blast
  have "has_got conf hp port p q limit (c @ d) \<sigma>'" using t s(2) d(1) unfolding has_got_def by auto
  with conversation_up_load [OF d(2,3) \<open>\<not> read_only conf\<close> s(1)]
  show "\<exists>ub \<sigma>'. ?ask (up_load_request (length c) d) \<sigma> = Some (ub, \<sigma>') \<and> cmd ub \<noteq> CC_ERR \<and> has_got conf hp port p q limit (c @ d) \<sigma>'"
    by fastforce
next
  let ?ask = "conversation conf dns version old hp port"
  fix c \<sigma>
  assume h: "has_got conf hp port p q limit c \<sigma>"
  obtain \<sigma>0 t tp where t: "receptive conf hp port p q limit \<sigma>0" "upload_name conf (inet_num hp) port = Some t"
      "can_upload t tp \<sigma>0" "can_install \<sigma>0 tp (fullp (path_spec p)) q" "uploading \<sigma>0 t tp c \<sigma>" "length c \<le> limit"
    using h by (auto simp: has_got_def)
  have r: "grants_install conf (inet_num hp) (path_spec p) q \<sigma>0" "2 * length c \<le> room (os \<sigma>0)" "good_path p" "p \<noteq> []" "\<not> read_only conf"
    "length p + 5 \<le> UBUF_MAXSPACE"
    using t(1,6) by (auto simp: receptive_def)
  let ?x = "if stamp = 0 then [] else b4_chars (BB_WRITE4 (of_int stamp))"
  have "length p + 1 + length ?x \<le> UBUF_MAXSPACE" using r(6) by simp
  from conversation_install [OF t(5,2-4) r(1-4) this r(5)]
  show "\<exists>ub \<sigma>'. ?ask (install_request (SL # p) stamp) \<sigma> = Some (ub, \<sigma>') \<and> cmd ub \<noteq> CC_ERR \<and> file_at (os \<sigma>') q = Some c"
    unfolding install_request_def by blast
qed

text \<open>C11: an upload puts the file in its place: a client uploads a file of at most 4 GB to a server that holds
  no earlier upload of the same client and address, has twice the space of the file, a temporary directory
  and a target directory it can write to, and a fresh record of the target directory that grants the client
  the right to add the file and to replace an old one if there is one. If nothing is lost and the server's
  answer about the rights lets the client go on, then \<open>util_upload\<close> returns success and the target holds
  exactly the octets of the client's file, whatever the packet size of the client.\<close>

theorem uploaded_file_is_installed:
  assumes "abs_path se path = Some (SL # p)"
    and "conversation conf dns version old hp port (path_request CC_GET_PRO 0 (fst (util_split_path (SL # p))) []) \<sigma> = Some (ub, \<sigma>1)"
    and "cmd ub \<noteq> CC_ERR" "upload_rights ub = (True, True)"
    and "receptive conf hp port p q (length content) \<sigma>1"
    and "reads_from w f i content 0" "length content \<le> FOURGIGS"
    and "client_buf_len se \<noteq> 0" "unat (client_buf_len se) \<le> UBUF_MAXSPACE"
  shows "\<exists>w' \<sigma>'. util_upload (conversation conf dns version old hp port) se path f stamp w \<sigma> = Some (0, se, w', \<sigma>') \<and>
    file_at (os \<sigma>') q = Some content"
proof -
  obtain w' \<sigma>' where "upload_loop (conversation conf dns version old hp port) se (SL # p) stamp f True 0 w \<sigma>1 = Some (0, w', \<sigma>')"
      "file_at (os \<sigma>') q = Some content"
    using remote_place.upload_loop_delivers [OF assms(5,6) order_refl assms(7-9)] by blast
  then show ?thesis using assms(1-4) by (simp add: util_upload_def)
qed

subsection \<open>Asking for the rights\<close>

lemma conversation_get_pro:
  assumes "good_path d" "length d + 1 \<le> UBUF_MAXSPACE" "server_wf \<sigma>"
    and "fst (dirstat_find (dir_name (directory_path True (path_spec d))) \<sigma>) = Some di"
    and "lastcheck (dirstat_at \<sigma> di) + stat_cache_timeout conf > cur_time \<sigma>"
    and acc: "acc = require_access_rights conf (dirstat_at \<sigma> di) 0 (inet_num hp) (passwd (path_spec d))"
    and "granted acc" "server_get_pro (dirstat_at \<sigma> di) acc = (bytes, n)" "length bytes \<le> UBUF_MAXSPACE"
  shows "\<exists>ub \<sigma>'. conversation conf dns version old hp port (path_request CC_GET_PRO 0 (SL # d) []) \<sigma> = Some (ub, \<sigma>') \<and>
    cmd ub = CC_GET_PRO \<and> BB_READ4 (bb_pos ub) = 1 \<and> unat (BB_READ2 (bb_len ub)) = n \<and> buf ub ! n = bytes ! n \<and>
    same_records \<sigma> \<sigma>' \<and> os \<sigma>' = os \<sigma> \<and> server_wf \<sigma>'"
proof -
  let ?ra = "path_request CC_GET_PRO 0 (SL # d) []"
  have ra: "ra_data1 ?ra = d @ [NUL]" "ra_data2 ?ra = []" "ra_cmd ?ra = CC_GET_PRO" by (simp_all add: path_request_def)
  have l: "length (ra_data1 ?ra) + length (ra_data2 ?ra) \<le> UBUF_MAXSPACE" using assms(2) by (simp add: ra)
  obtain rq ub where rq: "as_sent hp port ?ra rq ub"
    and c: "conversation conf dns version old hp port ?ra \<sigma> = answered old (cmd_get_pro conf dns rq ub \<sigma>)"
    using conversation_request [OF l, of hp port conf dns version old] by (auto simp: ra)
  have r: "rq_l1 rq = Suc (length d)" "rq_inet rq = inet_num hp" "cmd ub = CC_GET_PRO"
    using rq by (simp_all add: as_sent_def ra)
  have "take (length d + 1) (buf ub) = d @ [NUL]" using rq by (simp add: as_sent_def ra)
  then have buf: "buf ub = d @ NUL # drop (length d + 1) (buf ub)"
    by (metis append_Cons append_Nil append_assoc append_take_drop_id)
  obtain b' where b': "parse_path (buf ub) (Suc (length d)) = Inr (path_spec d, b')"
    using parse_request [OF assms(1)] buf by metis
  obtain \<sigma>1 where cd: "check_directory conf dns (dir_name (directory_path True (path_spec d))) \<sigma> = Some (Inr di, \<sigma>1)"
      "same_records \<sigma> \<sigma>1" "os \<sigma>1 = os \<sigma>" "server_wf \<sigma>1"
    using check_directory_known [OF assms(4,5)] assms(3) by metis
  have at: "dirstat_at \<sigma>1 = dirstat_at \<sigma>" by (rule same_records_simps(1) [OF cd(2)])
  have pw: "passwd (directory_path True (path_spec d)) = passwd (path_spec d)" by (simp add: directory_path_def)
  let ?ub = "(put_buf (ub\<lparr> buf := b' \<rparr>) 0 bytes)\<lparr> bb_pos := BB_WRITE4 (of_nat PRO_BYTES) \<rparr>"
  have run: "cmd_get_pro conf dns rq ub \<sigma> = reply n PRO_BYTES ?ub \<sigma>1"
    using r b' cd(1) at pw assms(7-9)
    by (simp add: cmd_get_pro_def with_path_def validate_path_def check_access_def granted_iff send_protection_def Let_def acc)
  have n: "length bytes = Suc n" using assms(8) by (auto simp: server_get_pro_def Let_def)
  have dl: "n + PRO_BYTES \<le> length (buf ?ub)" "n + PRO_BYTES \<le> UBUF_MAXSPACE"
    using n assms(9) by (simp_all add: put_buf_def memcpy_def)
  note a = reply_arrives [OF dl, of old]
  let ?rb = "recv_into old (reply_packet ?ub n PRO_BYTES)"
  have "take (Suc n) (buf ?rb) = take (Suc n) (buf ?ub)" using a by simp
  then have "buf ?rb ! n = buf ?ub ! n" by (metis lessI nth_take)
  then have "buf ?rb ! n = bytes ! n" using n by (simp add: put_buf_def memcpy_def nth_append)
  then show ?thesis using c run a r(3) cd(2-4) by (simp add: answered_def reply_def put_buf_def)
qed

lemma receptive_same:
  assumes "receptive conf hp port p q limit \<sigma>" "same_records \<sigma> \<sigma>'" "os \<sigma>' = os \<sigma>" "server_wf \<sigma>'"
  shows "receptive conf hp port p q limit \<sigma>'"
proof -
  note s = same_records_simps [OF assms(2)]
  have f: "forget (fpcache \<sigma>') = forget (fpcache \<sigma>)" using assms(2) by (simp add: same_records_def)
  have "fst (fp_find k \<sigma>') = fst (fp_find k \<sigma>)" for k unfolding fp_find_fst by (metis f forget_simps(1))
  moreover have "e_head (forget c) = e_head c" for c :: "FPCACHE file_cache" by (simp add: forget_def)
  then have "e_head (fpcache \<sigma>') = e_head (fpcache \<sigma>)" by (metis f)
  ultimately show ?thesis
    using assms(1,3,4) s by (auto simp: receptive_def can_upload_def can_install_def grants_install_def cached_streams_open_def)
qed

text \<open>The site of theory DemoSite with a fresh record of its directory, to which files may be added.\<close>

definition open_record :: DIRINFO where
  "open_record = zero_DIRINFO\<lparr> realname := ''/f'', protection := DIR_LIST OR DIR_GET OR DIR_ADD OR DIR_DEL, lastcheck := 100 \<rparr>"

definition open_server :: fsrv where
  "open_server = snd (dirstat_put ''.'' open_record site_server)"

text \<open>A local disk with a file open for reading.\<close>

definition local_source :: world where
  "local_source = local_disk\<lparr> inodes := (\<lambda>n. \<lparr> kind = Regular ''hi'', mtime = 6, mode = 420 \<rparr>),
     streams := [(1, \<lparr> s_ino = 1, s_pos = 0, s_write = False, s_err = False \<rparr>)] \<rparr>"

lemma open_server_wf: "server_wf open_server \<and> os open_server = demo_site"
proof -
  have i: "init_caches site_conf demo_site \<noteq> None" by code_simp
  then have "server_wf site_server \<and> os site_server = demo_site" using init_caches_wf by (auto simp: site_server_def)
  then show ?thesis using dirstat_put_wf [of site_server] by (simp add: open_server_def prod_eq_iff)
qed

lemma open_server_receptive: "receptive site_conf site_client 9 ''b.txt'' [''f'', ''b.txt''] 2 open_server"
proof -
  let ?t = "''/t/.T000000050009''" and ?tp = "[''t'', ''.T000000050009'']" and ?q = "[''f'', ''b.txt'']"
  have hp: "inet_num site_client = 5" by (simp add: site_client_def hzero_def)
  have t: "upload_name site_conf 5 9 = Some ?t" by code_simp
  have o': "os open_server = demo_site" using open_server_wf by simp
  have ids: "ids_ok demo_site" by (auto simp: ids_ok_def demo_site_def stream_def)
  have pl: "plain_at demo_site ?tp" "plain_at demo_site ?q" by (auto simp: plain_at_def node_def lookup_def demo_site_def)
  have dw: "dir_writable demo_site [''t'']" "dir_writable demo_site [''f'']" "is_dir demo_site [''t'']" "node demo_site ?q = None" by code_simp+
  have "direct demo_site ?t ?tp" unfolding direct_def
    by (intro conjI exI [of _ "[]"] exI [of _ ?tp]) (use dw(3) in \<open>auto simp: less_Suc_eq numeral_eq_Suc\<close>)
  moreover have "direct demo_site ''b.txt'' ?q" unfolding direct_def
    by (intro conjI exI [of _ "[''f'']"] exI [of _ "[''b.txt'']"]) (auto simp: demo_site_def)
  moreover have "map fp (e_head (fpcache open_server)) = [None, None]" by code_simp
  then have "cached_streams_open open_server" by (auto simp: cached_streams_open_def)
  moreover have "fst (fp_find ?t open_server) = None" by code_simp
  moreover have "path_spec ''b.txt'' = \<lparr> fullp = ''b.txt'', f_ptr = ''b.txt'', f_len = 5, d_ptr = ''.'', d_len = 1, passwd = None \<rparr>"
    by code_simp
  moreover have "fst (dirstat_find ''.'' open_server) = Some 0" by code_simp
  moreover have "dirstat_at open_server 0 = open_record" by code_simp
  moreover have "cur_time open_server = 100" "granted (require_access_rights site_conf open_record DIR_ADD 5 None)" "good_path ''b.txt''"
    by code_simp+
  ultimately show ?thesis
    using hp t o' ids pl dw open_server_wf
    by (auto simp: receptive_def grants_install_def can_upload_def can_install_def dir_name_def Let_def site_conf_def default_conf_def
        open_record_def zero_DIRINFO_def demo_site_def)
qed

theorem uploaded_file_is_installed_witness:
  "\<exists>w' \<sigma>'. util_upload (conversation site_conf (\<lambda>_. None) ''2.8'' demo_old site_client 9) demo_session ''b.txt'' 1 0 local_source open_server =
     Some (0, demo_session, w', \<sigma>') \<and> file_at (os \<sigma>') [''f'', ''b.txt''] = Some ''hi''"
proof -
  let ?ask = "conversation site_conf (\<lambda>_. None) ''2.8'' demo_old site_client 9"
  have hp: "inet_num site_client = 5" by (simp add: site_client_def hzero_def)
  have d: "dir_name (directory_path True (path_spec [])) = ''.''" "passwd (path_spec []) = None" "good_path []"
    "granted (require_access_rights site_conf open_record 0 5 None)"
    "server_get_pro open_record (require_access_rights site_conf open_record 0 5 None) = (''F'', 0)"
    "fst (dirstat_find ''.'' open_server) = Some 0" "dirstat_at open_server 0 = open_record" "cur_time open_server = 100"
    by code_simp+
  have fresh: "lastcheck open_record + stat_cache_timeout site_conf > 100"
    by (simp add: open_record_def site_conf_def default_conf_def)
  from conversation_get_pro [of "[]" open_server 0 site_conf _ site_client "''F''" 0 "\<lambda>_. None" "''2.8''" demo_old 9] d hp open_server_wf fresh
  obtain ub \<sigma>1 where g: "?ask (path_request CC_GET_PRO 0 (SL # []) []) open_server = Some (ub, \<sigma>1)" "cmd ub = CC_GET_PRO"
      "BB_READ4 (bb_pos ub) = 1" "unat (BB_READ2 (bb_len ub)) = 0" "buf ub ! 0 = CHR ''F''"
      "same_records open_server \<sigma>1" "os \<sigma>1 = os open_server" "server_wf \<sigma>1"
    by auto
  have "flag (ucast (char_byte (CHR ''F''))) DIR_ADD" "flag (ucast (char_byte (CHR ''F''))) DIR_DEL"
    "\<not> flag (ucast (char_byte (CHR ''F''))) DIR_OWNER" by code_simp+
  then have r: "upload_rights ub = (True, True)" using g(3-5) by (simp add: upload_rights_def)
  have rec: "receptive site_conf site_client 9 ''b.txt'' [''f'', ''b.txt''] (length ''hi'') \<sigma>1"
    using receptive_same [OF open_server_receptive g(6-8)] by (simp add: numeral_2_eq_2)
  have loc: "reads_from local_source 1 1 ''hi'' 0" by (simp add: reads_from_def local_source_def stream_def)
  have p: "abs_path demo_session ''b.txt'' = Some (SL # ''b.txt'')" "fst (util_split_path (SL # ''b.txt'')) = SL # []"
    "client_buf_len demo_session \<noteq> 0" "unat (client_buf_len demo_session) \<le> UBUF_MAXSPACE" by code_simp+
  have e: "cmd ub \<noteq> CC_ERR" using g(2) by simp
  from uploaded_file_is_installed [OF p(1) g(1) [folded p(2)] e r rec loc _ p(3,4)] show ?thesis by simp
qed

end
