(* ===== verification/Programs.thy ===== *)
theory Programs
  imports FileTransfer
begin

text \<open>
  The commands of the client program, \<^verbatim>\<open>clients/fspcmd_*.c\<close>: getting, putting, moving, protecting and
  removing files, and the disk usage and version reports.

  A command works on the front end (the user's disk and what it printed on standard output), the session
  of theory ClientTree and the state behind \<open>ask\<close>. Standard error is left out. The pattern matcher
  \<open>bsdglob\<close> is the parameter \<open>glob\<close>; theory Glob has its model. \<open>Some None\<close> is its null pointer (no match). \<open>exit\<close> and the call of \<open>client_done\<close> at the end
  of a command, the change to the local directory and the handlers of signals are left out. \<open>None\<close> is
  undefined behaviour or a conversation that does not come back.
\<close>

record front =
  fr_world :: world
  fr_out :: "string list"

type_synonym 's program = "(front, 's) everything \<Rightarrow> (front, 's) everything option"
type_synonym ('c, 's) globber = "string \<Rightarrow> ('c, 's) everything \<Rightarrow> (string list option \<times> ('c, 's) everything) option"

definition put_line :: "string \<Rightarrow> (front, 's) everything \<Rightarrow> (front, 's) everything" where
  "put_line l st = ((fst st)\<lparr> fr_out := fr_out (fst st) @ [l] \<rparr>, snd st)"

definition client_ask :: "'s asking \<Rightarrow> request_args \<Rightarrow> (front, 's) everything \<Rightarrow> (UBUF \<times> (front, 's) everything) option" where
  "client_ask ask ra st = (case st of (fr, se, s) \<Rightarrow> do { (ub, s1) \<leftarrow> ask ra s; Some (ub, (fr, se, s1)) })"

fun for_each :: "('a \<Rightarrow> 'st \<Rightarrow> 'st option) \<Rightarrow> 'a list \<Rightarrow> 'st \<Rightarrow> 'st option" where
  "for_each f [] st = Some st"
| "for_each f (x # xs) st = do { st1 \<leftarrow> f x st; for_each f xs st1 }"

text \<open>The names a pattern stands for; a pattern without a match stands for itself.\<close>

definition glob_or_self ::
  "('c, 's) globber \<Rightarrow> (string \<Rightarrow> ('c, 's) everything \<Rightarrow> ('c, 's) everything option) \<Rightarrow> string
    \<Rightarrow> ('c, 's) everything \<Rightarrow> ('c, 's) everything option" where
  "glob_or_self glob f arg st = do {
     (r, st1) \<leftarrow> glob arg st;
     for_each f (case r of None \<Rightarrow> [arg] | Some names \<Rightarrow> names) st1 }"

abbreviation (input) TAB :: char where "TAB \<equiv> CHR 0x09"

text \<open>A request with the absolute path of \<open>p\<close>.\<close>

definition ask_path :: "'s asking \<Rightarrow> byte \<Rightarrow> nat \<Rightarrow> string \<Rightarrow> char list \<Rightarrow> (front, 's) everything \<Rightarrow> (UBUF \<times> (front, 's) everything) option" where
  "ask_path ask c pos p extra st = do {
     op \<leftarrow> abs_path (fst (snd st)) p;
     client_ask ask (path_request c pos op extra) st }"

text \<open>The names a command works on: its arguments, or else the lines \<open>typed\<close> that \<open>getsl\<close> reads, up to an empty
  one. The prompts are left out.\<close>

definition names_given :: "string list \<Rightarrow> string list \<Rightarrow> string list" where
  "names_given args typed = (if args \<noteq> [] then args else takeWhile (\<lambda>n. n \<noteq> []) typed)"

subsection \<open>Getting files\<close>

datatype clobber = C_NOCLOBBER | C_CLOBBER | C_UNIQUE | C_TEMPNAME | C_APPEND

text \<open>The static variables of \<^verbatim>\<open>fspcmd_get.c\<close> a transfer depends on; \<open>len\<close> is the length of the directory
  part of the argument.\<close>

record get_vars =
  clobbertype :: clobber
  preserve :: bool
  prefix_len :: nat

definition path_prefix :: "string \<Rightarrow> nat" where
  "path_prefix p = length p - length (takeWhile (\<lambda>c. c \<noteq> SL) (rev p))"

text \<open>Opening a file for reading and closing it again, to see whether it is there.\<close>

definition probe :: "world \<Rightarrow> string \<Rightarrow> world option option" where
  "probe w name = (case fopen w name Read of None \<Rightarrow> Some None | Some (f, w1) \<Rightarrow> map_option Some (fclose w1 f))"

text \<open>A name that is not used yet: \<open>fname\<close>, then \<open>fname-0\<close> and so on. There is room for a number of three
  digits.\<close>

function unique_name :: "world \<Rightarrow> string \<Rightarrow> string \<Rightarrow> nat \<Rightarrow> (string \<times> world) option" where
  "unique_name w fname name suffix =
     (case probe w name of
        None \<Rightarrow> None
      | Some None \<Rightarrow> Some (name, w)
      | Some (Some w1) \<Rightarrow>
          (if suffix \<ge> 1000 then None else unique_name w1 fname (fname @ CHR ''-'' # dec suffix) (suffix + 1)))"
  by pat_completeness auto
termination by (relation "measure (\<lambda>(w, fname, name, suffix). 1000 - suffix)") auto

declare unique_name.simps [simp del]

text \<open>\<open>fopen(name,"a")\<close>: a stream that writes at the end.\<close>

definition fopen_append :: "world \<Rightarrow> string \<Rightarrow> (nat \<times> world) option" where
  "fopen_append w s = do {
     p \<leftarrow> Posix.resolve w True s;
     (case lookup w p of
        Some n \<Rightarrow>
          (if may_write (inodes w n) \<and> kind (inodes w n) \<noteq> Directory
           then (case new_stream w n True of (f, w1) \<Rightarrow>
                   map_option (\<lambda>w2. (f, w2)) (fseek w1 f (case kind (inodes w n) of Regular c \<Rightarrow> length c | _ \<Rightarrow> 0)))
           else None)
      | None \<Rightarrow>
          (if creatable w s p then Some (new_stream (add_entry w p (Regular []) 438) (next_ino w) True) else None)) }"

text \<open>The local file to write to and the position to start from; \<open>None\<close> inside if it cannot be opened.\<close>

definition open_local :: "clobber \<Rightarrow> string \<Rightarrow> world \<Rightarrow> (nat \<times> world) option \<times> nat" where
  "open_local cl name w =
     (let old = (if cl = C_APPEND then (case stat w name of None \<Rightarrow> 0 | Some sb \<Rightarrow> st_size sb) else 0);
          appended = (if old \<noteq> 0 then fopen_append w name else None)
      in (if appended \<noteq> None then (appended, old) else (fopen w name Write, 0)))"

text \<open>\<open>get_file\<close>. \<open>COMMAND_GET\<close> is a variable and no macro, so \<open>#ifdef COMMAND_GET\<close> fails and the file is
  always fetched with \<open>util_grab_file\<close>. \<open>pid\<close> is the process number, \<open>garbage\<close> as for \<open>util_grab_file\<close>.\<close>

definition get_file ::
  "'s asking \<Rightarrow> nat \<Rightarrow> nat \<Rightarrow> get_vars \<Rightarrow> string \<Rightarrow> remote_stat \<Rightarrow> 's program" where
  "get_file ask garbage pid gv path sb st =
     (case st of (fr, se, s) \<Rightarrow>
       (let fname = drop (prefix_len gv) path; w0 = fr_world fr in
        probe w0 fname \<bind> (\<lambda>there.
          if clobbertype gv = C_NOCLOBBER \<and> there \<noteq> None then Some (fr\<lparr> fr_world := the there \<rparr>, se, s)
          else
            (if clobbertype gv = C_UNIQUE then unique_name w0 fname fname 0
             else Some (if clobbertype gv = C_TEMPNAME then ''.fsp.'' @ dec pid else fname, w0)) \<bind> (\<lambda>(name, w1).
              (case open_local (clobbertype gv) name w1 of
                 (None, _) \<Rightarrow> Some (w1, s)
               | (Some (f, w2), start_from) \<Rightarrow> do {
                   (code, w3, s1) \<leftarrow> util_grab_file ask garbage se path f start_from w2 s;
                   w4 \<leftarrow> fclose w3 f;
                   Some (if code = - 1 \<and> clobbertype gv = C_TEMPNAME then attempt (\<lambda>w. unlink w name) w4 else w4, s1) })
              \<bind> (\<lambda>(w5, s2).
                let w6 = (if preserve gv then attempt (\<lambda>w. utime w name (int (rs_mtime sb))) w5 else w5);
                    w7 = (if clobbertype gv = C_TEMPNAME then attempt (\<lambda>w. rename w name fname) w6 else w6)
                in Some (fr\<lparr> fr_world := w7 \<rparr>, se, s2))))))"

text \<open>\<open>make_dir\<close> of the same file; 493 is octal 755.\<close>

definition get_make_dir :: "get_vars \<Rightarrow> string \<Rightarrow> int \<Rightarrow> (front, 's) everything \<Rightarrow> int \<times> (front, 's) everything" where
  "get_make_dir gv path m st =
     (let fr = fst st; name = drop (prefix_len gv) path in
      if m = 0 then (- 1, st)
      else (case stat (fr_world fr) name of
              Some sb \<Rightarrow> (if S_ISDIR sb then 0 else - 1, st)
            | None \<Rightarrow>
                (case mkdir (fr_world fr) name 493 of
                   None \<Rightarrow> (- 1, st)
                 | Some w \<Rightarrow> (0, fr\<lparr> fr_world := w \<rparr>, snd st))))"

definition getter :: "'s asking \<Rightarrow> nat \<Rightarrow> nat \<Rightarrow> get_vars \<Rightarrow> (front, 's) visitor" where
  "getter ask garbage pid gv = \<lparr>
     process_file = (\<lambda>path sb m level. get_file ask garbage pid gv path sb),
     process_start_dir = (\<lambda>path sb m st. let (rc, st') = get_make_dir gv path m st in Some (rc, m, st')),
     process_end_dir = (\<lambda>path m sm level st. Some st) \<rparr>"

text \<open>The options, in the order given; an unknown one prints the usage and ends the program.\<close>

record get_options =
  go_clobber :: clobber
  go_preserve :: bool
  go_recursive :: bool

fun get_option :: "char \<Rightarrow> get_options \<Rightarrow> get_options option" where
  "get_option c opts =
     (if c \<in> {CHR ''o'', CHR ''f''} then Some (opts\<lparr> go_clobber := C_CLOBBER \<rparr>)
      else if c = CHR ''u'' then Some (opts\<lparr> go_clobber := C_UNIQUE \<rparr>)
      else if c = CHR ''t'' then Some (opts\<lparr> go_clobber := C_TEMPNAME \<rparr>)
      else if c = CHR ''n'' then Some (opts\<lparr> go_clobber := C_NOCLOBBER \<rparr>)
      else if c \<in> {CHR ''a'', CHR ''c''} then Some (opts\<lparr> go_clobber := C_APPEND \<rparr>)
      else if c = CHR ''r'' then Some (opts\<lparr> go_recursive := True \<rparr>)
      else if c = CHR ''p'' then Some (opts\<lparr> go_preserve := True \<rparr>)
      else None)"

fun get_options_of :: "char list \<Rightarrow> get_options \<Rightarrow> get_options option" where
  "get_options_of [] opts = Some opts"
| "get_options_of (c # cs) opts = (case get_option c opts of None \<Rightarrow> None | Some o' \<Rightarrow> get_options_of cs o')"

definition get_defaults :: get_options where
  "get_defaults = \<lparr> go_clobber = C_UNIQUE, go_preserve = False, go_recursive = False \<rparr>"

definition fgetcmd_main :: "'s asking \<Rightarrow> (front, 's) globber \<Rightarrow> nat \<Rightarrow> nat \<Rightarrow> char list \<Rightarrow> string list \<Rightarrow> string list \<Rightarrow> 's program" where
  "fgetcmd_main ask glob garbage pid opts args typed st =
     (case get_options_of opts get_defaults of
        None \<Rightarrow> Some st
      | Some g \<Rightarrow>
          for_each (glob_or_self glob (\<lambda>name.
            util_process_file ask
              (getter ask garbage pid \<lparr> clobbertype = go_clobber g, preserve = go_preserve g, prefix_len = path_prefix name \<rparr>)
              name (if go_recursive g then 1 else 0) 0)) (names_given args typed) st)"

text \<open>\<open>fgrabcmd_main\<close> clears the variable and runs the same code.\<close>

definition fgrabcmd_main :: "'s asking \<Rightarrow> (front, 's) globber \<Rightarrow> nat \<Rightarrow> nat \<Rightarrow> char list \<Rightarrow> string list \<Rightarrow> string list \<Rightarrow> 's program" where
  "fgrabcmd_main = fgetcmd_main"

text \<open>\<open>cat\<close> writes to the stream \<open>out\<close> of standard output; a pattern without a match is passed over.\<close>

definition cat_file :: "'s asking \<Rightarrow> nat \<Rightarrow> string \<Rightarrow> 's program" where
  "cat_file ask out name st =
     (case st of (fr, se, s) \<Rightarrow> do {
        (code, w1, s1) \<leftarrow> util_download ask se name out 0 (fr_world fr) s;
        Some (fr\<lparr> fr_world := w1 \<rparr>, se, s1) })"

definition fcatcmd_main :: "'s asking \<Rightarrow> (front, 's) globber \<Rightarrow> nat \<Rightarrow> string list \<Rightarrow> 's program" where
  "fcatcmd_main ask glob out args =
     for_each (\<lambda>arg st. do {
       (r, st1) \<leftarrow> glob arg st;
       for_each (cat_file ask out) (case r of None \<Rightarrow> [] | Some names \<Rightarrow> names) st1 }) args"

text \<open>Saying goodbye to the server; without locking between clients every command does.\<close>

definition client_finish :: "'s asking \<Rightarrow> 's program" where
  "client_finish ask st = do {
     (ub, st1) \<leftarrow> client_ask ask \<lparr> ra_cmd = CC_BYE, ra_pos = 0, ra_data1 = [], ra_data2 = [] \<rparr> st;
     Some st1 }"

definition client_done :: "'s asking \<Rightarrow> bool \<Rightarrow> 's program" where
  "client_done ask key_persists st = (if key_persists then Some st else client_finish ask st)"

definition fbye_main :: "'s asking \<Rightarrow> 's program" where
  "fbye_main = client_finish"

subsection \<open>Putting files\<close>

definition put_name :: "string \<Rightarrow> string" where
  "put_name path = drop (path_prefix path) path"

definition put_file :: "'s asking \<Rightarrow> bool \<Rightarrow> string \<Rightarrow> 's program" where
  "put_file ask timestamps path st =
     (case st of (fr, se, s) \<Rightarrow>
       (case stat (fr_world fr) path of
          None \<Rightarrow> Some st
        | Some sb \<Rightarrow>
            if \<not> S_ISREG sb then Some st
            else (case fopen (fr_world fr) path Read of
                    None \<Rightarrow> Some st
                  | Some (f, w1) \<Rightarrow> do {
                      (code, se1, w2, s1) \<leftarrow> util_upload ask se (put_name path) f (if timestamps then st_mtime sb else 0) w1 s;
                      w3 \<leftarrow> fclose w2 f;
                      Some (fr\<lparr> fr_world := w3 \<rparr>, se1, s1) })))"

text \<open>Here an empty line does not end the input.\<close>

definition fput_main :: "'s asking \<Rightarrow> bool \<Rightarrow> string list \<Rightarrow> string list \<Rightarrow> 's program" where
  "fput_main ask timestamps args typed =
     for_each (put_file ask timestamps) (if args \<noteq> [] then args else filter (\<lambda>n. n \<noteq> []) typed)"

text \<open>What an interrupted upload asks for: an installation without a name, which removes the temporary
  file.\<close>

definition upload_cleanup :: "'s asking \<Rightarrow> 's program" where
  "upload_cleanup ask st = do {
     let ra = \<lparr> ra_cmd = CC_INSTALL, ra_pos = 0, ra_data1 = [NUL], ra_data2 = [] \<rparr>;
     (ub, st1) \<leftarrow> client_ask ask ra st;
     if cmd ub = CC_UP_LOAD then map_option snd (client_ask ask ra st1) else Some st1 }"

subsection \<open>Moving files\<close>

definition append_to_buf :: "char list \<Rightarrow> char list \<Rightarrow> char list option" where
  "append_to_buf b what = (if length b + length what > UBUF_SPACE then None else Some (b @ what))"

definition rename_request :: "string \<Rightarrow> string \<Rightarrow> request_args" where
  "rename_request src dst = \<lparr> ra_cmd = CC_RENAME, ra_pos = of_nat (length dst + 1), ra_data1 = src @ [NUL], ra_data2 = dst @ [NUL] \<rparr>"

definition rename_file :: "'s asking \<Rightarrow> string \<Rightarrow> string \<Rightarrow> 's program" where
  "rename_file ask fname target st = do {
     src \<leftarrow> abs_path (fst (snd st)) fname;
     (case append_to_buf [] (src @ [NUL]) of
        None \<Rightarrow> Some (put_line (''path too long: '' @ src @ ''.'') st)
      | Some b \<Rightarrow> do {
          dst \<leftarrow> abs_path (fst (snd st)) target;
          (case append_to_buf b (dst @ [NUL]) of
             None \<Rightarrow> Some (put_line (''path too long: '' @ dst @ ''.'') st)
           | Some _ \<Rightarrow> do {
               (ub, st1) \<leftarrow> client_ask ask (rename_request src dst) st;
               Some (if cmd ub = CC_ERR then put_line (''mv '' @ fname @ '' '' @ target @ '': '' @ cstr (buf ub)) st1 else st1) }) }) }"

definition fmvcmd_main :: "'s asking \<Rightarrow> (front, 's) globber \<Rightarrow> string list \<Rightarrow> 's program" where
  "fmvcmd_main ask glob args =
     for_each (glob_or_self glob (\<lambda>name. rename_file ask name (last args))) (butlast args)"

subsection \<open>Rights\<close>

definition pro_letter :: "bool \<Rightarrow> string" where
  "pro_letter b = (if b then ''Y'' else ''N'')"

definition pro_line :: "u32 \<Rightarrow> string" where
  "pro_line fl =
     ''owner: '' @ (if flag fl DIR_OWNER then ''YOU'' else ''other'') @ '', del: '' @ pro_letter (flag fl DIR_DEL) @
     '', create: '' @ pro_letter (flag fl DIR_ADD) @ '', mkdir: '' @ pro_letter (flag fl DIR_MKDIR) @
     '', get: '' @ pro_letter (\<not> flag fl DIR_GET) @ '', list: '' @ pro_letter (flag fl DIR_LIST) @
     '', rename: '' @ pro_letter (flag fl DIR_RENAME) @ ''.''"

text \<open>The readme loses its line ends, and then its last character is overwritten with the zero. If there is
  nothing but line ends the search for it leaves the buffer.\<close>

definition shown_readme :: "string \<Rightarrow> string option" where
  "shown_readme text =
     (let t = rev (dropWhile (\<lambda>c. c = NL \<or> c = CHR 0x0D) (rev text)) in if t = [] then None else Some (butlast t))"

definition print_pro :: "UBUF \<Rightarrow> string list option" where
  "print_pro ub =
     (let len = unat (BB_READ2 (bb_len ub));
          pro = (if BB_READ4 (bb_pos ub) = 0 then [] else [pro_line (ucast (char_byte (buf ub ! len)))])
      in if len > 1 then map_option (\<lambda>t. pro @ [t]) (shown_readme (cstr (buf ub))) else Some pro)"

text \<open>\<open>f_cd\<close> prints on standard error; the result is whether the directory is there, and its path, without
  the password if it is.\<close>

definition f_cd :: "'s asking \<Rightarrow> string \<Rightarrow> (front, 's) everything \<Rightarrow> (bool \<times> string \<times> (front, 's) everything) option" where
  "f_cd ask p st = do {
     (ub, st1) \<leftarrow> client_ask ask (path_request CC_GET_PRO 0 p []) st;
     if cmd ub = CC_ERR then Some (False, p, st1)
     else do { _ \<leftarrow> print_pro ub; Some (True, util_junk_password p, st1) } }"

text \<open>\<open>argv\<close> starts with the name of the command, which is what is taken if the pattern has no match.\<close>

definition fcdcmd_main :: "'s asking \<Rightarrow> (front, 's) globber \<Rightarrow> string list \<Rightarrow> 's program" where
  "fcdcmd_main ask glob argv st =
     (if length argv = 1 then do {
        np \<leftarrow> abs_path (fst (snd st)) ''/'';
        (ok, np1, st1) \<leftarrow> f_cd ask np st;
        Some (put_line np1 st1) }
      else do {
        (r, st1) \<leftarrow> glob (argv ! 1) st;
        np \<leftarrow> abs_path (fst (snd st1)) (case r of Some (name # _) \<Rightarrow> name | Some [] \<Rightarrow> [] | None \<Rightarrow> hd argv);
        (ok, np1, st2) \<leftarrow> f_cd ask np st1;
        Some (put_line (if ok then np1 else env_dir (fst (snd st2))) st2) })"

definition get_pro :: "'s asking \<Rightarrow> string \<Rightarrow> 's program" where
  "get_pro ask p st = do {
     (ub, st1) \<leftarrow> ask_path ask CC_GET_PRO 0 p [] st;
     if cmd ub = CC_ERR then Some st1
     else do { ls \<leftarrow> print_pro ub; for_each (\<lambda>l st. Some (put_line l st)) (p # ls) st1 } }"

definition set_pro :: "'s asking \<Rightarrow> string \<Rightarrow> string \<Rightarrow> 's program" where
  "set_pro ask key p st = do {
     (ub, st1) \<leftarrow> ask_path ask CC_SET_PRO (length key) p key st;
     if cmd ub = CC_ERR then Some st1
     else do { ls \<leftarrow> print_pro ub; for_each (\<lambda>l st. Some (put_line l st)) (p # ls) st1 } }"

text \<open>Without a directory behind the key the code uses the key before it is set. An argument of one
  character makes it read behind the end of that argument.\<close>

definition fprocmd_main :: "'s asking \<Rightarrow> (front, 's) globber \<Rightarrow> string list \<Rightarrow> 's program" where
  "fprocmd_main ask glob args st =
     (case args of
        [] \<Rightarrow> get_pro ask (env_dir (fst (snd st))) st
      | a # rest \<Rightarrow>
          if a \<noteq> [] \<and> (hd a = CHR ''+'' \<or> hd a = CHR ''-'') \<and> length a = 1 then None
          else if a \<noteq> [] \<and> (hd a = CHR ''+'' \<or> hd a = CHR ''-'') \<and> length a = 2 then
            (if rest = [] then None else for_each (glob_or_self glob (set_pro ask a)) rest st)
          else for_each (glob_or_self glob (get_pro ask)) args st)"

subsection \<open>Making and removing\<close>

definition make_dir :: "'s asking \<Rightarrow> string \<Rightarrow> 's program" where
  "make_dir ask p st = do {
     (ub, st1) \<leftarrow> ask_path ask CC_MAKE_DIR 0 p [] st;
     Some (if cmd ub = CC_ERR then st1 else put_line (p @ TAB # '': '' @ cstr (buf ub)) st1) }"

definition fmkdir_main :: "'s asking \<Rightarrow> string list \<Rightarrow> 's program" where
  "fmkdir_main ask args = for_each (make_dir ask) args"

definition remove_file :: "'s asking \<Rightarrow> string \<Rightarrow> 's program" where
  "remove_file ask p st = map_option snd (ask_path ask CC_DEL_FILE 0 p [] st)"

definition frmcmd_main :: "'s asking \<Rightarrow> (front, 's) globber \<Rightarrow> string list \<Rightarrow> 's program" where
  "frmcmd_main ask glob args = for_each (glob_or_self glob (remove_file ask)) args"

definition remove_dir :: "'s asking \<Rightarrow> string \<Rightarrow> 's program" where
  "remove_dir ask p st = map_option snd (ask_path ask CC_DEL_DIR 0 p [] st)"

definition frmdircmd_main :: "'s asking \<Rightarrow> (front, 's) globber \<Rightarrow> string list \<Rightarrow> 's program" where
  "frmdircmd_main ask glob args = for_each (glob_or_self glob (remove_dir ask)) args"

subsection \<open>Reports\<close>

text \<open>\<open>show_time\<close> is \<open>localtime\<close> with \<open>strftime\<close>.\<close>

definition stat_file :: "(nat \<Rightarrow> string) \<Rightarrow> 's asking \<Rightarrow> string \<Rightarrow> 's program" where
  "stat_file show_time ask fname st =
     (case st of (fr, se, s) \<Rightarrow> do {
        (r, se1, s1) \<leftarrow> util_stat ask fname se s;
        Some (put_line (case r of
            None \<Rightarrow> fname @ '': stat error''
          | Some sb \<Rightarrow> (if rs_dir sb then ''Directory'' else ''File'') @ '': '' @ fname @ ''  Size: '' @ dec (rs_size sb) @
              '' Time: '' @ show_time (rs_mtime sb)) (fr, se1, s1)) })"

definition fstatcmd_main :: "(nat \<Rightarrow> string) \<Rightarrow> 's asking \<Rightarrow> (front, 's) globber \<Rightarrow> string list \<Rightarrow> string list \<Rightarrow> 's program" where
  "fstatcmd_main show_time ask glob args typed =
     for_each (glob_or_self glob (stat_file show_time ask)) (names_given args typed)"

text \<open>Disk usage: the total so far, the number of names walked over and the lines printed.
  \<open>%-7ld\<close> pads to seven characters.\<close>

record usage =
  total_file_size :: nat
  filcnt :: nat
  us_out :: "string list"

abbreviation (input) DU_RECURSIVE :: nat where "DU_RECURSIVE \<equiv> 1"
abbreviation (input) DU_SUM :: nat where "DU_SUM \<equiv> 2"
abbreviation (input) DU_EACH :: nat where "DU_EACH \<equiv> 4"

definition du_line :: "nat \<Rightarrow> string \<Rightarrow> string" where
  "du_line n name = (let d = dec n in d @ replicate (7 - length d) CHR '' '' @ CHR '' '' # name)"

definition blocks :: "remote_stat \<Rightarrow> nat" where
  "blocks sb = (rs_size sb + 1023) div 1024"

definition has_mode :: "int \<Rightarrow> nat \<Rightarrow> bool" where
  "has_mode m b \<longleftrightarrow> odd (nat m div b)"

definition du_print :: "bool \<Rightarrow> string \<Rightarrow> usage \<Rightarrow> usage" where
  "du_print b l u = (if b then u\<lparr> us_out := us_out u @ [l] \<rparr> else u)"

definition add_file_size :: "string \<Rightarrow> remote_stat \<Rightarrow> int \<Rightarrow> nat \<Rightarrow> usage \<Rightarrow> usage" where
  "add_file_size name sb m level u =
     du_print (has_mode m DU_EACH \<and> (has_mode m DU_RECURSIVE \<or> level < 2)) (du_line (blocks sb) name)
       (u\<lparr> total_file_size := total_file_size u + blocks sb \<rparr>)"

definition du_end_dir :: "string \<Rightarrow> int \<Rightarrow> int \<Rightarrow> nat \<Rightarrow> usage \<Rightarrow> usage" where
  "du_end_dir path m sm level u =
     du_print ((has_mode m DU_RECURSIVE \<and> \<not> has_mode m DU_SUM) \<or> (level = 1 \<and> (\<not> has_mode m DU_SUM \<or> has_mode m DU_EACH)) \<or> level = 0)
       (du_line (total_file_size u - nat sm) path) u"

definition du_visitor :: "(usage, 's) visitor" where
  "du_visitor = \<lparr>
     process_file = (\<lambda>name sb m level st. Some (add_file_size name sb m level (fst st), snd st)),
     process_start_dir = (\<lambda>name sb m st. Some (0, int (total_file_size (fst st)), st)),
     process_end_dir = (\<lambda>path m sm level st. Some (du_end_dir path m sm level (fst st), snd st)) \<rparr>"

definition fducmd_main :: "'s asking \<Rightarrow> (usage, 's) globber \<Rightarrow> int \<Rightarrow> string list \<Rightarrow> session \<times> 's \<Rightarrow> (string list \<times> session \<times> 's) option" where
  "fducmd_main ask glob m args ses = do {
     let start = \<lparr> total_file_size = 0, filcnt = 0, us_out = [] \<rparr>;
     (u, ses1) \<leftarrow> for_each (glob_or_self glob (\<lambda>name st. do {
         (u1, ses1) \<leftarrow> util_process_file ask du_visitor name m 0 st;
         Some (u1\<lparr> filcnt := filcnt u1 + 1 \<rparr>, ses1) })) (if args = [] then [''.''] else args) (start, ses);
     Some (us_out u @ (if filcnt u > 1 then [''--------:------'', du_line (total_file_size u) ''  TOTAL''] else []), ses1) }"

text \<open>The answer to \<open>CC_VERSION\<close>, without the tabs in front of all lines but the first. \<open>v2\<close> walks over the octets behind the text: after the limit of the
  throughput it is at the last octet of that, where the flag for extra data is then looked for.\<close>

definition has_bit :: "char \<Rightarrow> byte \<Rightarrow> bool" where
  "has_bit c b \<longleftrightarrow> char_byte c AND b \<noteq> 0"

definition show_int :: "int \<Rightarrow> string" where
  "show_int i = (if i < 0 then CHR ''-'' # dec (nat (- i)) else dec (nat i))"

text \<open>\<open>DOESN'T REQUIRE\<close>, with its quotation mark.\<close>

definition not_required :: string where
  "not_required = ''DOESN'' @ CHR 0x27 # ''T REQUIRE connections to reverse.''"

definition flag_lines :: "(byte \<Rightarrow> bool) \<Rightarrow> string \<Rightarrow> string list" where
  "flag_lines is_set limit =
     [''Logging of all server transactions is '' @ (if is_set 0x01 then ''ENABLED.'' else ''DISABLED.''),
      ''Remote server is run in '' @ (if is_set 0x02 then ''READONLY mode.'' else ''READ/WRITE mode.''),
      ''Server '' @ (if is_set 0x04 then ''REQUIRES connections to reverse name.'' else not_required),
      ''Remote server is run in '' @ (if is_set 0x08 then ''PRIVATE mode.'' else ''PUBLIC mode.''),
      (if is_set 0x10 then ''Remote server throughput control is ENABLED. (max '' @ limit @ '' bytes/sec)''
       else ''Remote server throughput control is DISABLED.'')]"

definition payload_line :: "nat \<Rightarrow> string" where
  "payload_line n =
     (if n > 1024 then ''Max. payload size supported by server is '' else ''Payload size prefered by server is '') @ dec n @ '' bytes.''"

definition extra_line :: string where
  "extra_line = ''Server can process extra data in input packets.''"

definition version_lines :: "UBUF \<Rightarrow> string list" where
  "version_lines ub =
     (let len = unat (BB_READ2 (bb_len ub)); len2 = unat (BB_READ4 (bb_pos ub));
          octet = (\<lambda>i. char_byte (buf ub ! (len + i)));
          at = (if has_bit (buf ub ! len) 0x10 then 4 else 0);
          limit = sint (BB_READ4 (octet 1, octet 2, octet 3, octet 4))
      in (''Remote FSP version: '' @ cstr (buf ub)) #
         (if len2 = 0 then [''Remote server do not send extended info.'']
          else
            flag_lines (has_bit (buf ub ! len)) (show_int limit) @
            (if octet at AND 0x20 \<noteq> 0 then [extra_line] else []) @
            (if at + 1 < len2 then [payload_line (unat (BB_READ2 (octet (at + 1), octet (at + 2))))] else [])))"

definition fver_main :: "'s asking \<Rightarrow> 's program" where
  "fver_main ask st = do {
     (ub, st1) \<leftarrow> client_ask ask \<lparr> ra_cmd = CC_VERSION, ra_pos = 0, ra_data1 = [], ra_data2 = [] \<rparr> st;
     for_each (\<lambda>l st. Some (put_line l st)) (hd (version_lines ub) # map (Cons TAB) (tl (version_lines ub))) st1 }"

end
