(* ===== verification/ProgramRuns.thy ===== *)
theory ProgramRuns
  imports Programs Upload
begin

text \<open>
  The commands of theory Programs against the server: what \<open>get\<close>, \<open>mv\<close>, \<open>pro\<close> and \<open>ver\<close> make of its
  answers.
\<close>

subsection \<open>Getting is grabbing\<close>

lemma conversation_grab_refused:
  assumes "read_only conf \<or> \<not> grab_enabled conf" "length p + 3 \<le> UBUF_MAXSPACE"
  shows "\<exists>ub. conversation conf dns version old hp port (path_request CC_GRAB_FILE pos (SL # p) (client_net_len se)) \<sigma> = Some (ub, \<sigma>) \<and>
    cmd ub = CC_ERR"
proof -
  let ?ra = "path_request CC_GRAB_FILE pos (SL # p) (client_net_len se)"
  have l2: "length (client_net_len se) = 2" by (simp add: client_net_len_def)
  have l: "length (ra_data1 ?ra) + length (ra_data2 ?ra) \<le> UBUF_MAXSPACE" using assms(2) l2 by (simp add: path_request_def)
  obtain rq ub where c: "conversation conf dns version old hp port ?ra \<sigma> = answered old (cmd_grab_file conf dns rq ub \<sigma>)"
    using conversation_request [OF l, of hp port conf dns version old] by (auto simp: path_request_def)
  obtain m n ub' where e: "send_error ub read_only_msg = Some (Answer m n, ub')" using read_only_msg_fits by blast
  have "cmd ub' = CC_ERR" using e by (auto simp: send_error_def Let_def split: if_splits)
  moreover have "cmd_grab_file conf dns rq ub \<sigma> = Some (Answer m n, ub', \<sigma>)"
    using assms(1) e by (simp add: cmd_grab_file_def refuse_def)
  ultimately show ?thesis using c by (simp add: answered_def reply_packet_cmd)
qed

lemma grab_refused:
  assumes "read_only conf \<or> \<not> grab_enabled conf" "length p + 3 \<le> UBUF_MAXSPACE"
    and "env_passwd se = []" "abs_path se path = Some (SL # p)"
  shows "util_grab_file (conversation conf dns version old hp port) garbage se path f start w \<sigma> = Some (- 1, w, \<sigma>)"
proof -
  obtain ub where "conversation conf dns version old hp port (path_request CC_GRAB_FILE start (SL # p) (client_net_len se)) \<sigma> = Some (ub, \<sigma>)"
      "cmd ub = CC_ERR"
    using conversation_grab_refused [OF assms(1,2)] by blast
  then have "download_loop (conversation conf dns version old hp port) CC_GRAB_FILE se (SL # p) f start w \<sigma> = Some (- 1, w, \<sigma>)"
    by (subst download_loop.simps) simp
  then show ?thesis using assms(3,4) by (simp add: util_grab_file_def append_password_def util_download_main_def)
qed


definition empty_disk :: world where
  "empty_disk = \<lparr> entries = [([], 0)], inodes = (\<lambda>n. \<lparr> kind = Directory, mtime = 5, mode = 493 \<rparr>),
     next_ino = 1, streams = [], next_stream = 1, cwd = [], cur_umask = 18, clock = 100, room = 1000 \<rparr>"


subsection \<open>Moving\<close>

lemma validate_known:
  assumes "parse_path b len = Inr (pp, b')" "fst (dirstat_find (dir_name pp) \<sigma>) = Some di"
    and "lastcheck (dirstat_at \<sigma> di) + stat_cache_timeout conf > cur_time \<sigma>"
  shows "\<exists>\<sigma>1. validate_path conf dns b len False \<sigma> = Some (Inr (pp, di), b', \<sigma>1) \<and> same_records \<sigma> \<sigma>1 \<and> os \<sigma>1 = os \<sigma>"
  using check_directory_known [OF assms(2,3), of dns] assms(1) by (auto simp: validate_path_def directory_path_def)

text \<open>The names a rename request carries, as the server sees them.\<close>

lemma rename_request_parts:
  assumes "good_path src" "good_path dst" "length src + length dst + 2 \<le> UBUF_MAXSPACE"
  shows "\<exists>rq ub b b2. \<not> rq_old rq \<and> rq_l1 rq = Suc (length src) \<and> rq_l2 rq = Suc (length dst) \<and> rq_inet rq = inet_num hp \<and>
    cmd ub = CC_RENAME \<and> parse_path (buf ub) (Suc (length src)) = Inr (path_spec src, b) \<and>
    (\<exists>r. drop (Suc (length src)) b = dst @ NUL # r) \<and>
    parse_path (drop (Suc (length src)) b) (Suc (length dst)) = Inr (path_spec dst, b2) \<and>
    (\<forall>\<sigma>. conversation conf dns version old hp port (rename_request src dst) \<sigma> = answered old (cmd_rename conf dns rq ub \<sigma>))"
proof -
  let ?ra = "rename_request src dst"
  have ra: "ra_data1 ?ra = src @ [NUL]" "ra_data2 ?ra = dst @ [NUL]" "ra_cmd ?ra = CC_RENAME" by (simp_all add: rename_request_def)
  have l: "length (ra_data1 ?ra) + length (ra_data2 ?ra) \<le> UBUF_MAXSPACE" using assms(3) by (simp add: ra)
  obtain rq ub where rq: "as_sent hp port ?ra rq ub"
    and c: "\<forall>\<sigma>. conversation conf dns version old hp port ?ra \<sigma> = answered old (cmd_rename conf dns rq ub \<sigma>)"
    using conversation_request [OF l, of hp port conf dns version old] ra(3) by auto
  have r: "\<not> rq_old rq" "rq_l1 rq = Suc (length src)" "rq_l2 rq = Suc (length dst)" "rq_inet rq = inet_num hp" "cmd ub = CC_RENAME"
    using rq by (simp_all add: as_sent_def ra)
  define r0 where "r0 = drop (length src + length dst + 2) (buf ub)"
  have "take (length src + length dst + 2) (buf ub) = src @ NUL # dst @ [NUL]" using rq by (simp add: as_sent_def ra)
  then have buf: "buf ub = src @ NUL # dst @ NUL # r0"
    by (metis append_Cons append_Nil append_assoc append_take_drop_id r0_def)
  obtain b where b: "parse_path (buf ub) (Suc (length src)) = Inr (path_spec src, b)" "drop (Suc (length src)) b = dst @ NUL # r0"
    using parse_request [OF assms(1), of "dst @ NUL # r0"] buf by auto
  obtain b2 where "parse_path (dst @ NUL # r0) (Suc (length dst)) = Inr (path_spec dst, b2)"
    using parse_request [OF assms(2)] by blast
  then show ?thesis using r b c by (intro exI [of _ rq] exI [of _ ub] exI [of _ b] exI [of _ b2]) auto
qed

text \<open>C31: moving a file needs no right to replace the one that is there: the program \<open>mv\<close> sends its target with a
  leading slash, and the server asks for the right to delete only if \<open>stat\<close> of that text, as it came, finds
  a file: it looks below the root of the host instead of in the home directory. If nothing with that name is
  there, a client that may rename in the directory replaces any file of it, whatever the rights.\<close>

theorem rename_replaces_unasked:
  assumes "good_path src" "good_path dst" "length src + length dst + 2 \<le> UBUF_MAXSPACE" "\<not> read_only conf"
    and "stat (os \<sigma>) dst = None"
    and "fst (dirstat_find (dir_name (path_spec src)) \<sigma>) = Some di" "fst (dirstat_find (dir_name (path_spec dst)) \<sigma>) = Some di"
    and "lastcheck (dirstat_at \<sigma> di) + stat_cache_timeout conf > cur_time \<sigma>"
    and "granted (require_access_rights conf (dirstat_at \<sigma> di) DIR_RENAME (inet_num hp) (passwd (path_spec src)))"
    and "stat (os \<sigma>) (fullp (path_spec src)) = Some sb" "S_ISREG sb"
    and "stat (os \<sigma>) (fullp (path_spec dst)) = Some tb" "S_ISREG tb"
    and "rename (os \<sigma>) (fullp (path_spec src)) (fullp (path_spec dst)) = Some w"
  shows "\<exists>ub \<sigma>'. conversation conf dns version old hp port (rename_request src dst) \<sigma> = Some (ub, \<sigma>') \<and> cmd ub = CC_RENAME \<and> os \<sigma>' = w"
proof -
  obtain rq ub b b2 r where r: "\<not> rq_old rq" "rq_l1 rq = Suc (length src)" "rq_l2 rq = Suc (length dst)" "rq_inet rq = inet_num hp"
      "cmd ub = CC_RENAME" "parse_path (buf ub) (Suc (length src)) = Inr (path_spec src, b)"
      "drop (Suc (length src)) b = dst @ NUL # r" "parse_path (dst @ NUL # r) (Suc (length dst)) = Inr (path_spec dst, b2)"
      "\<forall>\<sigma>. conversation conf dns version old hp port (rename_request src dst) \<sigma> = answered old (cmd_rename conf dns rq ub \<sigma>)"
    using rename_request_parts [OF assms(1-3), of hp conf dns version old port] by auto
  obtain \<sigma>1 where v1: "validate_path conf dns (buf ub) (Suc (length src)) False \<sigma> = Some (Inr (path_spec src, di), b, \<sigma>1)"
      "same_records \<sigma> \<sigma>1" "os \<sigma>1 = os \<sigma>"
    using validate_known [OF r(6) assms(6,8)] by blast
  note s1 = same_records_simps [OF v1(2)]
  obtain \<sigma>2 where v2: "validate_path conf dns (dst @ NUL # r) (Suc (length dst)) False \<sigma>1 = Some (Inr (path_spec dst, di), b2, \<sigma>2)"
      "os \<sigma>2 = os \<sigma>"
    using validate_known [OF r(8), of \<sigma>1 di conf dns] assms(7,8) s1 v1(3) by auto
  have dst: "cstr (dst @ NUL # r) = dst" using assms(2) by (simp add: good_path_def cstr_append_NUL)
  let ?ub = "ub\<lparr> buf := take (Suc (length src)) b @ b2 \<rparr>"
  have t: "rename_target conf dns rq (ub\<lparr> buf := b \<rparr>) \<sigma>1 = Some (Inr (path_spec dst, di, False), ?ub, \<sigma>2)"
    using r(2,3,7) v2 dst assms(5) v1(3) by (simp add: rename_target_def Let_def nth_append)
  have mv: "server_rename (path_spec src) (path_spec dst) di di \<sigma>2 = done_with (touch_dirinfo di (\<sigma>2\<lparr> os := w \<rparr>))"
    using assms(10-14) v2(2) by (simp add: server_rename_def)
  let ?fin = "?ub\<lparr> bb_pos := (0, 0, 0, 0) \<rparr>" and ?s = "touch_dirinfo di (\<sigma>2\<lparr> os := w \<rparr>)"
  have "cmd_rename conf dns rq ub \<sigma> = reply 0 0 ?fin ?s"
    using assms(4,9) r(1,2,4) v1(1) s1(1) t mv
    by (simp add: cmd_rename_def with_path_def check_access_def granted_iff do_op_def done_with_def Let_def)
  with answered_empty [of old ?fin ?s] r(5,9) show ?thesis by auto
qed

text \<open>The site with a second file, in a directory whose files may be renamed but not deleted.\<close>

definition two_files :: world where
  "two_files = demo_site\<lparr> entries := entries demo_site @ [([''f'', ''b.txt''], 5)],
     inodes := (inodes demo_site)(5 := \<lparr> kind = Regular ''mine'', mtime = 6, mode = 420 \<rparr>), next_ino := 6 \<rparr>"

definition rename_record :: DIRINFO where
  "rename_record = zero_DIRINFO\<lparr> realname := ''/f'', protection := DIR_LIST OR DIR_GET OR DIR_RENAME, lastcheck := 100 \<rparr>"

definition rename_server :: fsrv where
  "rename_server = snd (dirstat_put ''.'' rename_record (site_server\<lparr> os := two_files \<rparr>))"

theorem rename_replaces_unasked_witness:
  "\<not> flag (protection rename_record) DIR_DEL \<and> file_at (os rename_server) [''f'', ''b.txt''] = Some ''mine'' \<and>
   (\<exists>ub \<sigma>'. conversation site_conf (\<lambda>_. None) ''2.8'' demo_old site_client 9 (rename_request ''/a.txt'' ''/b.txt'') rename_server = Some (ub, \<sigma>') \<and>
      cmd ub = CC_RENAME \<and> file_at (os \<sigma>') [''f'', ''b.txt''] = Some ''hello'')"
proof -
  have hp: "inet_num site_client = 5" by (simp add: site_client_def hzero_def)
  have i: "init_caches site_conf demo_site \<noteq> None" by code_simp
  then have "server_wf site_server" using init_caches_wf by (auto simp: site_server_def)
  then have o': "os rename_server = two_files"
    using dirstat_put_wf [of "site_server\<lparr> os := two_files \<rparr>"] by (simp add: rename_server_def prod_eq_iff)
  have p: "path_spec ''/a.txt'' = \<lparr> fullp = ''a.txt'', f_ptr = ''a.txt'', f_len = 5, d_ptr = ''.'', d_len = 1, passwd = None \<rparr>"
    "path_spec ''/b.txt'' = \<lparr> fullp = ''b.txt'', f_ptr = ''b.txt'', f_len = 5, d_ptr = ''.'', d_len = 1, passwd = None \<rparr>"
    "good_path ''/a.txt''" "good_path ''/b.txt''" by code_simp+
  have d: "fst (dirstat_find ''.'' rename_server) = Some 0" "dirstat_at rename_server 0 = rename_record" "cur_time rename_server = 100"
    "granted (require_access_rights site_conf rename_record DIR_RENAME 5 None)" by code_simp+
  have st: "stat two_files ''/b.txt'' = None" "stat two_files ''a.txt'' = Some \<lparr> st_type = S_IFREG, st_size = 5, st_mtime = 6 \<rparr>"
    "stat two_files ''b.txt'' = Some \<lparr> st_type = S_IFREG, st_size = 4, st_mtime = 6 \<rparr>"
    "map_option (\<lambda>w. file_at w [''f'', ''b.txt'']) (rename two_files ''a.txt'' ''b.txt'') = Some (Some ''hello'')"
    "file_at two_files [''f'', ''b.txt''] = Some ''mine''" "\<not> flag (protection rename_record) DIR_DEL" by code_simp+
  obtain w where w: "rename two_files ''a.txt'' ''b.txt'' = Some w" "file_at w [''f'', ''b.txt''] = Some ''hello''"
    using st(4) by (cases "rename two_files ''a.txt'' ''b.txt''") auto
  have dn: "dir_name (path_spec ''/a.txt'') = ''.''" "dir_name (path_spec ''/b.txt'') = ''.''" by (simp_all add: p dir_name_def)
  have "\<exists>ub \<sigma>'. conversation site_conf (\<lambda>_. None) ''2.8'' demo_old site_client 9 (rename_request ''/a.txt'' ''/b.txt'') rename_server = Some (ub, \<sigma>') \<and>
      cmd ub = CC_RENAME \<and> os \<sigma>' = w"
    by (rule rename_replaces_unasked [where di = 0 and sb = "\<lparr> st_type = S_IFREG, st_size = 5, st_mtime = 6 \<rparr>"
          and tb = "\<lparr> st_type = S_IFREG, st_size = 4, st_mtime = 6 \<rparr>"])
      (use p(3,4) dn d st w hp in \<open>simp_all add: o' p(1,2) rename_record_def site_conf_def default_conf_def\<close>)
  with w(2) st(5,6) o' show ?thesis by auto
qed

subsection \<open>The version report\<close>

lemma has_bit_power: "has_bit (byte_char x) (2 ^ n) \<longleftrightarrow> bit x n"
  by (simp add: has_bit_def and_exp_eq_0_iff_not_bit)

lemma version_flag_bits:
  "bit (version_flags conf) 0 \<longleftrightarrow> logging conf \<noteq> 0" "bit (version_flags conf) 1 \<longleftrightarrow> read_only conf"
  "bit (version_flags conf) 2 \<longleftrightarrow> no_unnamed conf" "bit (version_flags conf) 3 \<longleftrightarrow> priv_mode conf"
  "bit (version_flags conf) 4 \<longleftrightarrow> maxthcallowed conf \<noteq> 0" "bit (version_flags conf) 5"
  by (simp_all add: version_flags_def bit_or_iff)

lemma version_flag_tests:
  "has_bit (byte_char (version_flags conf)) 0x01 \<longleftrightarrow> logging conf \<noteq> 0" "has_bit (byte_char (version_flags conf)) 0x02 \<longleftrightarrow> read_only conf"
  "has_bit (byte_char (version_flags conf)) 0x04 \<longleftrightarrow> no_unnamed conf" "has_bit (byte_char (version_flags conf)) 0x08 \<longleftrightarrow> priv_mode conf"
  "has_bit (byte_char (version_flags conf)) 0x10 \<longleftrightarrow> maxthcallowed conf \<noteq> 0" "has_bit (byte_char (version_flags conf)) 0x20"
  using version_flag_bits [of conf] has_bit_power [of "version_flags conf" 0] has_bit_power [of "version_flags conf" 1]
    has_bit_power [of "version_flags conf" 2] has_bit_power [of "version_flags conf" 3] has_bit_power [of "version_flags conf" 4]
    has_bit_power [of "version_flags conf" 5]
  by simp_all

definition version_extra :: "fsp_conf \<Rightarrow> char list" where
  "version_extra conf = byte_char (version_flags conf) #
     (if maxthcallowed conf \<noteq> 0 then b4_chars (BB_WRITE4 (of_int (maxthcallowed conf))) else []) @ b2_chars (BB_WRITE2 (packetsize conf))"

lemma version_answer:
  assumes "server_show_version conf version ub \<sigma> = Some (Answer m n, ub1, \<sigma>1)" "NUL \<notin> set version"
  defines "text \<equiv> ''fspd '' @ version"
  shows "\<exists>r. m = Suc (length text) \<and> n = length (version_extra conf) \<and>
    (let rb = recv_into old (reply_packet ub1 m n) in
       buf rb = text @ NUL # version_extra conf @ r \<and> unat (BB_READ2 (bb_len rb)) = m \<and> unat (BB_READ4 (bb_pos rb)) = n)"
proof -
  let ?x = "version_extra conf"
  have a: "m = Suc (length text)" "n = length ?x" "length text < UBUF_SPACE"
    "ub1 = (put_buf ub 0 (text @ [NUL] @ ?x))\<lparr> bb_pos := BB_WRITE4 (of_nat (length ?x)) \<rparr>"
    using assms(1) by (auto simp: server_show_version_def reply_def Let_def text_def version_extra_def split: if_splits)
  have x: "length ?x \<le> 7" by (simp add: version_extra_def)
  have dl: "m + n \<le> length (buf ub1)" "m + n \<le> UBUF_MAXSPACE" using a x by (simp_all add: put_buf_def memcpy_def)
  note r = reply_arrives [OF dl, of old]
  let ?rb = "recv_into old (reply_packet ub1 m n)"
  have "take (m + n) (buf ?rb) = text @ NUL # ?x" using r a(1,2,4) by (simp add: put_buf_def memcpy_def)
  then have "buf ?rb = text @ NUL # ?x @ drop (m + n) (buf ?rb)" by (metis append_Cons append_assoc append_take_drop_id)
  moreover have "unat (BB_READ4 (bb_pos ?rb)) = n" using r a(2,4) x by (simp add: unat_u32_of_nat)
  ultimately show ?thesis using r a(1,2) by (auto simp: Let_def)
qed

lemma version_flag_lines: "flag_lines (has_bit (byte_char (version_flags conf))) l =
   [''Logging of all server transactions is '' @ (if logging conf \<noteq> 0 then ''ENABLED.'' else ''DISABLED.''),
    ''Remote server is run in '' @ (if read_only conf then ''READONLY mode.'' else ''READ/WRITE mode.''),
    ''Server '' @ (if no_unnamed conf then ''REQUIRES connections to reverse name.'' else not_required),
    ''Remote server is run in '' @ (if priv_mode conf then ''PRIVATE mode.'' else ''PUBLIC mode.''),
    (if maxthcallowed conf \<noteq> 0 then ''Remote server throughput control is ENABLED. (max '' @ l @ '' bytes/sec)''
     else ''Remote server throughput control is DISABLED.'')]"
  by (simp only: flag_lines_def version_flag_tests)

lemma limit_octets:
  assumes "0 \<le> l" "l < 2 ^ 31" "BB_WRITE4 (of_int l) = (a, b, c, d)"
  shows "show_int (sint (BB_READ4 (a, b, c, d))) = dec (nat l)" "d = of_int l"
proof -
  define w :: u32 where "w = of_int l"
  have q: "BB_WRITE4 w = (a, b, c, d)" using assms(3) by (simp add: w_def)
  have "BB_READ4 (a, b, c, d) = w" using BB_READ4_WRITE4 [of w] by (simp only: q)
  moreover have "sint w = l" using assms(1,2) by (simp add: w_def signed_of_int signed_take_bit_int_eq_self)
  ultimately show "show_int (sint (BB_READ4 (a, b, c, d))) = dec (nat l)" using assms(1) by (simp add: show_int_def)
  have "w = of_nat (nat l)" using assms(1) by (simp add: w_def)
  then have "unat w = nat l mod 4294967296" by (simp only: unat_u32_of_nat)
  then have "unat w = nat l" using assms(1,2) by (simp add: nat_less_iff)
  then show "d = of_int l" using q assms(1) by (auto simp: BB_WRITE4_def)
qed

text \<open>C36: the version report tells the settings of the server, but for the line about extra data: the program
  \<open>ver\<close>, given what \<open>server_show_version\<close> sends, prints the version text, whether the server logs, is read-only,
  refuses hosts without a name and is private, its throughput limit and its packet size; the server always
  says that it takes extra data, and the program says so too unless there is a throughput limit: then it looks at
  the last octet of that limit instead of the flags.\<close>

theorem version_report:
  assumes "server_show_version conf version ub \<sigma> = Some (Answer m n, ub1, \<sigma>1)" "NUL \<notin> set version"
    and "0 \<le> maxthcallowed conf" "maxthcallowed conf < 2 ^ 31"
  shows "version_lines (recv_into old (reply_packet ub1 m n)) =
    (''Remote FSP version: fspd '' @ version) #
     [''Logging of all server transactions is '' @ (if logging conf \<noteq> 0 then ''ENABLED.'' else ''DISABLED.''),
      ''Remote server is run in '' @ (if read_only conf then ''READONLY mode.'' else ''READ/WRITE mode.''),
      ''Server '' @ (if no_unnamed conf then ''REQUIRES connections to reverse name.'' else not_required),
      ''Remote server is run in '' @ (if priv_mode conf then ''PRIVATE mode.'' else ''PUBLIC mode.''),
      (if maxthcallowed conf \<noteq> 0
       then ''Remote server throughput control is ENABLED. (max '' @ dec (nat (maxthcallowed conf)) @ '' bytes/sec)''
       else ''Remote server throughput control is DISABLED.'')] @
     (if maxthcallowed conf = 0 \<or> bit (of_int (maxthcallowed conf) :: byte) 5 then [extra_line] else []) @
     [payload_line (unat (packetsize conf))]"
proof -
  let ?text = "''fspd '' @ version" and ?v = "byte_char (version_flags conf)"
  define rb where "rb = recv_into old (reply_packet ub1 m n)"
  obtain r where r: "m = Suc (length ?text)" "n = length (version_extra conf)" "buf rb = ?text @ NUL # version_extra conf @ r"
      "unat (BB_READ2 (bb_len rb)) = m" "unat (BB_READ4 (bb_pos rb)) = n"
    using version_answer [OF assms(1,2), of old] by (auto simp: Let_def rb_def)
  have c: "cstr (buf rb) = ?text" using r(3) assms(2) by (simp add: cstr_append_NUL)
  have oct: "buf rb ! (m + k) = (version_extra conf @ r) ! k" for k by (simp add: r(1,3) nth_append)
  obtain p0 p1 where p: "BB_WRITE2 (packetsize conf) = (p0, p1)" by fastforce
  have ps: "BB_READ2 (p0, p1) = packetsize conf" using BB_READ2_WRITE2 [of "packetsize conf"] by (simp only: p)
  obtain a b c1 d where q: "BB_WRITE4 (of_int (maxthcallowed conf) :: u32) = (a, b, c1, d)" by (cases "BB_WRITE4 (of_int (maxthcallowed conf) :: u32)")
  note lim = limit_octets [OF assms(3,4) q]
  have hd: "buf rb ! m = ?v" using oct [of 0] by (simp add: version_extra_def)
  have fl: "flag_lines (has_bit ?v) l = flag_lines (has_bit ?v) (dec (nat (maxthcallowed conf)))" if "maxthcallowed conf = 0" for l
    using that version_flag_tests(5) [of conf] by (simp add: flag_lines_def)
  have "version_lines rb = (''Remote FSP version: fspd '' @ version) # flag_lines (has_bit ?v) (dec (nat (maxthcallowed conf))) @
     (if maxthcallowed conf = 0 \<or> bit (of_int (maxthcallowed conf) :: byte) 5 then [extra_line] else []) @
     [payload_line (unat (packetsize conf))]"
  proof (cases "maxthcallowed conf = 0")
    case True
    then have x: "version_extra conf = [?v, byte_char p0, byte_char p1]" by (simp add: version_extra_def p)
    have o': "buf rb ! (m + 1) = byte_char p0" "buf rb ! (m + 2) = byte_char p1" using oct [of 1] oct [of 2] by (simp_all add: x)
    have "\<not> has_bit ?v 0x10" "char_byte ?v AND 0x20 \<noteq> 0" using True version_flag_tests [of conf] by (simp_all add: has_bit_def)
    then show ?thesis
      using hd o' r(4,5) r(2) [unfolded x] ps fl c True
      by (simp add: version_lines_def Let_def del: BB_READ2.simps BB_READ4.simps)
  next
    case False
    have x: "version_extra conf = [?v, byte_char a, byte_char b, byte_char c1, byte_char d, byte_char p0, byte_char p1]"
      using False by (simp add: version_extra_def p q)
    have o': "buf rb ! (m + 1) = byte_char a" "buf rb ! (m + 2) = byte_char b" "buf rb ! (m + 3) = byte_char c1" "buf rb ! (m + 4) = byte_char d"
        "buf rb ! (m + 5) = byte_char p0" "buf rb ! (m + 6) = byte_char p1"
      using oct [of 1] oct [of 2] oct [of 3] oct [of 4] oct [of 5] oct [of 6] by (simp_all add: x)
    have "has_bit ?v 0x10" using False version_flag_tests by simp
    moreover have "d AND 0x20 \<noteq> 0 \<longleftrightarrow> bit (of_int (maxthcallowed conf) :: byte) 5" using has_bit_power [of d 5] by (simp add: lim(2) has_bit_def)
    ultimately show ?thesis
      using hd o' r(4,5) r(2) [unfolded x] ps lim(1) c False
      by (simp add: version_lines_def Let_def del: BB_READ2.simps BB_READ4.simps)
  qed
  then show ?thesis unfolding rb_def version_flag_lines by simp
qed

theorem version_report_witness:
  "\<exists>m n ub1 \<sigma>1. server_show_version (site_conf\<lparr> maxthcallowed := 1024, packetsize := 1024 \<rparr>) ''2.8'' (site_msg CC_VERSION) site_server = Some (Answer m n, ub1, \<sigma>1) \<and>
     version_lines (recv_into demo_old (reply_packet ub1 m n)) =
       [''Remote FSP version: fspd 2.8'', ''Logging of all server transactions is DISABLED.'',
        ''Remote server is run in READ/WRITE mode.'', ''Server '' @ not_required, ''Remote server is run in PUBLIC mode.'',
        ''Remote server throughput control is ENABLED. (max 1024 bytes/sec)'', ''Payload size prefered by server is 1024 bytes.'']"
proof -
  let ?conf = "site_conf\<lparr> maxthcallowed := 1024, packetsize := 1024 \<rparr>"
  obtain m n ub1 \<sigma>1 where s: "server_show_version ?conf ''2.8'' (site_msg CC_VERSION) site_server = Some (Answer m n, ub1, \<sigma>1)"
    by (simp add: server_show_version_def reply_def Let_def)
  have c: "logging site_conf = 0" "\<not> read_only site_conf" "\<not> no_unnamed site_conf" "\<not> priv_mode site_conf"
    "payload_line 1024 = ''Payload size prefered by server is 1024 bytes.''" "dec 1024 = ''1024''" by code_simp+
  have "version_lines (recv_into demo_old (reply_packet ub1 m n)) =
       [''Remote FSP version: fspd 2.8'', ''Logging of all server transactions is DISABLED.'',
        ''Remote server is run in READ/WRITE mode.'', ''Server '' @ not_required, ''Remote server is run in PUBLIC mode.'',
        ''Remote server throughput control is ENABLED. (max 1024 bytes/sec)'', ''Payload size prefered by server is 1024 bytes.'']"
    by (subst version_report [OF s]) (simp_all add: c)
  with s show ?thesis by blast
qed

subsection \<open>The rights of a directory\<close>

lemma flag_octet: "flag (ucast (ucast x :: byte)) (2 ^ k) \<longleftrightarrow> flag x (2 ^ k)" if "k < 8" for x :: u32
  using that by (simp add: flag_def and_exp_eq_0_iff_not_bit bit_simps)

definition rights_line :: "DIRINFO \<Rightarrow> string \<Rightarrow> string" where
  "rights_line d acc =
     ''owner: '' @ (if flag (protection d) DIR_OWNER \<or> first_char acc = CHR ''O'' then ''YOU'' else ''other'') @
     '', del: '' @ pro_letter (flag (protection d) DIR_DEL) @ '', create: '' @ pro_letter (flag (protection d) DIR_ADD) @
     '', mkdir: '' @ pro_letter (flag (protection d) DIR_MKDIR) @ '', get: '' @ pro_letter (flag (protection d) DIR_GET) @
     '', list: '' @ pro_letter (flag (protection d) DIR_LIST) @ '', rename: '' @ pro_letter (flag (protection d) DIR_RENAME) @ ''.''"

lemma flag_or: "flag (x OR y) k \<longleftrightarrow> flag x k \<or> flag y k"
  by (simp add: flag_def bit_eq_iff bit_simps) blast

lemma sent_flags:
  fixes p :: u32 and o' :: bool
  defines "f \<equiv> ucast (ucast (if o' then (p XOR DIR_GET) OR DIR_OWNER else p XOR DIR_GET) :: byte) :: u32"
  shows "flag f DIR_OWNER \<longleftrightarrow> flag p DIR_OWNER \<or> o'" "flag f DIR_DEL = flag p DIR_DEL" "flag f DIR_ADD = flag p DIR_ADD"
    "flag f DIR_MKDIR = flag p DIR_MKDIR" "flag f DIR_GET \<longleftrightarrow> \<not> flag p DIR_GET" "flag f DIR_LIST = flag p DIR_LIST"
    "flag f DIR_RENAME = flag p DIR_RENAME"
proof -
  have b: "flag x (2 ^ k) \<longleftrightarrow> bit x k" for x :: u32 and k by (simp add: flag_def and_exp_eq_0_iff_not_bit)
  have c: "bit f k \<longleftrightarrow> k < 8 \<and> (bit p k \<noteq> (k = 4) \<or> o' \<and> k = 0)" for k
  proof -
    have "bit (0x10 :: u32) k \<longleftrightarrow> k = 4" "bit (1 :: u32) k \<longleftrightarrow> k = 0" if "k < 8"
      using that bit_exp_iff [where 'a = u32, of 4 k] bit_exp_iff [where 'a = u32, of 0 k] by (auto simp: bit_1_iff)
    then show ?thesis by (auto simp: f_def bit_simps)
  qed
  show "flag f DIR_OWNER \<longleftrightarrow> flag p DIR_OWNER \<or> o'" "flag f DIR_DEL = flag p DIR_DEL" "flag f DIR_ADD = flag p DIR_ADD"
    "flag f DIR_MKDIR = flag p DIR_MKDIR" "flag f DIR_GET \<longleftrightarrow> \<not> flag p DIR_GET" "flag f DIR_LIST = flag p DIR_LIST"
    "flag f DIR_RENAME = flag p DIR_RENAME"
    using b [of _ 0] b [of _ 1] b [of _ 2] b [of _ 3] b [of _ 4] b [of _ 5] b [of _ 6] b [of _ 7] by (simp_all add: c)
qed

lemma pro_line_sent: "pro_line (ucast (char_byte (byte_char (ucast
    (if first_char acc = CHR ''O'' then (protection d XOR DIR_GET) OR DIR_OWNER else protection d XOR DIR_GET))))) = rights_line d acc"
  unfolding pro_line_def rights_line_def byte_char_inverse sent_flags by simp

text \<open>The rights a client is shown are those the server has: what \<open>print_pro\<close> prints of the protection the
  server sends is, for every right but the owner's, \<open>Y\<close> if the record of the directory has it and \<open>N\<close> if not, and
  \<open>YOU\<close> exactly for an owner; the bit for reading travels inverted and is turned back. Then the readme follows,
  without its line ends, but without its last character too.\<close>

theorem rights_are_shown:
  assumes "send_protection d acc ub \<sigma> = Some (Answer m n, ub1, \<sigma>1)" "\<forall>r. readme d = Some r \<longrightarrow> NUL \<notin> set r"
  shows "print_pro (recv_into old (reply_packet ub1 m n)) =
    (case readme d of
       Some r \<Rightarrow> if r = [] then Some [rights_line d acc] else map_option (\<lambda>t. [rights_line d acc, t]) (shown_readme r)
     | None \<Rightarrow> Some [rights_line d acc])"
proof -
  define rdm where "rdm = (case readme d of None \<Rightarrow> [] | Some r \<Rightarrow> r @ [NUL])"
  define x where "x = byte_char (ucast (if first_char acc = CHR ''O'' then (protection d XOR DIR_GET) OR DIR_OWNER else protection d XOR DIR_GET))"
  have a: "m = length rdm" "n = 1" "m + n \<le> UBUF_MAXSPACE" "ub1 = (put_buf ub 0 (rdm @ [x]))\<lparr> bb_pos := BB_WRITE4 1 \<rparr>"
    using assms(1) by (auto simp: send_protection_def server_get_pro_def reply_def Let_def rdm_def x_def split: if_splits)
  have dl: "m + n \<le> length (buf ub1)" using a by (simp add: put_buf_def memcpy_def)
  note r = reply_arrives [OF dl a(3), of old]
  let ?rb = "recv_into old (reply_packet ub1 m n)"
  have tb: "take (m + n) (buf ?rb) = rdm @ [x]" using r a(1,2,4) by (simp add: put_buf_def memcpy_def)
  then have "buf ?rb = (rdm @ [x]) @ drop (m + n) (buf ?rb)" by (metis append_take_drop_id)
  then have b: "buf ?rb = rdm @ x # drop (m + n) (buf ?rb)" by simp
  then have o': "buf ?rb ! m = x" by (metis a(1) nth_append_length)
  have len: "unat (BB_READ2 (bb_len ?rb)) = length rdm" using r a(1) by simp
  have pos: "BB_READ4 (bb_pos ?rb) = 1" using r a(4) by (simp add: BB_READ4_WRITE4)
  have c: "cstr (buf ?rb) = rr" if "readme d = Some rr" for rr
    using that assms(2) b by (metis append_Cons append_Nil append_assoc cstr_append_NUL option.simps(5) rdm_def)
  show ?thesis
    using o' len pos c a(1) pro_line_sent [of acc d]
    by (auto simp: print_pro_def Let_def x_def rdm_def split: option.splits)
qed

theorem rights_are_shown_witness:
  "\<exists>m n ub1 \<sigma>1. send_protection (zero_DIRINFO\<lparr> protection := DIR_LIST OR DIR_GET OR DIR_DEL, readme := Some ''Hi!'' \<rparr>) ''N'' (site_msg CC_GET_PRO) site_server =
       Some (Answer m n, ub1, \<sigma>1) \<and>
     print_pro (recv_into demo_old (reply_packet ub1 m n)) =
       Some [''owner: other, del: Y, create: N, mkdir: N, get: Y, list: Y, rename: N.'', ''Hi'']"
proof -
  let ?d = "zero_DIRINFO\<lparr> protection := DIR_LIST OR DIR_GET OR DIR_DEL, readme := Some ''Hi!'' \<rparr>"
  obtain m n ub1 \<sigma>1 where s: "send_protection ?d ''N'' (site_msg CC_GET_PRO) site_server = Some (Answer m n, ub1, \<sigma>1)"
    by (simp add: send_protection_def server_get_pro_def reply_def Let_def)
  have c: "rights_line ?d ''N'' = ''owner: other, del: Y, create: N, mkdir: N, get: Y, list: Y, rename: N.''"
    "shown_readme ''Hi!'' = Some ''Hi''" by code_simp+
  have "print_pro (recv_into demo_old (reply_packet ub1 m n)) =
      Some [''owner: other, del: Y, create: N, mkdir: N, get: Y, list: Y, rename: N.'', ''Hi'']"
    by (subst rights_are_shown [OF s]) (simp_all add: c [simplified])
  with s show ?thesis by blast
qed

end
