(* ===== verification/Locks.thy ===== *)
theory Locks
  imports FspPrelude
begin

text \<open>
  The locking of the client's session key, \<^verbatim>\<open>client/lock.c\<close>: clients on one machine that talk to the same
  server share the key of the session, and only the one that holds the lock may use it. The file has five
  versions, one of which is compiled in; each is a \<open>lock_method\<close> here.

  A system is a kernel and any number of clients. A client starts with \<open>client_init_key\<close>, takes the lock with
  \<open>client_get_key\<close>, lets it go with \<open>client_set_key\<close> and ends with \<open>client_destroy_key\<close>; every system call of
  these that others can notice is a step of its own, except that taking a lock and reading the key, and writing
  the key and unlocking, are one step each. A client may die at any time; then the kernel frees its file locks
  and undoes its semaphore operations. The key that \<open>ftok\<close> makes is the number of the file.
\<close>

subsection \<open>The name of the key file\<close>

definition code_str :: string where
  "code_str = ''0123456789:_ABCDEFGHIJKLMNOPQRSTUVWXYZabcdefghijklmnopqrstuvwxyz''"

definition code_char :: "u64 \<Rightarrow> char" where
  "code_char v = code_str ! unat (v AND 0x3f)"

definition make_key_string :: "u64 \<Rightarrow> u64 \<Rightarrow> string" where
  "make_key_string server_addr server_port =
     (let v1 = drop_bit 18 server_addr OR push_bit (32 - 3 * 6) server_port
      in ''/tmp/.FSPL'' @ [code_char server_addr, code_char (drop_bit 6 server_addr), code_char (drop_bit 12 server_addr)] @
         [code_char v1, code_char (drop_bit 6 v1), code_char (drop_bit 12 v1), code_char (drop_bit 18 v1), code_char (drop_bit 24 v1)])"

lemma code_str_distinct: "distinct code_str" "length code_str = 64"
  by code_simp+

lemma code_char_eq: "code_char v = code_char w \<longleftrightarrow> (\<forall>n < 6. bit v n \<longleftrightarrow> bit w n)"
proof -
  have m: "x AND 0x3f = take_bit 6 x" for x :: u64 by (simp add: take_bit_eq_mask mask_eq_exp_minus_1)
  have "unat (x AND 0x3f) < 64" for x :: u64
    using take_bit_nat_less_exp [of 6 "unat x"] by (simp add: m unsigned_take_bit_eq)
  then have "code_char v = code_char w \<longleftrightarrow> v AND 0x3f = w AND 0x3f"
    using code_str_distinct by (simp add: code_char_def nth_eq_iff_index_eq word_unat_eq_iff)
  also have "\<dots> \<longleftrightarrow> (\<forall>n < 64. n < 6 \<longrightarrow> (bit v n \<longleftrightarrow> bit w n))"
    by (simp add: m bit_eq_iff bit_take_bit_iff) blast
  also have "\<dots> \<longleftrightarrow> (\<forall>n < 6. bit v n \<longleftrightarrow> bit w n)" by (auto dest: less_trans [of _ 6 64])
  finally show ?thesis .
qed

text \<open>Every server has a key file of its own: the eight characters appended to the prefix of the file name
  tell the 32 bits of the address and the 16 bits of the port, so clients of different servers never wait for
  each other or use each other's key.\<close>

theorem key_names_are_distinct:
  assumes "make_key_string a p = make_key_string a' p'" "a < 2 ^ 32" "a' < 2 ^ 32" "p < 2 ^ 16" "p' < 2 ^ 16"
  shows "a = a' \<and> p = p'"
proof -
  let ?v = "drop_bit 18 a OR push_bit 14 p" and ?v' = "drop_bit 18 a' OR push_bit 14 p'"
  have hi: "\<not> bit x n" if "x < 2 ^ k" "k \<le> n" for x :: u64 and k n
  proof -
    have "x AND mask k = x" using that(1) by (rule less_mask_eq)
    then show ?thesis using that(2) by (metis bit_and_iff bit_mask_iff not_le)
  qed
  have c: "code_char a = code_char a'" "code_char (drop_bit 6 a) = code_char (drop_bit 6 a')"
    "code_char (drop_bit 12 a) = code_char (drop_bit 12 a')" "code_char ?v = code_char ?v'"
    "code_char (drop_bit 6 ?v) = code_char (drop_bit 6 ?v')" "code_char (drop_bit 12 ?v) = code_char (drop_bit 12 ?v')"
    "code_char (drop_bit 18 ?v) = code_char (drop_bit 18 ?v')" "code_char (drop_bit 24 ?v) = code_char (drop_bit 24 ?v')"
    using assms(1) by (simp_all add: make_key_string_def Let_def)
  have part: "bit x n \<longleftrightarrow> bit y n" if "code_char (drop_bit k x) = code_char (drop_bit k y)" "k \<le> n" "n < k + 6" for x y :: u64 and k n
    using that by (auto simp: code_char_eq bit_drop_bit_eq le_iff_add)
  have a: "bit a n \<longleftrightarrow> bit a' n" if "n < 18" for n
    using that part [of 0 a a' n] part [of 6 a a' n] part [of 12 a a' n] c by force
  have v: "bit ?v n \<longleftrightarrow> bit ?v' n" if "n < 30" for n
    using that part [of 0 ?v ?v' n] part [of 6 ?v ?v' n] part [of 12 ?v ?v' n] part [of 18 ?v ?v' n] part [of 24 ?v ?v' n] c by force
  show ?thesis
  proof (intro conjI bit_word_eqI)
    fix n :: nat
    assume n: "n < LENGTH(64)"
    have "n - 18 < 30 \<and> \<not> 14 \<le> n - 18" if "n < 32" using that by arith
    then show "bit a n \<longleftrightarrow> bit a' n"
      using a [of n] v [of "n - 18"] hi [OF assms(2), of n] hi [OF assms(3), of n] n
      by (cases "n < 18"; cases "n < 32") (auto simp: bit_or_iff bit_drop_bit_eq bit_push_bit_iff)
    show "bit p n \<longleftrightarrow> bit p' n"
      using v [of "n + 14"] hi [OF assms(4), of n] hi [OF assms(5), of n] hi [OF assms(2), of "n + 32"] hi [OF assms(3), of "n + 32"] n
      by (cases "n < 16") (auto simp: bit_or_iff bit_drop_bit_eq bit_push_bit_iff ac_simps)
  qed
qed

theorem key_names_are_distinct_witness:
  "make_key_string 0x0100007f 21 \<noteq> make_key_string 0x0100007f 22"
  using key_names_are_distinct [where a = "0x0100007f" and a' = "0x0100007f" and p = 21 and p' = 22] by auto

subsection \<open>Kernel and clients\<close>

text \<open>\<open>key_in\<close> is what the key files hold, nothing or a key; \<open>sems\<close> the two semaphores of a set and \<open>undo\<close> what the
  kernel adds to them when a client ends (\<open>SEM_UNDO\<close>).\<close>

record kernel =
  key_file :: "nat option"
  key_in :: "nat \<Rightarrow> u32 option"
  locked :: "nat \<Rightarrow> nat option"
  segment_of :: "nat \<Rightarrow> nat option"
  shared :: "nat \<Rightarrow> u32"
  sems_of :: "nat \<Rightarrow> nat option"
  sems :: "nat \<Rightarrow> (nat \<times> nat) option"
  undo :: "nat \<Rightarrow> nat \<Rightarrow> int \<times> int"
  next_id :: nat

datatype phase = Starting nat | Idle | Holding | Stopping nat | Gone

text \<open>The static variables of a client; \<open>own_key\<close> is the argument of \<open>client_init_key\<close>, the process number, and
  \<open>told\<close> what \<open>client_get_key\<close> returned.\<close>

record keeper =
  phase :: phase
  own_key :: u16
  lock_fd :: nat
  okey :: u32
  lock_key :: nat
  share_key :: nat
  lock_sem :: nat
  absent :: bool
  alone :: bool
  told :: u16

text \<open>A system call waits, is done, or fails, in which case the client exits.\<close>

datatype outcome = Waits | Done kernel keeper | Exits kernel

type_synonym act = "nat \<Rightarrow> kernel \<Rightarrow> keeper \<Rightarrow> outcome"

record lock_method =
  key_persists :: bool
  init_key :: "act list"
  get_key :: act
  set_key :: "u16 \<Rightarrow> act"
  destroy_key :: "act list"

text \<open>What becomes of the kernel when a client ends.\<close>

definition adjust :: "nat \<times> nat \<Rightarrow> int \<times> int \<Rightarrow> nat \<times> nat" where
  "adjust v u = (nat (int (fst v) + fst u), nat (int (snd v) + snd u))"

definition close_fd :: "nat \<Rightarrow> nat \<Rightarrow> kernel \<Rightarrow> kernel" where
  "close_fd i f k = k\<lparr> locked := (locked k)(f := (if locked k f = Some i then None else locked k f)) \<rparr>"

definition ended :: "nat \<Rightarrow> kernel \<Rightarrow> kernel" where
  "ended i k = k\<lparr> locked := (\<lambda>f. if locked k f = Some i then None else locked k f),
     sems := (\<lambda>s. map_option (\<lambda>v. adjust v (undo k s i)) (sems k s)),
     undo := (\<lambda>s. (undo k s)(i := (0, 0))) \<rparr>"

subsection \<open>The versions\<close>

text \<open>Opening the key file, which creates it if it is not there. That \<open>open\<close> may fail is ignored, in the code too.\<close>

definition open_key_file :: act where
  "open_key_file i k p =
     (case key_file k of
        Some f \<Rightarrow> Done k (p\<lparr> lock_fd := f \<rparr>)
      | None \<Rightarrow>
          let f = next_id k
          in Done (k\<lparr> key_file := Some f, key_in := (key_in k)(f := None), locked := (locked k)(f := None), next_id := Suc f \<rparr>)
               (p\<lparr> lock_fd := f \<rparr>))"

definition flock_init_key :: act where
  "flock_init_key i k p = open_key_file i k (p\<lparr> okey := ucast (own_key p) \<rparr>)"

text \<open>Reading a file without a key leaves \<open>okey\<close> as it is.\<close>

definition flock_get_key :: act where
  "flock_get_key i k p =
     (if locked k (lock_fd p) \<noteq> None then Waits
      else let o' = (case key_in k (lock_fd p) of Some c \<Rightarrow> c | None \<Rightarrow> okey p)
           in Done (k\<lparr> locked := (locked k)(lock_fd p \<mapsto> i) \<rparr>) (p\<lparr> okey := o', told := ucast o' \<rparr>))"

definition flock_set_key :: "u16 \<Rightarrow> act" where
  "flock_set_key nkey i k p =
     Done (k\<lparr> key_in := (key_in k)(lock_fd p \<mapsto> ucast nkey), locked := (locked k)(lock_fd p := None) \<rparr>) p"

definition flock_close :: act where
  "flock_close i k p = Done (close_fd i (lock_fd p) k) p"

definition flock_unlink :: act where
  "flock_unlink i k p = Done (k\<lparr> key_file := None \<rparr>) p"

definition flock :: lock_method where
  "flock = \<lparr> key_persists = True, init_key = [flock_init_key], get_key = flock_get_key, set_key = flock_set_key,
     destroy_key = [flock_close, flock_unlink] \<rparr>"

text \<open>The version for \<open>lockf\<close> differs in the calls that lock, which do the same for a whole file, and in the end: the file
  stays.\<close>

definition lockf :: lock_method where
  "lockf = \<lparr> key_persists = True, init_key = [flock_init_key], get_key = flock_get_key, set_key = flock_set_key,
     destroy_key = [flock_close] \<rparr>"

text \<open>A segment of shared memory for a file, created with zeros if there is none; \<open>shmget\<close> and \<open>shmat\<close> in one step.\<close>

definition attach :: act where
  "attach i k p =
     (case segment_of k (lock_key p) of
        Some s \<Rightarrow> Done k (p\<lparr> share_key := s \<rparr>)
      | None \<Rightarrow>
          let s = next_id k
          in Done (k\<lparr> segment_of := (segment_of k)(lock_key p \<mapsto> s), shared := (shared k)(s := 0), next_id := Suc s \<rparr>)
               (p\<lparr> share_key := s \<rparr>))"

definition make_key :: act where
  "make_key i k p = (case key_file k of None \<Rightarrow> Exits k | Some f \<Rightarrow> Done k (p\<lparr> lock_key := f \<rparr>))"

definition remove_segment :: "nat \<Rightarrow> kernel \<Rightarrow> kernel" where
  "remove_segment s k = k\<lparr> segment_of := (\<lambda>f. if segment_of k f = Some s then None else segment_of k f) \<rparr>"

definition shm_lockf_get_key :: act where
  "shm_lockf_get_key i k p =
     (if locked k (lock_fd p) \<noteq> None then Waits
      else Done (k\<lparr> locked := (locked k)(lock_fd p \<mapsto> i) \<rparr>) (p\<lparr> told := ucast (shared k (share_key p)) \<rparr>))"

definition shm_lockf_set_key :: "u16 \<Rightarrow> act" where
  "shm_lockf_set_key key i k p =
     Done (k\<lparr> shared := (shared k)(share_key p := ucast key), locked := (locked k)(lock_fd p := None) \<rparr>) p"

definition shm_remove :: act where
  "shm_remove i k p = Done (remove_segment (share_key p) k) p"

definition sharemem_lockf :: lock_method where
  "sharemem_lockf = \<lparr> key_persists = True, init_key = [open_key_file, make_key, attach], get_key = shm_lockf_get_key,
     set_key = shm_lockf_set_key, destroy_key = [flock_close, shm_remove] \<rparr>"

text \<open>No locking: every client has a key of its own.\<close>

definition own_init_key :: act where
  "own_init_key i k p = Done k (p\<lparr> okey := ucast (own_key p) \<rparr>)"

definition own_get_key :: act where
  "own_get_key i k p = Done k (p\<lparr> told := ucast (okey p) \<rparr>)"

definition own_set_key :: "u16 \<Rightarrow> act" where
  "own_set_key key i k p = Done k (p\<lparr> okey := ucast key \<rparr>)"

definition nolocking :: lock_method where
  "nolocking = \<lparr> key_persists = False, init_key = [own_init_key], get_key = own_get_key, set_key = own_set_key, destroy_key = [] \<rparr>"

text \<open>Semaphores: number 0 is the lock, number 1 counts the clients. Creating a set makes both zero, \<open>SETVAL\<close> also
  forgets what was to be undone.\<close>

definition semop :: "nat \<Rightarrow> nat \<Rightarrow> int \<times> int \<Rightarrow> kernel \<Rightarrow> kernel option" where
  "semop s i d k = (case sems k s of
     None \<Rightarrow> None
   | Some v \<Rightarrow> Some (k\<lparr> sems := (sems k)(s \<mapsto> adjust v d),
       undo := (undo k)(s := (undo k s)(i := (fst (undo k s i) - fst d, snd (undo k s i) - snd d))) \<rparr>))"

definition find_sems :: act where
  "find_sems i k p = (case sems_of k (lock_key p) of
     Some s \<Rightarrow> Done k (p\<lparr> lock_sem := s, absent := False \<rparr>) | None \<Rightarrow> Done k (p\<lparr> absent := True \<rparr>))"

definition create_sems :: act where
  "create_sems i k p =
     (if \<not> absent p then Done k p
      else (case sems_of k (lock_key p) of
              Some s \<Rightarrow> Done k (p\<lparr> lock_sem := s \<rparr>)
            | None \<Rightarrow>
                let s = next_id k
                in Done (k\<lparr> sems_of := (sems_of k)(lock_key p \<mapsto> s), sems := (sems k)(s \<mapsto> (0, 0)),
                     undo := (undo k)(s := (\<lambda>_. (0, 0))), next_id := Suc s \<rparr>) (p\<lparr> lock_sem := s \<rparr>)))"

definition setval :: act where
  "setval i k p =
     (if \<not> absent p then Done k p
      else (case sems k (lock_sem p) of
              None \<Rightarrow> Exits k
            | Some v \<Rightarrow> Done (k\<lparr> sems := (sems k)(lock_sem p \<mapsto> (1, snd v)),
                undo := (undo k)(lock_sem p := (\<lambda>j. (0, snd (undo k (lock_sem p) j)))) \<rparr>) p))"

definition first_key :: act where
  "first_key i k p = (if absent p then Done (k\<lparr> shared := (shared k)(share_key p := ucast (own_key p)) \<rparr>) p else Done k p)"

definition count_in :: act where
  "count_in i k p = (case semop (lock_sem p) i (0, 1) k of None \<Rightarrow> Exits k | Some k' \<Rightarrow> Done k' p)"

definition semop_get_key :: act where
  "semop_get_key i k p = (case sems k (lock_sem p) of
     None \<Rightarrow> Exits k
   | Some v \<Rightarrow> if fst v = 0 then Waits
       else Done (the (semop (lock_sem p) i (- 1, 0) k)) (p\<lparr> told := ucast (shared k (share_key p)) \<rparr>))"

definition semop_set_key :: "u16 \<Rightarrow> act" where
  "semop_set_key key i k p =
     (let k1 = k\<lparr> shared := (shared k)(share_key p := ucast key) \<rparr>
      in case semop (lock_sem p) i (1, 0) k1 of None \<Rightarrow> Exits k1 | Some k' \<Rightarrow> Done k' p)"

definition count_users :: act where
  "count_users i k p = (case sems k (lock_sem p) of None \<Rightarrow> Exits k | Some v \<Rightarrow> Done k (p\<lparr> alone := snd v = 1 \<rparr>))"

text \<open>The first of the three clean-ups that fails ends them.\<close>

definition remove_sems :: act where
  "remove_sems i k p =
     (if \<not> alone p then Done k p
      else if sems k (lock_sem p) = None then Done k (p\<lparr> alone := False \<rparr>)
      else Done (k\<lparr> sems := (sems k)(lock_sem p := None),
             sems_of := (\<lambda>f. if sems_of k f = Some (lock_sem p) then None else sems_of k f) \<rparr>) p)"

definition semop_shm_remove :: act where
  "semop_shm_remove i k p = Done (if alone p then remove_segment (share_key p) k else k) p"

definition semop_unlink :: act where
  "semop_unlink i k p = Done (if alone p then k\<lparr> key_file := None \<rparr> else k) p"

definition sharemem_semop :: lock_method where
  "sharemem_semop = \<lparr> key_persists = True,
     init_key = [open_key_file, make_key, attach, find_sems, create_sems, setval, first_key, count_in],
     get_key = semop_get_key, set_key = semop_set_key,
     destroy_key = [count_users, remove_sems, semop_shm_remove, semop_unlink] \<rparr>"

subsection \<open>Running them\<close>

type_synonym lock_system = "kernel \<times> (nat \<Rightarrow> keeper)"

text \<open>The next call of a client and the phase after it; \<open>key\<close> is what a holder will store.\<close>

fun next_act :: "lock_method \<Rightarrow> u16 \<Rightarrow> phase \<Rightarrow> (act \<times> phase) option" where
  "next_act m key (Starting n) =
     (if n < length (init_key m) then Some (init_key m ! n, if Suc n < length (init_key m) then Starting (Suc n) else Idle) else None)"
| "next_act m key Idle = Some (get_key m, Holding)"
| "next_act m key Holding = Some (set_key m key, Idle)"
| "next_act m key (Stopping n) = (if n < length (destroy_key m) then Some (destroy_key m ! n, Stopping (Suc n)) else None)"
| "next_act m key Gone = None"

text \<open>A client acts, decides to end, or dies.\<close>

datatype lock_event = Act nat u16 | Leave nat | Die nat

fun perform :: "lock_method \<Rightarrow> lock_event \<Rightarrow> lock_system \<Rightarrow> lock_system option" where
  "perform m (Act i key) (k, ps) =
     (case next_act m key (phase (ps i)) of
        None \<Rightarrow> None
      | Some (a, q) \<Rightarrow>
          (case a i k (ps i) of
             Waits \<Rightarrow> None
           | Done k' p' \<Rightarrow> Some (k', ps(i := p'\<lparr> phase := q \<rparr>))
           | Exits k' \<Rightarrow> Some (ended i k', ps(i := (ps i)\<lparr> phase := Gone \<rparr>))))"
| "perform m (Leave i) (k, ps) = (if phase (ps i) = Idle then Some (k, ps(i := (ps i)\<lparr> phase := Stopping 0 \<rparr>)) else None)"
| "perform m (Die i) (k, ps) = Some (ended i k, ps(i := (ps i)\<lparr> phase := Gone \<rparr>))"

fun run_locks :: "lock_method \<Rightarrow> lock_event list \<Rightarrow> lock_system \<Rightarrow> lock_system option" where
  "run_locks m [] s = Some s"
| "run_locks m (e # es) s = (case perform m e s of None \<Rightarrow> None | Some t \<Rightarrow> run_locks m es t)"

definition first_kernel :: kernel where
  "first_kernel = \<lparr> key_file = None, key_in = (\<lambda>_. None), locked = (\<lambda>_. None), segment_of = (\<lambda>_. None), shared = (\<lambda>_. 0),
     sems_of = (\<lambda>_. None), sems = (\<lambda>_. None), undo = (\<lambda>_ _. (0, 0)), next_id = 0 \<rparr>"

definition first_system :: "(nat \<Rightarrow> u16) \<Rightarrow> lock_system" where
  "first_system own = (first_kernel, \<lambda>i. \<lparr> phase = Starting 0, own_key = own i, lock_fd = 0, okey = 0, lock_key = 0,
     share_key = 0, lock_sem = 0, absent = False, alone = False, told = 0 \<rparr>)"

inductive reachable :: "lock_method \<Rightarrow> lock_system \<Rightarrow> bool" for m where
  first: "reachable m (first_system own)"
| step: "reachable m s \<Longrightarrow> perform m e s = Some t \<Longrightarrow> reachable m t"

definition holding :: "lock_system \<Rightarrow> nat \<Rightarrow> bool" where
  "holding s i \<longleftrightarrow> phase (snd s i) = Holding"

lemma run_locks_reachable: "reachable m s \<Longrightarrow> run_locks m es s = Some t \<Longrightarrow> reachable m t"
  by (induction es arbitrary: s) (auto split: option.splits intro: reachable.step)

subsection \<open>Methods that lock one file\<close>

text \<open>What it takes for a method to keep clients apart: the file, once there, keeps its name; every client opens it
  first and keeps that descriptor; getting the key waits until the file is not locked and locks it; and only setting
  the key or ending unlocks it.\<close>

definition same_lock :: "kernel \<Rightarrow> keeper \<Rightarrow> kernel \<Rightarrow> keeper \<Rightarrow> bool" where
  "same_lock k p k' p' \<longleftrightarrow> key_file k' = key_file k \<and> locked k' = locked k \<and> lock_fd p' = lock_fd p"

locale file_lock =
  fixes m :: lock_method
  assumes opened: "init_key m \<noteq> []" "hd (init_key m) i k p = Done k' p' \<Longrightarrow>
      key_file k' = Some (lock_fd p') \<and> (\<forall>f. key_file k = Some f \<longrightarrow> f = lock_fd p') \<and>
      (\<forall>f j. locked k' f = Some j \<longrightarrow> locked k f = Some j) \<and> (\<forall>f. key_file k = Some f \<longrightarrow> locked k' = locked k)"
    and prepared: "a \<in> set (tl (init_key m)) \<Longrightarrow> a i k p = Done k' p' \<Longrightarrow> same_lock k p k' p'"
    and got: "get_key m i k p = Done k' p' \<Longrightarrow> locked k (lock_fd p) = None \<and>
      same_lock (k\<lparr> locked := (locked k)(lock_fd p \<mapsto> i) \<rparr>) p k' p'"
    and put: "set_key m key i k p = Done k' p' \<Longrightarrow> same_lock (k\<lparr> locked := (locked k)(lock_fd p := None) \<rparr>) p k' p'"
    and closed: "a \<in> set (destroy_key m) \<Longrightarrow> a i k p = Done k' p' \<Longrightarrow> key_file k' = key_file k \<and>
      (\<forall>f. locked k' f = locked k f \<or> locked k f = Some i \<and> locked k' f = None)"
    and failed: "a \<in> set (init_key m) \<union> {get_key m, set_key m key} \<union> set (destroy_key m) \<Longrightarrow> a i k p = Exits k' \<Longrightarrow>
      key_file k' = key_file k \<and> locked k' = locked k"
begin

definition opened_phase :: "phase \<Rightarrow> bool" where
  "opened_phase q \<longleftrightarrow> (case q of Starting n \<Rightarrow> n \<noteq> 0 | Idle \<Rightarrow> True | Holding \<Rightarrow> True | _ \<Rightarrow> False)"

lemma opened_phase_simps [simp]: "opened_phase (Starting n) \<longleftrightarrow> n \<noteq> 0" "opened_phase Idle" "opened_phase Holding"
  "\<not> opened_phase (Stopping n)" "\<not> opened_phase Gone"
  by (simp_all add: opened_phase_def)

definition apart :: "lock_system \<Rightarrow> bool" where
  "apart s \<longleftrightarrow> (\<forall>i. opened_phase (phase (snd s i)) \<longrightarrow> key_file (fst s) = Some (lock_fd (snd s i))) \<and>
     (\<forall>i. phase (snd s i) = Holding \<longrightarrow> locked (fst s) (lock_fd (snd s i)) = Some i)"

lemma apart_first: "apart (first_system own)"
  by (simp add: apart_def first_system_def)

lemma apartD: "apart (k, ps) \<Longrightarrow> opened_phase (phase (ps i)) \<Longrightarrow> key_file k = Some (lock_fd (ps i))"
  "apart (k, ps) \<Longrightarrow> phase (ps i) = Holding \<Longrightarrow> key_file k = Some (lock_fd (ps i)) \<and> locked k (lock_fd (ps i)) = Some i"
  by (auto simp: apart_def)

lemma apart_update:
  assumes "apart (k, ps)" "\<And>f. key_file k = Some f \<Longrightarrow> key_file k' = Some f"
    and "\<And>j f. j \<noteq> i \<Longrightarrow> key_file k = Some f \<Longrightarrow> locked k f = Some j \<Longrightarrow> locked k' f = Some j"
    and "opened_phase (phase p') \<Longrightarrow> key_file k' = Some (lock_fd p')"
    and "phase p' = Holding \<Longrightarrow> locked k' (lock_fd p') = Some i"
  shows "apart (k', ps(i := p'))"
  unfolding apart_def
proof (intro conjI allI impI)
  fix j
  show "key_file (fst (k', ps(i := p'))) = Some (lock_fd (snd (k', ps(i := p')) j))"
    if "opened_phase (phase (snd (k', ps(i := p')) j))"
    using that assms(2,4) apartD(1) [OF assms(1), of j] by (cases "j = i") auto
  show "locked (fst (k', ps(i := p'))) (lock_fd (snd (k', ps(i := p')) j)) = Some j" if "phase (snd (k', ps(i := p')) j) = Holding"
    using that assms(3,5) apartD(2) [OF assms(1), of j] by (cases "j = i") auto
qed

lemma apart_ended:
  assumes "apart (k, ps)" "key_file k' = key_file k" "locked k' = locked k"
  shows "apart (ended i k', ps(i := (ps i)\<lparr> phase := Gone \<rparr>))"
  by (rule apart_update [OF assms(1)]) (use assms(2,3) in \<open>simp_all add: ended_def\<close>)

lemma apart_started:
  assumes "apart (k, ps)" "hd (init_key m) i k (ps i) = Done k' p'" "q \<noteq> Holding"
  shows "apart (k', ps(i := p'\<lparr> phase := q \<rparr>))"
proof (rule apart_update [OF assms(1)])
  note o = opened(2) [OF assms(2)]
  show "key_file k' = Some f" if "key_file k = Some f" for f using o that by blast
  show "locked k' f = Some j" if "key_file k = Some f" "locked k f = Some j" for f j using o that by metis
qed (use opened(2) [OF assms(2)] assms(3) in simp_all)

lemma apart_kept:
  assumes "apart (k, ps)" "same_lock k (ps i) k' p'" "opened_phase (phase (ps i))" "q \<noteq> Holding"
  shows "apart (k', ps(i := p'\<lparr> phase := q \<rparr>))"
  by (rule apart_update [OF assms(1)]) (use assms(2,4) apartD(1) [OF assms(1,3)] in \<open>simp_all add: same_lock_def\<close>)

lemma apart_got:
  assumes "apart (k, ps)" "get_key m i k (ps i) = Done k' p'" "phase (ps i) = Idle"
  shows "apart (k', ps(i := p'\<lparr> phase := Holding \<rparr>))"
proof -
  have "key_file k = Some (lock_fd (ps i))" using apartD(1) [OF assms(1), of i] assms(3) by simp
  with got [OF assms(2)] show ?thesis
    by (intro apart_update [OF assms(1)]) (auto simp: same_lock_def)
qed

lemma apart_put:
  assumes "apart (k, ps)" "set_key m key i k (ps i) = Done k' p'" "phase (ps i) = Holding"
  shows "apart (k', ps(i := p'\<lparr> phase := Idle \<rparr>))"
  using put [OF assms(2)] apartD(2) [OF assms(1,3)]
  by (intro apart_update [OF assms(1)]) (auto simp: same_lock_def)

lemma apart_closed:
  assumes "apart (k, ps)" "a \<in> set (destroy_key m)" "a i k (ps i) = Done k' p'"
  shows "apart (k', ps(i := p'\<lparr> phase := Stopping n \<rparr>))"
proof (rule apart_update [OF assms(1)])
  fix j f
  assume "j \<noteq> i" "locked k f = Some j"
  then show "locked k' f = Some j" using closed [OF assms(2,3)] by (metis option.inject)
qed (use closed [OF assms(2,3)] in simp_all)

lemma apart_done:
  assumes "apart (k, ps)" "next_act m key (phase (ps i)) = Some (a, q)" "a i k (ps i) = Done k' p'"
  shows "apart (k', ps(i := p'\<lparr> phase := q \<rparr>))"
proof (cases "phase (ps i)")
  case (Starting n)
  then have a: "n < length (init_key m)" "a = init_key m ! n" "q \<noteq> Holding" using assms(2) by (auto split: if_splits)
  show ?thesis
  proof (cases n)
    case 0
    with a assms(3) opened(1) show ?thesis by (intro apart_started [OF assms(1)]) (simp_all add: hd_conv_nth)
  next
    case (Suc n')
    with a(1,2) have "a \<in> set (tl (init_key m))" by (auto simp: in_set_conv_nth nth_tl intro!: exI [of _ n'])
    from apart_kept [OF assms(1) prepared [OF this assms(3)]] Starting Suc a(3) show ?thesis by simp
  qed
next
  case Idle
  then show ?thesis using assms(2,3) by (auto intro: apart_got [OF assms(1)])
next
  case Holding
  then show ?thesis using assms(2,3) by (auto intro: apart_put [OF assms(1)])
next
  case (Stopping n)
  then have "a \<in> set (destroy_key m)" "q = Stopping (Suc n)" using assms(2) by (auto split: if_splits)
  with apart_closed [OF assms(1), of a i k' p'] assms(3) show ?thesis by simp
next
  case Gone
  with assms(2) show ?thesis by simp
qed

lemma next_act_in: "next_act m key ph = Some (a, q) \<Longrightarrow> a \<in> set (init_key m) \<union> {get_key m, set_key m key} \<union> set (destroy_key m)"
  by (cases ph) (auto split: if_splits)

lemma apart_act:
  assumes "apart (k, ps)" "perform m (Act i key) (k, ps) = Some t"
  shows "apart t"
proof -
  obtain a q where a: "next_act m key (phase (ps i)) = Some (a, q)" using assms(2) by (auto split: option.splits)
  show ?thesis
  proof (cases "a i k (ps i)")
    case (Done k' p')
    with assms(2) a apart_done [OF assms(1) a Done] show ?thesis by simp
  next
    case (Exits k')
    from failed [OF next_act_in [OF a] this] have "key_file k' = key_file k" "locked k' = locked k" by simp_all
    from apart_ended [OF assms(1) this] assms(2) a Exits show ?thesis by auto
  qed (use assms(2) a in simp)
qed

lemma apart_perform: "apart s \<Longrightarrow> perform m e s = Some t \<Longrightarrow> apart t"
proof (cases e)
  case (Leave i)
  assume "apart s" "perform m e s = Some t"
  with Leave show ?thesis
    by (cases s) (auto split: if_splits intro: apart_update)
next
  case (Die i)
  assume "apart s" "perform m e s = Some t"
  with Die show ?thesis by (cases s) (auto intro: apart_ended)
qed (cases s, auto intro: apart_act simp del: perform.simps)

lemma apart_reachable: "reachable m s \<Longrightarrow> apart s"
  by (induction rule: reachable.induct) (auto intro: apart_first apart_perform)

lemma exclusive:
  assumes "reachable m s" "holding s i" "holding s j"
  shows "i = j"
proof -
  have "apart (fst s, snd s)" using apart_reachable [OF assms(1)] by simp
  from apartD(2) [OF this, of i] apartD(2) [OF this, of j] show ?thesis using assms(2,3) by (simp add: holding_def)
qed

end

interpretation lockf: file_lock lockf
  by unfold_locales
    (auto simp: lockf_def flock_init_key_def open_key_file_def flock_get_key_def flock_set_key_def flock_close_def close_fd_def
      same_lock_def Let_def split: option.splits if_splits)

lemmas shm_lockf_acts = open_key_file_def make_key_def attach_def shm_lockf_get_key_def shm_lockf_set_key_def flock_close_def
  close_fd_def shm_remove_def remove_segment_def

interpretation shm_lockf: file_lock sharemem_lockf
  by unfold_locales
    (auto simp: sharemem_lockf_def shm_lockf_acts same_lock_def Let_def split: option.splits if_splits)

subsection \<open>What holds\<close>

text \<open>C29: with \<open>lockf\<close>, on the key file alone or beside shared memory, never two clients hold the key at the same time:
  whatever the clients do, in any order, also if some of them end or die in the middle of anything.\<close>

theorem one_client_holds_the_key:
  assumes "reachable lockf s \<or> reachable sharemem_lockf s" "holding s i" "holding s j"
  shows "i = j"
  using assms(1) lockf.exclusive [OF _ assms(2,3)] shm_lockf.exclusive [OF _ assms(2,3)] by blast

theorem one_client_holds_the_key_witness:
  "\<exists>s. run_locks sharemem_lockf [Act 4 0, Act 4 0, Act 5 0, Act 5 0, Act 4 0, Act 4 0, Act 5 0] (first_system (\<lambda>i. of_nat i)) = Some s \<and>
     holding s 4 \<and> (\<forall>j. holding s j \<longrightarrow> j = 4)"
proof -
  let ?r = "run_locks sharemem_lockf [Act 4 0, Act 4 0, Act 5 0, Act 5 0, Act 4 0, Act 4 0, Act 5 0] (first_system (\<lambda>i. of_nat i))"
  have h: "case ?r of Some s \<Rightarrow> holding s 4 | None \<Rightarrow> False" by code_simp
  then obtain s where s: "?r = Some s" "holding s 4" by (cases ?r) auto
  have "reachable sharemem_lockf s" by (rule run_locks_reachable [OF reachable.first s(1)])
  with one_client_holds_the_key [of s] s show ?thesis by blast
qed

text \<open>What \<open>lockf\<close> stands for: a cell with a key and at most one holder.\<close>

record cell =
  holder :: "nat option"
  key :: "u16 option"

inductive cell_step :: "cell \<Rightarrow> cell \<Rightarrow> bool" where
  stay: "cell_step c c"
| take: "holder c = None \<Longrightarrow> cell_step c (c\<lparr> holder := Some i \<rparr>)"
| give: "holder c = Some i \<Longrightarrow> cell_step c (c\<lparr> holder := None, key := Some n \<rparr>)"
| lose: "holder c = Some i \<Longrightarrow> cell_step c (c\<lparr> holder := None \<rparr>)"

definition cell_of :: "lock_system \<Rightarrow> cell" where
  "cell_of s = (case key_file (fst s) of
     None \<Rightarrow> \<lparr> holder = None, key = None \<rparr>
   | Some f \<Rightarrow> \<lparr> holder = locked (fst s) f, key = map_option ucast (key_in (fst s) f) \<rparr>)"

lemma cell_ended: "cell_step (cell_of (k, ps)) (cell_of (ended i k, ps'))"
proof (cases "key_file k")
  case None
  then show ?thesis by (simp add: cell_of_def ended_def cell_step.stay)
next
  case (Some f)
  have "cell_step \<lparr> holder = Some i, key = c \<rparr> \<lparr> holder = None, key = c \<rparr>" for c
    using cell_step.lose [of "\<lparr> holder = Some i, key = c \<rparr>" i] by simp
  with Some show ?thesis by (simp add: cell_of_def ended_def cell_step.stay)
qed

lemma cell_closed: "cell_step (cell_of (k, ps)) (cell_of (close_fd i f k, ps'))"
proof -
  have "cell_step \<lparr> holder = Some i, key = c \<rparr> \<lparr> holder = None, key = c \<rparr>" for c
    using cell_step.lose [of "\<lparr> holder = Some i, key = c \<rparr>" i] by simp
  then show ?thesis by (auto simp: cell_of_def close_fd_def split: option.splits intro: cell_step.stay)
qed

lemma cell_opened: "open_key_file i k p = Done k' p' \<Longrightarrow> cell_of (k', ps') = cell_of (k, ps)"
  by (auto simp: open_key_file_def cell_of_def Let_def split: option.splits)

lemma cell_taken:
  assumes "flock_get_key i k p = Done k' p'" "key_file k = Some (lock_fd p)"
  shows "cell_step (cell_of (k, ps)) (cell_of (k', ps')) \<and>
    (\<forall>n. key (cell_of (k, ps)) = Some n \<longrightarrow> told p' = n)"
  using assms cell_step.take [of "cell_of (k, ps)" i]
  by (auto simp: flock_get_key_def cell_of_def Let_def split: if_splits option.splits)

lemma key_in_file: "(ucast (ucast n :: u32) :: u16) = n" for n :: u16
  by (rule bit_word_eqI) (simp add: bit_simps)

lemma cell_given:
  assumes "flock_set_key n i k p = Done k' p'" "key_file k = Some (lock_fd p)" "locked k (lock_fd p) = Some i"
  shows "cell_step (cell_of (k, ps)) (cell_of (k', ps')) \<and> cell_of (k', ps') = \<lparr> holder = None, key = Some n \<rparr>"
  using assms cell_step.give [of "cell_of (k, ps)" i n]
  by (auto simp: flock_set_key_def cell_of_def key_in_file)

definition cell_does :: "lock_event \<Rightarrow> lock_system \<Rightarrow> lock_system \<Rightarrow> bool" where
  "cell_does e s t \<longleftrightarrow> cell_step (cell_of s) (cell_of t) \<and>
    (\<forall>i n. \<not> holding s i \<longrightarrow> holding t i \<longrightarrow> key (cell_of s) = Some n \<longrightarrow> told (snd t i) = n) \<and>
    (\<forall>i n. e = Act i n \<longrightarrow> holding s i \<longrightarrow> cell_of t = \<lparr> holder = None, key = Some n \<rparr>)"

lemma cell_unchanged:
  assumes "cell_of t = cell_of s" "\<And>i. holding t i \<Longrightarrow> holding s i" "\<And>i n. e = Act i n \<Longrightarrow> \<not> holding s i"
  shows "cell_does e s t"
  using assms by (auto simp: cell_does_def intro: cell_step.stay)

lemma lockf_act_idle:
  assumes "phase (ps i) = Idle" "perform lockf (Act i n) (k, ps) = Some t" "key_file k = Some (lock_fd (ps i))"
  shows "cell_does (Act i n) (k, ps) t"
proof -
  obtain k' p' where "flock_get_key i k (ps i) = Done k' p'" "t = (k', ps(i := p'\<lparr> phase := Holding \<rparr>))"
    using assms(1,2) by (auto simp: lockf_def flock_get_key_def Let_def split: if_splits)
  with cell_taken [OF this(1) assms(3)] assms(1) show ?thesis by (auto simp: cell_does_def holding_def)
qed

lemma lockf_act_holding:
  assumes "phase (ps i) = Holding" "perform lockf (Act i n) (k, ps) = Some t"
    and "key_file k = Some (lock_fd (ps i)) \<and> locked k (lock_fd (ps i)) = Some i"
  shows "cell_does (Act i n) (k, ps) t"
proof -
  obtain k' p' where k': "flock_set_key n i k (ps i) = Done k' p'" "t = (k', ps(i := p'\<lparr> phase := Idle \<rparr>))"
    using assms(1,2) by (auto simp: lockf_def flock_set_key_def)
  then have "cell_step (cell_of (k, ps)) (cell_of t)" "cell_of t = \<lparr> holder = None, key = Some n \<rparr>"
    using cell_given [OF k'(1)] assms(3) by blast+
  then show ?thesis using k'(2) by (auto simp: cell_does_def holding_def)
qed

lemma lockf_act_starting:
  assumes "phase (ps i) = Starting j" "perform lockf (Act i n) (k, ps) = Some t"
  shows "cell_does (Act i n) (k, ps) t"
proof -
  have "j = 0" using assms by (auto simp: lockf_def split: if_splits option.splits)
  then obtain k' p' where "open_key_file i k ((ps i)\<lparr> okey := ucast (own_key (ps i)) \<rparr>) = Done k' p'" "t = (k', ps(i := p'\<lparr> phase := Idle \<rparr>))"
    using assms by (auto simp: lockf_def flock_init_key_def open_key_file_def Let_def split: option.splits)
  moreover from cell_opened [OF this(1)] this(2) have "cell_of t = cell_of (k, ps)" by blast
  ultimately show ?thesis using assms(1) by (auto simp: holding_def split: if_splits intro: cell_unchanged)
qed

lemma lockf_act_stopping:
  assumes "phase (ps i) = Stopping j" "perform lockf (Act i n) (k, ps) = Some t"
  shows "cell_does (Act i n) (k, ps) t"
proof -
  have "t = (close_fd i (lock_fd (ps i)) k, ps(i := (ps i)\<lparr> phase := Stopping (Suc j) \<rparr>))"
    using assms by (auto simp: lockf_def flock_close_def split: if_splits)
  with assms(1) cell_closed show ?thesis by (auto simp: cell_does_def holding_def)
qed

text \<open>C30: with \<open>lockf\<close> the clients share one key: whatever a client does, seen from the others the lock and the key file
  do a step of the cell, in which only the holder changes the key and a new holder comes only after the last one let
  go or ended; who takes the lock is told the key in the cell, and who gives it back leaves the key it names.\<close>

theorem lockf_refines_cell:
  assumes "reachable lockf s" "perform lockf e s = Some t"
  shows "cell_step (cell_of s) (cell_of t) \<and>
    (\<forall>i n. \<not> holding s i \<longrightarrow> holding t i \<longrightarrow> key (cell_of s) = Some n \<longrightarrow> told (snd t i) = n) \<and>
    (\<forall>i n. e = Act i n \<longrightarrow> holding s i \<longrightarrow> cell_of t = \<lparr> holder = None, key = Some n \<rparr>)"
proof -
  obtain k ps where s: "s = (k, ps)" by fastforce
  note ap = lockf.apartD [OF lockf.apart_reachable [OF assms(1), unfolded s]]
  have "cell_does e s t"
  proof (cases e)
    case (Act i n)
    note p = assms(2) [unfolded Act s]
    show ?thesis unfolding Act s
      by (cases "phase (ps i)")
        (use p ap [of i] in \<open>auto intro: lockf_act_starting lockf_act_idle lockf_act_holding lockf_act_stopping simp del: perform.simps\<close>, simp)
  next
    case (Leave i)
    then have t: "t = (k, ps(i := (ps i)\<lparr> phase := Stopping 0 \<rparr>))" using assms(2) s by (auto split: if_splits)
    then have "cell_of t = cell_of s" by (simp only: s cell_of_def fst_conv)
    with s t Leave show ?thesis by (auto simp: holding_def split: if_splits intro: cell_unchanged)
  next
    case (Die i)
    then have "t = (ended i k, ps(i := (ps i)\<lparr> phase := Gone \<rparr>))" using assms(2) s by auto
    with s Die cell_ended show ?thesis by (auto simp: cell_does_def holding_def)
  qed
  then show ?thesis by (simp add: cell_does_def)
qed

theorem lockf_refines_cell_witness:
  "\<exists>s t. run_locks lockf [Act 4 0, Act 5 0, Act 4 0, Act 4 77] (first_system (\<lambda>i. of_nat i)) = Some s \<and>
     perform lockf (Act 5 0) s = Some t \<and> holding t 5 \<and> told (snd t 5) = 77"
proof -
  let ?r = "run_locks lockf [Act 4 0, Act 5 0, Act 4 0, Act 4 77] (first_system (\<lambda>i. of_nat i))"
  have h: "case ?r of None \<Rightarrow> False | Some s \<Rightarrow> \<not> holding s 5 \<and> key (cell_of s) = Some 77 \<and>
     (case perform lockf (Act 5 0) s of None \<Rightarrow> False | Some t \<Rightarrow> holding t 5)" by code_simp
  then obtain s t where s: "?r = Some s" "\<not> holding s 5" "key (cell_of s) = Some 77" "perform lockf (Act 5 0) s = Some t" "holding t 5"
    by (auto split: option.splits)
  have "reachable lockf s" by (rule run_locks_reachable [OF reachable.first s(1)])
  from lockf_refines_cell [OF this s(4)] s show ?thesis by blast
qed

subsection \<open>What does not hold\<close>

text \<open>The other versions do not keep the clients apart. With \<open>flock\<close> a client that ends removes the name of the file
  that others have open, so the next client locks another file; with semaphores two clients that start together both
  find no semaphore, and the second sets it to free while the first holds it. In both systems two clients reach the
  state of holding the key. With \<open>lockf\<close> and shared memory the memory is removed when any client ends, so
  a client that starts then is told 0 and not the key 77 the others use.\<close>

theorem other_methods_fail:
  "(\<exists>s. reachable flock s \<and> holding s 0 \<and> holding s 2) \<and>
   (\<exists>s. reachable sharemem_semop s \<and> holding s 0 \<and> holding s 1) \<and>
   (\<exists>s. reachable sharemem_lockf s \<and> holding s 2 \<and> told (snd s 2) = 0 \<and> phase (snd s 0) = Idle \<and>
      shared (fst s) (share_key (snd s 0)) = 77)"
proof (intro conjI)
  let ?s = "first_system (\<lambda>i. of_nat i)"
  have r: "\<exists>s. reachable m s \<and> P s" if "case run_locks m es ?s of None \<Rightarrow> False | Some s \<Rightarrow> P s" for m es P
    using that by (auto split: option.splits intro: run_locks_reachable [OF reachable.first])
  have "case run_locks flock [Act 0 0, Act 1 0, Leave 1, Act 1 0, Act 1 0, Act 2 0, Act 0 0, Act 2 0] ?s of
      None \<Rightarrow> False | Some s \<Rightarrow> holding s 0 \<and> holding s 2" by code_simp
  then show "\<exists>s. reachable flock s \<and> holding s 0 \<and> holding s 2" by (rule r)
  have "case run_locks sharemem_semop ([Act 0 0, Act 0 0, Act 0 0, Act 0 0, Act 1 0, Act 1 0, Act 1 0, Act 1 0] @
        replicate 5 (Act 0 0) @ replicate 5 (Act 1 0)) ?s of
      None \<Rightarrow> False | Some s \<Rightarrow> holding s 0 \<and> holding s 1" by code_simp
  then show "\<exists>s. reachable sharemem_semop s \<and> holding s 0 \<and> holding s 1" by (rule r)
  have "case run_locks sharemem_lockf [Act 0 0, Act 0 0, Act 0 0, Act 0 0, Act 0 77, Act 1 0, Act 1 0, Act 1 0, Leave 1, Act 1 0, Act 1 0,
        Act 2 0, Act 2 0, Act 2 0, Act 2 0] ?s of
      None \<Rightarrow> False
    | Some s \<Rightarrow> holding s 2 \<and> told (snd s 2) = 0 \<and> phase (snd s 0) = Idle \<and> shared (fst s) (share_key (snd s 0)) = 77" by code_simp
  then show "\<exists>s. reachable sharemem_lockf s \<and> holding s 2 \<and> told (snd s 2) = 0 \<and> phase (snd s 0) = Idle \<and>
      shared (fst s) (share_key (snd s 0)) = 77" by (rule r)
qed

end
