(* ===== verification/Glob.thy ===== *)
theory Glob
  imports ClientTree
begin

text \<open>
  File name patterns: \<open>bsdglob\<close> of \<^verbatim>\<open>bsd_src/glob.c\<close>, the expansion of \<open>*\<close>, \<open>?\<close>, \<open>[...]\<close> and \<open>{...}\<close> over the
  remote tree.

  The static variables are the record \<open>glob_state\<close>; \<open>rde\<close> is the name in the one static record that
  \<open>util_readdir\<close> fills for all open directories. A pointer into a string is the rest of the string, the zero at its
  end the empty list. \<open>gpathp\<close> always points to the end of \<open>gpath\<close>. \<open>None\<close> is undefined behaviour or a
  conversation that does not come back. The recursion ends because patterns get shorter.
\<close>

subsection \<open>The argument list\<close>

record glob_state =
  gpath :: string
  gargv :: "string list"
  gnleft :: int
  globerr :: "string option"
  globcnt :: nat
  globbed :: bool
  entp :: string
  sortbas :: nat
  rde :: string

type_synonym 's globbing = "glob_state \<times> session \<times> 's"

abbreviation (input) NCARGS :: int where "NCARGS \<equiv> 131072"
abbreviation (input) GAVSIZ :: nat where "GAVSIZ \<equiv> 21845"
abbreviation (input) BUFSIZ :: nat where "BUFSIZ \<equiv> 8192"

definition globchar :: "char \<Rightarrow> bool" where
  "globchar c \<longleftrightarrow> c \<in> set ''`{[*?''"

definition addpath :: "char \<Rightarrow> glob_state \<Rightarrow> glob_state" where
  "addpath c g =
     (if length (gpath g) \<ge> BUFSIZ - 2 then g\<lparr> globerr := Some ''Pathname too long'' \<rparr> else g\<lparr> gpath := gpath g @ [c] \<rparr>)"

definition Gcat :: "string \<Rightarrow> string \<Rightarrow> glob_state \<Rightarrow> glob_state" where
  "Gcat s1 s2 g =
     (let len = int (length s1 + length s2 + 1)
      in if len \<ge> gnleft g \<or> length (gargv g) \<ge> GAVSIZ - 1 then g\<lparr> globerr := Some ''Arguments too long'' \<rparr>
         else g\<lparr> gnleft := gnleft g - len, gargv := gargv g @ [s1 @ s2] \<rparr>)"

text \<open>Sorting by exchange: one pass brings the least of the rest to the front.\<close>

fun least_first :: "string \<Rightarrow> string list \<Rightarrow> string \<times> string list" where
  "least_first p1 [] = (p1, [])"
| "least_first p1 (p2 # ps) =
     (if strcmp p1 p2 > 0 then let (m, qs) = least_first p2 ps in (m, p1 # qs)
      else let (m, qs) = least_first p1 ps in (m, p2 # qs))"

lemma length_least_first [simp]: "length (snd (least_first p ps)) = length ps"
  by (induction p ps rule: least_first.induct) (auto split: prod.splits)

function exchange_sort :: "string list \<Rightarrow> string list" where
  "exchange_sort [] = []"
| "exchange_sort (p # ps) = fst (least_first p ps) # exchange_sort (snd (least_first p ps))"
  by pat_completeness auto
termination by (relation "measure length") simp_all

definition sort_args :: "glob_state \<Rightarrow> glob_state" where
  "sort_args g = g\<lparr> gargv := take (sortbas g) (gargv g) @ exchange_sort (drop (sortbas g) (gargv g)), sortbas := length (gargv g) \<rparr>"

subsection \<open>Parts of a pattern\<close>

definition trimmed :: "string \<Rightarrow> nat" where
  "trimmed s = (case s of [] \<Rightarrow> 0 | c # _ \<Rightarrow> of_char c mod 128)"

text \<open>A bracket: the character \<open>scc\<close> of the name, without its top bit, against the members up to the closing
  bracket. \<open>lc\<close> is the last member read, \<open>char\<close> is signed. The end of a range is skipped only if the character
  is not below its start.\<close>

definition schar :: "char \<Rightarrow> int" where
  "schar c = (if (of_char c :: nat) < 128 then int (of_char c) else int (of_char c) - 256)"

datatype bracketed = Past_the_end | Excluded | Included string

fun bracket :: "int \<Rightarrow> int \<Rightarrow> bool \<Rightarrow> string \<Rightarrow> bracketed" where
  "bracket scc lc ok [] = (if ok then Included [] else Excluded)"
| "bracket scc lc ok (cc # p) =
     (if cc = CHR '']'' then (if ok then Included p else Excluded)
      else if cc = CHR ''-'' then
        (if lc \<le> scc then (case p of [] \<Rightarrow> Past_the_end | d # p' \<Rightarrow> bracket scc lc (ok \<or> scc \<le> schar d) p')
         else bracket scc lc ok p)
      else bracket scc (schar cc) (ok \<or> scc = schar cc) p)"

lemma bracket_length: "bracket scc lc ok p = Included q \<Longrightarrow> length q \<le> length p"
  by (induction scc lc ok p rule: bracket.induct) (auto split: if_splits list.splits)

text \<open>The closing brace: how far it is, the length of the text if there is none; \<open>None\<close> if a bracket inside is
  not closed, for then the search leaves the string.\<close>

function brace_end :: "nat \<Rightarrow> string \<Rightarrow> nat option" where
  "brace_end lev [] = Some 0"
| "brace_end lev (c # cs) =
     (if c = CHR ''{'' then map_option Suc (brace_end (Suc lev) cs)
      else if c = CHR ''}'' then (if lev = 0 then Some 0 else map_option Suc (brace_end (lev - 1) cs))
      else if c = CHR ''['' then
        (let k = length (takeWhile (\<lambda>d. d \<noteq> CHR '']'') cs)
         in if k = length cs then None else map_option (\<lambda>n. n + k + 2) (brace_end lev (drop (Suc k) cs)))
      else map_option Suc (brace_end lev cs))"
  by pat_completeness auto
termination by (relation "measure (length \<circ> snd)") auto

text \<open>The alternatives up to there, and the level of nesting at the end. A comma with the top bit set separates too.\<close>

function brace_alts :: "nat \<Rightarrow> string \<Rightarrow> string \<Rightarrow> string list \<times> nat" where
  "brace_alts lev acc [] = ([], lev)"
| "brace_alts lev acc (c # cs) =
     (if c = CHR ''{'' then brace_alts (Suc lev) (acc @ [c]) cs
      else if c = CHR ''}'' \<and> lev \<noteq> 0 then brace_alts (lev - 1) (acc @ [c]) cs
      else if c = CHR ''}'' \<or> (c = CHR '','' \<or> c = CHR 0xAC) \<and> lev = 0 then
        (let (alts, l) = brace_alts lev [] cs in (acc # alts, l))
      else if c = CHR ''['' then
        (let skipped = takeWhile (\<lambda>d. d \<noteq> CHR '']'') cs
         in brace_alts lev (acc @ c # take (Suc (length skipped)) cs) (drop (Suc (length skipped)) cs))
      else brace_alts lev (acc @ [c]) cs)"
  by pat_completeness auto
termination by (relation "measure (\<lambda>(_, _, cs). length cs)") auto

text \<open>The patterns a brace stands for, each in the buffer \<open>restbuf\<close>. Without a closing brace every alternative
  would be followed by what lies behind the pattern.\<close>

definition brace_parts :: "string \<Rightarrow> string list option" where
  "brace_parts p =
     (let lm = takeWhile (\<lambda>c. c \<noteq> CHR ''{'') p; inner = drop (Suc (length lm)) p
      in brace_end 0 inner \<bind> (\<lambda>n.
           if n = length inner then (if brace_alts 0 [] inner = ([], 0) then Some [] else None)
           else
             (let parts = map (\<lambda>a. lm @ a @ drop (Suc n) inner) (fst (brace_alts 0 [] (take (Suc n) inner)))
              in if \<exists>r \<in> set parts. length r \<ge> BUFSIZ + 2 then None else Some parts)))"

lemma brace_end_le: "brace_end lev cs = Some n \<Longrightarrow> n \<le> length cs"
proof (induction lev cs arbitrary: n rule: brace_end.induct)
  case (2 lev c cs)
  have "length (takeWhile (\<lambda>d. d \<noteq> CHR '']'') cs) \<le> length cs" by (rule length_takeWhile_le)
  then show ?case using 2 by (fastforce simp: Let_def split: if_splits)
qed simp

lemma brace_alts_length: "a \<in> set (fst (brace_alts lev acc cs)) \<Longrightarrow> length a < length acc + length cs \<and> cs \<noteq> []"
proof (induction lev acc cs rule: brace_alts.induct)
  case (2 lev acc c cs)
  let ?k = "length (takeWhile (\<lambda>d. d \<noteq> CHR '']'') cs)"
  consider (nested) "c = CHR ''{''" | (inner) "c \<noteq> CHR ''{''" "c = CHR ''}'' \<and> lev \<noteq> 0"
    | (parting) "c \<noteq> CHR ''{''" "\<not> (c = CHR ''}'' \<and> lev \<noteq> 0)" "c = CHR ''}'' \<or> (c = CHR '','' \<or> c = CHR 0xAC) \<and> lev = 0"
    | (bracketed) "c \<noteq> CHR ''{''" "\<not> (c = CHR ''}'' \<and> lev \<noteq> 0)" "\<not> (c = CHR ''}'' \<or> (c = CHR '','' \<or> c = CHR 0xAC) \<and> lev = 0)" "c = CHR ''[''"
    | (other) "c \<noteq> CHR ''{''" "\<not> (c = CHR ''}'' \<and> lev \<noteq> 0)" "\<not> (c = CHR ''}'' \<or> (c = CHR '','' \<or> c = CHR 0xAC) \<and> lev = 0)" "c \<noteq> CHR ''[''"
    by blast
  then show ?case
  proof cases
    case nested
    with 2(1) [OF nested] 2(6) show ?thesis by simp
  next
    case inner
    with 2(2) [OF inner] 2(6) show ?thesis by simp
  next
    case parting
    with 2(6) have "a = acc \<or> a \<in> set (fst (brace_alts lev [] cs))" by (auto split: prod.splits)
    with 2(3) [OF parting] show ?thesis by auto
  next
    case bracketed
    have k: "?k \<le> length cs" by (rule length_takeWhile_le)
    from bracketed 2(6) have "a \<in> set (fst (brace_alts lev (acc @ c # take (Suc ?k) cs) (drop (Suc ?k) cs)))" by (simp add: Let_def)
    with 2(4) [OF bracketed refl] have "length a < length (acc @ c # take (Suc ?k) cs) + length (drop (Suc ?k) cs)" by blast
    also have "\<dots> = length acc + length (c # cs)" by simp
    finally show ?thesis by simp
  next
    case other
    then have "brace_alts lev acc (c # cs) = brace_alts lev (acc @ [c]) cs" by (simp only: brace_alts.simps if_False)
    with 2(5) [OF other] 2(6) show ?thesis by simp
  qed
qed simp

lemma brace_parts_shorter:
  assumes "brace_parts p = Some rs" "r \<in> set rs"
  shows "length r < length p"
proof -
  let ?lm = "takeWhile (\<lambda>c. c \<noteq> CHR ''{'') p" and ?inner = "drop (Suc (length (takeWhile (\<lambda>c. c \<noteq> CHR ''{'') p))) p"
  obtain n a where n: "brace_end 0 ?inner = Some n" "n \<noteq> length ?inner" "r = ?lm @ a @ drop (Suc n) ?inner"
      "a \<in> set (fst (brace_alts 0 [] (take (Suc n) ?inner)))"
    using assms by (auto simp: brace_parts_def Let_def bind_eq_Some_conv split: if_splits)
  have "length a < Suc n" using brace_alts_length [OF n(4)] by simp
  moreover have "n < length ?inner" using brace_end_le [OF n(1)] n(2) by simp
  ultimately show ?thesis using n(3) by simp
qed

fun parts_weight :: "string list \<Rightarrow> nat" where
  "parts_weight [] = 0"
| "parts_weight (r # rs) = max (Suc (length r)) (parts_weight rs)"

lemma brace_parts_weight: "brace_parts p = Some rs \<Longrightarrow> parts_weight rs \<le> length p"
proof -
  assume "brace_parts p = Some rs"
  then have "\<forall>r \<in> set rs. length r < length p" using brace_parts_shorter by blast
  then show ?thesis by (induction rs) auto
qed

subsection \<open>The expansion\<close>

text \<open>What \<open>expand\<close> takes over into \<open>gpath\<close>, and where the part of the pattern that holds the first special
  character starts.\<close>

definition plain_part :: "string \<Rightarrow> string" where
  "plain_part as = takeWhile (\<lambda>c. \<not> globchar c) as"

definition last_part :: "string \<Rightarrow> string" where
  "last_part lit = rev (takeWhile (\<lambda>c. c \<noteq> SL) (rev lit))"

definition add_chars :: "string \<Rightarrow> glob_state \<Rightarrow> glob_state" where
  "add_chars cs g = fold addpath cs g"

text \<open>A path that is complete: without a special character in front of it, it is taken as it is.\<close>

definition collect_path :: "'s asking \<Rightarrow> 's globbing \<Rightarrow> 's globbing option" where
  "collect_path ask st =
     (case st of (g, se, s) \<Rightarrow>
        if \<not> globbed g then Some (Gcat (gpath g) [] g, se, s)
        else do {
          (r, se1, s1) \<leftarrow> util_stat ask (gpath g) se s;
          Some (if r \<noteq> None then (Gcat (gpath g) [] g)\<lparr> globcnt := globcnt g + 1 \<rparr> else g, se1, s1) })"

definition back_to :: "string \<Rightarrow> 's globbing \<Rightarrow> 's globbing" where
  "back_to path st = ((fst st)\<lparr> gpath := path \<rparr>, snd st)"

text \<open>The functions of the code call each other. \<open>read_entries\<close> is the loop of \<open>matchdir\<close>, \<open>star\<close> the one for \<open>*\<close>,
  \<open>below\<close> what follows the label \<open>slash\<close>, \<open>alternatives\<close> the second loop of \<open>execbrc\<close>.\<close>

function expand :: "'s asking \<Rightarrow> string \<Rightarrow> 's globbing \<Rightarrow> 's globbing option"
  and matchdir :: "'s asking \<Rightarrow> string \<Rightarrow> 's globbing \<Rightarrow> 's globbing option"
  and read_entries :: "'s asking \<Rightarrow> RDIR \<Rightarrow> string \<Rightarrow> 's globbing \<Rightarrow> 's globbing option"
  and glob_match :: "'s asking \<Rightarrow> string \<Rightarrow> string \<Rightarrow> 's globbing \<Rightarrow> (bool \<times> 's globbing) option"
  and amatch :: "'s asking \<Rightarrow> string \<Rightarrow> string \<Rightarrow> 's globbing \<Rightarrow> (bool \<times> 's globbing) option"
  and star :: "'s asking \<Rightarrow> string \<Rightarrow> string \<Rightarrow> 's globbing \<Rightarrow> (bool \<times> 's globbing) option"
  and below :: "'s asking \<Rightarrow> string \<Rightarrow> 's globbing \<Rightarrow> (bool \<times> 's globbing) option"
  and execbrc :: "'s asking \<Rightarrow> string \<Rightarrow> string option \<Rightarrow> 's globbing \<Rightarrow> (bool \<times> 's globbing) option"
  and alternatives :: "'s asking \<Rightarrow> string list \<Rightarrow> string option \<Rightarrow> 's globbing \<Rightarrow> (bool \<times> 's globbing) option"
where
  "expand ask as st =
     (let path = gpath (fst st); lit = plain_part as; part = last_part lit; g1 = add_chars lit (fst st)
      in if length lit = length as then map_option (back_to path) (collect_path ask (g1, snd st))
         else if length (gpath g1) < length part then None
         else
           (let cs = drop (length lit - length part) as;
                st1 = (g1\<lparr> gpath := take (length (gpath g1) - length part) (gpath g1) \<rparr>, snd st)
            in if as ! length lit = CHR ''{'' then map_option snd (execbrc ask cs None st1)
               else map_option (back_to path) (matchdir ask cs st1)))"
| "matchdir ask pattern (g, se, s) =
     util_opendir ask (gpath g) se s \<bind> (\<lambda>(rd, se1, s1).
       (case rd of
          None \<Rightarrow> Some (if globbed g then g else g\<lparr> globerr := Some ''Bad directory components'' \<rparr>, se1, s1)
        | Some d \<Rightarrow>
            util_stat ask (gpath g) se1 s1 \<bind> (\<lambda>(r, se2, s2).
              (case r of
                 None \<Rightarrow> None
               | Some sb \<Rightarrow> if \<not> rs_dir sb then None else read_entries ask d pattern (g, se2, s2)))))"
| "read_entries ask d pattern (g, se, s) =
     (case dep d of
        [] \<Rightarrow> Some (g, util_closedir d se, s)
      | e # es \<Rightarrow>
          glob_match ask (de_name e) pattern (g\<lparr> rde := de_name e \<rparr>, se, s) \<bind> (\<lambda>(ok, g1, se1, s1).
            read_entries ask (d\<lparr> dep := es \<rparr>) pattern
              (if ok then (Gcat (gpath g1) (rde g1) g1)\<lparr> globcnt := globcnt g1 + 1 \<rparr> else g1, se1, s1)))"
| "glob_match ask s p (g, rest) =
     (if s \<noteq> [] \<and> hd s = CHR ''.'' \<and> (p = [] \<or> hd p \<noteq> CHR ''.'') then Some (False, g, rest)
      else
        amatch ask s p (g\<lparr> entp := s \<rparr>, rest) \<bind> (\<lambda>(c, g1, rest1).
          Some (c, g1\<lparr> entp := entp g, globbed := globbed g \<rparr>, rest1)))"
| "amatch ask s p st =
     (let st1 = ((fst st)\<lparr> globbed := True \<rparr>, snd st); scc = trimmed s
      in case p of
           [] \<Rightarrow> Some (scc = 0, st1)
         | c # p1 \<Rightarrow>
             if c = CHR ''{'' then execbrc ask (c # p1) (Some s) st1
             else if c = CHR ''['' then
               (case bracket (int scc) 0x7fff False p1 of
                  Past_the_end \<Rightarrow> None
                | Excluded \<Rightarrow> Some (False, st1)
                | Included q \<Rightarrow> (if s = [] then None else amatch ask (tl s) q st1))
             else if c = CHR ''*'' then
               (if p1 = [] then Some (True, st1)
                else if hd p1 = SL then below ask (tl p1) st1
                else star ask s p1 st1)
             else if c = CHR ''?'' then
               (if scc = 0 then Some (False, st1) else amatch ask (tl s) p1 st1)
             else if c = SL then
               (if scc \<noteq> 0 then Some (False, st1) else below ask p1 st1)
             else if of_char c \<noteq> scc then Some (False, st1)
             else amatch ask (tl s) p1 st1)"
| "star ask s p st =
     amatch ask s p st \<bind> (\<lambda>(ok, st1).
       if ok then Some (True, st1)
       else (case s of [] \<Rightarrow> Some (False, st1) | _ # s1 \<Rightarrow> star ask s1 p st1))"
| "below ask p (g, se, s) =
     (let g1 = add_chars (entp g @ [SL]) g
      in util_stat ask (gpath g1) se s \<bind> (\<lambda>(r, se1, s1).
           (case r of
              None \<Rightarrow> Some (g1, se1, s1)
            | Some sb \<Rightarrow>
                if \<not> rs_dir sb then Some (g1, se1, s1)
                else if p = [] then Some ((Gcat (gpath g1) [] g1)\<lparr> globcnt := globcnt g1 + 1 \<rparr>, se1, s1)
                else expand ask p (g1, se1, s1)) \<bind> (\<lambda>st1. Some (False, back_to (gpath g) st1))))"
| "execbrc ask p s st = brace_parts p \<bind> (\<lambda>rs. alternatives ask rs s st)"
| "alternatives ask [] s st = Some (False, st)"
| "alternatives ask (r # rs) s st =
     (case s of
        None \<Rightarrow>
          expand ask r st \<bind> (\<lambda>(g1, rest1).
            alternatives ask rs s (sort_args (g1\<lparr> gpath := gpath (fst st) \<rparr>), rest1))
      | Some name \<Rightarrow>
          amatch ask name r st \<bind> (\<lambda>(ok, g1, rest1).
            if ok then Some (True, g1, rest1) else alternatives ask rs s (sort_args g1, rest1)))"
  by pat_completeness auto

termination
proof (relation "measures [
    case_sum
      (case_sum (case_sum (\<lambda>(_, p, _). Suc (length p)) (\<lambda>(_, p, _). Suc (length p)))
        (case_sum (\<lambda>(_, _, p, _). Suc (length p)) (\<lambda>(_, _, p, _). Suc (length p))))
      (case_sum (case_sum (\<lambda>(_, _, p, _). Suc (length p)) (\<lambda>(_, _, p, _). Suc (length p)))
        (case_sum (\<lambda>(_, p, _). Suc (length p)) (case_sum (\<lambda>(_, p, _). Suc (length p)) (\<lambda>(_, rs, _). parts_weight rs)))),
    case_sum (case_sum (case_sum (\<lambda>_. 6) (\<lambda>_. 5)) (case_sum (\<lambda>_. 4) (\<lambda>_. 3)))
      (case_sum (case_sum (\<lambda>_. 1) (\<lambda>_. 2)) (case_sum (\<lambda>_. 8) (case_sum (\<lambda>_. 0) (\<lambda>_. 7)))),
    case_sum (case_sum (\<lambda>_. 0) (case_sum (\<lambda>(_, d, _). length (dep d)) (\<lambda>_. 0)))
      (case_sum (case_sum (\<lambda>_. 0) (\<lambda>(_, s, _). length s)) (case_sum (\<lambda>_. 0) (case_sum (\<lambda>_. 0) (\<lambda>(_, rs, _). length rs))))]",
    goal_cases)
qed (auto dest: bracket_length brace_parts_weight)

declare expand.simps [simp del] matchdir.simps [simp del] read_entries.simps [simp del] glob_match.simps [simp del]
  amatch.simps [simp del] star.simps [simp del] below.simps [simp del] execbrc.simps [simp del] alternatives.simps [simp del]

text \<open>\<open>rscan\<close> with \<open>tglob\<close>: whether there is a special character other than a brace (bit 1 of \<open>gflag\<close>), and
  whether there is a brace or a tilde in front (bit 2). A lone brace and a pair of braces are not special.\<close>

definition glob_flags :: "string \<Rightarrow> bool \<times> bool" where
  "glob_flags v =
     (let tilde = (v \<noteq> [] \<and> hd v = CHR ''~'')
      in if \<not> tilde \<and> (v = ''{'' \<or> v = ''{}'') then (False, False)
         else (list_ex (\<lambda>c. globchar c \<and> c \<noteq> CHR ''{'') v, tilde \<or> list_ex (\<lambda>c. c = CHR ''{'') v))"

definition acollect :: "'s asking \<Rightarrow> string \<Rightarrow> 's globbing \<Rightarrow> 's globbing option" where
  "acollect ask as st =
     (case st of (g, rest) \<Rightarrow> do {
        (g1, rest1) \<leftarrow> expand ask as (g\<lparr> gpath := [], globbed := False \<rparr>, rest);
        Some (if length (gargv g1) \<noteq> length (gargv g) then sort_args g1 else g1, rest1) })"

definition collect :: "'s asking \<Rightarrow> string \<Rightarrow> 's globbing \<Rightarrow> 's globbing option" where
  "collect ask as st =
     (if as = ''{'' \<or> as = ''{}'' then Some (sort_args (Gcat as [] (fst st)), snd st) else acollect ask as st)"

definition ginit :: glob_state where
  "ginit = \<lparr> gpath = [], gargv = [], gnleft = NCARGS - 4, globerr = None, globcnt = 0, globbed = False, entp = [],
     sortbas = 0, rde = [] \<rparr>"

text \<open>The first component is the program's own state, which is not touched.\<close>

definition bsdglob ::
  "'s asking \<Rightarrow> string \<Rightarrow> ('c, 's) everything \<Rightarrow> (string list option \<times> ('c, 's) everything) option" where
  "bsdglob ask v st =
     (case glob_flags v of (chars, braces) \<Rightarrow>
        if \<not> chars \<and> \<not> braces then Some (Some [v], st)
        else do {
          (g, rest) \<leftarrow> collect ask v (ginit, snd st);
          Some (if globcnt g = 0 \<and> chars then None else Some (gargv g), fst st, rest) })"

subsection \<open>Sorting\<close>

lemma strcmp_swap: "strcmp b a = - strcmp a b"
  by (induction a b rule: strcmp.induct) auto

lemma strcmp_refl [simp]: "strcmp a a = 0"
  by simp

lemma strcmp_trans: "strcmp a b \<le> 0 \<Longrightarrow> strcmp b c \<le> 0 \<Longrightarrow> strcmp a c \<le> 0"
proof (induction a b arbitrary: c rule: strcmp.induct)
  case (4 x as y bs)
  then show ?case by (cases c) (auto split: if_splits)
next
  case (2 u v)
  then show ?case by (cases c) auto
next
  case 1
  then show ?case by (cases c) auto
qed simp

lemma least_first_mset: "mset (fst (least_first p ps) # snd (least_first p ps)) = mset (p # ps)"
  by (induction p ps rule: least_first.induct) (auto split: prod.splits)

lemma least_first_least: "q \<in> set (p # ps) \<Longrightarrow> strcmp (fst (least_first p ps)) q \<le> 0"
proof (induction p ps arbitrary: q rule: least_first.induct)
  case (1 p)
  then show ?case by simp
next
  case (2 p1 p2 ps)
  let ?m1 = "fst (least_first p1 ps)" and ?m2 = "fst (least_first p2 ps)"
  show ?case
  proof (cases "strcmp p1 p2 > 0")
    case True
    then have "strcmp p2 p1 \<le> 0" by (simp add: strcmp_swap [of p2 p1])
    with 2(1) [OF True] 2(3) True strcmp_trans [of ?m2 p2 p1] show ?thesis by (auto split: prod.splits)
  next
    case False
    with 2(2) [OF False] 2(3) strcmp_trans [of ?m1 p1 p2] show ?thesis by (auto split: prod.splits)
  qed
qed

lemma exchange_sort_mset [simp]: "mset (exchange_sort ps) = mset ps"
proof (induction ps rule: exchange_sort.induct)
  case (2 p ps)
  then show ?case using least_first_mset [of p ps] by simp
qed simp

lemma exchange_sort_set [simp]: "set (exchange_sort ps) = set ps"
  by (metis exchange_sort_mset set_mset_mset)

lemma exchange_sort_sorted: "sorted_wrt (\<lambda>a b. strcmp a b \<le> 0) (exchange_sort ps)"
proof (induction ps rule: exchange_sort.induct)
  case (2 p ps)
  have "set (snd (least_first p ps)) \<subseteq> set (p # ps)"
    using arg_cong [OF least_first_mset [of p ps], of set_mset] by auto
  with 2 least_first_least [of _ p ps] show ?case by auto
qed simp

lemma exchange_sort_empty [simp]: "exchange_sort ps = [] \<longleftrightarrow> ps = []"
  by (cases ps) simp_all

end
