(* ===== verification/GlobRuns.thy ===== *)
theory GlobRuns
  imports Glob
begin

text \<open>
  What patterns stand for: the matching of a name against a pattern of one component, the listing of a
  directory, and braces.
\<close>

text \<open>For examples: a session that has read its directory already.\<close>

definition glob_entry :: "char \<Rightarrow> string \<Rightarrow> RDIRENT" where
  "glob_entry k n = \<lparr> bb_time = replicate 4 NUL, bb_size = replicate 4 NUL, de_type = k, de_name = n \<rparr>"

definition glob_session :: session where
  "glob_session = \<lparr> env_dir = ''/'', env_passwd = [], client_buf_len = 1024,
     ddroot = [\<lparr> dd_path = ''/'', dep_root = [glob_entry RDTYPE_DIR ''.'', glob_entry RDTYPE_DIR ''..'', glob_entry RDTYPE_FILE ''b.c'',
       glob_entry RDTYPE_FILE ''.c'', glob_entry RDTYPE_FILE ''a.h'', glob_entry RDTYPE_FILE ''a.c''], ref_cnt = 0 \<rparr>], statworks = False \<rparr>"

subsection \<open>Patterns and names\<close>

text \<open>A pattern as a list of pieces; a range from a character to itself is that character.\<close>

datatype piece = Lit char | Any | Many | Range "(char \<times> char) list"

definition member_text :: "char \<times> char \<Rightarrow> string" where
  "member_text r = (if fst r = snd r then [fst r] else [fst r, CHR ''-'', snd r])"

fun piece_text :: "piece \<Rightarrow> string" where
  "piece_text (Lit c) = [c]"
| "piece_text Any = ''?''"
| "piece_text Many = ''*''"
| "piece_text (Range rs) = CHR ''['' # concat (map member_text rs) @ '']''"

definition pattern_text :: "piece list \<Rightarrow> string" where
  "pattern_text ps = concat (map piece_text ps)"

definition code :: "char \<Rightarrow> nat" where
  "code c = of_char c"

fun matches :: "piece list \<Rightarrow> string \<Rightarrow> bool" where
  "matches [] s \<longleftrightarrow> s = []"
| "matches (Many # ps) s \<longleftrightarrow> matches ps s \<or> (case s of [] \<Rightarrow> False | _ # s1 \<Rightarrow> matches (Many # ps) s1)"
| "matches (_ # ps) [] \<longleftrightarrow> False"
| "matches (Lit c # ps) (d # s) \<longleftrightarrow> d = c \<and> matches ps s"
| "matches (Any # ps) (d # s) \<longleftrightarrow> matches ps s"
| "matches (Range rs # ps) (d # s) \<longleftrightarrow> (\<exists>r \<in> set rs. code (fst r) \<le> code d \<and> code d \<le> code (snd r)) \<and> matches ps s"

text \<open>A star stands for any text: the second equation unrolls this.\<close>

lemma matches_Many: "matches (Many # ps) s \<longleftrightarrow> (\<exists>u v. s = u @ v \<and> matches ps v)"
proof (induction s)
  case (Cons c s)
  then show ?case by (auto simp: append_eq_Cons_conv Cons_eq_append_conv)
qed simp

text \<open>Names without the top bit, which the code ignores, and patterns whose letters mean themselves.\<close>

definition ascii :: "char \<Rightarrow> bool" where
  "ascii c \<longleftrightarrow> 0 < code c \<and> code c < 128"

fun plain_piece :: "piece \<Rightarrow> bool" where
  "plain_piece (Lit c) \<longleftrightarrow> ascii c \<and> c \<notin> set ''{[*?/''"
| "plain_piece (Range rs) \<longleftrightarrow> (\<forall>(a, b) \<in> set rs. ascii a \<and> ascii b \<and> code a \<le> code b \<and> a \<notin> set '']-'' \<and> b \<notin> set '']-'')"
| "plain_piece _ \<longleftrightarrow> True"

lemma code_inject [simp]: "code a = code b \<longleftrightarrow> a = b"
  by (simp add: code_def)

lemma schar_ascii: "ascii c \<Longrightarrow> schar c = int (code c)"
  by (simp add: schar_def ascii_def code_def)

lemma trimmed_ascii: "trimmed [] = 0" "ascii c \<Longrightarrow> trimmed (c # s) = code c"
  by (simp_all add: trimmed_def ascii_def code_def)

lemma bracket_members:
  assumes "plain_piece (Range rs)"
  shows "bracket (int k) lc ok (concat (map member_text rs) @ CHR '']'' # q) =
    (if ok \<or> (\<exists>r \<in> set rs. code (fst r) \<le> k \<and> k \<le> code (snd r)) then Included q else Excluded)"
  using assms
proof (induction rs arbitrary: lc ok)
  case (Cons r rs)
  obtain a b where r: "r = (a, b)" by (cases r)
  have ab: "ascii a" "ascii b" "code a \<le> code b" "a \<noteq> CHR '']''" "a \<noteq> CHR ''-''" "b \<noteq> CHR '']''" "b \<noteq> CHR ''-''" "plain_piece (Range rs)"
    using Cons.prems r by auto
  show ?case
  proof (cases "a = b")
    case True
    then show ?thesis using Cons.IH [OF ab(8)] r ab by (auto simp: member_text_def schar_ascii)
  next
    case False
    then have "code a < code b" using ab(3) code_inject by (meson le_neq_implies_less)
    then show ?thesis using Cons.IH [OF ab(8)] r ab False by (auto simp: member_text_def schar_ascii)
  qed
qed simp

definition searched :: "'s globbing \<Rightarrow> 's globbing" where
  "searched st = ((fst st)\<lparr> globbed := True \<rparr>, snd st)"

lemma searched_twice [simp]: "searched (searched st) = searched st"
  by (simp add: searched_def)

lemma star_tries:
  assumes "\<And>s' st'. \<exists>u. s = u @ s' \<Longrightarrow> amatch ask s' p st' = Some (m s', searched st')"
  shows "star ask s p st = Some (\<exists>u v. s = u @ v \<and> m v, searched st)"
  using assms
proof (induction s arbitrary: st)
  case Nil
  then show ?case by (subst star.simps) simp
next
  case (Cons c s)
  have "amatch ask s' p st' = Some (m s', searched st')" if "\<exists>u. s = u @ s'" for s' st'
    using Cons.prems that by (metis append_Cons)
  from Cons.IH [OF this] show ?case
    using Cons.prems [of "c # s"] by (subst star.simps) (auto simp: Cons_eq_append_conv)
qed

lemma pattern_text_simps [simp]: "pattern_text [] = []" "pattern_text (x # ps) = piece_text x @ pattern_text ps"
  by (simp_all add: pattern_text_def)

lemma pattern_text_head: "ps \<noteq> [] \<Longrightarrow> \<forall>x \<in> set ps. plain_piece x \<Longrightarrow> pattern_text ps \<noteq> [] \<and> hd (pattern_text ps) \<noteq> SL"
  by (cases ps; cases "hd ps") auto

text \<open>C17: within a component a pattern means what it says: a name of seven bit characters is accepted exactly
  if the pieces of the pattern cover it, a letter by itself, a question mark by any character, a star by any
  text, a bracket by a character in one of its ranges; nothing else changes but the note that something was searched.\<close>

theorem amatch_means_matches:
  assumes "\<forall>x \<in> set ps. plain_piece x" "\<forall>c \<in> set s. ascii c"
  shows "amatch ask s (pattern_text ps) st = Some (matches ps s, searched st)"
  using assms
proof (induction ps arbitrary: s st)
  case Nil
  then show ?case by (cases s; subst amatch.simps) (simp_all add: trimmed_ascii searched_def Let_def ascii_def)
next
  case (Cons x ps)
  have IH: "amatch ask s' (pattern_text ps) st' = Some (matches ps s', searched st')" if "\<forall>c \<in> set s'. ascii c" for s' st'
    using Cons.IH Cons.prems(1) that by simp
  show ?case
  proof (cases x)
    case Many
    have "star ask s (pattern_text ps) (searched st) = Some (\<exists>u v. s = u @ v \<and> matches ps v, searched (searched st))"
      by (rule star_tries) (use IH Cons.prems(2) in auto)
    moreover have "\<exists>u v. s = u @ v \<and> matches [] v" by simp
    moreover note pattern_text_head [of ps]
    ultimately show ?thesis using Many Cons.prems(1)
      by (cases "ps = []"; subst amatch.simps) (simp_all add: searched_def Let_def matches_Many del: matches.simps(2))
  next
    case (Lit c)
    then show ?thesis using IH [of "tl s"] Cons.prems
      by (cases s; subst amatch.simps) (auto simp: trimmed_ascii searched_def Let_def code_def ascii_def)
  next
    case Any
    then show ?thesis using IH [of "tl s"] Cons.prems
      by (cases s; subst amatch.simps) (auto simp: trimmed_ascii searched_def Let_def ascii_def)
  next
    case (Range rs)
    have "plain_piece (Range rs)" using Cons.prems(1) Range by simp
    note b = bracket_members [OF this, of "trimmed s" "0x7fff" False "pattern_text ps"]
    show ?thesis using IH [of "tl s"] Cons.prems Range b
      by (cases s; subst amatch.simps) (auto simp: trimmed_ascii searched_def Let_def ascii_def)
  qed
qed

theorem amatch_means_matches_witness:
  "amatch (\<lambda>_ _. None) ''notes.txt'' ''n*.[a-t]?[tz]'' (ginit, glob_session, ()) = Some (True, searched (ginit, glob_session, ()))"
proof -
  let ?ps = "[Lit (CHR ''n''), Many, Lit (CHR ''.''), Range [(CHR ''a'', CHR ''t'')], Any, Range [(CHR ''t'', CHR ''t''), (CHR ''z'', CHR ''z'')]]"
  have t: "pattern_text ?ps = ''n*.[a-t]?[tz]''" "\<forall>x \<in> set ?ps. plain_piece x" "\<forall>c \<in> set ''notes.txt''. ascii c"
    "matches ?ps ''notes.txt'' = True" by code_simp+
  show ?thesis using amatch_means_matches [OF t(2,3), of "\<lambda>_ _. None" "(ginit, glob_session, ())", unfolded t(1,4)] .
qed

subsection \<open>The entries of a directory\<close>

text \<open>A leading dot must be given.\<close>

definition shows_name :: "piece list \<Rightarrow> string \<Rightarrow> bool" where
  "shows_name ps n \<longleftrightarrow> matches ps n \<and> (n \<noteq> [] \<and> hd n = CHR ''.'' \<longrightarrow> pattern_text ps \<noteq> [] \<and> hd (pattern_text ps) = CHR ''.'')"

lemma glob_match_means:
  assumes "\<forall>x \<in> set ps. plain_piece x" "\<forall>c \<in> set s. ascii c"
  shows "\<exists>g'. glob_match ask s (pattern_text ps) (g, rest) = Some (shows_name ps s, g', rest) \<and>
    g' = g"
  using amatch_means_matches [OF assms, of ask]
  by (auto simp: glob_match.simps shows_name_def searched_def)

text \<open>Room for all names in the argument list.\<close>

definition fits :: "string list \<Rightarrow> glob_state \<Rightarrow> bool" where
  "fits ns g \<longleftrightarrow> int (sum_list (map (\<lambda>n. length (gpath g) + length n + 1) ns)) < gnleft g \<and> length (gargv g) + length ns < GAVSIZ"

definition gathered :: "string list \<Rightarrow> glob_state \<Rightarrow> glob_state" where
  "gathered ns g = g\<lparr> gargv := gargv g @ map (\<lambda>n. gpath g @ n) ns, globcnt := globcnt g + length ns,
     gnleft := gnleft g - int (sum_list (map (\<lambda>n. length (gpath g) + length n + 1) ns)) \<rparr>"

lemma Gcat_fits: "fits (n # ns) g \<Longrightarrow> (Gcat (gpath g) n g)\<lparr> globcnt := globcnt g + 1 \<rparr> = gathered [n] g \<and> fits ns (gathered [n] g)"
  by (auto simp: fits_def Gcat_def gathered_def Let_def)

lemma gathered_simps [simp]: "gathered [] g = g" "gathered ns (gathered [n] g) = gathered (n # ns) g"
  "gathered ns (g\<lparr> rde := x \<rparr>) = (gathered ns g)\<lparr> rde := x \<rparr>" "fits ns (g\<lparr> rde := x \<rparr>) = fits ns g"
  by (auto simp: gathered_def fits_def)

lemma fits_filter: "fits (n # ns) g \<Longrightarrow> fits ns g"
  by (simp add: fits_def)

lemma read_entries_gathers:
  assumes "\<forall>x \<in> set ps. plain_piece x" "\<forall>e \<in> set es. \<forall>c \<in> set (de_name e). ascii c" "fits (map de_name es) g"
  shows "\<exists>x. read_entries ask (d\<lparr> dep := es \<rparr>) (pattern_text ps) (g, se, s) =
    Some ((gathered (filter (shows_name ps) (map de_name es)) g)\<lparr> rde := x \<rparr>, util_closedir d se, s)"
  using assms(2,3)
proof (induction es arbitrary: g)
  case Nil
  then show ?case by (intro exI [of _ "rde g"]) (simp add: read_entries.simps util_closedir_def)
next
  case (Cons e es)
  let ?n = "de_name e" and ?g = "g\<lparr> rde := de_name e \<rparr>"
  let ?g1 = "if shows_name ps ?n then (Gcat (gpath ?g) ?n ?g)\<lparr> globcnt := globcnt ?g + 1 \<rparr> else ?g"
  have f: "fits (?n # map de_name es) ?g" using Cons.prems(2) by simp
  have g1: "?g1 = (if shows_name ps ?n then gathered [?n] ?g else ?g)" using Gcat_fits [OF f] by simp
  have "fits (map de_name es) ?g1" unfolding g1 using Gcat_fits [OF f] fits_filter [OF f] by simp
  from Cons.IH [OF _ this] Cons.prems(1) obtain x where
    "read_entries ask (d\<lparr> dep := es \<rparr>) (pattern_text ps) (?g1, se, s) =
      Some ((gathered (filter (shows_name ps) (map de_name es)) ?g1)\<lparr> rde := x \<rparr>, util_closedir d se, s)" by auto
  also have "(gathered (filter (shows_name ps) (map de_name es)) ?g1)\<lparr> rde := x \<rparr> =
      (gathered (filter (shows_name ps) (map de_name (e # es))) g)\<lparr> rde := x \<rparr>"
    unfolding g1 by simp
  finally have rest: "read_entries ask (d\<lparr> dep := es \<rparr>) (pattern_text ps) (?g1, se, s) =
      Some ((gathered (filter (shows_name ps) (map de_name (e # es))) g)\<lparr> rde := x \<rparr>, util_closedir d se, s)" .
  have "glob_match ask ?n (pattern_text ps) (?g, se, s) = Some (shows_name ps ?n, ?g, se, s)"
    using glob_match_means [OF assms(1), of ?n ask ?g "(se, s)"] Cons.prems(1) by auto
  then have "read_entries ask (d\<lparr> dep := e # es \<rparr>) (pattern_text ps) (g, se, s) =
      read_entries ask (d\<lparr> dep := es \<rparr>) (pattern_text ps) (?g1, se, s)"
    by (subst read_entries.simps) simp
  with rest show ?case by (intro exI [of _ x]) (simp only:)
qed

text \<open>The listing of the directory \<open>gpath\<close> names.\<close>

lemma matchdir_gathers:
  assumes "\<forall>x \<in> set ps. plain_piece x" "util_opendir ask (gpath g) se s = Some (Some d, se1, s1)"
    and "util_stat ask (gpath g) se1 s1 = Some (Some sb, se2, s2)" "rs_dir sb"
    and "\<forall>e \<in> set (dep d). \<forall>c \<in> set (de_name e). ascii c" "fits (map de_name (dep d)) g"
  shows "\<exists>x. matchdir ask (pattern_text ps) (g, se, s) =
    Some ((gathered (filter (shows_name ps) (map de_name (dep d))) g)\<lparr> rde := x \<rparr>, util_closedir d se2, s2)"
  using read_entries_gathers [OF assms(1,5,6), of ask d se2 s2] assms(2-4) by (simp add: matchdir.simps)

lemma fold_addpath: "length (gpath g) + length cs \<le> BUFSIZ - 2 \<Longrightarrow> add_chars cs g = g\<lparr> gpath := gpath g @ cs \<rparr>"
  by (induction cs arbitrary: g) (simp_all add: add_chars_def addpath_def)

lemma last_part_no_slash: "SL \<notin> set lit \<Longrightarrow> last_part lit = lit"
  unfolding last_part_def by (subst takeWhile_eq_all_conv [THEN iffD2]) auto

text \<open>A pattern of one component expands to the names in the directory it is used in.\<close>

definition special :: "piece \<Rightarrow> bool" where
  "special x \<longleftrightarrow> (case x of Lit c \<Rightarrow> globchar c | _ \<Rightarrow> True)"

lemma pattern_plain_part:
  assumes "\<forall>x \<in> set ps. plain_piece x" "\<exists>x \<in> set ps. special x"
  shows "SL \<notin> set (plain_part (pattern_text ps)) \<and> length (plain_part (pattern_text ps)) < length (pattern_text ps) \<and>
    pattern_text ps ! length (plain_part (pattern_text ps)) \<noteq> CHR ''{'' \<and>
    globchar (pattern_text ps ! length (plain_part (pattern_text ps)))"
  using assms
proof (induction ps)
  case (Cons x ps)
  show ?case
  proof (cases "special x")
    case True
    then show ?thesis using Cons.prems(1)
      by (cases x) (auto simp: special_def plain_part_def globchar_def)
  next
    case False
    then obtain c where "x = Lit c" "\<not> globchar c" by (cases x) (auto simp: special_def)
    then show ?thesis using Cons False by (auto simp: plain_part_def)
  qed
qed simp

lemma expand_gathers:
  assumes "\<forall>x \<in> set ps. plain_piece x" "\<exists>x \<in> set ps. special x" "length (pattern_text ps) \<le> BUFSIZ - 2"
    and "gpath g = []" "util_opendir ask [] se s = Some (Some d, se1, s1)"
    and "util_stat ask [] se1 s1 = Some (Some sb, se2, s2)" "rs_dir sb"
    and "\<forall>e \<in> set (dep d). \<forall>c \<in> set (de_name e). ascii c" "fits (map de_name (dep d)) g"
  shows "\<exists>x. expand ask (pattern_text ps) (g, se, s) =
    Some ((gathered (filter (shows_name ps) (map de_name (dep d))) g)\<lparr> rde := x \<rparr>, util_closedir d se2, s2)"
proof -
  let ?p = "pattern_text ps"
  note p = pattern_plain_part [OF assms(1,2)]
  have lit: "add_chars (plain_part ?p) g = g\<lparr> gpath := plain_part ?p \<rparr>"
    using p assms(3,4) fold_addpath [of g "plain_part ?p"] by simp
  obtain x where "matchdir ask ?p (g, se, s) =
      Some ((gathered (filter (shows_name ps) (map de_name (dep d))) g)\<lparr> rde := x \<rparr>, util_closedir d se2, s2)"
    using matchdir_gathers [OF assms(1), of ask g se s d se1 s1 sb se2 s2] assms(4-9) by auto
  moreover have "g = g\<lparr> gpath := [] \<rparr>" using assms(4) by simp
  ultimately have "matchdir ask ?p (g\<lparr> gpath := [] \<rparr>, se, s) =
      Some ((gathered (filter (shows_name ps) (map de_name (dep d))) g)\<lparr> rde := x \<rparr>, util_closedir d se2, s2)" by (simp only:)
  then show ?thesis using p lit assms(4)
    by (intro exI [of _ x]) (simp add: expand.simps Let_def last_part_no_slash back_to_def gathered_def)
qed

text \<open>C18: a pattern of one component stands for the files of the current directory whose names it matches: the command
  gets exactly those names, sorted by \<open>strcmp\<close>, names with a leading dot only for a pattern with a leading dot, and a null
  pointer if there is none; the server is asked for nothing but the listing and the status of the directory.\<close>

theorem glob_lists_the_directory:
  assumes "\<forall>x \<in> set ps. plain_piece x" "\<exists>x \<in> set ps. special x" "length (pattern_text ps) \<le> BUFSIZ - 2"
    and "util_opendir ask [] se s = Some (Some d, se1, s1)" "util_stat ask [] se1 s1 = Some (Some sb, se2, s2)" "rs_dir sb"
    and "\<forall>e \<in> set (dep d). \<forall>c \<in> set (de_name e). ascii c"
    and "int (sum_list (map (\<lambda>e. length (de_name e) + 1) (dep d))) < NCARGS - 4" "length (dep d) < GAVSIZ"
  shows "\<exists>names. mset names = mset (filter (shows_name ps) (map de_name (dep d))) \<and> sorted_wrt (\<lambda>a b. strcmp a b \<le> 0) names \<and>
    bsdglob ask (pattern_text ps) (c, se, s) = Some (if names = [] then None else Some names, c, util_closedir d se2, s2)"
proof -
  let ?p = "pattern_text ps"
  define ns where "ns = filter (shows_name ps) (map de_name (dep d))"
  have f: "fits (map de_name (dep d)) ginit" using assms(8,9) by (simp add: fits_def ginit_def o_def)
  have g0: "ginit\<lparr> gpath := [], globbed := False \<rparr> = ginit" "gpath ginit = []" "gargv ginit = []" "globcnt ginit = 0" "sortbas ginit = 0"
    by (simp_all add: ginit_def)
  obtain x where e: "expand ask ?p (ginit, se, s) = Some ((gathered ns ginit)\<lparr> rde := x \<rparr>, util_closedir d se2, s2)"
    using expand_gathers [OF assms(1-3) g0(2) assms(4-7) f] by (auto simp: ns_def)
  note pp = pattern_plain_part [OF assms(1,2)]
  have "\<exists>c \<in> set ?p. globchar c \<and> c \<noteq> CHR ''{''" using pp by (metis nth_mem)
  then have fl: "fst (glob_flags ?p)" and nb: "?p \<noteq> ''{''" "?p \<noteq> ''{}''"
    by (auto simp: glob_flags_def list_ex_iff Let_def globchar_def)
  show ?thesis
    unfolding ns_def [symmetric] using e fl nb exchange_sort_sorted [of ns]
    by (intro exI [of _ "exchange_sort ns"])
      (auto simp: bsdglob_def collect_def acollect_def g0 gathered_def sort_args_def split: prod.splits)
qed

theorem glob_lists_the_directory_witness:
  "\<exists>names se'. bsdglob (\<lambda>_ _. None) ''*.c'' ((), glob_session, ()) = Some (Some names, (), se', ()) \<and> mset names = {#''a.c'', ''b.c''#}"
proof -
  let ?ask = "\<lambda>_ _. None" and ?ps = "[Many, Lit (CHR ''.''), Lit (CHR ''c'')]" and ?d = "\<lparr> ddp = ''/'', dep = dep_root (hd (ddroot glob_session)) \<rparr>"
  let ?se1 = "count_ref 1 ''/'' glob_session"
  have o': "util_opendir ?ask [] glob_session () = Some (Some ?d, ?se1, ())" by code_simp
  have st: "map_option (\<lambda>(r, se, s). (map_option rs_dir r)) (util_stat ?ask [] ?se1 ()) = Some (Some True)" by code_simp
  then obtain sb se2 where st': "util_stat ?ask [] ?se1 () = Some (Some sb, se2, ())" "rs_dir sb" by auto
  have p: "\<forall>x \<in> set ?ps. plain_piece x" "\<exists>x \<in> set ?ps. special x" "length (pattern_text ?ps) \<le> BUFSIZ - 2" "pattern_text ?ps = ''*.c''"
    "\<forall>e \<in> set (dep ?d). \<forall>c \<in> set (de_name e). ascii c" "int (sum_list (map (\<lambda>e. length (de_name e) + 1) (dep ?d))) < NCARGS - 4"
    "length (dep ?d) < GAVSIZ" "filter (shows_name ?ps) (map de_name (dep ?d)) = [''b.c'', ''a.c'']" by code_simp+
  obtain names where n: "mset names = mset [''b.c'', ''a.c'']"
      "bsdglob ?ask ''*.c'' ((), glob_session, ()) = Some (if names = [] then None else Some names, (), util_closedir ?d se2, ())"
    using glob_lists_the_directory [OF p(1-3) o' st' p(5-7), of "()"] unfolding p(4,8) by blast
  then have "names \<noteq> []" by auto
  with n show ?thesis by (simp add: add_mset_commute)
qed

subsection \<open>Braces\<close>

text \<open>A brace with plain alternatives, between plain texts.\<close>

definition plain_letter :: "char \<Rightarrow> bool" where
  "plain_letter c \<longleftrightarrow> \<not> globchar c \<and> c \<notin> {CHR ''}'', CHR '','', CHR 0xAC}"

definition plain_text :: "string \<Rightarrow> bool" where
  "plain_text s \<longleftrightarrow> list_all plain_letter s"

fun comma_list :: "string list \<Rightarrow> string" where
  "comma_list [] = []"
| "comma_list [a] = a"
| "comma_list (a # as) = a @ CHR '','' # comma_list as"

lemma plain_text_simps [simp]: "plain_text []" "plain_text (a @ b) \<longleftrightarrow> plain_text a \<and> plain_text b"
  "plain_text (c # s) \<longleftrightarrow> plain_letter c \<and> plain_text s"
  by (simp_all add: plain_text_def)

lemma plain_letterD: "plain_letter c \<Longrightarrow> \<not> globchar c \<and> c \<noteq> CHR ''{'' \<and> c \<noteq> CHR ''['' \<and> c \<noteq> CHR ''}'' \<and> c \<noteq> CHR '','' \<and> c \<noteq> CHR 0xAC"
  by (auto simp: plain_letter_def globchar_def)

lemma brace_end_plain:
  assumes "plain_text s"
  shows "brace_end 0 (s @ r) = map_option ((+) (length s)) (brace_end 0 r)"
  using assms
proof (induction s)
  case Nil
  then show ?case by (cases "brace_end 0 r") simp_all
next
  case (Cons c s)
  then have c: "c \<noteq> CHR ''{''" "c \<noteq> CHR ''}''" "c \<noteq> CHR ''[''" using plain_letterD [of c] by auto
  have "brace_end 0 ((c # s) @ r) = map_option Suc (brace_end 0 (s @ r))" by (simp only: append_Cons brace_end.simps c if_False)
  with Cons show ?case by (cases "brace_end 0 r") simp_all
qed

lemma brace_alts_plain: "plain_text s \<Longrightarrow> brace_alts 0 acc (s @ r) = brace_alts 0 (acc @ s) r"
proof (induction s arbitrary: acc)
  case (Cons c s)
  then have c: "c \<noteq> CHR ''{''" "c \<noteq> CHR ''}''" "c \<noteq> CHR '',''" "c \<noteq> CHR 0xAC" "c \<noteq> CHR ''[''" using plain_letterD [of c] by auto
  have "brace_alts 0 acc ((c # s) @ r) = brace_alts 0 (acc @ [c]) (s @ r)"
    by (simp only: append_Cons brace_alts.simps c if_False simp_thms)
  with Cons show ?case by simp
qed simp

lemma brace_end_commas: "as \<noteq> [] \<Longrightarrow> \<forall>a \<in> set as. plain_text a \<Longrightarrow> brace_end 0 (comma_list as @ CHR ''}'' # r) = Some (length (comma_list as))"
  by (induction as rule: comma_list.induct) (simp_all add: brace_end_plain)

lemma brace_alts_commas: "as \<noteq> [] \<Longrightarrow> \<forall>a \<in> set as. plain_text a \<Longrightarrow> brace_alts 0 [] (comma_list as @ ''}'') = (as, 0)"
  by (induction as rule: comma_list.induct) (simp_all add: brace_alts_plain)

lemma plain_text_globchar: "plain_text s \<Longrightarrow> plain_part (s @ r) = s @ plain_part r"
  by (induction s) (auto simp: plain_part_def dest: plain_letterD)

lemma brace_parts_plain:
  assumes "plain_text pre" "as \<noteq> []" "\<forall>a \<in> set as. plain_text a" "\<forall>a \<in> set as. length (pre @ a @ post) < BUFSIZ"
  shows "brace_parts (pre @ CHR ''{'' # comma_list as @ CHR ''}'' # post) = Some (map (\<lambda>a. pre @ a @ post) as)"
proof -
  have t: "takeWhile (\<lambda>c. c \<noteq> CHR ''{'') (pre @ CHR ''{'' # r) = pre" for r
    using assms(1) by (induction pre) (auto dest: plain_letterD)
  have "\<not> (\<exists>r \<in> set (map (\<lambda>a. pre @ a @ post) as). length r \<ge> BUFSIZ + 2)" using assms(4) by force
  then show ?thesis
    using brace_end_commas [OF assms(2,3), of post] brace_alts_commas [OF assms(2,3)]
    by (simp add: brace_parts_def t Let_def)
qed

lemma expand_plain:
  assumes "plain_text as" "\<not> globbed g" "length (gpath g) + length as \<le> BUFSIZ - 2"
  shows "expand ask as (g, rest) = Some ((Gcat (gpath g @ as) [] g), rest)"
proof -
  have "plain_part as = as" using plain_text_globchar [OF assms(1), of "[]"] by (simp add: plain_part_def)
  then show ?thesis
    using assms(2,3) fold_addpath [of g as] by (cases rest) (simp add: expand.simps Let_def collect_path_def back_to_def Gcat_def)
qed

text \<open>Arguments put at the end of a sorted list.\<close>

definition appended :: "string list \<Rightarrow> glob_state \<Rightarrow> glob_state" where
  "appended ns g = g\<lparr> gargv := gargv g @ ns, sortbas := length (gargv g) + length ns,
     gnleft := gnleft g - int (sum_list (map (\<lambda>n. length n + 1) ns)) \<rparr>"

definition takes :: "string list \<Rightarrow> glob_state \<Rightarrow> bool" where
  "takes ns g \<longleftrightarrow> int (sum_list (map (\<lambda>n. length n + 1) ns)) < gnleft g \<and> length (gargv g) + length ns < GAVSIZ \<and>
     sortbas g = length (gargv g) \<and> \<not> globbed g"

lemma Gcat_takes: "takes (n # ns) g \<Longrightarrow> sort_args (Gcat n [] g) = appended [n] g \<and> takes ns (appended [n] g)"
  by (auto simp: takes_def Gcat_def appended_def sort_args_def Let_def)

lemma appended_simps [simp]: "appended ns (appended [n] g) = appended (n # ns) g" "gpath (appended ns g) = gpath g"
  by (simp_all add: appended_def)

lemma alternatives_plain:
  assumes "\<forall>r \<in> set rs. plain_text r \<and> length (gpath g) + length r \<le> BUFSIZ - 2" "takes (map ((@) (gpath g)) rs) g"
  shows "alternatives ask rs None (g, rest) = Some (False, appended (map ((@) (gpath g)) rs) g, rest)"
  using assms
proof (induction rs arbitrary: g)
  case Nil
  then show ?case by (simp add: alternatives.simps appended_def takes_def)
next
  case (Cons r rs)
  have e: "expand ask r (g, rest) = Some (Gcat (gpath g @ r) [] g, rest)"
    using Cons.prems by (intro expand_plain) (auto simp: takes_def)
  have gp: "(Gcat (gpath g @ r) [] g)\<lparr> gpath := gpath g \<rparr> = Gcat (gpath g @ r) [] g" by (simp add: Gcat_def Let_def)
  have t: "takes ((gpath g @ r) # map ((@) (gpath g)) rs) g" using Cons.prems(2) by simp
  have "alternatives ask rs None (appended [gpath g @ r] g, rest) =
      Some (False, appended (map ((@) (gpath g)) rs) (appended [gpath g @ r] g), rest)"
    using Cons.IH [of "appended [gpath g @ r] g"] Cons.prems(1) Gcat_takes [OF t] by simp
  then show ?case using Gcat_takes [OF t] by (simp add: alternatives.simps e gp)
qed

lemma last_part_suffix: "\<exists>dir. lit = dir @ last_part lit"
proof -
  have "lit = rev (dropWhile (\<lambda>c. c \<noteq> SL) (rev lit)) @ last_part lit"
    unfolding last_part_def rev_append [symmetric] by simp
  then show ?thesis by blast
qed

lemma expand_braces:
  assumes "plain_text pre" "as \<noteq> []" "\<forall>a \<in> set as. plain_text a" "plain_text post"
    and "\<forall>a \<in> set as. length (pre @ a @ post) \<le> BUFSIZ - 2" "takes (map (\<lambda>a. pre @ a @ post) as) g" "gpath g = []"
  shows "\<exists>g'. expand ask (pre @ CHR ''{'' # comma_list as @ CHR ''}'' # post) (g, rest) = Some (g', rest) \<and>
    gargv g' = gargv g @ map (\<lambda>a. pre @ a @ post) as \<and> globcnt g' = globcnt g \<and> sortbas g' = length (gargv g')"
proof -
  let ?p = "pre @ CHR ''{'' # comma_list as @ CHR ''}'' # post"
  obtain dir where d: "pre = dir @ last_part pre" using last_part_suffix by blast
  let ?part = "last_part pre" and ?g = "g\<lparr> gpath := dir \<rparr>"
  have pp: "plain_text ?part" using assms(1) d plain_text_simps(2) by metis
  have lens: "\<forall>a \<in> set as. length (?part @ a @ post) \<le> BUFSIZ - 2 - length dir"
  proof
    fix a assume "a \<in> set as"
    then have "length (pre @ a @ post) \<le> BUFSIZ - 2" using assms(5) by blast
    moreover have "length pre = length dir + length ?part" using d length_append by metis
    ultimately show "length (?part @ a @ post) \<le> BUFSIZ - 2 - length dir" by simp
  qed
  have parts: "brace_parts (?part @ CHR ''{'' # comma_list as @ CHR ''}'' # post) = Some (map (\<lambda>a. ?part @ a @ post) as)"
    using lens by (intro brace_parts_plain [OF pp assms(2,3)]) fastforce
  have names: "map ((@) dir) (map (\<lambda>a. ?part @ a @ post) as) = map (\<lambda>a. pre @ a @ post) as"
    using d by (metis (no_types, lifting) append_assoc comp_apply map_eq_conv map_map)
  have gp: "gpath ?g = dir" by simp
  have "length dir \<le> BUFSIZ - 2" using assms(2,5) arg_cong [OF d, of length] by (cases as) auto
  then have "\<forall>r \<in> set (map (\<lambda>a. ?part @ a @ post) as). plain_text r \<and> length (gpath ?g) + length r \<le> BUFSIZ - 2"
    using pp assms(3,4) lens by fastforce
  moreover have "takes (map ((@) (gpath ?g)) (map (\<lambda>a. ?part @ a @ post) as)) ?g"
    unfolding gp names using assms(6) by (simp add: takes_def)
  ultimately have a: "alternatives ask (map (\<lambda>a. ?part @ a @ post) as) None (?g, rest) =
      Some (False, appended (map (\<lambda>a. pre @ a @ post) as) ?g, rest)"
    using alternatives_plain [of "map (\<lambda>a. ?part @ a @ post) as" ?g ask rest] unfolding gp names by blast
  have lit: "plain_part ?p = pre" using plain_text_globchar [OF assms(1)] by (simp add: plain_part_def globchar_def)
  have "length pre \<le> BUFSIZ - 2" using assms(2,5) by (cases as) auto
  then have add: "add_chars pre g = g\<lparr> gpath := pre \<rparr>" using fold_addpath [of g pre] assms(7) by simp
  have len: "length pre = length dir + length ?part" using d length_append by metis
  have "take (length dir) pre = dir" "drop (length dir) pre = ?part"
    using append_eq_conv_conj [of dir ?part pre] d by metis+
  with len have cut: "length pre - length ?part = length dir" "take (length dir) pre = dir" "drop (length dir) pre = ?part"
    "\<not> length pre < length ?part" "length dir - length pre = 0" by simp_all
  obtain r1 r2 where rest: "rest = (r1, r2)" by fastforce
  have "expand ask ?p (g, rest) = Some (appended (map (\<lambda>a. pre @ a @ post) as) ?g, rest)"
    unfolding rest by (subst expand.simps) (simp add: lit add cut parts a [unfolded rest] execbrc.simps Let_def)
  then show ?thesis by (simp add: appended_def)
qed

text \<open>A brace stands for its alternatives in the order given: the command gets one name for each, with the texts in
  front of the brace and behind it, whether such a file exists or not, and nothing is asked of the server.\<close>

theorem braces_expand_in_order:
  assumes "plain_text pre" "as \<noteq> []" "\<forall>a \<in> set as. plain_text a" "plain_text post" "pre @ comma_list as @ post \<noteq> []"
    and "\<forall>a \<in> set as. length (pre @ a @ post) \<le> BUFSIZ - 2"
    and "int (sum_list (map (\<lambda>a. length (pre @ a @ post) + 1) as)) < NCARGS - 4" "length as < GAVSIZ"
  shows "bsdglob ask (pre @ CHR ''{'' # comma_list as @ CHR ''}'' # post) (c, rest) =
    Some (Some (map (\<lambda>a. pre @ a @ post) as), c, rest)"
proof -
  let ?p = "pre @ CHR ''{'' # comma_list as @ CHR ''}'' # post"
  have close: "\<not> globchar (CHR ''}'')" by (simp add: globchar_def)
  have g0: "ginit\<lparr> gpath := [], globbed := False \<rparr> = ginit" "gpath ginit = []" "gargv ginit = []" "globcnt ginit = 0" "sortbas ginit = 0"
    by (simp_all add: ginit_def)
  have "takes (map (\<lambda>a. pre @ a @ post) as) ginit" using assms(7,8) by (simp add: takes_def ginit_def o_def)
  from expand_braces [OF assms(1-4,6) this g0(2), of ask rest] obtain g' where
    g': "expand ask ?p (ginit, rest) = Some (g', rest)" "gargv g' = map (\<lambda>a. pre @ a @ post) as" "globcnt g' = 0" "sortbas g' = length (gargv g')"
    using g0 by auto
  have s: "set (comma_list as) \<subseteq> insert (CHR '','') (\<Union> (set ` set as))" by (induction as rule: comma_list.induct) auto
  have np: "\<not> globchar x" if "x \<in> set pre \<union> set post \<or> x \<in> set (comma_list as)" for x
  proof -
    have "plain_letter x \<or> x = CHR '',''" using that s assms(1,3,4) by (auto simp: plain_text_def list_all_iff)
    then show ?thesis by (auto simp: plain_letter_def globchar_def)
  qed
  have fl1: "\<not> fst (glob_flags ?p)" using np close by (auto simp: glob_flags_def Let_def list_ex_iff)
  have ne: "?p \<noteq> ''{''" "?p \<noteq> ''{}''" using assms(5) by (auto simp: append_eq_Cons_conv)
  then have "snd (glob_flags ?p)" by (simp add: glob_flags_def Let_def)
  with fl1 have fl: "glob_flags ?p = (False, True)" by (cases "glob_flags ?p") auto
  have "sort_args g' = g'" using g'(4) by (simp add: sort_args_def)
  then have "collect ask ?p (ginit, rest) = Some (g', rest)"
    using g' ne g0 by (simp add: collect_def acollect_def)
  then show ?thesis using fl g' by (simp add: bsdglob_def)
qed

theorem braces_expand_in_order_witness:
  "bsdglob (\<lambda>_ _. None) ''src/{main,conf}.c'' ((), glob_session, ()) = Some (Some [''src/main.c'', ''src/conf.c''], (), glob_session, ())"
  using braces_expand_in_order [where pre = "''src/''" and as = "[''main'', ''conf'']" and post = "''.c''" and ask = "\<lambda>_ _. None" and
    rest = "(glob_session, ())" and c = "()"]
  by (simp add: plain_text_def plain_letter_def globchar_def)

end
