(* ===== verification/Find.thy ===== *)
theory Find
  imports Programs Conf "HOL-Library.Signed_Division"
begin

text \<open>
  The command \<open>find\<close>: \<^verbatim>\<open>bsd_src/option.c\<close>, \<^verbatim>\<open>bsd_src/function.c\<close>, \<^verbatim>\<open>bsd_src/operator.c\<close>, \<^verbatim>\<open>bsd_src/find.c\<close> and
  \<^verbatim>\<open>clients/fspcmd_find.c\<close>.

  The arguments of the command become a list of nodes, which three passes turn into a plan; the plan is then
  evaluated on every name of the remote tree. A list of nodes linked by \<open>next\<close> is a list. A node whose data have
  not been set yet is \<open>New_not\<close> or \<open>New_or\<close>. While the plan is formed an error is a value: \<open>Usage\<close> and \<open>No_input\<close> are the
  exit codes, \<open>Undefined_behaviour\<close> a null pointer or data not set. While it is evaluated \<open>None\<close> is undefined
  behaviour or a conversation that does not come back. Messages to standard error are left out, so are failures of
  \<open>malloc\<close>.
\<close>

datatype find_error = Usage | No_input | Undefined_behaviour

type_synonym 'a formed = "find_error + 'a"

definition if_formed :: "'a formed \<Rightarrow> ('a \<Rightarrow> 'b formed) \<Rightarrow> 'b formed" where
  "if_formed r f = (case r of Inl e \<Rightarrow> Inl e | Inr x \<Rightarrow> f x)"

lemma if_formed_simps [simp]: "if_formed (Inl e) f = Inl e" "if_formed (Inr x) f = f x"
  by (simp_all add: if_formed_def)

lemma if_formed_cong [fundef_cong]:
  "r = r' \<Longrightarrow> (\<And>x. r' = Inr x \<Longrightarrow> f x = g x) \<Longrightarrow> if_formed r f = if_formed r' g"
  by (cases r') simp_all

subsection \<open>Nodes\<close>

datatype comparison = FIND_EQUAL | FIND_LESSTHAN | FIND_GREATER

text \<open>The tests and actions, with the data of their nodes.\<close>

datatype primary =
    N_TIME comparison int
  | N_EXEC bool "string list"
  | N_LS
  | N_NAME string
  | N_NEWER int
  | N_PRINT
  | N_PRUNE
  | N_SIZE comparison int
  | N_TYPE bool

datatype PLAN =
    Primary primary
  | N_OPENPAREN
  | N_CLOSEPAREN
  | New_not
  | New_or
  | N_EXPR "PLAN list"
  | N_NOT "PLAN list"
  | N_OR "PLAN list" "PLAN list"

text \<open>The global variables that are set while the plan is formed.\<close>

record forming =
  isoutput :: bool
  divsize :: bool

definition not_formed :: forming where
  "not_formed = \<lparr> isoutput = False, divsize = True \<rparr>"

subsection \<open>Arguments\<close>

text \<open>\<open>strtol\<close> to base ten, with what follows the number; \<open>None\<close> if there is no number. The value is the one of
  theory Conf.\<close>

definition number_end :: "string \<Rightarrow> string option" where
  "number_end s0 =
     (let s = dropWhile isspace s0;
          t = (if s \<noteq> [] \<and> (hd s = CHR ''-'' \<or> hd s = CHR ''+'') then tl s else s)
      in if t = [] \<or> \<not> isdigit (hd t) then None else Some (dropWhile isdigit t))"

text \<open>\<open>endch\<close> is the character that may follow the number; what follows it in turn is not looked at. The result is
  the comparison, the number and the character at its end.\<close>

definition find_parsenum :: "string \<Rightarrow> char option \<Rightarrow> (comparison \<times> int \<times> char option) formed" where
  "find_parsenum str endch =
     (let (cmp, s) = (case str of
            [] \<Rightarrow> (FIND_EQUAL, [])
          | c # cs \<Rightarrow> if c = CHR ''+'' then (FIND_GREATER, cs) else if c = CHR ''-'' then (FIND_LESSTHAN, cs) else (FIND_EQUAL, str))
      in case number_end s of
           None \<Rightarrow> Inl Usage
         | Some rest \<Rightarrow>
             if rest \<noteq> [] \<and> endch \<noteq> Some (hd rest) then Inl Usage
             else Inr (cmp, strtol 10 s, if rest = [] then None else Some (hd rest)))"

definition c_time :: "string \<Rightarrow> primary formed" where
  "c_time arg = if_formed (find_parsenum arg None) (\<lambda>(cmp, n, _). Inr (N_TIME cmp n))"

text \<open>\<open>divsize\<close> is one variable for all nodes.\<close>

definition c_size :: "string \<Rightarrow> forming \<Rightarrow> (primary \<times> forming) formed" where
  "c_size arg fo =
     if_formed (find_parsenum arg (Some CHR ''c'')) (\<lambda>(cmp, n, e).
       Inr (N_SIZE cmp n, if e = Some CHR ''c'' then fo\<lparr> divsize := False \<rparr> else fo))"

definition c_type :: "string \<Rightarrow> primary formed" where
  "c_type s =
     (if s \<noteq> [] \<and> hd s = CHR ''d'' then Inr (N_TYPE True)
      else if s \<noteq> [] \<and> hd s = CHR ''f'' then Inr (N_TYPE False) else Inl Usage)"

text \<open>The file is one of the user's disk.\<close>

definition c_newer :: "world \<Rightarrow> string \<Rightarrow> primary formed" where
  "c_newer w filename = (case stat w filename of None \<Rightarrow> Inl No_input | Some sb \<Rightarrow> Inr (N_NEWER (st_mtime sb)))"

text \<open>The program of \<open>-exec\<close> and \<open>-ok\<close> and its arguments, up to one that starts with a semicolon.\<close>

definition ends_exec :: "string \<Rightarrow> bool" where
  "ends_exec a \<longleftrightarrow> a \<noteq> [] \<and> hd a = CHR '';''"

definition c_exec :: "bool \<Rightarrow> string list \<Rightarrow> (primary \<times> string list) formed" where
  "c_exec isok argv =
     (case dropWhile (\<lambda>a. \<not> ends_exec a) argv of
        [] \<Rightarrow> Inl Usage
      | _ # rest \<Rightarrow> Inr (N_EXEC isok (takeWhile (\<lambda>a. \<not> ends_exec a) argv), rest))"

text \<open>The table \<open>options\<close>: how the function of an option is called.\<close>

datatype option_kind =
    O_NONE
  | O_ZERO PLAN bool
  | O_ARGV "world \<Rightarrow> string \<Rightarrow> forming \<Rightarrow> (primary \<times> forming) formed"
  | O_ARGVP bool

definition without_forming :: "primary formed \<Rightarrow> forming \<Rightarrow> (primary \<times> forming) formed" where
  "without_forming r fo = if_formed r (\<lambda>p. Inr (p, fo))"

definition options :: "(string \<times> option_kind) list" where
  "options = [
     (''!'', O_ZERO New_not False), (''('', O_ZERO N_OPENPAREN False), ('')'', O_ZERO N_CLOSEPAREN False),
     (''-a'', O_NONE), (''-and'', O_NONE), (''-exec'', O_ARGVP False), (''-ls'', O_ZERO (Primary N_LS) True),
     (''-name'', O_ARGV (\<lambda>w a. without_forming (Inr (N_NAME a)))),
     (''-newer'', O_ARGV (\<lambda>w a. without_forming (c_newer w a))),
     (''-o'', O_ZERO New_or False), (''-ok'', O_ARGVP True), (''-or'', O_ZERO New_or False),
     (''-print'', O_ZERO (Primary N_PRINT) True), (''-prune'', O_ZERO (Primary N_PRUNE) False),
     (''-size'', O_ARGV (\<lambda>w. c_size)),
     (''-time'', O_ARGV (\<lambda>w a. without_forming (c_time a))),
     (''-type'', O_ARGV (\<lambda>w a. without_forming (c_type a)))]"

text \<open>\<open>bsearch\<close> finds the entry of that name, for the table is sorted.\<close>

definition find_option :: "string \<Rightarrow> option_kind option" where
  "find_option name = map_of options name"

lemma options_sorted: "sorted_wrt (\<lambda>a b. strcmp (fst a) (fst b) < 0) options"
  by (simp add: options_def)

text \<open>The node of the first argument, if it has one, and the arguments that remain.\<close>

definition find_create :: "world \<Rightarrow> string \<Rightarrow> string list \<Rightarrow> forming \<Rightarrow> (PLAN list \<times> string list \<times> forming) formed" where
  "find_create w arg args fo =
     (case find_option arg of
        None \<Rightarrow> Inl Usage
      | Some O_NONE \<Rightarrow> Inr ([], args, fo)
      | Some (O_ZERO n out) \<Rightarrow> Inr ([n], args, fo\<lparr> isoutput := isoutput fo \<or> out \<rparr>)
      | Some (O_ARGV create) \<Rightarrow>
          (case args of [] \<Rightarrow> Inl Usage
           | a # rest \<Rightarrow> if_formed (create w a fo) (\<lambda>(p, fo'). Inr ([Primary p], rest, fo')))
      | Some (O_ARGVP isok) \<Rightarrow>
          (if args = [] then Inl Usage
           else if_formed (c_exec isok args) (\<lambda>(p, rest). Inr ([Primary p], rest, fo\<lparr> isoutput := True \<rparr>))))"

lemma find_create_shortens: "find_create w arg args fo = Inr (ns, rest, fo') \<Longrightarrow> length rest \<le> length args"
  using length_dropWhile_le [of "\<lambda>a. \<not> ends_exec a" args]
  by (auto simp: find_create_def if_formed_def c_exec_def split: option.splits option_kind.splits list.splits sum.splits if_splits)

text \<open>The loop of \<open>find_formplan\<close>.\<close>

function find_nodes :: "world \<Rightarrow> string list \<Rightarrow> forming \<Rightarrow> (PLAN list \<times> forming) formed" where
  "find_nodes w [] fo = Inr ([], fo)"
| "find_nodes w (arg # args) fo =
     if_formed (find_create w arg args fo) (\<lambda>(ns, rest, fo1).
       if_formed (find_nodes w rest fo1) (\<lambda>(ns', fo2). Inr (ns @ ns', fo2)))"
  by pat_completeness auto
termination by (relation "measure (\<lambda>(w, args, fo). length args)") (auto dest: find_create_shortens)

subsection \<open>Operators\<close>

text \<open>Taking one expression off the plan: a node, or a parenthesis with all up to its end. \<open>gather\<close> is the loop, with
  the nodes of the expression so far.\<close>

function yankexpr :: "PLAN list \<Rightarrow> (PLAN option \<times> PLAN list) formed"
  and gather :: "PLAN list \<Rightarrow> PLAN list \<Rightarrow> (PLAN option \<times> PLAN list) formed" where
  "yankexpr [] = Inr (None, [])"
| "yankexpr (n # plan) = (if n = N_OPENPAREN then gather [] plan else Inr (Some n, plan))"
| "gather subplan plan =
     if_formed (yankexpr plan) (\<lambda>(r, rest).
       (case r of
          None \<Rightarrow> Inl Undefined_behaviour
        | Some n \<Rightarrow>
            if n = N_CLOSEPAREN then (if subplan = [] then Inl Usage else Inr (Some (N_EXPR subplan), rest))
            else gather (subplan @ [n]) rest))"
  by pat_completeness auto

text \<open>The plan gets shorter, which is shown before the functions are known to be total.\<close>

termination
proof -
  have short: "yankexpr_gather_dom (Inl plan) \<Longrightarrow> yankexpr plan = Inr (Some n, rest) \<Longrightarrow> length rest < length plan"
    and "yankexpr_gather_dom (Inr (subplan, plan)) \<Longrightarrow> gather subplan plan = Inr (r, rest) \<Longrightarrow> length rest < length plan"
    for plan n rest subplan r
  proof (induction arbitrary: n rest and r rest rule: yankexpr_gather.pinduct)
    case (3 subplan plan)
    from "3.prems" obtain m rest' where m: "yankexpr plan = Inr (Some m, rest')"
      and r: "(if m = N_CLOSEPAREN then (if subplan = [] then Inl Usage else Inr (Some (N_EXPR subplan), rest'))
          else gather (subplan @ [m]) rest') = Inr (r, rest)"
      by (auto simp: gather.psimps [OF 3(1)] if_formed_def split: sum.splits option.splits)
    have "length rest' < length plan" by (rule 3(2) [OF m])
    moreover have "length rest \<le> length rest'"
      using r 3(3) [of "(Some m, rest')" "Some m" rest' m] m by (fastforce split: if_splits)
    ultimately show ?case by simp
  qed (auto simp: yankexpr.psimps split: if_splits)
  show ?thesis
  proof (relation "measure (case_sum (\<lambda>plan. 2 * length plan) (\<lambda>(subplan, plan). 2 * length plan + 1))", goal_cases)
    case (4 subplan plan a r rest n)
    then show ?case using short [of plan n rest] by fastforce
  qed auto
qed

lemma yank_shortens:
  "yankexpr plan = Inr (Some n, rest) \<Longrightarrow> length rest < length plan"
  "gather subplan plan = Inr (r, rest) \<Longrightarrow> length rest < length plan"
proof (induction arbitrary: n rest and r rest rule: yankexpr_gather.induct)
  case (3 subplan plan)
  from "3.prems" obtain m rest' where m: "yankexpr plan = Inr (Some m, rest')"
    by (auto simp: gather.simps [of subplan] if_formed_def split: sum.splits option.splits)
  then show ?case
    using "3.prems" "3.IH"(1) [OF m] "3.IH"(2) [OF m] by (fastforce simp: gather.simps [of subplan] split: if_splits)
qed (auto split: if_splits)

declare gather.simps [simp del]

function paren_squish :: "PLAN list \<Rightarrow> PLAN list formed" where
  "paren_squish plan =
     if_formed (yankexpr plan) (\<lambda>(r, rest).
       (case r of
          None \<Rightarrow> Inr []
        | Some expr \<Rightarrow>
            if expr = N_CLOSEPAREN then Inl Usage
            else if_formed (paren_squish rest) (\<lambda>result. Inr (expr # result))))"
  by pat_completeness auto
termination by (relation "measure length") (auto dest: yank_shortens(1))

declare paren_squish.simps [simp del]

text \<open>A run of \<open>!\<close> and the node behind it: an odd number becomes one, an even number none. The node itself is not
  looked into. At the end of the plan the null pointer is read before it is tested.\<close>

function not_squish :: "PLAN list \<Rightarrow> PLAN list formed" where
  "not_squish [] = Inr []"
| "not_squish (n # plan) =
     (case n of
        N_EXPR sub \<Rightarrow>
          if_formed (not_squish sub) (\<lambda>sub'. if_formed (not_squish plan) (\<lambda>result. Inr (N_EXPR sub' # result)))
      | New_not \<Rightarrow>
          (let notlevel = 1 + length (takeWhile (\<lambda>m. m = New_not) plan)
           in (case dropWhile (\<lambda>m. m = New_not) plan of
                 [] \<Rightarrow> Inl Undefined_behaviour
               | nxt # rest \<Rightarrow>
                   if nxt = New_or then Inl Usage
                   else if_formed (not_squish rest) (\<lambda>result.
                     Inr ((if odd notlevel then N_NOT [nxt] else nxt) # result))))
      | _ \<Rightarrow> if_formed (not_squish plan) (\<lambda>result. Inr (n # result)))"
  by pat_completeness auto
termination
proof (relation "measure (size_list size)", goal_cases)
  case (5 n plan nxt rest)
  have "size_list size (dropWhile (\<lambda>m. m = New_not) plan) \<le> size_list size plan"
    by (induction plan) auto
  with 5 show ?case by simp
qed auto

text \<open>The nodes before \<open>-o\<close> and those after it become the two sides. A \<open>New_not\<close> that is left over has data that were never set.\<close>

function or_squish :: "PLAN list \<Rightarrow> PLAN list \<Rightarrow> PLAN list formed" where
  "or_squish result [] = Inr result"
| "or_squish result (n # plan) =
     (case n of
        N_EXPR sub \<Rightarrow> if_formed (or_squish [] sub) (\<lambda>sub'. or_squish (result @ [N_EXPR sub']) plan)
      | N_NOT sub \<Rightarrow> if_formed (or_squish [] sub) (\<lambda>sub'. or_squish (result @ [N_NOT sub']) plan)
      | New_not \<Rightarrow> Inl Undefined_behaviour
      | New_or \<Rightarrow>
          (if result = [] then Inl Usage
           else if_formed (or_squish [] plan) (\<lambda>rest. if rest = [] then Inl Usage else Inr [N_OR result rest]))
      | _ \<Rightarrow> or_squish (result @ [n]) plan)"
  by pat_completeness auto
termination by (relation "measure (\<lambda>(result, plan). size_list size plan)") auto

definition squish :: "PLAN list \<Rightarrow> PLAN list formed" where
  "squish plan = if_formed (paren_squish plan) (\<lambda>p1. if_formed (not_squish p1) (or_squish []))"

text \<open>The plan of the arguments; without a test that prints, \<open>-print\<close> is added.\<close>

definition find_formplan :: "world \<Rightarrow> string list \<Rightarrow> (PLAN list \<times> forming) formed" where
  "find_formplan w argv =
     if_formed (find_nodes w argv not_formed) (\<lambda>(plan, fo).
       if_formed (squish (if isoutput fo then plan else plan @ [Primary N_PRINT])) (\<lambda>p. Inr (p, fo)))"

subsection \<open>\<open>fnmatch\<close> of the C library\<close>

text \<open>Patterns with \<open>*\<close>, \<open>?\<close>, brackets and the backslash, without flags and in the C locale. \<open>None\<close> is what POSIX does not say
  (a bracket or a backslash that is not completed) and what is left out here: classes, equivalence classes and collating symbols.\<close>

fun unescape :: "string \<Rightarrow> (char \<times> string) option" where
  "unescape [] = None"
| "unescape (c # cs) =
     (if c = CHR 0x5C then (case cs of [] \<Rightarrow> None | d # ds \<Rightarrow> Some (d, ds)) else Some (c, cs))"

lemma unescape_shortens: "unescape s = Some (c, s') \<Longrightarrow> length s' < length s"
  by (cases s) (auto split: if_splits list.splits)

declare unescape.simps [simp del]

text \<open>The members of a bracket up to its end, as ranges.\<close>

function bracket_ranges :: "bool \<Rightarrow> string \<Rightarrow> ((char \<times> char) list \<times> string) option" where
  "bracket_ranges first s =
     (case s of
        [] \<Rightarrow> None
      | c # cs \<Rightarrow>
          if c = CHR '']'' \<and> \<not> first then Some ([], cs)
          else if c = CHR ''['' \<and> cs \<noteq> [] \<and> hd cs \<in> set '':=.'' then None
          else unescape s \<bind> (\<lambda>(lo, s1).
            if length s1 \<ge> 2 \<and> hd s1 = CHR ''-'' \<and> s1 ! 1 \<noteq> CHR '']'' then
              unescape (tl s1) \<bind> (\<lambda>(hi, s2). bracket_ranges False s2 \<bind> (\<lambda>(rs, s3). Some ((lo, hi) # rs, s3)))
            else bracket_ranges False s1 \<bind> (\<lambda>(rs, s3). Some ((lo, lo) # rs, s3))))"
  by pat_completeness auto
termination by (relation "measure (\<lambda>(first, s). length s)") (auto dest!: unescape_shortens)

declare bracket_ranges.simps [simp del]

definition in_ranges :: "(char \<times> char) list \<Rightarrow> char \<Rightarrow> bool" where
  "in_ranges rs c \<longleftrightarrow> (\<exists>r\<in>set rs. (of_char (fst r) :: nat) \<le> of_char c \<and> (of_char c :: nat) \<le> of_char (snd r))"

text \<open>The bracket behind \<open>[\<close>: whether it is complemented, its ranges, and the rest of the pattern.\<close>

definition fn_bracket :: "string \<Rightarrow> (bool \<times> (char \<times> char) list \<times> string) option" where
  "fn_bracket p =
     (let neg = (p \<noteq> [] \<and> (hd p = CHR ''!'' \<or> hd p = CHR 0x5E))
      in map_option (\<lambda>(rs, p'). (neg, rs, p')) (bracket_ranges True (if neg then tl p else p)))"

lemma bracket_ranges_shortens: "bracket_ranges first s = Some (rs, s') \<Longrightarrow> length s' < length s"
proof (induction s arbitrary: first rs s' rule: length_induct)
  case (1 s)
  obtain c cs where s: "s = c # cs" using "1.prems" by (cases s) (auto simp: bracket_ranges.simps)
  show ?case
  proof (cases "c = CHR '']'' \<and> \<not> first")
    case True
    then show ?thesis using "1.prems" by (simp add: s bracket_ranges.simps)
  next
    case False
    then obtain lo s1 where u: "unescape s = Some (lo, s1)"
      using "1.prems" by (auto simp: s bracket_ranges.simps [of first] bind_eq_Some_conv split: if_splits)
    have short: "length s1 < length s" by (rule unescape_shortens [OF u])
    have "(\<exists>r hi s2. unescape (tl s1) = Some (hi, s2) \<and> bracket_ranges False s2 = Some (r, s') \<and> s1 \<noteq> [])
        \<or> (\<exists>r. bracket_ranges False s1 = Some (r, s'))"
      using "1.prems" False u
      by (auto simp: s bracket_ranges.simps [of first] bind_eq_Some_conv split: if_splits)
    then show ?thesis
    proof
      assume "\<exists>r hi s2. unescape (tl s1) = Some (hi, s2) \<and> bracket_ranges False s2 = Some (r, s') \<and> s1 \<noteq> []"
      then obtain r hi s2 where r: "unescape (tl s1) = Some (hi, s2)" "bracket_ranges False s2 = Some (r, s')" by blast
      from unescape_shortens [OF r(1)] short have "length s2 < length s" by simp
      with "1.IH" r(2) show ?thesis by (meson less_trans)
    next
      assume "\<exists>r. bracket_ranges False s1 = Some (r, s')"
      with "1.IH" short show ?thesis by (meson less_trans)
    qed
  qed
qed

lemma fn_bracket_shortens: "fn_bracket p = Some (neg, rs, p') \<Longrightarrow> length p' < length p"
  by (auto simp: fn_bracket_def Let_def dest!: bracket_ranges_shortens split: if_splits)

function fnmatch :: "string \<Rightarrow> string \<Rightarrow> bool option" where
  "fnmatch [] s = Some (s = [])"
| "fnmatch (c # p) s =
     (if c = CHR ''*'' then
        (case fnmatch p s of
           Some False \<Rightarrow> (case s of [] \<Rightarrow> Some False | _ # t \<Rightarrow> fnmatch (c # p) t)
         | r \<Rightarrow> r)
      else if c = CHR ''?'' then (case s of [] \<Rightarrow> Some False | _ # t \<Rightarrow> fnmatch p t)
      else if c = CHR ''['' then
        (case fn_bracket p of
           None \<Rightarrow> None
         | Some (neg, rs, p') \<Rightarrow>
             (case s of [] \<Rightarrow> Some False | d # t \<Rightarrow> if in_ranges rs d \<noteq> neg then fnmatch p' t else Some False))
      else
        (case unescape (c # p) of
           None \<Rightarrow> None
         | Some (e, p') \<Rightarrow> (case s of [] \<Rightarrow> Some False | d # t \<Rightarrow> if d = e then fnmatch p' t else Some False)))"
  by pat_completeness auto
termination
  by (relation "measure (\<lambda>(p, s). length p + length s)") (auto dest!: fn_bracket_shortens unescape_shortens)

subsection \<open>Evaluation\<close>

text \<open>The user's terminal and disk, and the variable \<open>process\<close>.\<close>

record finder = front +
  fr_in :: string
  process :: int

text \<open>What the tests depend on: the time at which the program was started, \<open>divsize\<close>, the programs that \<open>execvp\<close> runs (whether
  they exit with zero, and what they do to disk and terminal), and \<open>ctime\<close>, whose text has at least twenty-four
  characters. \<open>time\<close> is the clock of the disk.\<close>

record find_env =
  now :: int
  fe_divsize :: bool
  run_program :: "string list \<Rightarrow> finder \<Rightarrow> bool \<times> finder"
  ctime :: "int \<Rightarrow> string"

fun compare_with :: "comparison \<Rightarrow> int \<Rightarrow> int \<Rightarrow> bool" where
  "compare_with FIND_EQUAL a b = (a = b)"
| "compare_with FIND_LESSTHAN a b = (a < b)"
| "compare_with FIND_GREATER a b = (a > b)"

text \<open>\<open>SECSPERDAY\<close> is the text \<open>(long)60*60*24\<close> of \<^verbatim>\<open>tweak.h\<close>, without parentheses around it: behind a division only the
  first factor divides.\<close>

definition find_time :: "int \<Rightarrow> comparison \<Rightarrow> int \<Rightarrow> remote_stat \<Rightarrow> bool" where
  "find_time t cmp n sb =
     compare_with cmp (((t - int (rs_mtime sb) + 60 * 60 * 24 - 1) sdiv 60) * 60 * 24) n"

definition find_size :: "bool \<Rightarrow> comparison \<Rightarrow> int \<Rightarrow> remote_stat \<Rightarrow> bool" where
  "find_size div512 cmp n sb =
     compare_with cmp (if div512 then (int (rs_size sb) + 512 - 1) sdiv 512 else int (rs_size sb)) n"

text \<open>The result of \<open>fnmatch\<close> is returned as it is, and that is 0 for a match.\<close>

definition find_name :: "string \<Rightarrow> string \<Rightarrow> bool option" where
  "find_name pattern path =
     map_option Not (fnmatch pattern (rev (takeWhile (\<lambda>c. c \<noteq> SL) (rev path))))"

definition say :: "string \<Rightarrow> finder \<Rightarrow> finder" where
  "say l fi = fi\<lparr> fr_out := fr_out fi @ [l] \<rparr>"

text \<open>\<open>{}\<close> in an argument of \<open>-exec\<close> stands for the path. The buffer has \<open>MAXPATHLEN\<close> characters; beyond them the code writes
  through a pointer into the block that \<open>realloc\<close> has freed, or behind the block.\<close>

abbreviation (input) MAXPATHLEN :: nat where "MAXPATHLEN \<equiv> 4096"

fun has_braces :: "string \<Rightarrow> bool" where
  "has_braces (c # d # cs) = (c = CHR ''{'' \<and> d = CHR ''}'' \<or> has_braces (d # cs))"
| "has_braces _ = False"

fun put_path :: "string \<Rightarrow> string \<Rightarrow> string" where
  "put_path path (c # d # cs) =
     (if c = CHR ''{'' \<and> d = CHR ''}'' then path @ put_path path cs else c # put_path path (d # cs))"
| "put_path path cs = cs"

definition brace_subst :: "string \<Rightarrow> string \<Rightarrow> string option" where
  "brace_subst path orig =
     (let s = put_path path orig in if has_braces orig \<and> length s \<ge> MAXPATHLEN then None else Some s)"

fun all_some :: "'a option list \<Rightarrow> 'a list option" where
  "all_some [] = Some []"
| "all_some (x # xs) = do { y \<leftarrow> x; ys \<leftarrow> all_some xs; Some (y # ys) }"

text \<open>The answer is the first character of a line of standard input.\<close>

definition queryuser :: "finder \<Rightarrow> bool \<times> finder" where
  "queryuser fi =
     (fr_in fi \<noteq> [] \<and> hd (fr_in fi) = CHR ''y'', fi\<lparr> fr_in := tl (dropWhile (\<lambda>c. c \<noteq> NL) (fr_in fi)) \<rparr>)"

text \<open>\<open>fork\<close>, \<open>execvp\<close> and \<open>wait\<close>: what runs cannot change the variables of this program.\<close>

definition spawn :: "find_env \<Rightarrow> string list \<Rightarrow> finder \<Rightarrow> bool \<times> finder" where
  "spawn env argv fi = (case run_program env argv fi of (ok, fi1) \<Rightarrow> (ok, fi1\<lparr> process := process fi \<rparr>))"

definition find_exec :: "find_env \<Rightarrow> bool \<Rightarrow> string list \<Rightarrow> string \<Rightarrow> finder \<Rightarrow> (bool \<times> finder) option" where
  "find_exec env isok orig path fi =
     all_some (map (brace_subst path) orig) \<bind> (\<lambda>argv.
       if isok then
         if argv = [] then None
         else (case queryuser fi of (yes, fi1) \<Rightarrow> Some (if yes then spawn env argv fi1 else (False, fi1)))
       else Some (spawn env argv fi))"

definition lpad :: "nat \<Rightarrow> string \<Rightarrow> string" where
  "lpad n s = replicate (n - length s) CHR '' '' @ s"

definition rpad :: "nat \<Rightarrow> string \<Rightarrow> string" where
  "rpad n s = s @ replicate (n - length s) CHR '' ''"

abbreviation (input) SIXMONTHS :: int where "SIXMONTHS \<equiv> (365 div 2) * 60 * 60 * 24"

definition printtime_ffind :: "(int \<Rightarrow> string) \<Rightarrow> int \<Rightarrow> int \<Rightarrow> string" where
  "printtime_ffind ct today ftime =
     (let s = ct ftime
      in take 7 (drop 4 s) @ (if ftime + SIXMONTHS > today then take 5 (drop 11 s) else CHR '' '' # take 4 (drop 20 s)) @ '' '')"

definition printlong_ffind :: "(int \<Rightarrow> string) \<Rightarrow> int \<Rightarrow> string \<Rightarrow> remote_stat \<Rightarrow> string" where
  "printlong_ffind ct today name sb =
     lpad 4 (dec ((rs_size sb + 1023) div 1024)) @ '' '' @
     (if rs_dir sb then ''drwxrwxrwx'' else ''-rw-rw-rw-'') @ '' '' @ lpad 3 (dec (rs_nlink sb)) @ '' '' @
     rpad 8 ''nobody'' @ '' '' @ rpad 8 ''nobody'' @ '' '' @
     lpad 8 (dec (rs_size sb)) @ '' '' @ printtime_ffind ct today (int (rs_mtime sb)) @ name"

text \<open>\<open>eval\<close> of a test.\<close>

definition eval_primary :: "find_env \<Rightarrow> primary \<Rightarrow> remote_stat \<Rightarrow> string \<Rightarrow> finder \<Rightarrow> (bool \<times> finder) option" where
  "eval_primary env p sb path fi =
     (case p of
        N_TIME cmp n \<Rightarrow> Some (find_time (now env) cmp n sb, fi)
      | N_EXEC isok argv \<Rightarrow> find_exec env isok argv path fi
      | N_LS \<Rightarrow> Some (True, say (printlong_ffind (ctime env) (clock (fr_world fi)) path sb) fi)
      | N_NAME pattern \<Rightarrow> map_option (\<lambda>b. (b, fi)) (find_name pattern path)
      | N_NEWER t \<Rightarrow> Some (int (rs_mtime sb) > t, fi)
      | N_PRINT \<Rightarrow> Some (True, say path fi)
      | N_PRUNE \<Rightarrow> Some (True, fi\<lparr> process := - 1 \<rparr>)
      | N_SIZE cmp n \<Rightarrow> Some (find_size (fe_divsize env) cmp n sb, fi)
      | N_TYPE d \<Rightarrow> Some (rs_dir sb = d, fi))"

text \<open>\<open>find_expr\<close>, \<open>find_not\<close> and \<open>find_or\<close> with the loop over a list of nodes they share, which stops at the first that is
  false. The state of an empty list is not set. A node that is no expression has no function, or data that are not set.\<close>

fun eval_node :: "find_env \<Rightarrow> PLAN \<Rightarrow> remote_stat \<Rightarrow> string \<Rightarrow> finder \<Rightarrow> (bool \<times> finder) option"
  and eval_plan :: "find_env \<Rightarrow> PLAN list \<Rightarrow> remote_stat \<Rightarrow> string \<Rightarrow> finder \<Rightarrow> (bool \<times> finder) option" where
  "eval_node env (Primary p) sb path fi = eval_primary env p sb path fi"
| "eval_node env (N_EXPR sub) sb path fi = (if sub = [] then None else eval_plan env sub sb path fi)"
| "eval_node env (N_NOT sub) sb path fi =
     (if sub = [] then None else eval_plan env sub sb path fi \<bind> (\<lambda>(state, fi1). Some (\<not> state, fi1)))"
| "eval_node env (N_OR left right) sb path fi =
     (if left = [] \<or> right = [] then None
      else eval_plan env left sb path fi \<bind> (\<lambda>(state, fi1).
        if state then Some (True, fi1) else eval_plan env right sb path fi1))"
| "eval_node env _ sb path fi = None"
| "eval_plan env [] sb path fi = Some (True, fi)"
| "eval_plan env (p # ps) sb path fi =
     eval_node env p sb path fi \<bind> (\<lambda>(state, fi1).
       if state then eval_plan env ps sb path fi1 else Some (False, fi1))"

subsection \<open>The command\<close>

definition eval_file :: "find_env \<Rightarrow> PLAN list \<Rightarrow> string \<Rightarrow> remote_stat \<Rightarrow> finder \<Rightarrow> finder option" where
  "eval_file env plan name sb fi = map_option snd (eval_plan env plan sb name fi)"

definition eval_dir :: "find_env \<Rightarrow> PLAN list \<Rightarrow> string \<Rightarrow> remote_stat \<Rightarrow> finder \<Rightarrow> (int \<times> finder) option" where
  "eval_dir env plan name sb fi =
     map_option (\<lambda>r. (process (snd r), snd r)) (eval_plan env plan sb name (fi\<lparr> process := 0 \<rparr>))"

definition find_visitor :: "find_env \<Rightarrow> PLAN list \<Rightarrow> (finder, 's) visitor" where
  "find_visitor env plan = \<lparr>
     process_file = (\<lambda>name sb m level st. map_option (\<lambda>fi. (fi, snd st)) (eval_file env plan name sb (fst st))),
     process_start_dir = (\<lambda>name sb m st. map_option (\<lambda>(rc, fi). (rc, m, fi, snd st)) (eval_dir env plan name sb (fst st))),
     process_end_dir = (\<lambda>path m sm level st. Some st) \<rparr>"

text \<open>The names are the arguments before the first that is an option; without any the usage is printed. The command works on \<open>finder\<close>;
  \<open>Inl\<close> is the exit before anything is evaluated, or undefined behaviour there.\<close>

definition ffindcmd_main ::
  "'s asking \<Rightarrow> (finder, 's) globber \<Rightarrow> (string list \<Rightarrow> finder \<Rightarrow> bool \<times> finder) \<Rightarrow> (int \<Rightarrow> string)
    \<Rightarrow> string list \<Rightarrow> (finder, 's) everything \<Rightarrow> (finder, 's) everything option formed" where
  "ffindcmd_main ask glob run ct args st =
     (let names = takeWhile (\<lambda>a. find_option a = None) args; w = fr_world (fst st)
      in if names = [] then Inl Usage
         else if_formed (find_formplan w (drop (length names) args)) (\<lambda>(plan, fo).
           let env = \<lparr> now = clock w, fe_divsize = divsize fo, run_program = run, ctime = ct \<rparr>
           in Inr (for_each (glob_or_self glob (\<lambda>name. util_process_file ask (find_visitor env plan) name 0 0)) names st)))"

end
