(* ===== verification/FindRuns.thy ===== *)
theory FindRuns
  imports Find GlobRuns
begin

text \<open>
  What the arguments of \<open>find\<close> mean: expressions with \<open>!\<close>, \<open>-o\<close> and parentheses against their value by the book, and
  the tests whose answer is not the documented one.
\<close>

subsection \<open>Expressions\<close>

text \<open>The grammar of the manual page: alternatives of conjunctions of factors; a factor is a primary or a parenthesis behind a
  number of \<open>!\<close>.\<close>

datatype 'p expression = Leaf 'p | Group "'p alternatives"
  and 'p alternatives = Last "'p conjunction" | Or_else "'p conjunction" "'p alternatives"
  and 'p conjunction = Only "'p factor" | And_then "'p factor" "'p conjunction"
  and 'p factor = Nots nat "'p expression"

text \<open>The value: from left to right, as far as needed.\<close>

primrec value_e :: "('p \<Rightarrow> 'st \<Rightarrow> (bool \<times> 'st) option) \<Rightarrow> 'p expression \<Rightarrow> 'st \<Rightarrow> (bool \<times> 'st) option"
  and value_a :: "('p \<Rightarrow> 'st \<Rightarrow> (bool \<times> 'st) option) \<Rightarrow> 'p alternatives \<Rightarrow> 'st \<Rightarrow> (bool \<times> 'st) option"
  and value_c :: "('p \<Rightarrow> 'st \<Rightarrow> (bool \<times> 'st) option) \<Rightarrow> 'p conjunction \<Rightarrow> 'st \<Rightarrow> (bool \<times> 'st) option"
  and value_f :: "('p \<Rightarrow> 'st \<Rightarrow> (bool \<times> 'st) option) \<Rightarrow> 'p factor \<Rightarrow> 'st \<Rightarrow> (bool \<times> 'st) option" where
  "value_e ev (Leaf p) st = ev p st"
| "value_e ev (Group a) st = value_a ev a st"
| "value_a ev (Last c) st = value_c ev c st"
| "value_a ev (Or_else c a) st = value_c ev c st \<bind> (\<lambda>(b, st1). if b then Some (True, st1) else value_a ev a st1)"
| "value_c ev (Only f) st = value_f ev f st"
| "value_c ev (And_then f c) st = value_f ev f st \<bind> (\<lambda>(b, st1). if b then value_c ev c st1 else Some (False, st1))"
| "value_f ev (Nots k e) st = value_e ev e st \<bind> (\<lambda>(b, st1). Some (b \<noteq> odd k, st1))"

text \<open>The nodes of an expression, and the nodes as the arguments give them, with the parentheses written out.\<close>

primrec nodes_e :: "primary expression \<Rightarrow> PLAN"
  and nodes_a :: "primary alternatives \<Rightarrow> PLAN list"
  and nodes_c :: "primary conjunction \<Rightarrow> PLAN list"
  and nodes_f :: "primary factor \<Rightarrow> PLAN list" where
  "nodes_e (Leaf p) = Primary p"
| "nodes_e (Group a) = N_EXPR (nodes_a a)"
| "nodes_a (Last c) = nodes_c c"
| "nodes_a (Or_else c a) = nodes_c c @ New_or # nodes_a a"
| "nodes_c (Only f) = nodes_f f"
| "nodes_c (And_then f c) = nodes_f f @ nodes_c c"
| "nodes_f (Nots k e) = replicate k New_not @ [nodes_e e]"

primrec written_e :: "primary expression \<Rightarrow> PLAN list"
  and written_a :: "primary alternatives \<Rightarrow> PLAN list"
  and written_c :: "primary conjunction \<Rightarrow> PLAN list"
  and written_f :: "primary factor \<Rightarrow> PLAN list" where
  "written_e (Leaf p) = [Primary p]"
| "written_e (Group a) = N_OPENPAREN # written_a a @ [N_CLOSEPAREN]"
| "written_a (Last c) = written_c c"
| "written_a (Or_else c a) = written_c c @ New_or # written_a a"
| "written_c (Only f) = written_f f"
| "written_c (And_then f c) = written_f f @ written_c c"
| "written_f (Nots k e) = replicate k New_not @ written_e e"

text \<open>A parenthesis behind \<open>!\<close> may have no \<open>!\<close> inside.\<close>

primrec no_nots_e :: "'p expression \<Rightarrow> bool"
  and no_nots_a :: "'p alternatives \<Rightarrow> bool"
  and no_nots_c :: "'p conjunction \<Rightarrow> bool"
  and no_nots_f :: "'p factor \<Rightarrow> bool" where
  "no_nots_e (Leaf p) = True"
| "no_nots_e (Group a) = no_nots_a a"
| "no_nots_a (Last c) = no_nots_c c"
| "no_nots_a (Or_else c a) = (no_nots_c c \<and> no_nots_a a)"
| "no_nots_c (Only f) = no_nots_f f"
| "no_nots_c (And_then f c) = (no_nots_f f \<and> no_nots_c c)"
| "no_nots_f (Nots k e) = (k = 0 \<and> no_nots_e e)"

primrec sound_e :: "'p expression \<Rightarrow> bool"
  and sound_a :: "'p alternatives \<Rightarrow> bool"
  and sound_c :: "'p conjunction \<Rightarrow> bool"
  and sound_f :: "'p factor \<Rightarrow> bool" where
  "sound_e (Leaf p) = True"
| "sound_e (Group a) = sound_a a"
| "sound_a (Last c) = sound_c c"
| "sound_a (Or_else c a) = (sound_c c \<and> sound_a a)"
| "sound_c (Only f) = sound_f f"
| "sound_c (And_then f c) = (sound_f f \<and> sound_c c)"
| "sound_f (Nots k e) = (if k = 0 then sound_e e else no_nots_e e)"

lemma nodes_not_Nil [simp]: "nodes_a a \<noteq> []" "nodes_c c \<noteq> []" "nodes_f f \<noteq> []"
proof -
  have f: "nodes_f f \<noteq> []" for f by (cases f) simp
  have c: "nodes_c c \<noteq> []" for c by (cases c) (simp_all add: f)
  have "nodes_a a \<noteq> []" for a by (cases a) (simp_all add: c)
  with f c show "nodes_a a \<noteq> []" "nodes_c c \<noteq> []" "nodes_f f \<noteq> []" by simp_all
qed

lemma nodes_e_simple [simp]: "nodes_e e \<noteq> N_OPENPAREN" "nodes_e e \<noteq> N_CLOSEPAREN" "nodes_e e \<noteq> New_not" "nodes_e e \<noteq> New_or"
  by (cases e; simp)+

text \<open>Parentheses.\<close>

lemma gather_node: "n \<noteq> N_OPENPAREN \<Longrightarrow> n \<noteq> N_CLOSEPAREN \<Longrightarrow> gather sub (n # rest) = gather (sub @ [n]) rest"
  by (simp add: gather.simps [of sub])

lemma gather_nots: "gather sub (replicate k New_not @ rest) = gather (sub @ replicate k New_not) rest"
  by (induction k arbitrary: sub) (simp_all add: gather_node replicate_append_same)

lemma gather_close: "sub \<noteq> [] \<Longrightarrow> gather sub (N_CLOSEPAREN # rest) = Inr (Some (N_EXPR sub), rest)"
  by (simp add: gather.simps [of sub])

lemma gather_written:
  "gather sub (written_e e @ rest) = gather (sub @ [nodes_e e]) rest"
  "gather sub (written_a a @ rest) = gather (sub @ nodes_a a) rest"
  "gather sub (written_c c @ rest) = gather (sub @ nodes_c c) rest"
  "gather sub (written_f f @ rest) = gather (sub @ nodes_f f) rest"
proof (induction e and a and c and f arbitrary: sub rest and sub rest and sub rest and sub rest)
  case (Group a)
  have "gather [] (written_a a @ N_CLOSEPAREN # rest) = Inr (Some (N_EXPR (nodes_a a)), rest)"
    by (simp add: Group gather_close)
  then show ?case by (simp add: gather.simps [of sub])
qed (simp_all add: gather_node gather_nots)

lemma yank_group: "yankexpr (N_OPENPAREN # written_a a @ N_CLOSEPAREN # rest) = Inr (Some (N_EXPR (nodes_a a)), rest)"
  by (simp add: gather_written gather_close)

lemma paren_squish_node:
  "n \<noteq> N_OPENPAREN \<Longrightarrow> n \<noteq> N_CLOSEPAREN \<Longrightarrow>
     paren_squish (n # rest) = if_formed (paren_squish rest) (\<lambda>r. Inr (n # r))"
  by (simp add: paren_squish.simps [of "n # rest"])

lemma paren_squish_nots:
  "paren_squish (replicate k New_not @ rest) = if_formed (paren_squish rest) (\<lambda>r. Inr (replicate k New_not @ r))"
  by (induction k) (auto simp: paren_squish_node if_formed_def split: sum.splits)

lemma paren_squish_written:
  "paren_squish (written_e e @ rest) = if_formed (paren_squish rest) (\<lambda>r. Inr (nodes_e e # r))"
  "paren_squish (written_a a @ rest) = if_formed (paren_squish rest) (\<lambda>r. Inr (nodes_a a @ r))"
  "paren_squish (written_c c @ rest) = if_formed (paren_squish rest) (\<lambda>r. Inr (nodes_c c @ r))"
  "paren_squish (written_f f @ rest) = if_formed (paren_squish rest) (\<lambda>r. Inr (nodes_f f @ r))"
proof (induction e and a and c and f arbitrary: rest and rest and rest and rest)
  case (Group a)
  show ?case by (simp add: paren_squish.simps [of "N_OPENPAREN # _"] yank_group [simplified])
qed (auto simp: paren_squish_node paren_squish_nots if_formed_def split: sum.splits)

text \<open>Negations. What is behind them is left as it is.\<close>

primrec negs_e :: "primary expression \<Rightarrow> PLAN"
  and negs_a :: "primary alternatives \<Rightarrow> PLAN list"
  and negs_c :: "primary conjunction \<Rightarrow> PLAN list"
  and negs_f :: "primary factor \<Rightarrow> PLAN list" where
  "negs_e (Leaf p) = Primary p"
| "negs_e (Group a) = N_EXPR (negs_a a)"
| "negs_a (Last c) = negs_c c"
| "negs_a (Or_else c a) = negs_c c @ New_or # negs_a a"
| "negs_c (Only f) = negs_f f"
| "negs_c (And_then f c) = negs_f f @ negs_c c"
| "negs_f (Nots k e) = [if k = 0 then negs_e e else if odd k then N_NOT [nodes_e e] else nodes_e e]"

lemma run_of_nots:
  "n \<noteq> New_not \<Longrightarrow> takeWhile (\<lambda>m. m = New_not) (replicate k New_not @ n # rest) = replicate k New_not"
  "n \<noteq> New_not \<Longrightarrow> dropWhile (\<lambda>m. m = New_not) (replicate k New_not @ n # rest) = n # rest"
  by (induction k) auto

lemma not_squish_nots:
  "0 < k \<Longrightarrow> not_squish (replicate k New_not @ nodes_e e # rest) =
     if_formed (not_squish rest) (\<lambda>r. Inr ((if odd k then N_NOT [nodes_e e] else nodes_e e) # r))"
  by (cases k) (simp_all add: run_of_nots)

lemma not_squish_nodes:
  "not_squish (nodes_e e # rest) = if_formed (not_squish rest) (\<lambda>r. Inr (negs_e e # r))"
  "not_squish (nodes_a a @ rest) = if_formed (not_squish rest) (\<lambda>r. Inr (negs_a a @ r))"
  "not_squish (nodes_c c @ rest) = if_formed (not_squish rest) (\<lambda>r. Inr (negs_c c @ r))"
  "not_squish (nodes_f f @ rest) = if_formed (not_squish rest) (\<lambda>r. Inr (negs_f f @ r))"
proof (induction e and a and c and f arbitrary: rest and rest and rest and rest)
  case (Group a)
  show ?case using Group [of "[]"] by simp
next
  case (Nots k e)
  then show ?case by (cases "k = 0") (simp_all add: not_squish_nots)
qed (auto simp: if_formed_def split: sum.splits)

text \<open>The plan.\<close>

primrec plan_e :: "primary expression \<Rightarrow> PLAN"
  and plan_a :: "primary alternatives \<Rightarrow> PLAN list"
  and plan_c :: "primary conjunction \<Rightarrow> PLAN list"
  and plan_f :: "primary factor \<Rightarrow> PLAN list" where
  "plan_e (Leaf p) = Primary p"
| "plan_e (Group a) = N_EXPR (plan_a a)"
| "plan_a (Last c) = plan_c c"
| "plan_a (Or_else c a) = [N_OR (plan_c c) (plan_a a)]"
| "plan_c (Only f) = plan_f f"
| "plan_c (And_then f c) = plan_f f @ plan_c c"
| "plan_f (Nots k e) = [if odd k then N_NOT [plan_e e] else plan_e e]"

lemma plan_not_Nil [simp]: "plan_c c \<noteq> []" "plan_a a \<noteq> []"
proof -
  have f: "plan_f f \<noteq> []" for f by (cases f) simp
  have c: "plan_c c \<noteq> []" for c by (cases c) (simp_all add: f)
  have "plan_a a \<noteq> []" for a by (cases a) (simp_all add: c)
  with c show "plan_c c \<noteq> []" "plan_a a \<noteq> []" by simp_all
qed

lemma or_squish_node [simp]:
  "or_squish acc (Primary p # rest) = or_squish (acc @ [Primary p]) rest"
  "or_squish acc (N_EXPR sub # rest) = if_formed (or_squish [] sub) (\<lambda>s. or_squish (acc @ [N_EXPR s]) rest)"
  "or_squish acc (N_NOT sub # rest) = if_formed (or_squish [] sub) (\<lambda>s. or_squish (acc @ [N_NOT s]) rest)"
  "or_squish acc (New_not # rest) = Inl Undefined_behaviour"
  "or_squish acc (New_or # rest) =
     (if acc = [] then Inl Usage
      else if_formed (or_squish [] rest) (\<lambda>r. if r = [] then Inl Usage else Inr [N_OR acc r]))"
  by simp_all

declare or_squish.simps(2) [simp del]

lemma or_squish_nodes:
  "or_squish acc (nodes_e e # rest) = (if no_nots_e e then or_squish (acc @ [plan_e e]) rest else Inl Undefined_behaviour)"
  "or_squish [] (nodes_a a) = (if no_nots_a a then Inr (plan_a a) else Inl Undefined_behaviour)"
  "or_squish acc (nodes_c c @ rest) = (if no_nots_c c then or_squish (acc @ plan_c c) rest else Inl Undefined_behaviour)"
  "or_squish acc (nodes_f f @ rest) = (if no_nots_f f then or_squish (acc @ plan_f f) rest else Inl Undefined_behaviour)"
proof (induction e and a and c and f arbitrary: acc rest and and acc rest and acc rest)
  case (Last c)
  show ?case using Last [of "[]" "[]"] by simp
next
  case (Nots k e)
  then show ?case by (cases k) simp_all
qed simp_all

lemma or_squish_negs:
  "or_squish acc (negs_e e # rest) = (if sound_e e then or_squish (acc @ [plan_e e]) rest else Inl Undefined_behaviour)"
  "or_squish [] (negs_a a) = (if sound_a a then Inr (plan_a a) else Inl Undefined_behaviour)"
  "or_squish acc (negs_c c @ rest) = (if sound_c c then or_squish (acc @ plan_c c) rest else Inl Undefined_behaviour)"
  "or_squish acc (negs_f f @ rest) = (if sound_f f then or_squish (acc @ plan_f f) rest else Inl Undefined_behaviour)"
proof (induction e and a and c and f arbitrary: acc rest and and acc rest and acc rest)
  case (Last c)
  show ?case using Last [of "[]" "[]"] by simp
next
  case (Nots k e)
  then show ?case by (simp add: or_squish_nodes(1))
qed simp_all

lemma squish_written:
  "squish (written_a a) = (if sound_a a then Inr (plan_a a) else Inl Undefined_behaviour)"
  using paren_squish_written(2) [of a "[]"] not_squish_nodes(2) [of a "[]"]
  by (simp add: squish_def or_squish_negs paren_squish.simps [of "[]"])

lemma eval_plan_value:
  "eval_node env (plan_e e) sb path fi = value_e (\<lambda>p. eval_primary env p sb path) e fi"
  "eval_plan env (plan_a a) sb path fi = value_a (\<lambda>p. eval_primary env p sb path) a fi"
  "eval_plan env (plan_c c @ rest) sb path fi = value_c (\<lambda>p. eval_primary env p sb path) c fi \<bind>
     (\<lambda>(b, fi1). if b then eval_plan env rest sb path fi1 else Some (False, fi1))"
  "eval_plan env (plan_f f @ rest) sb path fi = value_f (\<lambda>p. eval_primary env p sb path) f fi \<bind>
     (\<lambda>(b, fi1). if b then eval_plan env rest sb path fi1 else Some (False, fi1))"
proof (induction e and a and c and f arbitrary: fi and fi and rest fi and rest fi)
  case (Last c)
  show ?case using Last [of "[]"] by (auto simp: bind_eq_Some_conv split: bind_splits if_splits)
next
  case (Or_else c a)
  have "eval_plan env (plan_c c) sb path fi = value_c (\<lambda>p. eval_primary env p sb path) c fi"
    using Or_else(1) [of "[]" fi] by (auto split: bind_splits if_splits)
  then show ?case by (auto simp: Or_else(2) split: bind_splits if_splits)
next
  case (And_then f c)
  then show ?case by (auto split: bind_splits if_splits)
next
  case (Nots k e)
  then show ?case by (auto split: bind_splits if_splits)
qed (auto split: bind_splits if_splits)

subsection \<open>Arguments\<close>

text \<open>An expression as the user writes it. The file of \<open>-newer\<close> is left out, and so is \<open>c\<close> behind a size.\<close>

definition comparison_sign :: "comparison \<Rightarrow> string" where
  "comparison_sign cmp = (case cmp of FIND_EQUAL \<Rightarrow> [] | FIND_LESSTHAN \<Rightarrow> ''-'' | FIND_GREATER \<Rightarrow> ''+'')"

definition primary_args :: "primary \<Rightarrow> string list" where
  "primary_args p =
     (case p of
        N_TIME cmp n \<Rightarrow> [''-time'', comparison_sign cmp @ dec (nat n)]
      | N_EXEC isok argv \<Rightarrow> (if isok then ''-ok'' else ''-exec'') # argv @ ['';'']
      | N_LS \<Rightarrow> [''-ls'']
      | N_NAME pattern \<Rightarrow> [''-name'', pattern]
      | N_NEWER t \<Rightarrow> []
      | N_PRINT \<Rightarrow> [''-print'']
      | N_PRUNE \<Rightarrow> [''-prune'']
      | N_SIZE cmp n \<Rightarrow> [''-size'', comparison_sign cmp @ dec (nat n)]
      | N_TYPE d \<Rightarrow> [''-type'', if d then ''d'' else ''f''])"

definition writable :: "primary \<Rightarrow> bool" where
  "writable p =
     (case p of
        N_TIME cmp n \<Rightarrow> 0 \<le> n \<and> n < 2 ^ 63
      | N_SIZE cmp n \<Rightarrow> 0 \<le> n \<and> n < 2 ^ 63
      | N_EXEC isok argv \<Rightarrow> list_all (\<lambda>a. \<not> ends_exec a) argv
      | N_NEWER t \<Rightarrow> False
      | _ \<Rightarrow> True)"

definition gives_output :: "primary \<Rightarrow> bool" where
  "gives_output p = (case p of N_EXEC isok argv \<Rightarrow> True | N_LS \<Rightarrow> True | N_PRINT \<Rightarrow> True | _ \<Rightarrow> False)"

primrec args_e :: "primary expression \<Rightarrow> string list"
  and args_a :: "primary alternatives \<Rightarrow> string list"
  and args_c :: "primary conjunction \<Rightarrow> string list"
  and args_f :: "primary factor \<Rightarrow> string list" where
  "args_e (Leaf p) = primary_args p"
| "args_e (Group a) = ''('' # args_a a @ ['')'']"
| "args_a (Last c) = args_c c"
| "args_a (Or_else c a) = args_c c @ ''-o'' # args_a a"
| "args_c (Only f) = args_f f"
| "args_c (And_then f c) = args_f f @ args_c c"
| "args_f (Nots k e) = replicate k ''!'' @ args_e e"

primrec primaries_e :: "'p expression \<Rightarrow> 'p list"
  and primaries_a :: "'p alternatives \<Rightarrow> 'p list"
  and primaries_c :: "'p conjunction \<Rightarrow> 'p list"
  and primaries_f :: "'p factor \<Rightarrow> 'p list" where
  "primaries_e (Leaf p) = [p]"
| "primaries_e (Group a) = primaries_a a"
| "primaries_a (Last c) = primaries_c c"
| "primaries_a (Or_else c a) = primaries_c c @ primaries_a a"
| "primaries_c (Only f) = primaries_f f"
| "primaries_c (And_then f c) = primaries_f f @ primaries_c c"
| "primaries_f (Nots k e) = primaries_e e"

text \<open>Numbers.\<close>

lemma digits_value_agree:
  "list_all isdigit s \<Longrightarrow> Conf.digits_value 10 (int v) s = int (IpRange.digits_value v s)"
proof (induction s arbitrary: v)
  case (Cons c cs)
  have d: "48 \<le> (of_char c :: nat)" "(of_char c :: nat) \<le> 57" using Cons.prems by (auto simp: isdigit_def)
  have i: "(of_char c :: int) = int (of_char c)" by (simp add: of_nat_of_char)
  have eq: "10 * int v + ((of_char c :: int) - 48) = int (10 * v + ((of_char c :: nat) - 48))" using d i by linarith
  have below: "(of_char c :: nat) - 48 < 10" using d by linarith
  from Cons.prems have "isdigit c" "list_all isdigit cs" by simp_all
  with below show ?case by (simp add: Cons.IH eq del: of_nat_add of_nat_mult)
qed simp

lemma dec_start: "hd (dec n) \<noteq> CHR ''-''" "hd (dec n) \<noteq> CHR ''+''" "\<not> isspace (hd (dec n))" "isdigit (hd (dec n))"
  using dec_hd [of n] by (auto simp: isspace_def isdigit_def)

lemma dec_no_space: "dropWhile isspace (dec n) = dec n"
  using dec_start(3) [of n] by (cases "dec n") auto

lemma strtol_dec: "int n < 2 ^ 63 \<Longrightarrow> strtol 10 (dec n) = int n"
  using dec_start [of n] digits_value_agree [OF isdigit_dec, of 0 n]
  by (simp add: strtol_def digits_value_dec dec_no_space)

lemma number_end_dec: "number_end (dec n) = Some []"
proof -
  have "dropWhile isdigit (dec n) = []" using isdigit_dec [of n] by (simp add: list_all_iff dropWhile_eq_Nil_conv)
  then show ?thesis using dec_start [of n] by (simp add: number_end_def dec_no_space)
qed

lemma parsenum_dec:
  assumes "0 \<le> n" "n < 2 ^ 63"
  shows "find_parsenum (comparison_sign cmp @ dec (nat n)) e = Inr (cmp, n, None)"
proof -
  obtain c cs where d: "dec (nat n) = c # cs" "c \<noteq> CHR ''-''" "c \<noteq> CHR ''+''"
    using dec_start [of "nat n"] by (cases "dec (nat n)") auto
  have "strtol 10 (c # cs) = n" "number_end (c # cs) = Some []"
    using strtol_dec [of "nat n"] number_end_dec [of "nat n"] assms by (simp_all flip: d(1))
  then show ?thesis using d by (cases cmp) (auto simp: find_parsenum_def comparison_sign_def)
qed

text \<open>The nodes of the arguments.\<close>

definition notes_output :: "bool \<Rightarrow> forming \<Rightarrow> forming" where
  "notes_output b fo = fo\<lparr> isoutput := isoutput fo \<or> b \<rparr>"

lemma notes_output_simps [simp]:
  "notes_output False fo = fo" "notes_output b2 (notes_output b1 fo) = notes_output (b1 \<or> b2) fo"
  "isoutput (notes_output b fo) = (isoutput fo \<or> b)"
  by (simp_all add: notes_output_def)

lemma find_option_simps:
  "find_option ''!'' = Some (O_ZERO New_not False)" "find_option ''('' = Some (O_ZERO N_OPENPAREN False)"
  "find_option '')'' = Some (O_ZERO N_CLOSEPAREN False)" "find_option ''-o'' = Some (O_ZERO New_or False)"
  "find_option ''-exec'' = Some (O_ARGVP False)" "find_option ''-ok'' = Some (O_ARGVP True)"
  "find_option ''-ls'' = Some (O_ZERO (Primary N_LS) True)" "find_option ''-print'' = Some (O_ZERO (Primary N_PRINT) True)"
  "find_option ''-prune'' = Some (O_ZERO (Primary N_PRUNE) False)"
  "find_option ''-name'' = Some (O_ARGV (\<lambda>w a. without_forming (Inr (N_NAME a))))"
  "find_option ''-size'' = Some (O_ARGV (\<lambda>w. c_size))"
  "find_option ''-time'' = Some (O_ARGV (\<lambda>w a. without_forming (c_time a)))"
  "find_option ''-type'' = Some (O_ARGV (\<lambda>w a. without_forming (c_type a)))"
  by (simp_all add: find_option_def options_def)

lemma find_nodes_zero:
  "find_option a = Some (O_ZERO n out) \<Longrightarrow>
     find_nodes w (a # rest) fo = if_formed (find_nodes w rest (notes_output out fo)) (\<lambda>(ns, fo'). Inr (n # ns, fo'))"
  by (simp add: find_create_def notes_output_def)

lemmas find_nodes_words = find_option_simps(1-4) [THEN find_nodes_zero]

declare find_nodes.simps(2) [simp del]

lemma find_nodes_nots:
  "find_nodes w (replicate k ''!'' @ rest) fo =
     if_formed (find_nodes w rest fo) (\<lambda>(ns, fo'). Inr (replicate k New_not @ ns, fo'))"
proof (induction k)
  case 0
  show ?case by (auto simp: if_formed_def split: sum.splits)
next
  case (Suc k)
  then show ?case
    by (auto simp: find_nodes_words if_formed_def split: sum.splits)
qed

lemma exec_args:
  assumes "list_all (\<lambda>a. \<not> ends_exec a) argv"
  shows "c_exec isok (argv @ '';'' # rest) = Inr (N_EXEC isok argv, rest)"
proof -
  have "takeWhile (\<lambda>a. \<not> ends_exec a) (argv @ '';'' # rest) = argv"
    "dropWhile (\<lambda>a. \<not> ends_exec a) (argv @ '';'' # rest) = '';'' # rest"
    using assms by (induction argv) (auto simp: ends_exec_def)
  then show ?thesis by (simp add: c_exec_def)
qed

lemma find_nodes_primary:
  assumes "writable p"
  shows "find_nodes w (primary_args p @ rest) fo =
     if_formed (find_nodes w rest (notes_output (gives_output p) fo)) (\<lambda>(ns, fo'). Inr (Primary p # ns, fo'))"
proof (cases p)
  case (N_TIME cmp n)
  then show ?thesis using assms
    by (simp add: primary_args_def writable_def gives_output_def find_nodes.simps(2) find_create_def find_option_simps without_forming_def c_time_def parsenum_dec)
next
  case (N_SIZE cmp n)
  then show ?thesis using assms
    by (simp add: primary_args_def writable_def gives_output_def find_nodes.simps(2) find_create_def find_option_simps c_size_def parsenum_dec)
next
  case (N_EXEC isok argv)
  then show ?thesis using assms exec_args [of argv isok rest]
    by (cases isok) (simp_all add: primary_args_def writable_def gives_output_def find_nodes.simps(2) find_create_def find_option_simps notes_output_def)
next
  case (N_NEWER t)
  then show ?thesis using assms by (simp add: writable_def)
qed (simp_all add: find_nodes.simps(2) primary_args_def gives_output_def notes_output_def find_option_simps find_create_def without_forming_def c_type_def)

lemma find_nodes_args:
  "list_all writable (primaries_e e) \<Longrightarrow> find_nodes w (args_e e @ rest) fo =
     if_formed (find_nodes w rest (notes_output (list_ex gives_output (primaries_e e)) fo)) (\<lambda>(ns, fo'). Inr (written_e e @ ns, fo'))"
  "list_all writable (primaries_a a) \<Longrightarrow> find_nodes w (args_a a @ rest) fo =
     if_formed (find_nodes w rest (notes_output (list_ex gives_output (primaries_a a)) fo)) (\<lambda>(ns, fo'). Inr (written_a a @ ns, fo'))"
  "list_all writable (primaries_c c) \<Longrightarrow> find_nodes w (args_c c @ rest) fo =
     if_formed (find_nodes w rest (notes_output (list_ex gives_output (primaries_c c)) fo)) (\<lambda>(ns, fo'). Inr (written_c c @ ns, fo'))"
  "list_all writable (primaries_f f) \<Longrightarrow> find_nodes w (args_f f @ rest) fo =
     if_formed (find_nodes w rest (notes_output (list_ex gives_output (primaries_f f)) fo)) (\<lambda>(ns, fo'). Inr (written_f f @ ns, fo'))"
proof (induction e and a and c and f arbitrary: rest fo and rest fo and rest fo and rest fo)
  case (Leaf p)
  then show ?case by (simp add: find_nodes_primary)
next
  case (Group a)
  then show ?case by (simp add: find_nodes_words if_formed_def case_prod_beta split: sum.splits)
next
  case (Or_else c a)
  then show ?case by (simp add: find_nodes_words if_formed_def case_prod_beta split: sum.splits)
next
  case (And_then f c)
  then show ?case by (simp add: if_formed_def case_prod_beta split: sum.splits)
next
  case (Nots k e)
  then show ?case by (simp add: find_nodes_nots if_formed_def case_prod_beta split: sum.splits)
qed simp_all

text \<open>Without an action, \<open>-print\<close> belongs to the last alternative.\<close>

primrec print_c :: "primary conjunction \<Rightarrow> primary conjunction" where
  "print_c (Only f) = And_then f (Only (Nots 0 (Leaf N_PRINT)))"
| "print_c (And_then f c) = And_then f (print_c c)"

primrec print_a :: "primary alternatives \<Rightarrow> primary alternatives" where
  "print_a (Last c) = Last (print_c c)"
| "print_a (Or_else c a) = Or_else c (print_a a)"

definition with_output :: "primary alternatives \<Rightarrow> primary alternatives" where
  "with_output a = (if list_ex gives_output (primaries_a a) then a else print_a a)"

lemma written_print: "written_a (print_a a) = written_a a @ [Primary N_PRINT]"
proof -
  have "written_c (print_c c) = written_c c @ [Primary N_PRINT]" for c by (induction c) simp_all
  then show ?thesis by (induction a) simp_all
qed

lemma sound_print: "sound_a (print_a a) = sound_a a"
proof -
  have "sound_c (print_c c) = sound_c c" for c by (induction c) simp_all
  then show ?thesis by (induction a) simp_all
qed

lemma formplan_args:
  assumes "list_all writable (primaries_a a)"
  shows "find_formplan w (args_a a) =
    (if sound_a a then Inr (plan_a (with_output a), notes_output (list_ex gives_output (primaries_a a)) not_formed)
     else Inl Undefined_behaviour)"
  using find_nodes_args(2) [OF assms, of w "[]" not_formed]
  by (simp add: find_formplan_def with_output_def squish_written sound_print not_formed_def flip: written_print)

text \<open>C19: The plan that \<open>find\<close> forms of an expression has the value the manual gives it: \<open>!\<close> binds tighter than juxtaposition, that
  tighter than \<open>-o\<close>, both stop as soon as the value is known, and the actions happen in this order; \<open>-print\<close> is
  added to the last alternative if there is no action. Only a \<open>!\<close> inside a parenthesis behind a \<open>!\<close> makes the code read data never set.\<close>

theorem find_evaluates_expressions:
  assumes "list_all writable (primaries_a a)"
  shows "if sound_a a
    then \<exists>plan fo. find_formplan w (args_a a) = Inr (plan, fo) \<and>
      (\<forall>env sb path fi. eval_plan env plan sb path fi = value_a (\<lambda>p. eval_primary env p sb path) (with_output a) fi)
    else find_formplan w (args_a a) = Inl Undefined_behaviour"
  by (simp add: formplan_args [OF assms] eval_plan_value)

definition sample_expression :: "primary alternatives" where
  "sample_expression =
     Or_else (And_then (Nots 0 (Leaf (N_TYPE True))) (Only (Nots 0 (Leaf N_PRUNE))))
       (Last (Only (Nots 1 (Leaf (N_SIZE FIND_GREATER 10)))))"

theorem find_evaluates_expressions_witness:
  "args_a sample_expression = [''-type'', ''d'', ''-prune'', ''-o'', ''!'', ''-size'', ''+10''] \<and>
   (\<exists>plan fo. find_formplan demo_world [''-type'', ''d'', ''-prune'', ''-o'', ''!'', ''-size'', ''+10''] = Inr (plan, fo) \<and>
      (\<forall>env sb path fi. eval_plan env plan sb path fi =
        value_a (\<lambda>p. eval_primary env p sb path) (with_output sample_expression) fi))"
proof -
  have args: "args_a sample_expression = [''-type'', ''d'', ''-prune'', ''-o'', ''!'', ''-size'', ''+10'']"
    by code_simp
  have "list_all writable (primaries_a sample_expression)"
    by (simp add: sample_expression_def writable_def)
  moreover have "sound_a sample_expression" by (simp add: sample_expression_def)
  ultimately show ?thesis using find_evaluates_expressions [of sample_expression demo_world] args by simp
qed

subsection \<open>Tests\<close>

text \<open>\<open>-time\<close> compares with minutes, counted in steps of 1440, and not with days.\<close>

lemma time_in_steps:
  "eval_primary env (N_TIME FIND_EQUAL n) sb path fi = Some (True, fi') \<Longrightarrow> 1440 dvd n"
  by (auto simp: eval_primary_def find_time_def)

text \<open>\<open>c\<close> behind one size makes every size one of characters.\<close>

lemma one_size_for_all:
  "find_formplan w [''-size'', ''1'', ''-o'', ''-size'', ''4c''] = Inr (p, fo) \<Longrightarrow> \<not> divsize fo"
  by (auto simp: find_formplan_def find_nodes.simps(2) find_create_def find_option_simps c_size_def find_parsenum_def number_end_def
      not_formed_def if_formed_def isdigit_def isspace_def split: sum.splits)

text \<open>A parenthesis that is not closed, and a \<open>!\<close> with nothing behind it, read a null pointer; the other errors are reported.\<close>

lemma form_errors:
  "find_formplan w [''('', ''-print''] = Inl Undefined_behaviour"
  "find_formplan w [''-print'', ''!''] = Inl Undefined_behaviour"
  "find_formplan w [''-print'', '')''] = Inl Usage"
  "find_formplan w [''('', '')''] = Inl Usage"
  "find_formplan w [''!'', ''-o'', ''-print''] = Inl Usage"
  "find_formplan w [''-print'', ''-o''] = Inl Usage"
  by (simp_all add: find_formplan_def find_nodes.simps(2) find_create_def find_option_simps not_formed_def squish_def
      paren_squish.simps gather.simps)

lemma name_plan:
  "find_formplan w [''-name'', pattern] = Inr ([Primary (N_NAME pattern), Primary N_PRINT], not_formed)"
  by (simp add: find_formplan_def find_nodes.simps(2) find_create_def find_option_simps without_forming_def not_formed_def squish_def
      paren_squish.simps)

text \<open>\<open>find FILE -name PATTERN\<close> prints the name of a remote file exactly if the file name does not match the pattern; the
  manual says that the test is true if it does.\<close>

theorem find_name_prints_the_others:
  assumes "find_option file = None" "glob_flags file = (False, False)"
    and "util_stat ask file se s = Some (Some sb, se1, s1)" "\<not> rs_dir sb"
    and "file = d @ SL # name" "SL \<notin> set name" "fnmatch pattern name = Some b"
  shows "ffindcmd_main ask (bsdglob ask) run ct [file, ''-name'', pattern] (fi, se, s) =
    Inr (Some (if b then fi else say file fi, se1, s1))"
proof -
  have "rev (takeWhile (\<lambda>c. c \<noteq> SL) (rev file)) = name"
    using assms(5,6) by (simp add: takeWhile_append)
  then have t: "find_name pattern file = Some (\<not> b)" by (simp add: find_name_def assms(7))
  show ?thesis
    using assms(1-4)
    by (auto simp: ffindcmd_main_def find_option_simps(10) name_plan glob_or_self_def bsdglob_def util_process_file_def walk_tree.simps find_visitor_def
        eval_file_def eval_primary_def t)
qed

definition sample_finder :: finder where
  "sample_finder = \<lparr> fr_world = demo_world, fr_out = [], fr_in = [], process = 0 \<rparr>"

theorem find_name_prints_the_others_witness:
  "ffindcmd_main (\<lambda>_ _. None) (bsdglob (\<lambda>_ _. None)) (\<lambda>_ fi. (False, fi)) (\<lambda>_. [])
     [''/a.c'', ''-name'', ''*.c''] (sample_finder, glob_session, ()) = Inr (Some (sample_finder, glob_session, ())) \<and>
   ffindcmd_main (\<lambda>_ _. None) (bsdglob (\<lambda>_ _. None)) (\<lambda>_ fi. (False, fi)) (\<lambda>_. [])
     [''/a.c'', ''-name'', ''*.h''] (sample_finder, glob_session, ()) = Inr (Some (say ''/a.c'' sample_finder, glob_session, ()))"
proof -
  have o': "find_option ''/a.c'' = None" "glob_flags ''/a.c'' = (False, False)" by code_simp+
  have "util_stat (\<lambda>_ _. None) ''/a.c'' glob_session () = Some (Some (entry_stat (glob_entry RDTYPE_FILE ''a.c'')), glob_session, ())"
    by code_simp
  moreover have "\<not> rs_dir (entry_stat (glob_entry RDTYPE_FILE ''a.c''))" by code_simp
  moreover have "fnmatch ''*.c'' ''a.c'' = Some True" "fnmatch ''*.h'' ''a.c'' = Some False" by code_simp+
  ultimately show ?thesis
    using o' find_name_prints_the_others [of "''/a.c''" "\<lambda>_ _. None" glob_session "()" _ glob_session "()" "[]" "''a.c''"]
    by simp
qed

end
