(* ===== verification/Ls.thy ===== *)
theory Ls
  imports Find Glob
begin

text \<open>
  The command \<open>ls\<close>: \<^verbatim>\<open>bsd_src/ls.c\<close>, \<^verbatim>\<open>bsd_src/print.c\<close>, \<^verbatim>\<open>bsd_src/cmp.c\<close> and \<^verbatim>\<open>bsd_src/util.c\<close>.

  The flags and the buffer \<open>path\<close> with its end \<open>endofpath\<close> are the record \<open>lister\<close>, which also has what was written to standard
  output. The total of blocks and the greatest length of a name, which the code keeps in unused fields of the first record, are
  passed beside the list of records. \<open>qsort\<close> keeps the order of equal records, as the merge sort of the usual library does.
  \<open>None\<close> is a buffer that is too small or a conversation that does not come back. Messages to standard error and \<open>exit\<close> are
  left out, so are \<open>fflush\<close> and the handling of memory.
\<close>

subsection \<open>Flags and records\<close>

record ls_flags =
  f_accesstime :: bool
  f_column :: bool
  f_group :: bool
  f_ignorelink :: bool
  f_inode :: bool
  f_kblocks :: bool
  f_listalldot :: bool
  f_listdir :: bool
  f_listdot :: bool
  f_longform :: bool
  f_needstat :: bool
  f_newline :: bool
  f_nonprint :: bool
  f_nosort :: bool
  f_recursive :: bool
  f_reversesort :: bool
  f_singlecol :: bool
  f_size :: bool
  f_statustime :: bool
  f_dirname :: bool
  f_timesort :: bool
  f_total :: bool
  f_type :: bool

definition no_flags :: ls_flags where
  "no_flags = \<lparr> f_accesstime = False, f_column = False, f_group = False, f_ignorelink = False, f_inode = False, f_kblocks = False,
     f_listalldot = False, f_listdir = False, f_listdot = False, f_longform = False, f_needstat = False, f_newline = False,
     f_nonprint = False, f_nosort = False, f_recursive = False, f_reversesort = False, f_singlecol = False, f_size = False,
     f_statustime = False, f_dirname = False, f_timesort = False, f_total = False, f_type = False \<rparr>"

record LS =
  ls_name :: string
  ls_stat :: remote_stat
  ls_ino :: nat

text \<open>What is outside: the width of the terminal, \<open>ctime\<close> and the time of day, and what the fields of a record held that are not
  set (\<open>lstat\<close> of a name that is not looked up, and the inode of an operand).\<close>

record ls_env =
  termwidth :: int
  ls_ctime :: "int \<Rightarrow> string"
  today :: int
  unset_stat :: remote_stat
  unset_ino :: nat

record lister =
  li_flags :: ls_flags
  path_buf :: string
  li_out :: string

definition emit :: "string \<Rightarrow> lister \<Rightarrow> lister" where
  "emit t li = li\<lparr> li_out := li_out li @ t \<rparr>"

subsection \<open>Order\<close>

definition namecmp :: "LS \<Rightarrow> LS \<Rightarrow> int" where
  "namecmp a b = strcmp (ls_name a) (ls_name b)"

text \<open>The difference of two times is cut to \<open>int\<close>. All three times of a file are the same.\<close>

definition modcmp :: "LS \<Rightarrow> LS \<Rightarrow> int" where
  "modcmp a b = - sint (of_int (int (rs_mtime (ls_stat a)) - int (rs_mtime (ls_stat b))) :: u32)"

definition sortfcn :: "ls_flags \<Rightarrow> LS \<Rightarrow> LS \<Rightarrow> int" where
  "sortfcn fl a b =
     (let cmp = (if f_timesort fl then modcmp else namecmp)
      in if f_reversesort fl then cmp b a else cmp a b)"

fun insert_by :: "('a \<Rightarrow> 'a \<Rightarrow> int) \<Rightarrow> 'a \<Rightarrow> 'a list \<Rightarrow> 'a list" where
  "insert_by cmp x [] = [x]"
| "insert_by cmp x (y # ys) = (if cmp x y \<le> 0 then x # y # ys else y # insert_by cmp x ys)"

definition qsort :: "('a \<Rightarrow> 'a \<Rightarrow> int) \<Rightarrow> 'a list \<Rightarrow> 'a list" where
  "qsort cmp xs = foldr (insert_by cmp) xs []"

subsection \<open>Printing\<close>

definition BLK :: "nat \<Rightarrow> nat" where
  "BLK n = (n + 1023) div 1024"

definition printtype :: "remote_stat \<Rightarrow> string" where
  "printtype sb = (if rs_dir sb then ''/'' else [])"

text \<open>The text and the number of characters as the code counts them.\<close>

definition printaname :: "ls_flags \<Rightarrow> LS \<Rightarrow> string \<times> nat" where
  "printaname fl lp =
     (let kind = (if f_type fl then printtype (ls_stat lp) else [])
      in ((if f_inode fl then lpad 5 (dec (ls_ino lp)) @ '' '' else []) @
          (if f_size fl then lpad 4 (dec (BLK (rs_size (ls_stat lp)))) @ '' '' else []) @ ls_name lp @ kind,
          (if f_inode fl then 6 else 0) + (if f_size fl then 5 else 0) + length (ls_name lp) + length kind))"

definition printscol :: "ls_flags \<Rightarrow> LS list \<Rightarrow> string" where
  "printscol fl stats = concat (map (\<lambda>lp. fst (printaname fl lp) @ [NL]) stats)"

definition printtime :: "ls_env \<Rightarrow> nat \<Rightarrow> string" where
  "printtime env ftime =
     (let s = ls_ctime env (int ftime)
      in take 7 (drop 4 s) @
         (if int ftime + (365 div 2) * 24 * 60 * 60 > today env then take 5 (drop 11 s) else CHR '' '' # take 4 (drop 20 s)) @ '' '')"

definition long_line :: "ls_env \<Rightarrow> ls_flags \<Rightarrow> LS \<Rightarrow> string" where
  "long_line env fl lp =
     (let sb = ls_stat lp
      in (if f_inode fl then lpad 6 (dec (ls_ino lp)) @ '' '' else []) @
         (if f_size fl then lpad 4 (dec (BLK (rs_size sb))) @ '' '' else []) @
         (if rs_dir sb then ''drwxrwxrwx'' else ''-rw-rw-rw-'') @ '' '' @ lpad 3 (dec (rs_nlink sb)) @ '' '' @ rpad 8 ''nobody'' @ '' '' @
         (if f_group fl then rpad 8 ''nobody'' else lpad 8 (dec (rs_size sb))) @ '' '' @
         printtime env (rs_mtime sb) @ ls_name lp @ (if f_type fl then printtype sb else []) @ [NL])"

definition total_line :: "nat \<Rightarrow> string" where
  "total_line btotal = ''total '' @ dec btotal @ [NL]"

definition printlong :: "ls_env \<Rightarrow> ls_flags \<Rightarrow> nat \<Rightarrow> LS list \<Rightarrow> string" where
  "printlong env fl btotal stats =
     (if f_total fl then total_line btotal else []) @ concat (map (long_line env fl) stats)"

text \<open>Columns: the next stop of a tabulator behind a position; the tabulators up to the end of a column, with the position they lead
  to; a row, from the column at \<open>base\<close> on.\<close>

definition next_stop :: "nat \<Rightarrow> nat" where
  "next_stop n = (n + 8) div 8 * 8"

lemma next_stop_greater: "n < next_stop n"
  by (simp add: next_stop_def)

function tabs_to :: "nat \<Rightarrow> nat \<Rightarrow> string \<times> nat" where
  "tabs_to endcol chcnt =
     (if next_stop chcnt \<le> endcol then (let (ts, n) = tabs_to endcol (next_stop chcnt) in (TAB # ts, n)) else ([], chcnt))"
  by pat_completeness auto
termination
proof (relation "measure (\<lambda>(endcol, chcnt). endcol - chcnt)", goal_cases)
  case (2 endcol chcnt)
  then show ?case using next_stop_greater [of chcnt] by simp
qed simp

declare tabs_to.simps [simp del]

primrec print_row :: "ls_flags \<Rightarrow> LS list \<Rightarrow> nat \<Rightarrow> nat \<Rightarrow> nat \<Rightarrow> nat \<Rightarrow> nat \<Rightarrow> nat \<Rightarrow> string" where
  "print_row fl stats numrows colwidth 0 base endcol chcnt = []"
| "print_row fl stats numrows colwidth (Suc cols) base endcol chcnt =
     (let (t, n) = printaname fl (stats ! base); base' = base + numrows
      in if base' \<ge> length stats then t
         else (let (ts, chcnt') = tabs_to endcol (chcnt + n)
               in t @ ts @ print_row fl stats numrows colwidth cols base' (endcol + colwidth) chcnt'))"

definition column_width :: "ls_flags \<Rightarrow> nat \<Rightarrow> nat" where
  "column_width fl maxlen =
     next_stop (maxlen + (if f_inode fl then 6 else 0) + (if f_size fl then 5 else 0) + (if f_type fl then 1 else 0))"

definition printcol :: "ls_env \<Rightarrow> ls_flags \<Rightarrow> nat \<Rightarrow> nat \<Rightarrow> LS list \<Rightarrow> string" where
  "printcol env fl btotal maxlen stats =
     (let colwidth = column_width fl maxlen
      in if termwidth env < 2 * int colwidth then printscol fl stats
         else
           (let num = length stats; numcols = nat (termwidth env) div colwidth;
                numrows = num div numcols + (if num mod numcols \<noteq> 0 then 1 else 0)
            in (if f_size fl \<and> f_total fl then total_line btotal else []) @
               concat (map (\<lambda>row. print_row fl stats numrows colwidth numcols row colwidth 0 @ [NL]) [0..<numrows])))"

definition printfcn :: "ls_env \<Rightarrow> ls_flags \<Rightarrow> nat \<Rightarrow> nat \<Rightarrow> LS list \<Rightarrow> string" where
  "printfcn env fl btotal maxlen stats =
     (if f_singlecol fl then printscol fl stats
      else if f_longform fl then printlong env fl btotal stats
      else printcol env fl btotal maxlen stats)"

subsection \<open>Directories\<close>

text \<open>The records of the entries of the open directory; names with a leading dot depend on the flags. A name that cannot be looked up
  is passed over.\<close>

definition listed :: "ls_flags \<Rightarrow> string \<Rightarrow> bool" where
  "listed fl p \<longleftrightarrow> p = [] \<or> hd p \<noteq> CHR ''.'' \<or> f_listdot fl \<and> (f_listalldot fl \<or> p \<noteq> ''.'' \<and> p \<noteq> ''..'')"

fun tab_entries ::
  "'s asking \<Rightarrow> ls_env \<Rightarrow> ls_flags \<Rightarrow> RDIRENT list \<Rightarrow> session \<Rightarrow> 's \<Rightarrow> (LS list \<times> session \<times> 's) option" where
  "tab_entries ask env fl [] se s = Some ([], se, s)"
| "tab_entries ask env fl (e # es) se s =
     (if \<not> listed fl (de_name e) then tab_entries ask env fl es se s
      else do {
        (r, se1, s1) \<leftarrow> (if f_needstat fl then util_stat ask (de_name e) se s else Some (Some (unset_stat env), se, s));
        (rest, se2, s2) \<leftarrow> tab_entries ask env fl es se1 s1;
        Some (case r of
            None \<Rightarrow> rest
          | Some sb \<Rightarrow> \<lparr> ls_name = de_name e, ls_stat = sb, ls_ino = 10 \<rparr> # rest, se2, s2) })"

definition block_sum :: "ls_flags \<Rightarrow> LS list \<Rightarrow> nat" where
  "block_sum fl stats = (if f_longform fl \<or> f_size fl then sum_list (map (\<lambda>lp. BLK (rs_size (ls_stat lp))) stats) else 0)"

definition longest_name :: "ls_flags \<Rightarrow> LS list \<Rightarrow> nat" where
  "longest_name fl stats = (if f_column fl then foldr max (map (\<lambda>lp. length (ls_name lp)) stats) 0 else 0)"

definition tabdir :: "'s asking \<Rightarrow> ls_env \<Rightarrow> ls_flags \<Rightarrow> session \<Rightarrow> 's \<Rightarrow> (LS list \<times> session \<times> 's) option" where
  "tabdir ask env fl se s = do {
     (rd, se1, s1) \<leftarrow> util_opendir ask ''.'' se s;
     (case rd of
        None \<Rightarrow> Some ([], se1, s1)
      | Some d \<Rightarrow> do {
          (stats, se2, s2) \<leftarrow> tab_entries ask env fl (dep d) se1 s1;
          Some (stats, util_closedir d se2, s2) }) }"

text \<open>The first part of \<open>displaydir\<close>: the records in their order, printed.\<close>

definition ordered :: "ls_flags \<Rightarrow> LS list \<Rightarrow> LS list" where
  "ordered fl stats = (if length stats > 1 \<and> \<not> f_nosort fl then qsort (sortfcn fl) stats else stats)"

definition show_all :: "ls_env \<Rightarrow> LS list \<Rightarrow> lister \<Rightarrow> lister" where
  "show_all env stats li =
     (let fl = li_flags li in emit (printfcn env fl (block_sum fl stats) (longest_name fl stats) (ordered fl stats)) li)"

text \<open>The buffer \<open>path\<close> has room for 2048 characters. A name is appended behind a slash.\<close>

abbreviation (input) LS_PATHLEN :: nat where "LS_PATHLEN \<equiv> 2048"

definition append_name :: "string \<Rightarrow> string \<Rightarrow> string option" where
  "append_name p name =
     (let q = (if p \<noteq> [] \<and> last p \<noteq> SL then p @ [SL] else p) @ name
      in if length q > LS_PATHLEN then None else Some q)"

text \<open>\<open>subdir\<close> and the loop of \<open>displaydir\<close> over the directories of a listing.\<close>

datatype ls_task = Subdir LS | Below "LS list"

partial_function (option) ls_walk ::
  "'s asking \<Rightarrow> ls_env \<Rightarrow> ls_task \<Rightarrow> (lister, 's) everything \<Rightarrow> (lister, 's) everything option" where
  [code]: "ls_walk ask env t st =
     (case t of
        Subdir lp \<Rightarrow>
          (let fl = li_flags (fst st);
               li1 = emit ((if f_newline fl then [NL] else []) @ (if f_dirname fl then path_buf (fst st) @ '':'' @ [NL] else [])) (fst st)
           in util_cd2 (ls_name lp) (fst (snd st)) \<bind> (\<lambda>se1.
              tabdir ask env fl se1 (snd (snd st)) \<bind> (\<lambda>(stats, se2, s2).
              (if stats = [] then Some (li1, se2, s2)
               else if f_recursive fl then ls_walk ask env (Below (ordered fl stats)) (show_all env stats li1, se2, s2)
               else Some (show_all env stats li1, se2, s2)) \<bind> (\<lambda>st3.
              util_cd2 ''..'' (fst (snd st3)) \<bind> (\<lambda>se4. Some (fst st3, se4, snd (snd st3)))))))
      | Below [] \<Rightarrow> Some st
      | Below (lp # lps) \<Rightarrow>
          if \<not> rs_dir (ls_stat lp) \<or> ls_name lp = ''.'' \<or> ls_name lp = ''..'' then ls_walk ask env (Below lps) st
          else
            append_name (path_buf (fst st)) (ls_name lp) \<bind> (\<lambda>p.
              ls_walk ask env (Subdir lp)
                ((fst st)\<lparr> path_buf := p, li_flags := (li_flags (fst st))\<lparr> f_newline := True, f_dirname := True, f_total := True \<rparr> \<rparr>, snd st) \<bind> (\<lambda>st1.
              ls_walk ask env (Below lps) ((fst st1)\<lparr> path_buf := path_buf (fst st) \<rparr>, snd st1))))"

definition displaydir :: "'s asking \<Rightarrow> ls_env \<Rightarrow> LS list \<Rightarrow> (lister, 's) everything \<Rightarrow> (lister, 's) everything option" where
  "displaydir ask env stats st =
     (let fl = li_flags (fst st); st1 = (show_all env stats (fst st), snd st)
      in if f_recursive fl then ls_walk ask env (Below (ordered fl stats)) st1 else Some st1)"

subsection \<open>Operands\<close>

definition isprint :: "char \<Rightarrow> bool" where
  "isprint c \<longleftrightarrow> 32 \<le> (of_char c :: nat) \<and> (of_char c :: nat) < 127"

definition prcopy :: "string \<Rightarrow> string" where
  "prcopy s = map (\<lambda>c. if isprint c then c else CHR ''?'') s"

text \<open>The operands that are directories and the others, as the arrays \<open>dstats\<close> and \<open>rstats\<close>; one that does not exist is
  passed over. The arrays are collected in the pair that is the first component of the state.\<close>

definition note_operand :: "'s asking \<Rightarrow> ls_env \<Rightarrow> ls_flags \<Rightarrow> string \<Rightarrow> (LS list \<times> LS list, 's) everything \<Rightarrow> (LS list \<times> LS list, 's) everything option" where
  "note_operand ask env fl name st =
     (case st of ((ds, rs), se, s) \<Rightarrow> do {
        (r, se1, s1) \<leftarrow> util_stat ask name se s;
        Some (case r of
            None \<Rightarrow> (ds, rs)
          | Some sb \<Rightarrow>
              if rs_dir sb \<and> \<not> f_listdir fl then (ds @ [\<lparr> ls_name = name, ls_stat = sb, ls_ino = unset_ino env \<rparr>], rs)
              else (ds, rs @ [\<lparr> ls_name = if f_nonprint fl then prcopy name else name, ls_stat = sb, ls_ino = unset_ino env \<rparr>]),
          se1, s1) })"

text \<open>Each directory in turn. With several the current one is set again in between; \<open>top\<close> has the size of \<open>path\<close>.\<close>

fun show_dirs :: "'s asking \<Rightarrow> ls_env \<Rightarrow> string option \<Rightarrow> LS list \<Rightarrow> (lister, 's) everything \<Rightarrow> (lister, 's) everything option" where
  "show_dirs ask env wd [] st = Some st"
| "show_dirs ask env wd (d # ds) st =
     (if length (ls_name d) > LS_PATHLEN then None
      else ls_walk ask env (Subdir d) ((fst st)\<lparr> path_buf := ls_name d \<rparr>, snd st) \<bind> (\<lambda>(li1, se1, s1).
        let li2 = li1\<lparr> li_flags := (li_flags li1)\<lparr> f_newline := True \<rparr> \<rparr>
        in if ds = [] then Some (li2, se1, s1)
           else wd \<bind> (\<lambda>p. util_cd2 p se1 \<bind> (\<lambda>se2. show_dirs ask env wd ds (li2, se2, s1)))))"

definition doargs :: "'s asking \<Rightarrow> ls_env \<Rightarrow> string list \<Rightarrow> (lister, 's) everything \<Rightarrow> (lister, 's) everything option" where
  "doargs ask env args st =
     (case st of (li, se, s) \<Rightarrow> do {
        ((ds, rs), se1, s1) \<leftarrow>
          for_each (glob_or_self (bsdglob ask) (note_operand ask env (li_flags li))) args ((([], []), se\<lparr> statworks := False \<rparr>, s));
        (li2, se2, s2) \<leftarrow>
          (if rs = [] then Some (li, se1, s1)
           else do {
             (li2, rest) \<leftarrow> displaydir ask env rs (li, se1, s1);
             Some (li2\<lparr> li_flags := (li_flags li2)\<lparr> f_newline := True, f_dirname := True \<rparr> \<rparr>, rest) });
        (if ds = [] then Some (li2, se2, s2)
         else
           (let many = length ds > 1; fl = (li_flags li2)\<lparr> f_total := True \<rparr>;
                li3 = li2\<lparr> li_flags := if many then fl\<lparr> f_dirname := True \<rparr> else fl \<rparr>
            in if many \<and> length (env_dir se2) > LS_PATHLEN then None
               else show_dirs ask env (if many then Some (env_dir se2) else None)
                 (if many then qsort (sortfcn fl) ds else ds) (li3, se2, s2))) })"

subsection \<open>Options\<close>

definition ls_option :: "char \<Rightarrow> ls_flags \<Rightarrow> ls_flags option" where
  "ls_option c fl =
     (if c = CHR ''1'' then Some (fl\<lparr> f_singlecol := True, f_column := False, f_longform := False \<rparr>)
      else if c = CHR ''C'' then Some (fl\<lparr> f_column := True, f_longform := False, f_singlecol := False \<rparr>)
      else if c = CHR ''l'' then Some (fl\<lparr> f_longform := True, f_column := False, f_singlecol := False \<rparr>)
      else if c = CHR ''c'' then Some (fl\<lparr> f_statustime := True, f_accesstime := False \<rparr>)
      else if c = CHR ''u'' then Some (fl\<lparr> f_accesstime := True, f_statustime := False \<rparr>)
      else if c = CHR ''F'' then Some (fl\<lparr> f_type := True \<rparr>)
      else if c = CHR ''L'' then Some (fl\<lparr> f_ignorelink := True \<rparr>)
      else if c = CHR ''R'' then Some (fl\<lparr> f_recursive := True \<rparr>)
      else if c = CHR ''a'' then Some (fl\<lparr> f_listalldot := True, f_listdot := True \<rparr>)
      else if c = CHR ''A'' then Some (fl\<lparr> f_listdot := True \<rparr>)
      else if c = CHR ''d'' then Some (fl\<lparr> f_listdir := True \<rparr>)
      else if c = CHR ''f'' then Some (fl\<lparr> f_nosort := True \<rparr>)
      else if c = CHR ''g'' then Some (fl\<lparr> f_group := True \<rparr>)
      else if c = CHR ''i'' then Some (fl\<lparr> f_inode := True \<rparr>)
      else if c = CHR ''k'' then Some (fl\<lparr> f_kblocks := True \<rparr>)
      else if c = CHR ''q'' then Some (fl\<lparr> f_nonprint := True \<rparr>)
      else if c = CHR ''r'' then Some (fl\<lparr> f_reversesort := True \<rparr>)
      else if c = CHR ''s'' then Some (fl\<lparr> f_size := True \<rparr>)
      else if c = CHR ''t'' then Some (fl\<lparr> f_timesort := True \<rparr>)
      else None)"

fun ls_options :: "char list \<Rightarrow> ls_flags \<Rightarrow> ls_flags option" where
  "ls_options [] fl = Some fl"
| "ls_options (c # cs) fl = ls_option c fl \<bind> ls_options cs"

text \<open>What is set before the options are read, and what follows from them.\<close>

definition ls_defaults :: "bool \<Rightarrow> bool \<Rightarrow> ls_flags" where
  "ls_defaults tty root =
     (let fl = (if tty then no_flags\<lparr> f_nonprint := True, f_column := True \<rparr> else no_flags\<lparr> f_singlecol := True \<rparr>)
      in if root then fl\<lparr> f_listdot := True \<rparr> else fl)"

definition settle :: "ls_flags \<Rightarrow> ls_flags" where
  "settle fl =
     (let r = f_recursive fl \<and> \<not> f_listdir fl
      in fl\<lparr> f_recursive := r, f_needstat := f_longform fl \<or> r \<or> f_timesort fl \<or> f_size fl \<or> f_type fl \<rparr>)"

text \<open>The result of the command is what it wrote; an option it does not know ends it with the usage.\<close>

definition fls_main ::
  "'s asking \<Rightarrow> ls_env \<Rightarrow> bool \<Rightarrow> bool \<Rightarrow> char list \<Rightarrow> string list \<Rightarrow> session \<Rightarrow> 's \<Rightarrow> (string \<times> session \<times> 's) option" where
  "fls_main ask env tty root opts args se s =
     (case ls_options opts (ls_defaults tty root) of
        None \<Rightarrow> Some ([], se, s)
      | Some fl \<Rightarrow> do {
          (li, se1, s1) \<leftarrow> doargs ask env (if args = [] then [''.''] else args)
            (\<lparr> li_flags = settle fl, path_buf = [], li_out = [] \<rparr>, se, s);
          Some (li_out li, se1, s1) })"

end
