(* ===== verification/LsRuns.thy ===== *)
theory LsRuns
  imports Ls GlobRuns
begin

text \<open>
  What \<open>ls\<close> shows: columns that line up, and the sorted names of a directory.
\<close>

subsection \<open>Columns\<close>

text \<open>What a terminal with a tabulator at every eighth position shows of a text, from position \<open>pos\<close> on.\<close>

fun screen :: "nat \<Rightarrow> string \<Rightarrow> string" where
  "screen pos [] = []"
| "screen pos (c # cs) =
     (if c = TAB then replicate (next_stop pos - pos) CHR '' '' @ screen (next_stop pos) cs else c # screen (pos + 1) cs)"

text \<open>Texts in columns of width \<open>w\<close>; nothing is added behind the last.\<close>

fun in_columns :: "nat \<Rightarrow> string list \<Rightarrow> string" where
  "in_columns w (t # u # ts) = rpad w t @ in_columns w (u # ts)"
| "in_columns w [t] = t"
| "in_columns w [] = []"

lemma screen_plain: "TAB \<notin> set t \<Longrightarrow> screen pos (t @ cs) = t @ screen (pos + length t) cs"
  by (induction t arbitrary: pos) auto

lemma next_stop_below: "8 dvd e \<Longrightarrow> c < e \<Longrightarrow> next_stop c \<le> e"
  unfolding next_stop_def by (elim dvdE) simp

lemma tabs_to_end:
  "8 dvd e \<Longrightarrow> c \<le> e \<Longrightarrow> snd (tabs_to e c) = e \<and>
     screen c (fst (tabs_to e c) @ cs) = replicate (e - c) CHR '' '' @ screen e cs"
proof (induction e c rule: tabs_to.induct)
  case (1 e c)
  show ?case
  proof (cases "c = e")
    case True
    then show ?thesis using next_stop_greater [of e] by (simp add: tabs_to.simps [of e e])
  next
    case False
    with "1.prems" have le: "next_stop c \<le> e" by (simp add: next_stop_below)
    then have "replicate (next_stop c - c) CHR '' '' @ replicate (e - next_stop c) CHR '' '' = replicate (e - c) CHR '' ''"
      using next_stop_greater [of c] by (simp flip: replicate_add)
    then show ?thesis
      using 1 le by (simp add: tabs_to.simps [of e c] case_prod_beta flip: append_assoc)
  qed
qed

text \<open>The files of a row: those whose number leaves the same rest.\<close>

definition row_of :: "nat \<Rightarrow> nat \<Rightarrow> nat \<Rightarrow> nat list" where
  "row_of numrows num base = filter (\<lambda>i. i mod numrows = base mod numrows) [base..<num]"

lemma row_of_step:
  assumes "0 < r" "base < num"
  shows "row_of r num base = base # row_of r num (base + r)"
proof -
  have "[base..<num] = base # [Suc base..<min (base + r) num] @ [min (base + r) num..<num]"
    using assms upt_add_eq_append [of "Suc base" "min (base + r) num" "num - min (base + r) num"] by (simp add: upt_conv_Cons)
  moreover have "filter (\<lambda>i. i mod r = base mod r) [Suc base..<min (base + r) num] = []"
  proof -
    have False if "i mod r = base mod r" "base < i" "i < base + r" for i
    proof -
      from that(1,2) have "r dvd i - base" by (simp add: mod_eq_dvd_iff_nat)
      then show False using that(2,3) by (auto dest: dvd_imp_le)
    qed
    then show ?thesis by (auto simp: filter_empty_conv Suc_le_eq)
  qed
  moreover have "[min (base + r) num..<num] = [base + r..<num]" by (simp add: min_def)
  ultimately show ?thesis by (simp add: row_of_def)
qed

lemma row_of_Nil: "num \<le> base \<Longrightarrow> row_of r num base = []"
  by (simp add: row_of_def)

definition plain_text :: "ls_flags \<Rightarrow> nat \<Rightarrow> LS \<Rightarrow> bool" where
  "plain_text fl w lp \<longleftrightarrow>
     TAB \<notin> set (fst (printaname fl lp)) \<and> snd (printaname fl lp) = length (fst (printaname fl lp)) \<and> length (fst (printaname fl lp)) < w"

lemma print_row_screen:
  assumes "\<forall>lp \<in> set stats. plain_text fl w lp" "8 dvd w" "0 < r"
  shows "base < length stats \<Longrightarrow> length stats \<le> base + r * cols \<Longrightarrow> 8 dvd c \<Longrightarrow>
    screen c (print_row fl stats r w cols base (c + w) c) =
      in_columns w (map (\<lambda>i. fst (printaname fl (stats ! i))) (row_of r (length stats) base))"
proof (induction cols arbitrary: base c)
  case (Suc cols)
  obtain t n where tn: "printaname fl (stats ! base) = (t, n)" by fastforce
  have p: "TAB \<notin> set t" "n = length t" "length t < w"
    using assms(1) Suc.prems(1) tn by (auto simp: plain_text_def dest!: bspec [OF _ nth_mem])
  note step = row_of_step [OF assms(3) Suc.prems(1)]
  show ?case
  proof (cases "length stats \<le> base + r")
    case True
    then show ?thesis using p tn screen_plain [of t c "[]"] by (simp add: step row_of_Nil)
  next
    case False
    obtain ts c' where ts: "tabs_to (c + w) (c + n) = (ts, c')" by fastforce
    have "8 dvd c + w" using assms(2) Suc.prems(3) by simp
    then have t: "c' = c + w" "screen (c + n) (ts @ cs) = replicate (w - n) CHR '' '' @ screen (c + w) cs" for cs
      using tabs_to_end [of "c + w" "c + n" cs] p ts by simp_all
    have "screen (c + w) (print_row fl stats r w cols (base + r) (c + w + w) (c + w)) =
        in_columns w (map (\<lambda>i. fst (printaname fl (stats ! i))) (row_of r (length stats) (base + r)))"
      using False Suc.prems \<open>8 dvd c + w\<close> by (intro Suc.IH) (simp_all add: algebra_simps)
    moreover obtain k ks where "row_of r (length stats) (base + r) = k # ks"
      using row_of_step [OF assms(3), of "base + r" "length stats"] False by simp
    ultimately show ?thesis
      using False p tn ts t screen_plain [of t c] by (simp add: step rpad_def)
  qed
qed simp

lemma row_of_start: "i < r \<Longrightarrow> row_of r num i = filter (\<lambda>k. k mod r = i) [0..<num]"
proof (cases "i \<le> num")
  case True
  assume "i < r"
  then have "filter (\<lambda>k. k mod r = i) [0..<i] = []" by (auto simp: filter_empty_conv)
  with True \<open>i < r\<close> show ?thesis using upt_add_eq_append [of 0 i "num - i"] by (simp add: row_of_def)
next
  case False
  assume "i < r"
  with False show ?thesis by (auto simp: row_of_def filter_empty_conv)
qed

lemma enough_rows:
  fixes num cols :: nat
  assumes "0 < num" "2 \<le> cols"
  defines "r \<equiv> num div cols + (if num mod cols \<noteq> 0 then 1 else 0)"
  shows "num \<le> r * cols" "0 < r" "r \<le> num"
proof -
  have split: "num = num div cols * cols + num mod cols" by simp
  have small: "num mod cols < cols" "num div cols < num" using assms(1,2) by simp_all
  show "num \<le> r * cols"
  proof (cases "num mod cols = 0")
    case True
    with split show ?thesis by (simp add: r_def)
  next
    case False
    then have "r * cols = num div cols * cols + cols" by (simp add: r_def add_mult_distrib)
    with split small(1) show ?thesis by linarith
  qed
  show "r \<le> num" using small(2) by (simp add: r_def)
  show "0 < r" using \<open>num \<le> r * cols\<close> assms(1) by (cases r) simp_all
qed

lemma name_length: "f_column fl \<Longrightarrow> lp \<in> set stats \<Longrightarrow> length (ls_name lp) \<le> longest_name fl stats"
  by (induction stats) (auto simp: longest_name_def)

lemma names_fit:
  assumes "\<forall>lp \<in> set stats. TAB \<notin> set (fst (printaname fl lp)) \<and> snd (printaname fl lp) = length (fst (printaname fl lp))"
    and "f_column fl"
  shows "\<forall>lp \<in> set stats. plain_text fl (column_width fl (longest_name fl stats)) lp"
proof
  fix lp
  assume lp: "lp \<in> set stats"
  have "snd (printaname fl lp) \<le> longest_name fl stats + (if f_inode fl then 6 else 0) + (if f_size fl then 5 else 0) + (if f_type fl then 1 else 0)"
    using name_length [OF assms(2) lp] by (auto simp: printaname_def Let_def printtype_def)
  also have "\<dots> < column_width fl (longest_name fl stats)" unfolding column_width_def by (rule next_stop_greater)
  finally show "plain_text fl (column_width fl (longest_name fl stats)) lp" using assms(1) lp by (simp add: plain_text_def)
qed

text \<open>C33: the columns of \<open>ls\<close> line up and lose no file: with \<open>r\<close> rows the file number \<open>i\<close> is in row \<open>i mod r\<close>, the columns
  start at multiples of a width above that of every name, and the lines fit the terminal, if names have no tabulators and the
  numbers in front of them fit their fields; if there is no room for two columns each file has its line.\<close>

theorem columns_line_up:
  assumes "stats \<noteq> []" "f_column fl"
    and "\<forall>lp \<in> set stats. TAB \<notin> set (fst (printaname fl lp)) \<and> snd (printaname fl lp) = length (fst (printaname fl lp))"
    and "w = column_width fl (longest_name fl stats)" "2 * int w \<le> termwidth env"
  shows "\<exists>rows. printcol env fl btotal (longest_name fl stats) stats =
      (if f_size fl \<and> f_total fl then total_line btotal else []) @ concat (map (\<lambda>l. l @ [NL]) rows) \<and>
    0 < length rows \<and> int ((length stats - 1) div length rows + 1) * int w \<le> termwidth env \<and>
    (\<forall>i < length rows. screen 0 (rows ! i) =
      in_columns w (map (\<lambda>k. fst (printaname fl (stats ! k))) (filter (\<lambda>k. k mod length rows = i) [0..<length stats])))"
proof -
  define num where "num = length stats"
  define cols where "cols = nat (termwidth env) div w"
  define r where "r = num div cols + (if num mod cols \<noteq> 0 then 1 else 0)"
  let ?rows = "map (\<lambda>row. print_row fl stats r w cols row w 0) [0..<r]"
  have w8: "8 dvd w" "0 < w" unfolding assms(4) column_width_def next_stop_def by simp_all
  have fits: "cols * w \<le> nat (termwidth env)" "2 \<le> cols"
    using assms(5) w8(2) by (simp_all add: cols_def less_eq_div_iff_mult_less_eq le_nat_iff)
  have num: "0 < num" using assms(1) by (simp add: num_def)
  note r = enough_rows [OF num fits(2), folded r_def]
  have "printcol env fl btotal (longest_name fl stats) stats =
      (if f_size fl \<and> f_total fl then total_line btotal else []) @ concat (map (\<lambda>l. l @ [NL]) ?rows)"
    using assms(5) unfolding assms(4)
    by (simp add: printcol_def Let_def num_def cols_def r_def assms(4) o_def)
  moreover have "int ((num - 1) div r + 1) * int w \<le> termwidth env"
  proof -
    have "num - 1 < cols * r" using r(1) num by (simp add: mult.commute)
    then have "(num - 1) div r < cols" by (rule less_mult_imp_div_less)
    then have "(num - 1) div r + 1 \<le> cols" by simp
    then have "((num - 1) div r + 1) * w \<le> cols * w" by (rule mult_le_mono1)
    also have "\<dots> \<le> nat (termwidth env)" by (rule fits(1))
    finally have "int (((num - 1) div r + 1) * w) \<le> termwidth env" using assms(5) by (simp only: le_nat_iff)
    then show ?thesis by (simp only: of_nat_mult)
  qed
  moreover have "screen 0 (?rows ! i) =
      in_columns w (map (\<lambda>k. fst (printaname fl (stats ! k))) (filter (\<lambda>k. k mod r = i) [0..<num]))" if "i < r" for i
    using print_row_screen [OF _ w8(1) r(2), of stats fl i cols 0] names_fit [OF assms(3,2)] that r num
    by (simp add: num_def row_of_start assms(4))
  ultimately show ?thesis using r(2) by (intro exI [of _ ?rows]) (simp add: num_def)
qed

definition sample_file :: "string \<Rightarrow> LS" where
  "sample_file n = \<lparr> ls_name = n, ls_stat = \<lparr> rs_dir = False, rs_nlink = 1, rs_size = 5, rs_mtime = 6 \<rparr>, ls_ino = 10 \<rparr>"

definition sample_env :: ls_env where
  "sample_env = \<lparr> termwidth = 20, ls_ctime = (\<lambda>_. []), today = 0,
     unset_stat = \<lparr> rs_dir = False, rs_nlink = 0, rs_size = 0, rs_mtime = 0 \<rparr>, unset_ino = 0 \<rparr>"

definition sample_files :: "LS list" where
  "sample_files = map sample_file [''a.c'', ''b.c'', ''c'']"

theorem columns_line_up_witness:
  "\<exists>rows. printcol sample_env (ls_defaults True False) 0 (longest_name (ls_defaults True False) sample_files) sample_files =
      (if f_size (ls_defaults True False) \<and> f_total (ls_defaults True False) then total_line 0 else []) @ concat (map (\<lambda>l. l @ [NL]) rows) \<and>
    0 < length rows \<and> int ((length sample_files - 1) div length rows + 1) * int 8 \<le> termwidth sample_env \<and>
    (\<forall>i < length rows. screen 0 (rows ! i) =
      in_columns 8 (map (\<lambda>k. fst (printaname (ls_defaults True False) (sample_files ! k)))
        (filter (\<lambda>k. k mod length rows = i) [0..<length sample_files])))"
proof (rule columns_line_up)
  show "\<forall>lp \<in> set sample_files. TAB \<notin> set (fst (printaname (ls_defaults True False) lp)) \<and>
      snd (printaname (ls_defaults True False) lp) = length (fst (printaname (ls_defaults True False) lp))" by code_simp
  show "8 = column_width (ls_defaults True False) (longest_name (ls_defaults True False) sample_files)" by code_simp
qed (simp_all add: sample_files_def sample_env_def ls_defaults_def no_flags_def)

text \<open>Times that are far apart are compared the wrong way round: the difference does not fit an \<open>int\<close>. The newer file should
  come first.\<close>

lemma times_far_apart:
  "rs_mtime (ls_stat a) = 0 \<Longrightarrow> rs_mtime (ls_stat b) = 3000000000 \<Longrightarrow> modcmp a b < 0"
  by (simp add: modcmp_def)

subsection \<open>The names of a directory\<close>

lemma insert_by_mset [simp]: "mset (insert_by cmp x ys) = add_mset x (mset ys)"
  by (induction ys) auto

lemma qsort_mset: "mset (qsort cmp xs) = mset xs"
  by (induction xs) (simp_all add: qsort_def)

lemma insert_by_set: "set (insert_by cmp x ys) = insert x (set ys)"
  by (simp flip: set_mset_mset)

lemma insert_by_sorted:
  assumes "\<And>a b. cmp b a = - (cmp a b)" "\<And>a b c. cmp a b \<le> 0 \<Longrightarrow> cmp b c \<le> 0 \<Longrightarrow> cmp a c \<le> (0::int)"
  shows "sorted_wrt (\<lambda>a b. cmp a b \<le> 0) ys \<Longrightarrow> sorted_wrt (\<lambda>a b. cmp a b \<le> 0) (insert_by cmp x ys)"
proof (induction ys)
  case (Cons y ys)
  show ?case
  proof (cases "cmp x y \<le> 0")
    case True
    then show ?thesis using Cons.prems assms(2) [OF True] by auto
  next
    case False
    then have "cmp y x \<le> 0" using assms(1) [of y x] by simp
    with False show ?thesis using Cons by (auto simp: insert_by_set)
  qed
qed simp

lemma qsort_sorted:
  assumes "\<And>a b. cmp b a = - (cmp a b)" "\<And>a b c. cmp a b \<le> 0 \<Longrightarrow> cmp b c \<le> 0 \<Longrightarrow> cmp a c \<le> (0::int)"
  shows "sorted_wrt (\<lambda>a b. cmp a b \<le> 0) (qsort cmp xs)"
proof (induction xs)
  case (Cons x xs)
  then show ?case using insert_by_sorted [OF assms] by (simp add: qsort_def)
qed (simp add: qsort_def)

lemma qsort_names:
  "mset (map ls_name (qsort namecmp stats)) = mset (map ls_name stats)"
  "sorted_wrt (\<lambda>a b. strcmp a b \<le> 0) (map ls_name (qsort namecmp stats))"
proof -
  show "mset (map ls_name (qsort namecmp stats)) = mset (map ls_name stats)" by (simp add: qsort_mset)
  have "sorted_wrt (\<lambda>a b. namecmp a b \<le> 0) (qsort namecmp stats)"
    unfolding namecmp_def by (rule qsort_sorted) (rule strcmp_swap, erule (1) strcmp_trans)
  then show "sorted_wrt (\<lambda>a b. strcmp a b \<le> 0) (map ls_name (qsort namecmp stats))" by (simp add: sorted_wrt_map namecmp_def)
qed

lemma tab_entries_plain:
  "\<not> f_needstat fl \<Longrightarrow> tab_entries ask env fl es se s =
     Some (map (\<lambda>n. \<lparr> ls_name = n, ls_stat = unset_stat env, ls_ino = 10 \<rparr>) (filter (listed fl) (map de_name es)), se, s)"
  by (induction es) simp_all

lemma fl_simps:
  defines "fl \<equiv> settle (ls_defaults False False)"
  shows "\<not> f_needstat fl" "\<not> f_recursive fl" "\<not> f_newline fl" "\<not> f_dirname fl" "f_singlecol fl" "\<not> f_listdot fl" "\<not> f_nosort fl"
    "\<not> f_timesort fl" "\<not> f_reversesort fl" "\<not> f_listdir fl" "\<not> f_inode fl" "\<not> f_size fl" "\<not> f_type fl"
  by (simp_all add: fl_def settle_def ls_defaults_def no_flags_def)

lemma ordered_names:
  assumes "\<not> f_timesort fl" "\<not> f_reversesort fl" "\<not> f_nosort fl"
  shows "mset (map ls_name (ordered fl stats)) = mset (map ls_name stats)"
    "sorted_wrt (\<lambda>a b. strcmp a b \<le> 0) (map ls_name (ordered fl stats))"
proof -
  have "sortfcn fl = namecmp" using assms by (simp add: sortfcn_def fun_eq_iff)
  then show "mset (map ls_name (ordered fl stats)) = mset (map ls_name stats)"
    "sorted_wrt (\<lambda>a b. strcmp a b \<le> 0) (map ls_name (ordered fl stats))"
    using qsort_names [of stats] assms(3) by (cases stats; simp add: ordered_def; cases "tl stats"; simp)+
qed

lemma dot_glob: "glob_flags ''.'' = (False, False)"
  by code_simp

text \<open>C32: \<open>ls\<close> without options, written to a file or a pipe, lists the current directory: each name that has no leading dot on
  a line of its own, in the order of \<open>strcmp\<close>, from the listing the server sent and without asking for the status of any file.\<close>

theorem ls_lists_the_directory:
  assumes "util_stat ask ''.'' (se\<lparr> statworks := False \<rparr>) s = Some (Some sb, se1, s1)" "rs_dir sb"
    and "util_cd2 ''.'' se1 = Some se2" "util_opendir ask ''.'' se2 s1 = Some (Some d, se3, s3)"
    and "util_cd2 ''..'' (util_closedir d se3) = Some se4"
  shows "\<exists>names. mset names = mset (filter (\<lambda>n. n = [] \<or> hd n \<noteq> CHR ''.'') (map de_name (dep d))) \<and>
    sorted_wrt (\<lambda>a b. strcmp a b \<le> 0) names \<and>
    fls_main ask env False False [] [] se s = Some (concat (map (\<lambda>n. n @ [NL]) names), se4, s3)"
proof -
  define fl where "fl = settle (ls_defaults False False)"
  define stats where "stats = map (\<lambda>n. \<lparr> ls_name = n, ls_stat = unset_stat env, ls_ino = 10 \<rparr>) (filter (listed fl) (map de_name (dep d)))"
  note flags = fl_simps [folded fl_def]
  have names: "map ls_name stats = filter (\<lambda>n. n = [] \<or> hd n \<noteq> CHR ''.'') (map de_name (dep d))"
  proof -
    have "listed fl = (\<lambda>n. n = [] \<or> hd n \<noteq> CHR ''.'')" by (simp add: fun_eq_iff listed_def flags)
    then show ?thesis by (simp add: stats_def o_def)
  qed
  have same: "listed (fl\<lparr> f_total := True \<rparr>) = listed fl" by (simp add: fun_eq_iff listed_def)
  have tab: "tabdir ask env (fl\<lparr> f_total := True \<rparr>) se2 s1 = Some (stats, util_closedir d se3, s3)"
    using assms(4) by (simp add: tabdir_def tab_entries_plain stats_def same flags)
  have shown: "printfcn env (fl\<lparr> f_total := True \<rparr>) b m xs = concat (map (\<lambda>n. n @ [NL]) (map ls_name xs))" for b m xs
    by (simp add: printfcn_def flags printscol_def printaname_def o_def)
  let ?names = "map ls_name (ordered (fl\<lparr> f_total := True \<rparr>) stats)"
  have order: "mset ?names = mset (map ls_name stats)" "sorted_wrt (\<lambda>a b. strcmp a b \<le> 0) ?names"
    by (rule ordered_names; simp add: flags)+
  have empty: "?names = []" if "stats = []" using that by (simp add: ordered_def)
  have "fls_main ask env False False [] [] se s = Some (concat (map (\<lambda>n. n @ [NL]) ?names), se4, s3)"
    using assms empty flags
    by (cases "stats = []") (simp_all add: Let_def fls_main_def doargs_def glob_or_self_def bsdglob_def dot_glob note_operand_def ls_walk.simps fl_def [symmetric]
        tab show_all_def emit_def shown)
  with order names show ?thesis by (intro exI [of _ ?names]) simp
qed

theorem ls_lists_the_directory_witness:
  "\<exists>names se. mset names = {#''b.c'', ''a.h'', ''a.c''#} \<and> sorted_wrt (\<lambda>a b. strcmp a b \<le> 0) names \<and>
    fls_main (\<lambda>_ _. None) sample_env False False [] [] glob_session () = Some (concat (map (\<lambda>n. n @ [NL]) names), se, ())"
proof -
  let ?d = "\<lparr> ddp = ''/'', dep = dep_root (hd (ddroot glob_session)) \<rparr>"
  have "util_stat (\<lambda>_ _. None) ''.'' (glob_session\<lparr> statworks := False \<rparr>) () =
      Some (Some (entry_stat (glob_entry RDTYPE_DIR ''.'')), glob_session, ())" by code_simp
  moreover have "rs_dir (entry_stat (glob_entry RDTYPE_DIR ''.''))" by code_simp
  moreover have "util_cd2 ''.'' glob_session = Some glob_session" by code_simp
  moreover have "util_opendir (\<lambda>_ _. None) ''.'' glob_session () = Some (Some ?d, count_ref 1 ''/'' glob_session, ())" by code_simp
  moreover have "util_cd2 ''..'' (util_closedir ?d (count_ref 1 ''/'' glob_session)) = Some glob_session" by code_simp
  ultimately have "\<exists>names. mset names = mset (filter (\<lambda>n. n = [] \<or> hd n \<noteq> CHR ''.'') (map de_name (dep ?d))) \<and>
    sorted_wrt (\<lambda>a b. strcmp a b \<le> 0) names \<and>
    fls_main (\<lambda>_ _. None) sample_env False False [] [] glob_session () = Some (concat (map (\<lambda>n. n @ [NL]) names), glob_session, ())"
    by (rule ls_lists_the_directory)
  then obtain names where names: "mset names = mset (filter (\<lambda>n. n = [] \<or> hd n \<noteq> CHR ''.'') (map de_name (dep ?d)))"
    "sorted_wrt (\<lambda>a b. strcmp a b \<le> 0) names"
    "fls_main (\<lambda>_ _. None) sample_env False False [] [] glob_session () = Some (concat (map (\<lambda>n. n @ [NL]) names), glob_session, ())"
    by blast
  have "filter (\<lambda>n. n = [] \<or> hd n \<noteq> CHR ''.'') (map de_name (dep ?d)) = [''b.c'', ''a.h'', ''a.c'']" by code_simp
  with names(1) have "mset names = mset [''b.c'', ''a.h'', ''a.c'']" by (simp only:)
  with names(2,3) show ?thesis by (intro exI [of _ names] exI [of _ glob_session]) simp
qed

end
