(* ===== verification/Startup.thy ===== *)
theory Startup
  imports Conf Loop
begin

text \<open>
  The start of the server: \<open>main\<close> of \<^verbatim>\<open>server/main.c\<close>, \<^verbatim>\<open>server/pidfile.c\<close> and \<^verbatim>\<open>common/udp_io.c\<close>.

  The result is the exit code, or the state in which \<open>server_loop\<close> is called. \<open>None\<close> is undefined behaviour while the configuration
  is read. Messages, signals, the seeding of the random numbers and the redirection of the standard streams are left out. The
  addresses of names, the sockets, the process numbers and the random port are parameters.
\<close>

definition unless_exit :: "nat + 'a \<Rightarrow> ('a \<Rightarrow> nat + 'b) \<Rightarrow> nat + 'b" where
  "unless_exit r f = (case r of Inl n \<Rightarrow> Inl n | Inr x \<Rightarrow> f x)"

lemma unless_exit_Inr: "unless_exit r f = Inr y \<longleftrightarrow> (\<exists>x. r = Inr x \<and> f x = Inr y)"
  by (cases r) (simp_all add: unless_exit_def)

subsection \<open>Sockets\<close>

text \<open>\<open>inet_aton\<close> and \<open>gethostbyname\<close> are the parameter \<open>dns\<close>. \<open>bind_port\<close> is \<open>socket\<close> with \<open>bind\<close>: it takes the address (0 for all) and the port and gives the
  port of the socket.\<close>

definition x_adr :: "resolver \<Rightarrow> string \<Rightarrow> int \<Rightarrow> (u32 \<times> u16) option" where
  "x_adr dns host port =
     map_option (\<lambda>a. (a, of_int (if port \<le> 0 then 21 else port))) (dns host)"

definition x_udp :: "resolver \<Rightarrow> (u32 \<Rightarrow> u16 \<Rightarrow> u16 option) \<Rightarrow> string option \<Rightarrow> u16 \<Rightarrow> u16 option" where
  "x_udp dns bind_port bindaddress port =
     (let me = (case bindaddress of
            None \<Rightarrow> (0, port)
          | Some a \<Rightarrow> (case x_adr dns a (int (unat port)) of None \<Rightarrow> (0, port) | Some me \<Rightarrow> me))
      in map_option (\<lambda>bound. if port = 0 then bound else port) (bind_port (fst me) (snd me)))"

text \<open>Seconds and microseconds of \<open>select\<close>; \<open>None\<close> waits for ever.\<close>

definition x_select :: "int \<Rightarrow> (int \<times> int) option" where
  "x_select tt =
     (if tt = - 1 then None
      else (let t = (if tt < 1000 then 1000 else tt) in Some (t div 1000, t mod 1000 * 1000)))"

subsection \<open>The pid file\<close>

definition pidfile :: "nat \<Rightarrow> string option \<Rightarrow> world \<Rightarrow> bool \<times> world" where
  "pidfile pid path w =
     (case path of
        None \<Rightarrow> (True, w)
      | Some p \<Rightarrow>
          (let text = dec pid @ [NL]; failed = (\<lambda>w. (False, attempt (\<lambda>w. unlink w p) w))
           in (case fopen w p Write of
                 None \<Rightarrow> failed w
               | Some (f, w1) \<Rightarrow>
                   (case fwrite w1 f text of
                      None \<Rightarrow> failed w1
                    | Some (n, w2) \<Rightarrow>
                        (let w3 = attempt (\<lambda>w. fclose w f) w2 in if n < length text then failed w3 else (True, w3))))))"

subsection \<open>The command line\<close>

text \<open>\<open>getopt\<close> over the arguments: the options with their values, \<open>?\<close> for one that is not known or lacks its value. The letters \<open>vs\<close> take a
  value, the letters \<open>ps\<close> do not. Other arguments are passed over. \<open>cs\<close> is what is left of the argument that is read.\<close>

definition value_options :: "char list" where
  "value_options = ''dfptTlPbs''"

definition plain_options :: "char list" where
  "plain_options = ''h?XvViF''"

function getopt :: "char list \<Rightarrow> char list \<Rightarrow> char list \<Rightarrow> string list \<Rightarrow> (char \<times> string) list" where
  "getopt vs ps [] [] = []"
| "getopt vs ps [] (a # args) =
     (if a = ''--'' then []
      else if length a \<ge> 2 \<and> hd a = CHR ''-'' then getopt vs ps (tl a) args else getopt vs ps [] args)"
| "getopt vs ps (c # cs) args =
     (if c \<in> set vs then
        (if cs \<noteq> [] then (c, cs) # getopt vs ps [] args
         else (case args of [] \<Rightarrow> [(CHR ''?'', [])] | a # rest \<Rightarrow> (c, a) # getopt vs ps [] rest))
      else (if c \<in> set ps then c else CHR ''?'', []) # getopt vs ps cs args)"
  by pat_completeness auto
termination
  by (relation "measure (\<lambda>(vs, ps, cs, args). length cs + sum_list (map (\<lambda>a. Suc (length a)) args))") auto

record startup =
  su_settings :: settings
  inetd_mode :: bool
  inetd_timeout :: int

definition su_conf :: "(fsp_conf \<Rightarrow> fsp_conf) \<Rightarrow> startup \<Rightarrow> startup" where
  "su_conf f su = su\<lparr> su_settings := (su_settings su)\<lparr> conf := f (conf (su_settings su)) \<rparr> \<rparr>"

text \<open>One option; the files of \<open>-f\<close> have been read already.\<close>

definition server_option :: "char \<times> string \<Rightarrow> startup \<Rightarrow> nat + startup" where
  "server_option opt su =
     (case opt of (c, optarg) \<Rightarrow>
        if c = CHR ''X'' then Inr (su_conf (\<lambda>k. k\<lparr> dbug := True \<rparr>) su)
        else if c = CHR ''f'' then Inr su
        else if c = CHR ''d'' then Inr (su_conf (\<lambda>k. k\<lparr> home_dir := Some optarg \<rparr>) su)
        else if c = CHR ''l'' then Inr (su_conf (\<lambda>k. k\<lparr> logname := Some optarg, logging := 0xefff \<rparr>) su)
        else if c = CHR ''P'' then Inr (su_conf (\<lambda>k. k\<lparr> pidlogname := Some optarg \<rparr>) su)
        else if c = CHR ''T'' then Inr (su_conf (\<lambda>k. k\<lparr> tmp_dir := Some optarg \<rparr>) su)
        else if c = CHR ''i'' then Inr (su\<lparr> inetd_mode := True \<rparr>)
        else if c = CHR ''p'' then Inr (su_conf (\<lambda>k. k\<lparr> udp_port := of_int (atoi optarg) \<rparr>) su)
        else if c = CHR ''s'' then Inr (su_conf (\<lambda>k. k\<lparr> packetsize := of_int (atoi optarg) \<rparr>) su)
        else if c = CHR ''b'' then Inr (su_conf (\<lambda>k. k\<lparr> maxthcallowed := atoi optarg \<rparr>) su)
        else if c = CHR ''t'' then Inr (su\<lparr> inetd_timeout := 1000 * atoi optarg \<rparr>)
        else if c = CHR ''F'' then Inr (su_conf (\<lambda>k. k\<lparr> daemonize := False \<rparr>) su)
        else if c \<in> {CHR ''v'', CHR ''V'', CHR ''h'', CHR ''?''} then Inl 0
        else Inl 1)"

fun server_options :: "(char \<times> string) list \<Rightarrow> startup \<Rightarrow> nat + startup" where
  "server_options [] su = Inr su"
| "server_options (opt # opts) su = unless_exit (server_option opt su) (server_options opts)"

text \<open>The files named behind an argument that is \<open>-f\<close>; the default file is read if there is none.\<close>

fun config_args :: "string list \<Rightarrow> string list" where
  "config_args (a # b # args) = (if a = ''-f'' then [b] else []) @ config_args (b # args)"
| "config_args _ = []"

fun load_configurations :: "resolver \<Rightarrow> string list \<Rightarrow> settings \<Rightarrow> world \<Rightarrow> (nat + settings \<times> world) option" where
  "load_configurations dns [] st w = Some (Inr (st, w))"
| "load_configurations dns (f # fs) st w =
     load_configuration dns (Some f) st w \<bind> (\<lambda>(r, w1).
       (case r of
          step.Exit n \<Rightarrow> Some (Inl n)
        | step.Next st1 \<Rightarrow> load_configurations dns fs st1 w1
        | Include _ st1 \<Rightarrow> load_configurations dns fs st1 w1))"

subsection \<open>The process\<close>

text \<open>The user and the group of the process. Only the superuser may change them; \<open>(uid_t)-1\<close> is no user. All ids of the process
  change together.\<close>

record creds =
  cr_uid :: int
  cr_gid :: int

abbreviation (input) NO_ID :: int where "NO_ID \<equiv> 4294967295"

definition setuid :: "int \<Rightarrow> creds \<Rightarrow> creds option" where
  "setuid u k = (if u \<noteq> NO_ID \<and> (cr_uid k = 0 \<or> cr_uid k = u) then Some (k\<lparr> cr_uid := u \<rparr>) else None)"

definition setgid :: "int \<Rightarrow> creds \<Rightarrow> creds option" where
  "setgid g k = (if g \<noteq> NO_ID \<and> (cr_uid k = 0 \<or> cr_gid k = g) then Some (k\<lparr> cr_gid := g \<rparr>) else None)"

text \<open>First the user, then the group.\<close>

definition drop_rights :: "fsp_conf \<Rightarrow> creds \<Rightarrow> nat + creds" where
  "drop_rights c k =
     unless_exit (if run_uid c = 0 then Inr k else (case setuid (run_uid c) k of None \<Rightarrow> Inl 3 | Some k1 \<Rightarrow> Inr k1)) (\<lambda>k1.
       if run_gid c = 0 then Inr k1 else (case setgid (run_gid c) k1 of None \<Rightarrow> Inl 4 | Some k2 \<Rightarrow> Inr k2))"

text \<open>\<open>open\<close> with \<open>O_WRONLY|O_APPEND|O_CREAT\<close>; 416 is octal 640.\<close>

definition open_append :: "world \<Rightarrow> string \<Rightarrow> world option" where
  "open_append w s = do {
     p \<leftarrow> resolve w True s;
     (case lookup w p of
        Some n \<Rightarrow> if may_write (inodes w n) \<and> kind (inodes w n) \<noteq> Directory then Some w else None
      | None \<Rightarrow> if creatable w s p then Some (add_entry w p (Regular []) 416) else None) }"

definition open_logs :: "fsp_conf \<Rightarrow> world \<Rightarrow> fsp_conf \<times> world" where
  "open_logs c w =
     (let (c1, w1) = (if logging c = 0 then (c, w)
            else (case logname c \<bind> open_append w of None \<Rightarrow> (c\<lparr> logging := 0 \<rparr>, w) | Some w1 \<Rightarrow> (c, w1)))
      in (case tlogname c1 of
            None \<Rightarrow> (c1, w1)
          | Some n \<Rightarrow> (case open_append w1 n of None \<Rightarrow> (c1\<lparr> tlogname := None \<rparr>, w1) | Some w2 \<Rightarrow> (c1, w2))))"

definition loop_timeout :: "startup \<Rightarrow> fsp_conf \<Rightarrow> int" where
  "loop_timeout su c =
     (if inetd_mode su then (if inetd_timeout su = 0 then 5 * 60 * 1000 else inetd_timeout su)
      else if inetd_timeout su = 0 \<or> \<not> dbug c then - 1 else inetd_timeout su)"

text \<open>What is running when \<open>server_loop\<close> is called for the first time: the settings, the caches and the disk, the rights of the process, the
  timeout, and whether the loop is left after one call.\<close>

record launched =
  la_conf :: fsp_conf
  la_iptab :: "IPrange list"
  la_server :: fsrv
  la_creds :: creds
  la_timeout :: int
  la_once :: bool

text \<open>Opening the logs and writing the pid file. \<open>pid\<close> is the number of the process, \<open>child\<close> that of the process forked, if it could be; the
  parent ends, the child goes on.\<close>

definition settle_down :: "nat \<Rightarrow> nat option \<Rightarrow> startup \<Rightarrow> fsp_conf \<Rightarrow> world \<Rightarrow> creds \<Rightarrow> fsrv \<Rightarrow> nat + launched" where
  "settle_down pid child su c w k srv =
     (let (c3, w3) = open_logs c (umask w (system_umask c));
          (ok, w4) = (if inetd_mode su then (True, w3) else pidfile pid (pidlogname c3) w3);
          (ok2, w5) = (if daemonize c3 \<and> \<not> inetd_mode su
                 then (case child of None \<Rightarrow> (True, w4) | Some p \<Rightarrow> pidfile p (pidlogname c3) w4) else (True, w4))
      in if \<not> ok \<or> \<not> ok2 then Inl 8
         else Inr \<lparr> la_conf = c3, la_iptab = iptab (su_settings su), la_server = srv\<lparr> os := w5 \<rparr>, la_creds = k,
                la_timeout = loop_timeout su c3, la_once = inetd_mode su \<or> dbug c3 \<rparr>)"

text \<open>The part of \<open>main\<close> behind the options.\<close>

definition launch ::
  "resolver \<Rightarrow> u16 \<Rightarrow> (u32 \<Rightarrow> u16 \<Rightarrow> u16 option) \<Rightarrow> nat \<Rightarrow> nat option \<Rightarrow> creds \<Rightarrow> startup \<Rightarrow> world \<Rightarrow> nat + launched" where
  "launch dns rnd bind_port pid child k su w =
     unless_exit (check_required_vars (inetd_mode su) rnd (conf (su_settings su))) (\<lambda>c0.
     unless_exit (if inetd_mode su then Inr c0
         else (case x_udp dns bind_port (listen_on c0) (udp_port c0) of None \<Rightarrow> Inl 2 | Some p \<Rightarrow> Inr (c0\<lparr> udp_port := p \<rparr>))) (\<lambda>c1.
     unless_exit (drop_rights c1 k) (\<lambda>k1.
     unless_exit (init_home_dir c1 w) (\<lambda>home.
     unless_exit (case init_caches (fst home) (snd home) of None \<Rightarrow> Inl 5 | Some srv \<Rightarrow> Inr srv) (\<lambda>srv.
       settle_down pid child su (fst home) (snd home) k1 srv)))))"

text \<open>\<open>arg0\<close> is the name of the program; as \<open>in.fspd\<close> it is started by inetd.\<close>

definition fspd_main ::
  "resolver \<Rightarrow> u16 \<Rightarrow> (u32 \<Rightarrow> u16 \<Rightarrow> u16 option) \<Rightarrow> nat \<Rightarrow> nat option \<Rightarrow> creds \<Rightarrow> string \<Rightarrow> string \<Rightarrow> string list \<Rightarrow> settings \<Rightarrow> world
    \<Rightarrow> (nat + launched) option" where
  "fspd_main dns rnd bind_port pid child k conf_file arg0 args st w =
     (let named = config_args args;
          by_inetd = (length arg0 \<ge> 7 \<and> same_word (drop (length arg0 - 7) arg0) ''in.fspd'')
      in load_configurations dns (if named = [] then [conf_file] else named) st w \<bind> (\<lambda>r.
         Some (unless_exit r (\<lambda>(st1, w1).
           unless_exit (server_options (getopt value_options plain_options [] args) \<lparr> su_settings = st1, inetd_mode = by_inetd, inetd_timeout = 0 \<rparr>) (\<lambda>su.
             launch dns rnd bind_port pid child k su w1)))))"

subsection \<open>What the server starts with\<close>

lemma init_caches_disk: "init_caches c w = Some srv \<Longrightarrow> init_caches c w' = Some (srv\<lparr> os := w' \<rparr>)"
  by (auto simp: init_caches_def split: option.splits)

text \<open>The settings that count do not change after the check.\<close>

definition keeps_limits :: "fsp_conf \<Rightarrow> fsp_conf \<Rightarrow> bool" where
  "keeps_limits c c' \<longleftrightarrow> packetsize c' = packetsize c \<and> run_uid c' = run_uid c \<and> run_gid c' = run_gid c \<and>
     dir_cache_limit c' = dir_cache_limit c \<and> stat_cache_limit c' = stat_cache_limit c \<and> fp_cache_limit c' = fp_cache_limit c \<and>
     ((tmp_dir c = None \<longrightarrow> read_only c) \<longrightarrow> (tmp_dir c' = None \<longrightarrow> read_only c'))"

lemma keeps_limits_home: "init_home_dir c w = Inr (c', w') \<Longrightarrow> keeps_limits c c' \<and> (\<exists>h. home_dir c' = Some h)"
  by (auto simp: init_home_dir_def keeps_limits_def Let_def split: option.splits if_splits)

lemma keeps_limits_logs: "open_logs c w = (c', w') \<Longrightarrow> keeps_limits c c' \<and> home_dir c' = home_dir c"
  by (auto simp: open_logs_def keeps_limits_def Let_def split: option.splits if_splits prod.splits)

lemma init_caches_keeps: "keeps_limits c c' \<Longrightarrow> init_caches c' w = init_caches c w"
  by (simp add: init_caches_def keeps_limits_def)

lemma drop_rights_done:
  assumes "drop_rights c k = Inr k'"
  shows "run_uid c \<noteq> 0 \<Longrightarrow> cr_uid k' = run_uid c" "run_gid c \<noteq> 0 \<Longrightarrow> cr_gid k' = run_gid c"
    "run_uid c \<noteq> 0 \<Longrightarrow> run_gid c \<noteq> 0 \<Longrightarrow> cr_gid k = run_gid c"
  using assms by (auto simp: drop_rights_def unless_exit_Inr setuid_def setgid_def split: if_splits option.splits)

text \<open>The steps of a start that succeeds.\<close>

lemma settle_down_done:
  assumes "settle_down pid child su c w k srv = Inr l"
  shows "keeps_limits c (la_conf l)" "home_dir (la_conf l) = home_dir c" "la_creds l = k"
    "la_server l = srv\<lparr> os := os (la_server l) \<rparr>"
proof -
  obtain c3 w3 where o: "open_logs c (umask w (system_umask c)) = (c3, w3)" by fastforce
  with assms have "la_conf l = c3" "la_creds l = k" "\<exists>w'. la_server l = srv\<lparr> os := w' \<rparr>"
    by (auto simp: settle_down_def Let_def split: prod.splits if_splits)
  with keeps_limits_logs [OF o] show "keeps_limits c (la_conf l)" "home_dir (la_conf l) = home_dir c" "la_creds l = k"
    "la_server l = srv\<lparr> os := os (la_server l) \<rparr>" by auto
qed

lemma launch_steps:
  assumes "launch dns rnd bind_port pid child k su w = Inr l"
  obtains c0 c1 c2 w2 srv where "check_required_vars (inetd_mode su) rnd (conf (su_settings su)) = Inr c0"
    "keeps_limits c0 c1" "drop_rights c1 k = Inr (la_creds l)" "keeps_limits c1 c2" "init_caches c2 w2 = Some srv"
    "keeps_limits c2 (la_conf l)" "la_server l = srv\<lparr> os := os (la_server l) \<rparr>" "home_dir (la_conf l) \<noteq> None"
proof -
  from assms obtain c0 c1 k1 home srv
    where c0: "check_required_vars (inetd_mode su) rnd (conf (su_settings su)) = Inr c0"
    and c1: "(if inetd_mode su then Inr c0
      else (case x_udp dns bind_port (listen_on c0) (udp_port c0) of None \<Rightarrow> Inl (2 :: nat) | Some p \<Rightarrow> Inr (c0\<lparr> udp_port := p \<rparr>))) = Inr c1"
    and k1: "drop_rights c1 k = Inr k1" and home: "init_home_dir c1 w = Inr home"
    and srv: "(case init_caches (fst home) (snd home) of None \<Rightarrow> Inl (5 :: nat) | Some srv \<Rightarrow> Inr srv) = Inr srv"
    and l: "settle_down pid child su (fst home) (snd home) k1 srv = Inr l"
    unfolding launch_def unless_exit_Inr by blast
  have "init_caches (fst home) (snd home) = Some srv" using srv by (simp split: option.splits)
  moreover have "keeps_limits c0 c1" using c1 by (auto simp: keeps_limits_def split: if_splits option.splits)
  moreover have "keeps_limits c1 (fst home) \<and> home_dir (fst home) \<noteq> None"
    using keeps_limits_home [of c1 w "fst home" "snd home"] home by auto
  ultimately show thesis using c0 k1 settle_down_done [OF l] by (intro that [of c0 c1 "fst home" "snd home" srv]) auto
qed

lemma main_launches:
  assumes "fspd_main dns rnd bind_port pid child k cf arg0 args st w = Some (Inr l)"
  obtains su w1 where "launch dns rnd bind_port pid child k su w1 = Inr l"
  using assms by (auto simp: fspd_main_def Let_def bind_eq_Some_conv unless_exit_Inr split: prod.splits)

text \<open>C39: a server that gets as far as serving is ready: whatever the command line and the configuration say, the packet size is one that
  every buffer can hold, without a directory for temporary files it is read only, it has a home directory, it runs with the user and
  the group it was told to, and its caches are those of its settings.\<close>

theorem launched_server_is_ready:
  assumes "fspd_main dns rnd bind_port pid child k cf arg0 args st w = Some (Inr l)"
  shows "64 \<le> unat (packetsize (la_conf l)) \<and> unat (packetsize (la_conf l)) \<le> UBUF_MAXSPACE \<and>
    (tmp_dir (la_conf l) = None \<longrightarrow> read_only (la_conf l)) \<and> home_dir (la_conf l) \<noteq> None \<and>
    (run_uid (la_conf l) \<noteq> 0 \<longrightarrow> cr_uid (la_creds l) = run_uid (la_conf l)) \<and>
    (run_gid (la_conf l) \<noteq> 0 \<longrightarrow> cr_gid (la_creds l) = run_gid (la_conf l)) \<and>
    init_caches (la_conf l) (os (la_server l)) = Some (la_server l)"
proof -
  obtain su w1 where "launch dns rnd bind_port pid child k su w1 = Inr l" by (rule main_launches [OF assms])
  then obtain c0 c1 c2 w2 srv where c: "check_required_vars (inetd_mode su) rnd (conf (su_settings su)) = Inr c0"
    "keeps_limits c0 c1" "drop_rights c1 k = Inr (la_creds l)" "keeps_limits c1 c2" "init_caches c2 w2 = Some srv"
    "keeps_limits c2 (la_conf l)" "la_server l = srv\<lparr> os := os (la_server l) \<rparr>" "home_dir (la_conf l) \<noteq> None"
    by (rule launch_steps)
  have "init_caches (la_conf l) (os (la_server l)) = Some (la_server l)"
    using init_caches_disk [OF c(5), of "os (la_server l)"] init_caches_keeps [OF c(6)] c(7) by simp
  with checked_settings_are_usable [OF c(1)] drop_rights_done(1,2) [OF c(3)] c(2,4,6,8) show ?thesis by (simp add: keeps_limits_def)
qed

definition start_settings :: settings where
  "start_settings = demo_settings\<lparr> conf := (conf demo_settings)\<lparr> run_uid := 5, run_gid := 7, dir_cache_limit := 1,
     stat_cache_limit := 1, fp_cache_limit := 1 \<rparr> \<rparr>"

definition sample_start :: "(nat + launched) option" where
  "sample_start = fspd_main (\<lambda>_. None) 0 (\<lambda>a p. Some p) 17 None \<lparr> cr_uid = 0, cr_gid = 7 \<rparr> ''/none'' ''fspd'' [''-s9000'', ''-F'', ''-d'', ''/'']
     start_settings conf_world"

lemma sample_starts: "\<exists>l. sample_start = Some (Inr l) \<and> packetsize (la_conf l) = 4380 \<and> run_uid (la_conf l) = 5 \<and> run_gid (la_conf l) = 7"
proof -
  have "map_option (\<lambda>r. case r of Inl _ \<Rightarrow> False | Inr l \<Rightarrow> packetsize (la_conf l) = 4380 \<and> run_uid (la_conf l) = 5 \<and> run_gid (la_conf l) = 7)
      sample_start = Some True" by code_simp
  then obtain r where r: "sample_start = Some r"
    "(case r of Inl _ \<Rightarrow> False | Inr l \<Rightarrow> packetsize (la_conf l) = 4380 \<and> run_uid (la_conf l) = 5 \<and> run_gid (la_conf l) = 7)" by auto
  then show ?thesis by (cases r) auto
qed

theorem launched_server_is_ready_witness:
  "\<exists>l. sample_start = Some (Inr l) \<and> unat (packetsize (la_conf l)) \<le> UBUF_MAXSPACE \<and> cr_uid (la_creds l) = 5 \<and> cr_gid (la_creds l) = 7 \<and>
     init_caches (la_conf l) (os (la_server l)) = Some (la_server l)"
proof -
  obtain l where l: "sample_start = Some (Inr l)" "run_uid (la_conf l) = 5" "run_gid (la_conf l) = 7" using sample_starts by blast
  note ready = launched_server_is_ready [OF l(1) [unfolded sample_start_def]]
  have r: "unat (packetsize (la_conf l)) \<le> UBUF_MAXSPACE" "run_uid (la_conf l) \<noteq> 0 \<longrightarrow> cr_uid (la_creds l) = run_uid (la_conf l)"
    "run_gid (la_conf l) \<noteq> 0 \<longrightarrow> cr_gid (la_creds l) = run_gid (la_conf l)" "init_caches (la_conf l) (os (la_server l)) = Some (la_server l)"
    using ready by blast+
  have "cr_uid (la_creds l) = 5" using r(2) unfolding l(2) by simp
  moreover have "cr_gid (la_creds l) = 7" using r(3) unfolding l(3) by simp
  ultimately show ?thesis using l(1) r(1,4) by (intro exI [of _ l] conjI)
qed

text \<open>The user is changed before the group, so the group can not be changed any more: a server that was told to change both and does
  serve had the group before; any other one has ended with exit code 4.\<close>

theorem user_and_group_exclude_each_other:
  assumes "fspd_main dns rnd bind_port pid child k cf arg0 args st w = Some (Inr l)"
    and "run_uid (la_conf l) \<noteq> 0" "run_gid (la_conf l) \<noteq> 0"
  shows "cr_gid k = run_gid (la_conf l)"
proof -
  obtain su w1 where "launch dns rnd bind_port pid child k su w1 = Inr l" by (rule main_launches [OF assms(1)])
  then obtain c0 c1 c2 w2 srv where "keeps_limits c0 c1" "drop_rights c1 k = Inr (la_creds l)" "keeps_limits c1 c2" "keeps_limits c2 (la_conf l)"
    by (rule launch_steps)
  with drop_rights_done(3) assms(2,3) show ?thesis by (fastforce simp: keeps_limits_def)
qed

theorem user_and_group_example:
  "\<exists>l. sample_start = Some (Inr l) \<and> run_uid (la_conf l) = 5 \<and> cr_gid \<lparr> cr_uid = 0, cr_gid = 7 \<rparr> = run_gid (la_conf l)"
proof -
  obtain l where l: "sample_start = Some (Inr l)" "run_uid (la_conf l) = 5" "run_gid (la_conf l) = 7" using sample_starts by blast
  with user_and_group_exclude_each_other [OF l(1) [unfolded sample_start_def]] show ?thesis by auto
qed

text \<open>A file name that is not separated from \<open>-f\<close> is accepted, but the default file is read in its place; an address to listen on that is not
  known means all addresses.\<close>

lemma glued_file_is_not_read:
  "getopt value_options plain_options [] [''-fmy.conf''] = [(CHR ''f'', ''my.conf'')] \<and> config_args [''-fmy.conf''] = [] \<and> server_options [(CHR ''f'', ''my.conf'')] su = Inr su"
  by (simp add: value_options_def plain_options_def server_option_def unless_exit_def)

lemma unknown_address_is_any: "dns a = None \<Longrightarrow> x_udp dns bind_port (Some a) port = x_udp dns bind_port None port"
  by (simp add: x_udp_def x_adr_def)

end
