(* ===== verification/Logging.thy ===== *)
theory Logging
  imports ServerConf IpRange
begin

text \<open>
  The log of the server: \<^verbatim>\<open>server/log.c\<close> and the macros of \<^verbatim>\<open>server/server.c\<close> that write to it.

  Both buffers have 1104 characters. \<open>logbuf\<close> is what is in the first one up to \<open>logpos\<close>; writing behind its end is undefined, \<open>None\<close>.
  \<open>ctime\<close> is a parameter, \<open>date\<close> its text for the time of the request, which ends with a line end. The copy on the standard output while
  debugging is left out.
\<close>

abbreviation (input) LOGBUFFER :: nat where "LOGBUFFER \<equiv> 1104"

record logger =
  logbuf :: string
  logged :: string
  tlogged :: string

definition fsploga :: "string \<Rightarrow> logger \<Rightarrow> logger option" where
  "fsploga t lg = (if length (logbuf lg) + length t + 1 > LOGBUFFER then None else Some (lg\<lparr> logbuf := logbuf lg @ t \<rparr>))"

definition fsplogs :: "string \<Rightarrow> logger \<Rightarrow> logger" where
  "fsplogs date lg = lg\<lparr> logbuf := butlast date @ '' '' \<rparr>"

definition fsplogf :: "logger \<Rightarrow> logger" where
  "fsplogf lg = lg\<lparr> logged := logged lg @ logbuf lg, logbuf := [] \<rparr>"

definition xferlog :: "fsp_conf \<Rightarrow> string \<Rightarrow> char \<Rightarrow> string \<Rightarrow> nat \<Rightarrow> string \<Rightarrow> logger \<Rightarrow> logger option" where
  "xferlog conf date direction filename filesize hostname lg =
     (if tlogname conf = None then Some lg
      else
        (let l = butlast date @ '' 1 '' @ hostname @ '' '' @ dec filesize @ '' '' @ filename @ '' b * '' @ [direction] @
               '' a fsp fsp 0 * c'' @ [NL]
         in if length l + 1 > LOGBUFFER then None else Some (lg\<lparr> tlogged := tlogged lg @ l \<rparr>)))"

subsection \<open>Messages\<close>

definition logs :: "fsp_conf \<Rightarrow> nat \<Rightarrow> bool \<Rightarrow> bool" where
  "logs conf f old \<longleftrightarrow> logging conf AND f \<noteq> 0 \<and> \<not> old"

text \<open>A name of the request: \<open>l\<close> characters from \<open>s\<close>, up to a zero.\<close>

definition named :: "nat \<Rightarrow> char list \<Rightarrow> string" where
  "named l s = cstr (take l s)"

definition command_word :: "string \<Rightarrow> string" where
  "command_word x = x @ replicate (8 - length x) CHR '' ''"

definition action_log0 :: "fsp_conf \<Rightarrow> bool \<Rightarrow> string \<Rightarrow> string \<Rightarrow> nat \<Rightarrow> string \<Rightarrow> logger \<Rightarrow> logger option" where
  "action_log0 conf old date inetstr f x lg =
     (if logs conf f old then fsploga (inetstr @ '' '' @ x) (fsplogs date lg) else Some lg)"

definition action_log1 :: "fsp_conf \<Rightarrow> bool \<Rightarrow> string \<Rightarrow> string \<Rightarrow> nat \<Rightarrow> string \<Rightarrow> nat \<Rightarrow> char list \<Rightarrow> logger \<Rightarrow> logger option" where
  "action_log1 conf old date inetstr f x l1 s1 lg =
     (if logs conf f old then fsploga (inetstr @ '' '' @ command_word x @ '' /'' @ named l1 s1) (fsplogs date lg) else Some lg)"

definition action_log2 ::
  "fsp_conf \<Rightarrow> bool \<Rightarrow> string \<Rightarrow> string \<Rightarrow> nat \<Rightarrow> string \<Rightarrow> nat \<Rightarrow> char list \<Rightarrow> nat \<Rightarrow> char list \<Rightarrow> logger \<Rightarrow> logger option" where
  "action_log2 conf old date inetstr f x l1 s1 l2 s2 lg =
     (if logs conf f old
      then fsploga (inetstr @ '' '' @ command_word x @ '' /'' @ named l1 s1 @ '' /'' @ named l2 s2) (fsplogs date lg) else Some lg)"

definition action_info :: "fsp_conf \<Rightarrow> bool \<Rightarrow> nat \<Rightarrow> string \<Rightarrow> logger \<Rightarrow> logger option" where
  "action_info conf old f t lg = (if logs conf f old then fsploga t lg else Some lg)"

definition action_failed :: "fsp_conf \<Rightarrow> bool \<Rightarrow> nat \<Rightarrow> string \<Rightarrow> logger \<Rightarrow> logger option" where
  "action_failed conf old f m lg =
     (if logs conf f old then map_option fsplogf (fsploga ('': ERROR '' @ m @ [NL]) lg) else Some lg)"

definition action_ok :: "fsp_conf \<Rightarrow> bool \<Rightarrow> nat \<Rightarrow> logger \<Rightarrow> logger option" where
  "action_ok conf old f lg = (if logs conf f old then map_option fsplogf (fsploga [NL] lg) else Some lg)"

text \<open>The names of the commands, in the dump of the host table.\<close>

definition print_command :: "byte \<Rightarrow> string" where
  "print_command c =
     (case map_of [(CC_BYE, ''BYE''), (CC_VERSION, ''VER''), (CC_INFO, ''INFO''), (CC_ERR, ''ERR''), (CC_GET_DIR, ''GETDIR''),
         (CC_GET_FILE, ''GETFILE''), (CC_DEL_FILE, ''DELFILE''), (CC_DEL_DIR, ''DELDIR''), (CC_UP_LOAD, ''UPLOAD''),
         (CC_INSTALL, ''INSTALL''), (CC_MAKE_DIR, ''MKDIR''), (CC_GET_PRO, ''GETPRO''), (CC_SET_PRO, ''SETPRO''),
         (CC_GRAB_FILE, ''GRAB''), (CC_GRAB_DONE, ''GRABDONE''), (CC_STAT, ''STAT''), (CC_RENAME, ''RENAME'')] c of
        None \<Rightarrow> ''*UNKNOWN*'' | Some n \<Rightarrow> n)"

subsection \<open>Facts\<close>

text \<open>A message that is begun and ended is one line of the log.\<close>

lemma logged_line:
  assumes "logs conf f old" "action_log1 conf old date inetstr f x l1 s1 lg = Some lg1" "action_ok conf old f lg1 = Some lg2"
  shows "logged lg2 = logged lg @ butlast date @ '' '' @ inetstr @ '' '' @ command_word x @ '' /'' @ named l1 s1 @ [NL]" "logbuf lg2 = []"
  using assms by (auto simp: action_log1_def action_ok_def fsploga_def fsplogs_def fsplogf_def split: if_splits)

lemma named_length: "l \<le> length s \<Longrightarrow> NUL \<notin> set (take l s) \<Longrightarrow> length (named l s) = l"
  by (simp add: named_def cstr_id)

text \<open>The name in a request is written to the log, before anything is checked, without regard to the length of the buffer: if the kind
  of request is logged and is no repetition, the buffer overflows exactly if the client's address, the command, padded to eight, and the
  name have more than 1075 characters together. A request has room for 4380.\<close>

theorem long_names_overrun_the_log:
  assumes "logs conf f old" "length date = 25" "l1 \<le> length s1" "NUL \<notin> set (take l1 s1)"
  shows "action_log1 conf old date inetstr f x l1 s1 lg = None \<longleftrightarrow> length inetstr + max 8 (length x) + l1 > 1075"
  using assms named_length [OF assms(3,4)] by (auto simp: action_log1_def fsploga_def fsplogs_def command_word_def)

theorem long_names_overrun_the_log_witness:
  "action_log1 (default_conf\<lparr> logging := 8 \<rparr>) False (replicate 25 CHR ''x'') ''10.0.0.1'' 8 ''GETFILE'' 1100 (replicate 1100 CHR ''a'')
     \<lparr> logbuf = [], logged = [], tlogged = [] \<rparr> = None"
proof -
  have "logs (default_conf\<lparr> logging := 8 \<rparr>) 8 False" by (simp add: logs_def default_conf_def)
  then show ?thesis
    using long_names_overrun_the_log [of "default_conf\<lparr> logging := 8 \<rparr>" 8 False "replicate 25 CHR ''x''" 1100 "replicate 1100 CHR ''a''"]
    by simp
qed

end
