(* ===== verification/Scan.thy ===== *)
theory Scan
  imports Startup ProgramRuns
begin

text \<open>
  The scanner, \<^verbatim>\<open>clients/fspscan.c\<close>: it asks every port of a range for the version of a server and notes which of them
  answered. It has its own copy of the protocol engine, without the adaptive delays, and its own message type, in which the position is
  an \<open>unsigned long\<close>: with 64 bits the data of a message start at octet 16 in place of 12. The other fields are read and written in the
  byte order of the machine, which is little-endian.

  The static buffer of received octets is the list \<open>sc_rbuf\<close>. What happens outside is a function of the port and the number of the
  attempt: whether \<open>sendto\<close> succeeds, and what wakes \<open>select\<close> until it times out. A conversation after an interruption (\<open>client_done\<close>)
  and the messages to the terminal are left out.
\<close>

abbreviation (input) SCAN_HSIZE :: nat where "SCAN_HSIZE \<equiv> 16"
abbreviation (input) SCAN_SPACE :: nat where "SCAN_SPACE \<equiv> 1024"

record scanner =
  sc_seq :: u16
  sc_key :: u16
  sc_rbuf :: "byte list"
  sc_intr :: nat

datatype event = Interrupted | Receive_failed | Datagram "byte list"
datatype hearing = Accepted scanner | Silence_for scanner | Stopped nat | Beyond

definition le2 :: "u16 \<Rightarrow> byte list" where
  "le2 k = [ucast k, ucast (drop_bit 8 k)]"

definition le2_value :: "byte \<Rightarrow> byte \<Rightarrow> u16" where
  "le2_value a b = ucast a OR push_bit 8 (ucast b)"

subsection \<open>One conversation\<close>

definition scan_request :: "byte \<Rightarrow> u32 \<Rightarrow> byte list \<Rightarrow> byte list \<Rightarrow> scanner \<Rightarrow> byte list" where
  "scan_request c pos p1 p2 sc =
     client_seal ([c, 0] @ le2 (sc_key sc) @ le2 (sc_seq sc) @ b2_octets (BB_WRITE2 (of_nat (length p1))) @
       b4_octets (BB_WRITE4 pos) @ [0, 0, 0, 0] @ p1 @ p2)"

definition client_intr :: "nat \<Rightarrow> nat + nat" where
  "client_intr s = (if s = 0 then Inl 2 else if s = 1 then Inr 2 else if s = 2 then Inl 3 else Inr s)"

text \<open>The length and the position are turned to the order of the machine in the buffer; that of the position reads four octets and writes
  eight.\<close>

definition host_order :: "byte list \<Rightarrow> byte list" where
  "host_order m = take 6 m @ [m ! 7, m ! 6, m ! 11, m ! 10, m ! 9, m ! 8, 0, 0, 0, 0] @ drop 16 m"

text \<open>The tests on a datagram: the buffer after them and whether it is taken.\<close>

definition take_datagram :: "byte list \<Rightarrow> scanner \<Rightarrow> scanner \<times> bool" where
  "take_datagram d sc =
     (let bs = take (SCAN_HSIZE + SCAN_SPACE) d; m = bs @ drop (length bs) (sc_rbuf sc)
      in if length bs < UBUF_HSIZE then (sc\<lparr> sc_rbuf := m \<rparr>, False)
         else if \<not> client_check bs then (sc\<lparr> sc_rbuf := m[1 := 0] \<rparr>, False)
         else (sc\<lparr> sc_rbuf := host_order (m[1 := 0]) \<rparr>,
           [m ! 4, m ! 5] = le2 (sc_seq sc) \<and> unat (BB_READ2 (m ! 6, m ! 7)) + UBUF_HSIZE \<le> length bs))"

fun hear :: "event list \<Rightarrow> scanner \<Rightarrow> hearing" where
  "hear [] sc = Silence_for sc"
| "hear (Interrupted # es) sc = (case client_intr (sc_intr sc) of Inl n \<Rightarrow> Stopped n | Inr i \<Rightarrow> hear es (sc\<lparr> sc_intr := i \<rparr>))"
| "hear (Receive_failed # es) sc = Beyond"
| "hear (Datagram d # es) sc =
     (case take_datagram d sc of (sc1, ok) \<Rightarrow>
        if \<not> ok then hear es sc1
        else if sc_intr sc1 = 2 then Stopped 1
        else Accepted (sc1\<lparr> sc_seq := sc_seq sc1 + 1, sc_key := le2_value (sc_rbuf sc1 ! 2) (sc_rbuf sc1 ! 3) \<rparr>))"

datatype response = Response scanner | No_response scanner | Ended nat | Out_of_bounds

fun attempts :: "byte \<Rightarrow> u32 \<Rightarrow> byte list \<Rightarrow> byte list \<Rightarrow> (nat \<Rightarrow> bool \<times> event list) \<Rightarrow> nat \<Rightarrow> nat \<Rightarrow> scanner \<Rightarrow> byte list list \<times> response" where
  "attempts c pos p1 p2 air retry 0 sc = ([], No_response sc)"
| "attempts c pos p1 p2 air retry (Suc n) sc =
     (if \<not> fst (air retry) then ([], Ended 1)
      else
        (let (sent, r) =
               (case hear (snd (air retry)) sc of
                  Accepted sc1 \<Rightarrow> ([], Response sc1)
                | Silence_for sc1 \<Rightarrow> attempts c pos p1 p2 air (retry + 1) n sc1
                | Stopped k \<Rightarrow> ([], Ended k)
                | Beyond \<Rightarrow> ([], Out_of_bounds))
         in (scan_request c pos p1 p2 sc # sent, r)))"

definition scan_interact :: "int \<Rightarrow> byte \<Rightarrow> u32 \<Rightarrow> byte list \<Rightarrow> byte list \<Rightarrow> (nat \<Rightarrow> bool \<times> event list) \<Rightarrow> scanner \<Rightarrow> byte list list \<times> response" where
  "scan_interact retries c pos p1 p2 air sc =
     (if length p1 + length p2 > SCAN_SPACE then ([], Out_of_bounds)
      else attempts c pos p1 p2 air 0 (nat retries) (sc\<lparr> sc_intr := 1 \<rparr>))"

subsection \<open>Sockets\<close>

text \<open>\<open>bind_port\<close> is \<open>socket\<close> with \<open>bind\<close> to the port, 0 for any; \<open>dns\<close> is \<open>inet_addr\<close> with \<open>gethostbyname\<close>. The result of \<open>scan_adr\<close> is the
  address and the port the packets go to.\<close>

definition scan_udp :: "(u16 \<Rightarrow> u16 option) \<Rightarrow> int \<Rightarrow> int option" where
  "scan_udp bind_port port = map_option (\<lambda>b. if port = 0 then int (unat b) else port) (bind_port (of_int port))"

definition scan_adr :: "resolver \<Rightarrow> string \<Rightarrow> int \<Rightarrow> (u32 \<times> u16) option" where
  "scan_adr dns host port = map_option (\<lambda>a. (a, of_int port)) (dns host)"

definition init_client :: "resolver \<Rightarrow> (u16 \<Rightarrow> u16 option) \<Rightarrow> string \<Rightarrow> int \<Rightarrow> int \<Rightarrow> nat + u32 \<times> u16" where
  "init_client dns bind_port host port myport =
     (case scan_udp bind_port myport of
        None \<Rightarrow> Inl 1
      | Some p \<Rightarrow> (case scan_adr dns host port of None \<Rightarrow> Inl 1 | Some target \<Rightarrow> Inr target))"

subsection \<open>The range of ports\<close>

record scan_options =
  so_host :: "string option"
  outputfile :: "string option"
  localport :: int
  remoteport :: int
  endport :: int
  retries :: int
  client_trace :: bool

definition scan_defaults :: scan_options where
  "scan_defaults = \<lparr> so_host = None, outputfile = None, localport = 9191, remoteport = 21, endport = 65535, retries = 3,
     client_trace = False \<rparr>"

definition found_line :: "string \<Rightarrow> int \<Rightarrow> string" where
  "found_line t port = ''Found FSP ver: '' @ t @ '' on port '' @ show_int port @ [NL]"

definition nada_line :: "int \<Rightarrow> string" where
  "nada_line port = show_int port @ ''...nada'' @ [NL]"

text \<open>The text of a response, as \<open>printf\<close> takes it from the buffer.\<close>

definition response_text :: "scanner \<Rightarrow> string option" where
  "response_text sc = (let b = map byte_char (drop SCAN_HSIZE (sc_rbuf sc)) in if NUL \<in> set b then Some (cstr b) else None)"

text \<open>How a scan ends, with the lines written and the packets sent, each with its target. Counting beyond the largest \<open>int\<close> is
  undefined.\<close>

datatype finish = Finished scanner | Exited_with nat | Undefined

record scan_log =
  sl_lines :: "string list"
  sl_sent :: "((u32 \<times> u16) \<times> byte list) list"
  sl_finish :: finish

definition log_first :: "string list \<Rightarrow> ((u32 \<times> u16) \<times> byte list) list \<Rightarrow> scan_log \<Rightarrow> scan_log" where
  "log_first ls ps l = l\<lparr> sl_lines := ls @ sl_lines l, sl_sent := ps @ sl_sent l \<rparr>"

definition log_end :: "finish \<Rightarrow> scan_log" where
  "log_end f = \<lparr> sl_lines = [], sl_sent = [], sl_finish = f \<rparr>"

text \<open>One port: the line for it, the packets sent to it and the scanner afterwards, or how the program ends.\<close>

definition scan_port ::
  "resolver \<Rightarrow> (u16 \<Rightarrow> u16 option) \<Rightarrow> string \<Rightarrow> int \<Rightarrow> int \<Rightarrow> (nat \<Rightarrow> bool \<times> event list) \<Rightarrow> int \<Rightarrow> scanner
    \<Rightarrow> ((u32 \<times> u16) \<times> byte list) list \<times> (finish + string \<times> scanner)" where
  "scan_port dns bind_port host myport tries air port sc =
     (case init_client dns bind_port host port myport of
        Inl n \<Rightarrow> ([], Inl (Exited_with n))
      | Inr target \<Rightarrow>
          (let (ps, r) = scan_interact tries CC_VERSION 0 [] [] air sc
           in (map (Pair target) ps,
               (case r of
                  Response sc1 \<Rightarrow> (case response_text sc1 of None \<Rightarrow> Inl Undefined | Some t \<Rightarrow> Inr (found_line t port, sc1))
                | No_response sc1 \<Rightarrow> Inr (nada_line port, sc1)
                | Ended n \<Rightarrow> Inl (Exited_with n)
                | Out_of_bounds \<Rightarrow> Inl Undefined))))"

function scan_ports ::
  "resolver \<Rightarrow> (u16 \<Rightarrow> u16 option) \<Rightarrow> string \<Rightarrow> int \<Rightarrow> int \<Rightarrow> (int \<Rightarrow> nat \<Rightarrow> bool \<times> event list) \<Rightarrow> int \<Rightarrow> int \<Rightarrow> scanner \<Rightarrow> scan_log" where
  "scan_ports dns bind_port host myport tries net port last_port sc =
     (if port > last_port then log_end (Finished sc)
      else
        (case scan_port dns bind_port host myport tries (net port) port sc of
           (ps, Inl f) \<Rightarrow> log_first [] ps (log_end f)
         | (ps, Inr (l, sc1)) \<Rightarrow>
             log_first [l] ps
               (if port = 2147483647 then log_end Undefined
                else scan_ports dns bind_port host myport tries net (port + 1) last_port sc1)))"
  by pat_completeness auto
termination
  by (relation "measure (\<lambda>(dns, bind_port, host, myport, tries, net, port, last_port, sc). nat (last_port + 1 - port))") auto

declare scan_ports.simps [simp del]

subsection \<open>The program\<close>

definition scan_values :: "char list" where
  "scan_values = ''porlie''"

definition scan_flags :: "char list" where
  "scan_flags = ''ht''"

definition scan_option :: "char \<times> string \<Rightarrow> scan_options \<Rightarrow> nat + scan_options" where
  "scan_option opt so =
     (case opt of (c, optarg) \<Rightarrow>
        if c = CHR ''h'' \<or> c = CHR ''?'' then Inl 0
        else if c = CHR ''t'' then Inr (so\<lparr> client_trace := True \<rparr>)
        else if c = CHR ''r'' then Inr (so\<lparr> retries := atoi optarg \<rparr>)
        else if c = CHR ''p'' then Inr (so\<lparr> remoteport := atoi optarg \<rparr>)
        else if c = CHR ''e'' then Inr (so\<lparr> endport := atoi optarg \<rparr>)
        else if c = CHR ''l'' then Inr (so\<lparr> localport := atoi optarg \<rparr>)
        else if c = CHR ''i'' then Inr (so\<lparr> so_host := Some optarg \<rparr>)
        else if c = CHR ''o'' then Inr (so\<lparr> outputfile := Some optarg \<rparr>)
        else Inr so)"

fun scan_options_of :: "(char \<times> string) list \<Rightarrow> scan_options \<Rightarrow> nat + scan_options" where
  "scan_options_of [] so = Inr so"
| "scan_options_of (opt # opts) so = unless_exit (scan_option opt so) (scan_options_of opts)"

text \<open>\<open>can_open\<close> says whether the file for the output can be opened; the code does not look. The static data are zero at first.\<close>

definition scanner_start :: scanner where
  "scanner_start = \<lparr> sc_seq = 0, sc_key = 0, sc_rbuf = replicate (SCAN_HSIZE + SCAN_SPACE) 0, sc_intr = 0 \<rparr>"

definition scan_main ::
  "resolver \<Rightarrow> (u16 \<Rightarrow> u16 option) \<Rightarrow> (string \<Rightarrow> bool) \<Rightarrow> (int \<Rightarrow> nat \<Rightarrow> bool \<times> event list) \<Rightarrow> string list \<Rightarrow> nat + scan_log" where
  "scan_main dns bind_port can_open net args =
     unless_exit (scan_options_of (getopt scan_values scan_flags [] args) scan_defaults) (\<lambda>so.
       (case so_host so of
          None \<Rightarrow> Inl 0
        | Some host \<Rightarrow>
            Inr (if (case outputfile so of None \<Rightarrow> False | Some f \<Rightarrow> \<not> can_open f) then log_end Undefined
              else log_first [''Scanning '' @ host @ [NL]] []
                (scan_ports dns bind_port host (localport so) (retries so) net (remoteport so) (endport so) scanner_start))))"

subsection \<open>What is heard\<close>

lemma take_datagram_keeps:
  assumes "take_datagram d sc = (sc1, ok)"
  shows "sc_seq sc1 = sc_seq sc" "sc_key sc1 = sc_key sc" "sc_intr sc1 = sc_intr sc"
    "ok \<Longrightarrow> client_check (take (SCAN_HSIZE + SCAN_SPACE) d)"
  using assms by (auto simp: take_datagram_def Let_def split: if_splits)

lemma hear_accepted:
  "hear es sc = Accepted sc1 \<Longrightarrow>
    \<exists>d. Datagram d \<in> set es \<and> client_check (take (SCAN_HSIZE + SCAN_SPACE) d) \<and> sc_seq sc1 = sc_seq sc + 1"
proof (induction es sc rule: hear.induct)
  case (4 d es sc)
  obtain x ok where x: "take_datagram d sc = (x, ok)" by fastforce
  note k = take_datagram_keeps [OF x]
  show ?case
  proof (cases ok)
    case True
    then show ?thesis using "4.prems" x k(1,4) by (auto split: if_splits)
  next
    case False
    then show ?thesis using "4.IH" [OF x [symmetric]] "4.prems" x k(1) by auto
  qed
qed (auto split: sum.splits)

lemma hear_silence: "hear es sc = Silence_for sc1 \<Longrightarrow> sc_seq sc1 = sc_seq sc \<and> sc_key sc1 = sc_key sc"
proof (induction es sc rule: hear.induct)
  case (4 d es sc)
  obtain x ok where x: "take_datagram d sc = (x, ok)" by fastforce
  with 4 take_datagram_keeps [OF x] show ?case by (auto split: if_splits)
qed (auto split: sum.splits)

lemma scan_request_cong: "sc_seq sc1 = sc_seq sc \<Longrightarrow> sc_key sc1 = sc_key sc \<Longrightarrow> scan_request c pos p1 p2 sc1 = scan_request c pos p1 p2 sc"
  by (simp add: scan_request_def)

text \<open>All packets of a conversation are the same.\<close>

lemma attempts_repeat:
  "attempts c pos p1 p2 air k n sc = (ps, r) \<Longrightarrow> ps = replicate (length ps) (scan_request c pos p1 p2 sc) \<and> length ps \<le> n"
proof (induction n arbitrary: k sc ps r)
  case 0
  then show ?case by simp
next
  case (Suc n)
  show ?case
  proof (cases "\<exists>sc1. fst (air k) \<and> hear (snd (air k)) sc = Silence_for sc1")
    case True
    then obtain sc1 where h: "fst (air k)" "hear (snd (air k)) sc = Silence_for sc1" by blast
    obtain ps1 where a: "attempts c pos p1 p2 air (k + 1) n sc1 = (ps1, r)" "ps = scan_request c pos p1 p2 sc # ps1"
      using Suc.prems h by (auto split: prod.splits)
    have "scan_request c pos p1 p2 sc1 = scan_request c pos p1 p2 sc"
      using hear_silence [OF h(2)] by (intro scan_request_cong) simp_all
    with Suc.IH [OF a(1)] a(2) show ?thesis by simp
  next
    case False
    then show ?thesis using Suc.prems by (auto split: if_splits hearing.splits)
  qed
qed

lemma attempts_response:
  "attempts c pos p1 p2 air k n sc = (ps, Response sc1) \<Longrightarrow>
    1 \<le> length ps \<and> (\<exists>d. Datagram d \<in> set (snd (air (k + length ps - 1))) \<and> client_check (take (SCAN_HSIZE + SCAN_SPACE) d))"
proof (induction n arbitrary: k sc ps)
  case 0
  then show ?case by simp
next
  case (Suc n)
  show ?case
  proof (cases "\<exists>sc2. hear (snd (air k)) sc = Silence_for sc2")
    case True
    then obtain sc2 where h: "hear (snd (air k)) sc = Silence_for sc2" by blast
    obtain ps1 where a: "attempts c pos p1 p2 air (k + 1) n sc2 = (ps1, Response sc1)" "ps = scan_request c pos p1 p2 sc # ps1"
      using Suc.prems h by (auto split: prod.splits if_splits)
    from Suc.IH [OF a(1)] a(2) show ?thesis by auto
  next
    case False
    then show ?thesis using Suc.prems by (auto split: if_splits hearing.splits dest!: hear_accepted)
  qed
qed

lemma attempts_silence:
  "attempts c pos p1 p2 air k n sc = (ps, No_response sc1) \<Longrightarrow> length ps = n \<and> sc_seq sc1 = sc_seq sc \<and> sc_key sc1 = sc_key sc"
proof (induction n arbitrary: k sc ps)
  case 0
  then show ?case by simp
next
  case (Suc n)
  obtain sc2 ps1 where a: "hear (snd (air k)) sc = Silence_for sc2" "attempts c pos p1 p2 air (k + 1) n sc2 = (ps1, No_response sc1)"
      "ps = scan_request c pos p1 p2 sc # ps1"
    using Suc.prems by (auto split: if_splits hearing.splits prod.splits)
  from Suc.IH [OF a(2)] hear_silence [OF a(1)] a(3) show ?case by simp
qed

subsection \<open>The report\<close>

text \<open>What a line says of a port that got \<open>n\<close> packets.\<close>

definition reported :: "(int \<Rightarrow> nat \<Rightarrow> bool \<times> event list) \<Rightarrow> nat \<Rightarrow> int \<Rightarrow> string \<Rightarrow> nat \<Rightarrow> bool" where
  "reported net tries port line n \<longleftrightarrow>
     (line = nada_line port \<and> n = tries) \<or>
     (\<exists>t d. line = found_line t port \<and> 1 \<le> n \<and> n \<le> tries \<and> Datagram d \<in> set (snd (net port (n - 1))) \<and>
        client_check (take (SCAN_HSIZE + SCAN_SPACE) d))"

lemma scan_port_not_finished: "scan_port dns bind_port host myport tries air port sc \<noteq> (ps, Inl (Finished sc1))"
  by (auto simp: scan_port_def split: sum.splits prod.splits response.splits option.splits)

lemma scan_port_reports:
  assumes "scan_port dns bind_port host myport tries (net port) port sc = (ps, Inr (line, sc1))" "dns host = Some a"
  shows "\<exists>n. reported net (nat tries) port line n \<and> map fst ps = replicate n (a, of_int port)"
proof -
  obtain qs r where q: "scan_interact tries CC_VERSION 0 [] [] (net port) sc = (qs, r)" by fastforce
  then have q': "attempts CC_VERSION 0 [] [] (net port) 0 (nat tries) (sc\<lparr> sc_intr := 1 \<rparr>) = (qs, r)" by (simp add: scan_interact_def)
  have ps: "map fst ps = replicate (length qs) (a, of_int port)"
    using assms q by (auto simp: scan_port_def init_client_def scan_adr_def o_def map_replicate_const split: option.splits)
  have "reported net (nat tries) port line (length qs)"
    using assms q attempts_response [of CC_VERSION 0 "[]" "[]" "net port" 0 "nat tries" _ qs]
      attempts_silence [of CC_VERSION 0 "[]" "[]" "net port" 0 "nat tries" _ qs] attempts_repeat [OF q'] q'
    by (auto simp: scan_port_def reported_def split: sum.splits option.splits response.splits)
  with ps show ?thesis by blast
qed

text \<open>C34: a scan that comes to its end writes one line for each port of the range, in order; a port without an answer got as many packets as
  there are attempts, and a port is found only because a datagram with the right checksum arrived while the scanner waited.\<close>

theorem scan_reports_every_port:
  assumes "sl_finish (scan_ports dns bind_port host myport tries net port last_port sc) = Finished sc1" "dns host = Some a"
  shows "\<exists>rs. map fst rs = [port..last_port] \<and>
    sl_lines (scan_ports dns bind_port host myport tries net port last_port sc) = map (\<lambda>(p, line, n). line) rs \<and>
    map fst (sl_sent (scan_ports dns bind_port host myport tries net port last_port sc)) =
      concat (map (\<lambda>(p, line, n). replicate n (a, of_int p)) rs) \<and>
    (\<forall>(p, line, n) \<in> set rs. reported net (nat tries) p line n)"
  using assms
proof (induction dns bind_port host myport tries net port last_port sc rule: scan_ports.induct)
  case (1 dns bind_port host myport tries net port last_port sc)
  show ?case
  proof (cases "port > last_port")
    case True
    then show ?thesis by (intro exI [of _ "[]"]) (simp add: scan_ports.simps log_end_def)
  next
    case False
    obtain ps line sc2 where p: "scan_port dns bind_port host myport tries (net port) port sc = (ps, Inr (line, sc2))"
      using "1.prems"(1) False by (subst (asm) scan_ports.simps) (auto simp: log_first_def log_end_def scan_port_not_finished split: prod.splits sum.splits)
    let ?next = "scan_ports dns bind_port host myport tries net (port + 1) last_port sc2"
    have m: "port \<noteq> 2147483647"
      using "1.prems"(1) False p by (subst (asm) scan_ports.simps) (auto simp: log_first_def log_end_def)
    have eq: "scan_ports dns bind_port host myport tries net port last_port sc = log_first [line] ps ?next"
      using False p m by (subst scan_ports.simps) simp
    have "sl_finish ?next = Finished sc1" using "1.prems"(1) by (simp add: eq log_first_def)
    then obtain rs where rs: "map fst rs = [port + 1..last_port]" "sl_lines ?next = map (\<lambda>(p, line, n). line) rs"
        "map fst (sl_sent ?next) = concat (map (\<lambda>(p, line, n). replicate n (a, of_int p)) rs)"
        "\<forall>(p, line, n) \<in> set rs. reported net (nat tries) p line n"
      using "1.IH" [OF False p [symmetric] refl refl m] "1.prems"(2) by blast
    obtain n where n: "reported net (nat tries) port line n" "map fst ps = replicate n (a, of_int port)"
      using scan_port_reports [where net = net, OF p "1.prems"(2)] by blast
    have "[port..last_port] = port # [port + 1..last_port]" using False by (simp add: upto.simps)
    then show ?thesis using rs n by (intro exI [of _ "(port, line, n) # rs"]) (simp add: eq log_first_def)
  qed
qed

theorem scan_reports_every_port_witness:
  "\<exists>rs. map fst rs = [21, 22] \<and>
    sl_lines (scan_ports (\<lambda>_. Some 7) Some ''fsp'' 9191 1 (\<lambda>_ _. (True, [])) 21 22 scanner_start) = map (\<lambda>(p, line, n). line) rs \<and>
    map fst (sl_sent (scan_ports (\<lambda>_. Some 7) Some ''fsp'' 9191 1 (\<lambda>_ _. (True, [])) 21 22 scanner_start)) =
      concat (map (\<lambda>(p, line, n). replicate n (7, of_int p)) rs)"
proof -
  have "\<exists>sc1. sl_finish (scan_ports (\<lambda>_. Some 7) Some ''fsp'' 9191 1 (\<lambda>_ _. (True, [])) 21 22 scanner_start) = Finished sc1"
    by (simp add: scan_ports.simps scan_port_def init_client_def scan_udp_def scan_adr_def scan_interact_def log_first_def log_end_def)
  then obtain sc1 where "sl_finish (scan_ports (\<lambda>_. Some 7) Some ''fsp'' 9191 1 (\<lambda>_ _. (True, [])) 21 22 scanner_start) = Finished sc1" ..
  from scan_reports_every_port [OF this, of 7] have "\<exists>rs. map fst rs = [21..22] \<and>
    sl_lines (scan_ports (\<lambda>_. Some 7) Some ''fsp'' 9191 1 (\<lambda>_ _. (True, [])) 21 22 scanner_start) = map (\<lambda>(p, line, n). line) rs \<and>
    map fst (sl_sent (scan_ports (\<lambda>_. Some 7) Some ''fsp'' 9191 1 (\<lambda>_ _. (True, [])) 21 22 scanner_start)) =
      concat (map (\<lambda>(p, line, n). replicate n (7, of_int p)) rs)" by blast
  moreover have "[21..22] = [21, 22::int]" by (simp add: upto.simps)
  ultimately show ?thesis by simp
qed

text \<open>The sequence number only changes with a response, and nothing looks at where a datagram comes from: an answer that is late is noted for
  the port asked next.\<close>

lemma late_answer_is_noted_for_next_port:
  assumes "init_client dns bind_port host port myport = Inr x" "init_client dns bind_port host (port + 1) myport = Inr y"
    and "1 \<le> tries" "\<And>k. net port k = (True, [])" "net (port + 1) 0 = (True, es)" "port + 1 \<le> last_port" "last_port < 2147483647"
    and "hear es (sc\<lparr> sc_intr := 1 \<rparr>) = Accepted sc1" "response_text sc1 = Some t"
  shows "take 2 (sl_lines (scan_ports dns bind_port host myport tries net port last_port sc)) = [nada_line port, found_line t (port + 1)]"
proof -
  have silent: "attempts c pos p1 p2 (net port) k n s = (replicate n (scan_request c pos p1 p2 s), No_response s)" for c pos p1 p2 k n s
    using assms(4) by (induction n arbitrary: k) simp_all
  obtain m where m: "nat tries = Suc m" using assms(3) by (metis Suc_pred' nat_0_iff neq0_conv not_one_le_zero linorder_not_le order.strict_trans1)
  have "scan_port dns bind_port host myport tries (net port) port sc =
      (map (Pair x) (replicate (nat tries) (scan_request CC_VERSION 0 [] [] (sc\<lparr> sc_intr := 1 \<rparr>))), Inr (nada_line port, sc\<lparr> sc_intr := 1 \<rparr>))"
    by (simp add: scan_port_def assms(1) scan_interact_def silent)
  moreover have "\<exists>ps. scan_port dns bind_port host myport tries (net (port + 1)) (port + 1) (sc\<lparr> sc_intr := 1 \<rparr>) = (ps, Inr (found_line t (port + 1), sc1))"
    by (simp add: scan_port_def assms(2,5,9) assms(8) [unfolded One_nat_def] scan_interact_def m)
  ultimately show ?thesis using assms(6,7)
    by (subst scan_ports.simps, subst scan_ports.simps) (auto simp: log_first_def)
qed

subsection \<open>The version\<close>

lemma reply_octets:
  assumes "m + n \<le> length (buf ub)" "m + n \<le> UBUF_MAXSPACE"
  defines "p \<equiv> reply_packet ub m n"
  shows "length p = m + n + 12" "client_check p" "(p ! 4, p ! 5) = bb_seq ub" "unat (BB_READ2 (p ! 6, p ! 7)) = m"
    "map byte_char (drop 12 p) = take (m + n) (buf ub)"
proof -
  note r = reply_arrives [OF assms(1,2), folded p_def]
  show len: "length p = m + n + 12" "client_check p" using r by simp_all
  have "12 \<le> length p" using len(1) by simp
  note f = recv_into_fields [OF this]
  show "(p ! 4, p ! 5) = bb_seq ub" "unat (BB_READ2 (p ! 6, p ! 7)) = m" using r f by metis+
  have "buf (recv_into old p) = map byte_char (drop 12 p @ drop (length p) (ubuf_octets old))" for old
    using len(1) by (simp add: recv_into_def Let_def)
  with r [of undefined] len(1) show "map byte_char (drop 12 p) = take (m + n) (buf ub)" by simp
qed

lemma host_order_text: "drop 16 (host_order m) = drop 16 m" if "16 \<le> length m"
  using that by (simp add: host_order_def min_def)

text \<open>C35: the text of the scanner starts four octets too late: of the version that the server reports, which starts with the word
  fspd, the scanner prints all but the first four characters.\<close>

theorem scanner_loses_four_characters:
  assumes "server_show_version c version ub \<sigma> = Some (Answer m n, ub1, \<sigma>1)" "NUL \<notin> set version" "length version \<le> 1000"
    and "[fst (bb_seq ub), snd (bb_seq ub)] = le2 (sc_seq sc)" "sc_intr sc = 1"
  shows "\<exists>sc1. hear (Datagram (reply_packet ub1 m n) # es) sc = Accepted sc1 \<and> response_text sc1 = Some (drop 4 (''fspd '' @ version))"
proof -
  let ?text = "''fspd '' @ version" and ?x = "version_extra c"
  define p where "p = reply_packet ub1 m n"
  have a: "m = Suc (length ?text)" "n = length ?x" "ub1 = (put_buf ub 0 (?text @ [NUL] @ ?x))\<lparr> bb_pos := BB_WRITE4 (of_nat (length ?x)) \<rparr>"
    using assms(1) by (auto simp: server_show_version_def reply_def Let_def version_extra_def split: if_splits)
  have x: "length ?x \<le> 7" by (simp add: version_extra_def)
  have dl: "m + n \<le> length (buf ub1)" "m + n \<le> UBUF_MAXSPACE" using a x assms(3) by (simp_all add: put_buf_def memcpy_def)
  note p = reply_octets [OF dl, folded p_def]
  have cut: "take (SCAN_HSIZE + SCAN_SPACE) p = p" using p(1) a(1,2) x assms(3) by simp
  have seq: "[p ! 4, p ! 5] = le2 (sc_seq sc)"
  proof -
    have "bb_seq ub1 = bb_seq ub" by (simp add: a(3) put_buf_def)
    with p(3) assms(4) show ?thesis by (metis fst_conv snd_conv)
  qed
  define old where "old = sc_rbuf sc"
  define r where "r = p @ drop (length p) old"
  have long: "16 \<le> length p" using p(1) a(1) by simp
  have at: "r ! i = p ! i" if "i < 16" for i using that long by (simp add: r_def nth_append)
  have ok: "\<not> length p < UBUF_HSIZE" "unat (BB_READ2 (r ! 6, r ! 7)) + UBUF_HSIZE \<le> length p" "[r ! 4, r ! 5] = le2 (sc_seq sc)"
    using p(1,4) seq at [of 4] at [of 5] at [of 6] at [of 7] by simp_all
  define sc0 where "sc0 = sc\<lparr> sc_rbuf := host_order (r[1 := 0]) \<rparr>"
  define sc1 where "sc1 = sc0\<lparr> sc_seq := sc_seq sc0 + 1, sc_key := le2_value (sc_rbuf sc0 ! 2) (sc_rbuf sc0 ! 3) \<rparr>"
  have "take_datagram p sc = (sc0, True)"
    unfolding take_datagram_def Let_def cut old_def [symmetric] r_def [symmetric] sc0_def
    by (simp only: ok p(2) if_False not_True_eq_False simp_thms)
  moreover have "sc_intr sc0 = 1" using assms(5) by (simp add: sc0_def)
  ultimately have "hear (Datagram p # es) sc = Accepted sc1" by (simp add: sc1_def)
  moreover have "response_text sc1 = Some (drop 4 ?text)"
  proof -
    have "map byte_char (drop 12 p) = ?text @ NUL # ?x" using p(5) a by (simp add: put_buf_def memcpy_def)
    moreover have "map byte_char (drop 16 p) = drop 4 (map byte_char (drop 12 p))" by (simp add: drop_map)
    ultimately have "map byte_char (drop 16 p) = drop 4 (?text @ NUL # ?x)" by simp
    then have "map byte_char (drop 16 p) = CHR '' '' # version @ NUL # ?x" by simp
    moreover have "drop 16 (sc_rbuf sc1) = drop 16 p @ drop (length p) old"
      using long by (simp add: sc1_def sc0_def host_order_text r_def)
    ultimately have "map byte_char (drop 16 (sc_rbuf sc1)) = (CHR '' '' # version) @ NUL # (?x @ map byte_char (drop (length p) old))" by simp
    then show ?thesis using assms(2) by (simp add: response_text_def Let_def cstr_append_NUL)
  qed
  ultimately show ?thesis unfolding p_def by blast
qed

theorem scanner_loses_four_characters_witness:
  "\<exists>m n ub1 \<sigma>1 sc1. server_show_version site_conf ''2.8.1'' ((site_msg CC_VERSION)\<lparr> bb_seq := (0, 0) \<rparr>) site_server = Some (Answer m n, ub1, \<sigma>1) \<and>
     hear [Datagram (reply_packet ub1 m n)] (scanner_start\<lparr> sc_intr := 1 \<rparr>) = Accepted sc1 \<and> response_text sc1 = Some '' 2.8.1''"
proof -
  obtain m n ub1 \<sigma>1 where s: "server_show_version site_conf ''2.8.1'' ((site_msg CC_VERSION)\<lparr> bb_seq := (0, 0) \<rparr>) site_server = Some (Answer m n, ub1, \<sigma>1)"
    by (simp add: server_show_version_def reply_def Let_def)
  have "\<exists>sc1. hear [Datagram (reply_packet ub1 m n)] (scanner_start\<lparr> sc_intr := 1 \<rparr>) = Accepted sc1 \<and> response_text sc1 = Some (drop 4 (''fspd '' @ ''2.8.1''))"
    by (rule scanner_loses_four_characters [OF s]) (simp_all add: le2_def scanner_start_def)
  with s show ?thesis by auto
qed

end
