(* ===== verification/Fspcmd.thy ===== *)
theory Fspcmd
  imports Programs
begin

text \<open>
  How a command of the client is started: \<^verbatim>\<open>clients/fspcmd.c\<close>, which picks the command by its first argument, and
  \<^verbatim>\<open>common/getsl.c\<close>, by which the commands read names when they are given none. The commands are those of theories Programs,
  Find and Ls; here they are a parameter, which gives the exit status if the command ends the program by itself.
\<close>

subsection \<open>Picking the command\<close>

datatype client_command = Cmd_bye | Cmd_cat | Cmd_cd | Cmd_du | Cmd_get | Cmd_grab | Cmd_ls | Cmd_mkdir | Cmd_mv | Cmd_pro | Cmd_put
  | Cmd_rm | Cmd_rmdir | Cmd_find | Cmd_stat | Cmd_ver

abbreviation (input) EX_USAGE :: nat where "EX_USAGE \<equiv> 64"

definition command_table :: "(string \<times> client_command) list" where
  "command_table =
     [(''bye'', Cmd_bye), (''cat'', Cmd_cat), (''cd'', Cmd_cd), (''du'', Cmd_du), (''get'', Cmd_get), (''grab'', Cmd_grab),
      (''ls'', Cmd_ls), (''mkdir'', Cmd_mkdir), (''mv'', Cmd_mv), (''pro'', Cmd_pro), (''put'', Cmd_put), (''rm'', Cmd_rm),
      (''rmdir'', Cmd_rmdir), (''find'', Cmd_find), (''stat'', Cmd_stat), (''ver'', Cmd_ver)]"

definition fspcmd_usage :: "string \<Rightarrow> string" where
  "fspcmd_usage app =
     ''usage: '' @ [NL] @ ''   '' @ app @ '' <command> [unknown options]'' @ [NL, NL] @ ''Supported commands:'' @ [NL] @
     ''   bye, cat, cd, du, get, grab'' @ [NL] @ ''   ls, mkdir, mv, pro, put, rm'' @ [NL] @ ''   rmdir, find, stat, ver'' @ [NL, NL]"

text \<open>\<open>args\<close> are the arguments behind the name \<open>app\<close> of the program. The result is the exit status, what is printed here and the
  state. A command gets the arguments from its own name on.\<close>

definition fspcmd_main ::
  "(client_command \<Rightarrow> string list \<Rightarrow> 's \<Rightarrow> nat option \<times> 's) \<Rightarrow> string \<Rightarrow> string list \<Rightarrow> 's \<Rightarrow> nat \<times> string \<times> 's" where
  "fspcmd_main program app args st =
     (case args of
        [] \<Rightarrow> (0, fspcmd_usage app, st)
      | name # rest \<Rightarrow>
          (case map_of command_table name of
             Some c \<Rightarrow> (case program c (name # rest) st of (status, st1) \<Rightarrow> ((case status of None \<Rightarrow> 0 | Some n \<Rightarrow> n), '''', st1))
           | None \<Rightarrow>
               if name = ''help'' \<or> name = ''-help'' then (0, fspcmd_usage app, st)
               else (EX_USAGE, app @ '': Unknown FSP client command: '' @ name @ [NL], st)))"

text \<open>A word that names no command runs none.\<close>

lemma unknown_command:
  assumes "name \<notin> fst ` set command_table" "name \<noteq> ''help''" "name \<noteq> ''-help''"
  shows "fspcmd_main program app (name # rest) st = (EX_USAGE, app @ '': Unknown FSP client command: '' @ name @ [NL], st)"
  using assms by (simp add: fspcmd_main_def map_of_eq_None_iff [THEN iffD2])

text \<open>Every command can be chosen, and by one name only.\<close>

lemma command_has_one_name: "\<exists>!name. map_of command_table name = Some c"
proof -
  have "distinct (map fst command_table)" by (simp add: command_table_def)
  from map_of_eq_Some_iff [OF this] have "map_of command_table name = Some c \<longleftrightarrow> (name, c) \<in> set command_table" for name .
  then show ?thesis by (cases c) (simp_all add: command_table_def)
qed

subsection \<open>Reading a line\<close>

text \<open>\<open>fgets\<close> takes at most \<open>l - 1\<close> characters, up to the end of the line and with it. The result of \<open>getsl\<close> is the C string in the
  buffer and what is left of the input; \<open>l\<close> is at least 2.\<close>

definition fgets :: "nat \<Rightarrow> string \<Rightarrow> (char list \<times> string) option" where
  "fgets l input =
     (if input = [] \<or> l < 2 then None
      else (let line = takeWhile (\<lambda>c. c \<noteq> NL) input;
                n = min (l - 1) (if length line < length input then Suc (length line) else length line)
            in Some (take n input, drop n input)))"

definition getsl :: "nat \<Rightarrow> string \<Rightarrow> (string \<times> string) option" where
  "getsl l input =
     map_option (\<lambda>(b, rest). (let rv = cstr b in if rv \<noteq> [] \<and> last rv = NL then butlast rv else rv, rest)) (fgets l input)"

text \<open>The lines a command reads with a buffer of \<open>l\<close> characters until the input ends. The buffer of the commands has 1024.\<close>

lemma getsl_shorter: "getsl l input = Some (s, rest) \<Longrightarrow> length rest < length input"
proof -
  have "fgets l input = Some (b, rest) \<Longrightarrow> length rest < length input" for b
    by (cases "length input") (auto simp: fgets_def Let_def not_less min_def split: if_splits)
  then show "getsl l input = Some (s, rest) \<Longrightarrow> length rest < length input" by (auto simp: getsl_def)
qed

function typed_lines :: "nat \<Rightarrow> string \<Rightarrow> string list" where
  "typed_lines l input = (case getsl l input of None \<Rightarrow> [] | Some (s, rest) \<Rightarrow> s # typed_lines l rest)"
  by pat_completeness auto
termination
  by (relation "measure (\<lambda>(l, input). length input)") (auto dest: getsl_shorter)

declare typed_lines.simps [simp del]

lemma getsl_line:
  assumes "NL \<notin> set s" "NUL \<notin> set s" "length s + 2 \<le> l"
  shows "getsl l (s @ NL # rest) = Some (s, rest)"
proof -
  have "takeWhile (\<lambda>c. c \<noteq> NL) (s @ NL # rest) = s" using assms(1) by (auto simp: takeWhile_append)
  then have "fgets l (s @ NL # rest) = Some (s @ [NL], rest)"
    using min_absorb2 [of "Suc (length s)" "l - 1"] assms(3) by (simp add: fgets_def Let_def)
  moreover have "cstr (s @ [NL]) = s @ [NL]" using assms(2) by (intro cstr_id) simp
  ultimately show ?thesis by (simp add: getsl_def)
qed

text \<open>Lines that fit the buffer are read as they were typed.\<close>

lemma typed_lines_are_read:
  assumes "\<And>s. s \<in> set names \<Longrightarrow> NL \<notin> set s \<and> NUL \<notin> set s \<and> length s + 2 \<le> l"
  shows "typed_lines l (concat (map (\<lambda>s. s @ [NL]) names)) = names"
  using assms
proof (induction names)
  case Nil
  then show ?case by (simp add: typed_lines.simps [of l "[]"] getsl_def fgets_def)
next
  case (Cons s names)
  then show ?case by (subst typed_lines.simps) (simp add: getsl_line)
qed

text \<open>A longer line is cut into several names.\<close>

lemma long_line_is_cut:
  assumes "NL \<notin> set s" "NUL \<notin> set s" "length s \<ge> l - 1" "2 \<le> l"
  shows "getsl l (s @ rest) = Some (take (l - 1) s, drop (l - 1) s @ rest)"
proof -
  have "takeWhile (\<lambda>c. c \<noteq> NL) (s @ rest) = s @ takeWhile (\<lambda>c. c \<noteq> NL) rest"
    using assms(1) by (subst takeWhile_append2) auto
  then have "fgets l (s @ rest) = Some (take (l - 1) s, drop (l - 1) s @ rest)"
    using assms(3,4) by (auto simp: fgets_def Let_def min_def)
  moreover have "cstr (take (l - 1) s) = take (l - 1) s" using assms(2) by (intro cstr_id) (auto dest: in_set_takeD)
  moreover have "\<not> (take (l - 1) s \<noteq> [] \<and> last (take (l - 1) s) = NL)" using assms(1) by (metis in_set_takeD last_in_set)
  ultimately show ?thesis by (auto simp: getsl_def Let_def)
qed

text \<open>What \<open>get\<close> reads at its prompt: the lines up to the first empty one.\<close>

lemma names_typed_at_prompt:
  assumes "\<And>s. s \<in> set names \<union> set later \<Longrightarrow> NL \<notin> set s \<and> NUL \<notin> set s \<and> length s \<le> 1022"
    and "\<And>s. s \<in> set names \<Longrightarrow> s \<noteq> []"
  shows "names_given [] (typed_lines 1024 (concat (map (\<lambda>s. s @ [NL]) (names @ [] # later)))) = names"
proof -
  have "typed_lines 1024 (concat (map (\<lambda>s. s @ [NL]) (names @ [] # later))) = names @ [] # later"
    using assms(1) by (intro typed_lines_are_read) fastforce
  moreover have "takeWhile (\<lambda>n. n \<noteq> []) (names @ [] # later) = names"
    using assms(2) by (subst takeWhile_append2) auto
  ultimately show ?thesis by (simp add: names_given_def)
qed

subsection \<open>The local version\<close>

text \<open>What \<open>fver\<close> prints of the program itself when it has an argument. What was chosen when it was built is the record;
  \<open>locking\<close> is \<open>None\<close> without locking.\<close>

record build =
  package_version :: string
  fsprc :: string
  fspprof :: string
  locking :: "string option"
  key_prefix :: string
  has_utime :: bool
  native_largefiles :: bool
  host_lookup :: bool
  timeouts :: bool

definition yes_no :: "bool \<Rightarrow> string" where
  "yes_no b = (if b then ''yes'' else ''no'')"

definition local_version_lines :: "build \<Rightarrow> string list" where
  "local_version_lines b =
     [''Local FSP version: '' @ package_version b, [], ''Max. packet size supported by client: '' @ dec UBUF_MAXSPACE,
      ''System startup file: '' @ fsprc b, ''Local startup file: '' @ fspprof b,
      ''Locking method is: '' @ (case locking b of None \<Rightarrow> ''None'' | Some m \<Rightarrow> m)] @
     (if locking b = None then [] else [''Lock prefix is: '' @ key_prefix b]) @
     [''Timestamping supported: '' @ yes_no (has_utime b),
      ''Large file support: '' @ (if native_largefiles b then ''Yes, native'' else ''No''),
      ''Maximum file size: '' @ (if native_largefiles b then ''4 GB (FSP limit)'' else ''2 GB (No large file support)''),
      ''Host lookup: '' @ yes_no (host_lookup b), ''Timeouts enabled: '' @ yes_no (timeouts b)]"

end
