(* ===== verification/ClientStart.thy ===== *)
theory ClientStart
  imports Startup FileTransfer
begin

text \<open>
  How a command of the client starts: \<open>util_get_env\<close> and \<open>env_client\<close> of \<^verbatim>\<open>client/util.c\<close>, which read the settings from
  the environment, and \<open>init_client\<close> of \<^verbatim>\<open>client/lib.c\<close>, which opens the socket. The storage of the key is in theory Locks.

  The static variables before the start are parameters, \<open>se\<close> and \<open>cl\<close>; \<open>rnd\<close> is what \<open>random\<close> returns.
\<close>

abbreviation (input) MAX_DELAY :: u64 where "MAX_DELAY \<equiv> 300000"
abbreviation (input) DEFAULT_TIMEOUT :: u32 where "DEFAULT_TIMEOUT \<equiv> 360"
abbreviation (input) EX_OSERR :: nat where "EX_OSERR \<equiv> 71"
abbreviation (input) EX_CONFIG :: nat where "EX_CONFIG \<equiv> 78"

record client_env =
  env_host :: string
  env_port :: string
  env_myport :: string
  env_listen_on :: "string option"
  env_local_dir :: string
  ce_trace :: bool
  ce_session :: session
  ce_client :: client

text \<open>The packet size is an \<open>unsigned short\<close>, the delays are \<open>unsigned long\<close> and the timeout is \<open>unsigned\<close>, so negative numbers are large
  ones.\<close>

definition buffer_size :: "(string \<Rightarrow> string option) \<Rightarrow> u16" where
  "buffer_size getenv =
     (let n = (case getenv ''FSP_BUF_SIZE'' of Some p \<Rightarrow> of_int (atoi p) | None \<Rightarrow> of_nat UBUF_SPACE)
      in if unat n > UBUF_MAXSPACE then of_nat UBUF_MAXSPACE else n)"

definition first_delay :: "(string \<Rightarrow> string option) \<Rightarrow> u64 \<Rightarrow> u64" where
  "first_delay getenv old =
     (let d = (case getenv ''FSP_DELAY'' of Some p \<Rightarrow> of_int (strtol 10 p) | None \<Rightarrow> old);
          d1 = (if d < MIN_DELAY then MIN_DELAY else d)
      in if d1 > MAX_DELAY then MAX_DELAY else d1)"

definition largest_delay :: "(string \<Rightarrow> string option) \<Rightarrow> u64 \<Rightarrow> u64 \<Rightarrow> u64" where
  "largest_delay getenv target old =
     (let d = (case getenv ''FSP_MAXDELAY'' of Some p \<Rightarrow> of_int (strtol 10 p) | None \<Rightarrow> old);
          d1 = (if d < target then target else d)
      in if d1 > MAX_DELAY then MAX_DELAY else d1)"

definition timeout_seconds :: "(string \<Rightarrow> string option) \<Rightarrow> u32" where
  "timeout_seconds getenv =
     (let n = (case getenv ''FSP_TIMEOUT'' of None \<Rightarrow> DEFAULT_TIMEOUT | Some p \<Rightarrow> of_int (atoi p))
      in if n \<le> 0 then 0x7fffffff else n)"

definition util_get_env :: "(string \<Rightarrow> string option) \<Rightarrow> session \<Rightarrow> client \<Rightarrow> nat + client_env" where
  "util_get_env getenv se cl =
     (case getenv ''FSP_HOST'' of
        None \<Rightarrow> Inl EX_CONFIG
      | Some host \<Rightarrow>
          (case getenv ''FSP_PORT'' of
             None \<Rightarrow> Inl EX_CONFIG
           | Some port \<Rightarrow>
               (let or_else = (\<lambda>v d. case getenv v of None \<Rightarrow> d | Some s \<Rightarrow> s);
                    td = first_delay getenv (target_delay cl)
                in Inr \<lparr> env_host = host, env_port = port, env_myport = or_else ''FSP_LOCALPORT'' ''0'',
                     env_listen_on = getenv ''FSP_LOCALIP'', env_local_dir = or_else ''FSP_LOCAL_DIR'' ''.'',
                     ce_trace = (getenv ''FSP_TRACE'' \<noteq> None),
                     ce_session = se\<lparr> env_dir := or_else ''FSP_DIR'' ''/'', env_passwd := or_else ''FSP_PASSWORD'' '''',
                       client_buf_len := buffer_size getenv \<rparr>,
                     ce_client = cl\<lparr> target_delay := td, target_maxdelay := largest_delay getenv td (target_maxdelay cl),
                       env_timeout := timeout_seconds getenv \<rparr> \<rparr>)))"

text \<open>The result of \<open>init_client\<close> is the state of the engine and where the packets go.\<close>

definition init_client ::
  "resolver \<Rightarrow> (u32 \<Rightarrow> u16 \<Rightarrow> u16 option) \<Rightarrow> u32 \<Rightarrow> string option \<Rightarrow> string \<Rightarrow> u16 \<Rightarrow> u16 \<Rightarrow> client \<Rightarrow> nat + client \<times> u32 \<times> u16" where
  "init_client dns bind_port rnd local_addr host port myport cl =
     (case x_udp dns bind_port local_addr myport of
        None \<Rightarrow> Inl EX_OSERR
      | Some bound \<Rightarrow>
          (case x_adr dns host (int (unat port)) of
             None \<Rightarrow> Inl EX_OSERR
           | Some target \<Rightarrow>
               Inr (cl\<lparr> busy_delay := target_delay cl, idle_delay := target_delay cl, stat_resends := 0, stat_iresends := 0, stat_dupes := 0,
                 stat_bad := 0, stat_ok := 0, myseq := ucast (rnd AND 0xfff8) \<rparr>, target)))"

definition env_client ::
  "resolver \<Rightarrow> (u32 \<Rightarrow> u16 \<Rightarrow> u16 option) \<Rightarrow> u32 \<Rightarrow> (string \<Rightarrow> string option) \<Rightarrow> session \<Rightarrow> client \<Rightarrow> nat + client_env \<times> u32 \<times> u16" where
  "env_client dns bind_port rnd getenv se cl =
     unless_exit (util_get_env getenv se cl) (\<lambda>ce.
     unless_exit (init_client dns bind_port rnd (env_listen_on ce) (env_host ce) (of_int (atoi (env_port ce)))
         (of_int (atoi (env_myport ce))) (ce_client ce)) (\<lambda>(cl1, target).
       Inr (ce\<lparr> ce_client := cl1 \<rparr>, target)))"

subsection \<open>What the settings are limited to\<close>

lemma first_delay_bounds: "MIN_DELAY \<le> first_delay getenv old" "first_delay getenv old \<le> MAX_DELAY"
  by (simp_all add: first_delay_def Let_def not_less)

lemma largest_delay_bounds: "target \<le> MAX_DELAY \<Longrightarrow> target \<le> largest_delay getenv target old" "largest_delay getenv target old \<le> MAX_DELAY"
  by (simp_all add: largest_delay_def Let_def not_less)

lemma timeout_positive: "0 < timeout_seconds getenv"
  by (simp add: timeout_seconds_def Let_def word_neq_0_conv)

lemma buffer_size_bound: "unat (buffer_size getenv) \<le> UBUF_MAXSPACE"
  by (simp add: buffer_size_def Let_def)

lemma started_client:
  assumes "env_client dns bind_port rnd getenv se cl = Inr (ce, target)"
  shows "target_delay (ce_client ce) = first_delay getenv (target_delay cl)"
    "target_maxdelay (ce_client ce) = largest_delay getenv (first_delay getenv (target_delay cl)) (target_maxdelay cl)"
    "env_timeout (ce_client ce) = timeout_seconds getenv" "client_buf_len (ce_session ce) = buffer_size getenv"
    "busy_delay (ce_client ce) = target_delay (ce_client ce)" "myseq (ce_client ce) AND 7 = 0"
proof -
  have low: "(ucast (rnd AND 0xfff8) :: u16) AND 7 = 0"
    by (intro bit_word_eqI) (auto simp: bit_and_iff bit_ucast_iff bit_simps numeral_eq_Suc bit_Suc bit_0 nth_Cons less_Suc_eq)
  show "target_delay (ce_client ce) = first_delay getenv (target_delay cl)"
    "target_maxdelay (ce_client ce) = largest_delay getenv (first_delay getenv (target_delay cl)) (target_maxdelay cl)"
    "env_timeout (ce_client ce) = timeout_seconds getenv" "client_buf_len (ce_session ce) = buffer_size getenv"
    "busy_delay (ce_client ce) = target_delay (ce_client ce)" "myseq (ce_client ce) AND 7 = 0"
    using assms low by (auto simp: env_client_def unless_exit_Inr util_get_env_def init_client_def Let_def split: option.splits)
qed

text \<open>Whatever the environment says, the first request is made with packets that are waited for between a second and five minutes.\<close>

lemma started_client_is_paced:
  assumes "env_client dns bind_port rnd getenv se cl = Inr (ce, target)"
    and "client_interact rnd' start ra rounds (ce_client ce) = (sent, r)" "(p, delay) \<in> set sent"
  shows "MIN_DELAY \<le> delay \<and> delay \<le> MAX_DELAY"
proof -
  let ?cl = "ce_client ce"
  have "transmit ra (okey ?cl) 0 0 0 start rounds (?cl\<lparr> client_intr_state := 1, myseq := next_seq (myseq ?cl) rnd' \<rparr>) = (sent, r)"
    using assms(2,3) by (auto simp: client_interact_def split: if_splits)
  note t = transmit_sent [OF this]
  have m: "MIN_DELAY \<le> target_maxdelay ?cl" "target_maxdelay ?cl \<le> MAX_DELAY"
    unfolding started_client(2) [OF assms(1)]
    using first_delay_bounds [of getenv "target_delay cl"]
      largest_delay_bounds [where target = "first_delay getenv (target_delay cl)"] by (blast intro: order_trans)+
  from t assms(3) m show ?thesis by (fastforce intro: order_trans)
qed

subsection \<open>A size that is no number\<close>

text \<open>A packet size that does not start with a digit is 0, and then an upload stores an empty file and reports success.\<close>

lemma no_number_is_no_buffer:
  assumes "getenv ''FSP_BUF_SIZE'' = Some ''large''"
  shows "buffer_size getenv = 0"
proof -
  have "atoi ''large'' = 0" by code_simp
  then show ?thesis by (simp add: buffer_size_def assms)
qed

lemma no_buffer_uploads_nothing:
  assumes "client_buf_len se = 0" "fread w f 0 = Some ([], w1)" "fread w1 f 0 = Some ([], w2)"
    and "ask (up_load_request 0 []) s = Some (ub1, s1)" "cmd ub1 \<noteq> CC_ERR"
    and "ask (install_request fpath stamp) s1 = Some (ub2, s2)" "cmd ub2 \<noteq> CC_ERR"
  shows "upload_loop ask se fpath stamp f True 0 w s = Some (0, w2, s2)"
  using assms by (subst upload_loop.simps, simp) (subst upload_loop.simps, simp)

end
