(* ===== verification/Spec2Isabelle.thy ===== *)
theory Spec2Isabelle
  imports FspPrelude FifoCache PathParse IpRange ServerConf Hosts Packet Throttle Session Posix Acl
    Caches DirCheck DirList FileOps Server DemoSite Rights Conf ClientDir Listing ServerInv Invariant Loop
    ClientPath Client ClientTree FileTransfer Download Streams Upload Programs ProgramRuns Locks Glob GlobRuns
    Find FindRuns Ls LsRuns Startup Logging Scan Fspcmd ClientStart
begin

text \<open>
  A verification development for the File Service Protocol suite: the server \<open>fspd\<close>, the client library and
  the client commands.

  \<^bold>\<open>The program.\<close> FSP is a file transfer protocol over datagrams. A client sends a request (twelve octets of header,
  a path or data, and extra data) and repeats it until the answer comes; the server keeps a key and a sequence number
  per client so that a repeated request is answered but not done twice. The server turns the path of a request into
  a directory and a file name, looks up the record of the directory (rights, owner, readme) in a cache or on disk,
  checks the rights and does the operation. Listings and open files are cached too. The client library has the
  retransmission engine, a cache of listings that mimics \<open>opendir\<close> and \<open>stat\<close>, and the transfer loops; the
  commands are small programs over it.

  \<^bold>\<open>Theories and sources.\<close>
  \<^item> FspPrelude: octets, words, C strings, the header macros of \<^verbatim>\<open>include/tweak.h\<close>, bounded copies.
  \<^item> FifoCache: \<^verbatim>\<open>server/fifocache.c\<close>, a ring of records with a memory limit. A pointer to a record is its slot.
  \<^item> PathParse: \<open>parse_path\<close> of \<^verbatim>\<open>server/path.c\<close>, which writes zeros into the message it parses.
  \<^item> IpRange, Hosts: the rules and the client database, \<^verbatim>\<open>server/iprange.c\<close> and \<^verbatim>\<open>server/host.c\<close>.
  \<^item> ServerConf, Conf: the global settings and the reader of the configuration file, \<^verbatim>\<open>server/conf.c\<close>, with
    \<open>check_required_vars\<close> of \<^verbatim>\<open>server/main.c\<close>.
  \<^item> Packet: the message of \<^verbatim>\<open>include/common_def.h\<close> and the checksums of both ends, as \<^verbatim>\<open>server/server.c\<close> and
    \<^verbatim>\<open>client/lib.c\<close> compute them.
  \<^item> Throttle, Session, Loop: \<open>server_reply\<close> and \<open>server_loop\<close> of \<^verbatim>\<open>server/server.c\<close>: throughput limit, message
    filter with keys and sequence numbers, and whole runs of the server as an inductive relation.
  \<^item> Posix: the file tree, directories, streams and clock that the programs use, with DemoSite as a small site for
    examples and Streams for facts about copying.
  \<^item> Acl, Caches, DirCheck, DirList, FileOps: \<^verbatim>\<open>server/acl.c\<close> and \<^verbatim>\<open>server/file.c\<close>: rights files, the three caches,
    \<open>validate_path\<close>, listings, and the operations on files and directories.
  \<^item> Server: \<open>server_process_packet\<close> with one definition per command. Rights, ServerInv, Invariant: what holds for it.
  \<^item> Client, ClientPath, ClientDir, ClientTree, FileTransfer: \<open>client_interact\<close> of \<^verbatim>\<open>client/lib.c\<close> and the
    functions of \<^verbatim>\<open>client/util.c\<close>. Locks: \<^verbatim>\<open>client/lock.c\<close>, all five versions.
  \<^item> Programs: \<^verbatim>\<open>clients/fspcmd_get.c\<close>, \<^verbatim>\<open>_put.c\<close>, \<^verbatim>\<open>_mv.c\<close>, \<^verbatim>\<open>_0misc.c\<close>, \<^verbatim>\<open>_du.c\<close> and \<^verbatim>\<open>_ver.c\<close>.
  \<^item> Glob, GlobRuns: \<^verbatim>\<open>bsd_src/glob.c\<close>, the expansion of file name patterns over the remote tree. Find, FindRuns: the
    \<^verbatim>\<open>find\<close> of \<^verbatim>\<open>clients/fspcmd_find.c\<close> with \<^verbatim>\<open>bsd_src/option.c\<close>, \<^verbatim>\<open>function.c\<close>, \<^verbatim>\<open>operator.c\<close> and \<^verbatim>\<open>find.c\<close>. Ls, LsRuns: \<open>ls\<close>,
    \<^verbatim>\<open>bsd_src/ls.c\<close>, \<^verbatim>\<open>print.c\<close>, \<^verbatim>\<open>cmp.c\<close> and \<^verbatim>\<open>util.c\<close>.
  \<^item> Startup: \<^verbatim>\<open>server/main.c\<close> up to the loop, with \<^verbatim>\<open>server/pidfile.c\<close> and \<^verbatim>\<open>common/udp_io.c\<close>. The
    result is the exit code or the state the loop starts in. Logging: \<^verbatim>\<open>server/log.c\<close> and the log macros of \<^verbatim>\<open>server/server.c\<close>.
  \<^item> Scan: \<^verbatim>\<open>clients/fspscan.c\<close>, a scanner of ports with its own copy of the protocol engine. Fspcmd: \<^verbatim>\<open>clients/fspcmd.c\<close>,
    which picks a command, and \<^verbatim>\<open>common/getsl.c\<close>, which reads a line. ClientStart: the environment and the socket of a command,
    \<open>env_client\<close> of \<^verbatim>\<open>client/util.c\<close> and \<open>init_client\<close> of \<^verbatim>\<open>client/lib.c\<close>.
  \<^item> Listing, Download, Upload, ProgramRuns: client and server together. In \<open>conversation\<close> no datagram is lost; what
    happens when some are is in Client, Session and Loop.

  \<^bold>\<open>State and effects.\<close> Global variables are records passed along: \<open>fsp_conf\<close> the settings, \<open>fsrv\<close> the caches and the
  operating system of the server, \<open>serving\<close> what lives between datagrams, \<open>client\<close> and \<open>session\<close> the static variables
  of the client, \<open>front\<close> the disk and the output of a command, \<open>kernel\<close> what clients share for locking. Every
  failing path of the code is a branch. \<open>None\<close> stands for undefined behaviour (a read or write outside an object, a
  stream that is not open) or, in the client, also for a loop that does not end; that a loop ends is proved where it is
  claimed. Buffers that are not initialised are parameters (\<open>old\<close>, \<open>garbage\<close>). Integers that can wrap are words;
  \<open>unsigned long\<close> has 64 bits.

  \<^bold>\<open>What the lemmas show.\<close> Every theory has the functional behaviour of its operations. Above that:
  \<^item> safety of the server: an accepted path stays below the home directory, every command needs its right, a read-only
    server changes nothing, a repetition does nothing again, sessions do not influence each other, every reply fits its
    buffer, and all runs keep the caches and the host table well formed (Rights, Invariant, Loop, Session, Hosts);
  \<^item> the protocol: checksums find every single damaged octet, a reply the client takes answers its request, a request
    that is answered once returns, retransmissions are paced, whatever the environment says (Packet, Client, ClientStart);
  \<^item> end to end: a listing, a download and an upload arrive as they left (Listing, Download, Upload), and what the
    commands print is what the server said (ProgramRuns);
  \<^item> patterns: the matcher of one component agrees with a reference definition, a pattern lists the matching names of the
    directory, braces expand in order (GlobRuns); the plan of a \<open>find\<close> expression has the value the manual gives it, where
    the code does not read data never set (FindRuns); \<open>ls\<close> prints the sorted names of the directory, and its columns line up
    (LsRuns);
  \<^item> refinement: the cache is a map, \<open>util_abs_path\<close> equals a reference definition over path components, the key
    file with \<open>lockf\<close> is a cell with one holder (FifoCache, ClientPath, Locks);
  \<^item> the start of the server: one that gets to its loop has usable settings, a home directory, caches and the user it was told to
    run as (Startup); a scan has a line for each port, with evidence for each it found (Scan);
  \<^item> and where the code does not do what it means to, theorems that say what it does: among others, long names overrun the buffer
    of the log (Logging), and an address that cannot be resolved stands for all addresses (Startup).
    The scanner prints a version without its first four characters (Scan).

  \<^bold>\<open>Interfaces.\<close> The locales state what a client of a component relies on and are interpreted on the definitions of the
  component: \<open>entry_store\<close> and \<open>map_store\<close> (caches), \<open>host_table\<close>, \<open>checksummed_link\<close>, \<open>name_space\<close> (the files of a
  directory), \<open>dispatch_invariant\<close> (what an operation must keep), \<open>file_source\<close> and \<open>file_sink\<close> (the two ends
  of a transfer) and \<open>file_lock\<close>.

  \<^bold>\<open>Bounds.\<close> Symbolic links are followed at most 40 times, as systems do. \<open>copy_loop\<close>, \<open>server_up_load\<close>,
  \<open>download_loop\<close>, \<open>upload_loop\<close>, \<open>fill_buffer\<close>, \<open>read_blocks\<close>, \<open>walk_tree\<close> and \<open>ls_walk\<close> are partial functions, as those loops
  of the code need not end for every disk or server. The expansion of patterns ends because the pattern gets shorter in every
  call, and the passes over a \<open>find\<close> expression because the plan does; both are total functions. There is no fuel elsewhere. The client's engine runs over a list of
  what happens outside; the statement that it returns says for which lists. The space left on a disk (\<open>room\<close>) is never
  given back, and written octets are visible at once.

  \<^bold>\<open>Not modelled.\<close>
  \<^item> Memory: allocation succeeds and nothing is leaked or freed twice, except where a stale pointer shows.
  \<^item> The commands of theory Server leave out their calls of the log macros, which theory Logging models by themselves.
    Signals, dumping the tables and redirecting the streams of the server are left out.
  \<^item> The resolver (a parameter) and the time zone (a parameter of \<open>stat\<close>).
  \<^item> Outside the program: the commands of theory Programs take the pattern matcher as a parameter, which \<open>bsdglob\<close> of theory
    Glob provides; \<open>find\<close> takes the programs of \<open>-exec\<close> and \<open>ctime\<close>, \<open>ls\<close> takes \<open>ctime\<close> and the terminal; of \<open>fnmatch\<close> the
    classes in brackets are left out.
  \<^item> \<^verbatim>\<open>tests/\<close>, and in theory Scan the conversation after an interruption. Prompts and messages to the terminal are left out.
\<close>

end
